(* ===== verification/Prelude.thy ===== *)
theory Prelude
  imports Complex_Main "HOL-Library.Word" "HOL-Library.Char_ord" "HOL-Library.List_Lexorder"
begin

text \<open>
  Shared vocabulary of the development: the machine integer types of the C++ sources, the
  exceptional outcomes of a C++ call and their sequencing, the decimal strings that
  \<^verbatim>\<open>std::to_string\<close> prints and \<^verbatim>\<open>std::stoi\<close> reads, and the generic list lemmas the components use.

  A call that may throw, abort or run into undefined behaviour returns a value of type
  \<open>exn + 'a\<close>; \<open>andThen\<close> sequences such calls as the statements of a C++ block do: the first
  failure ends the block.
\<close>

unbundle bit_operations_syntax

named_theorems res_simps \<open>sequencing of calls that may fail\<close>
named_theorems dec_simps \<open>decimal strings\<close>

type_synonym u64 = "64 word"
type_synonym u32 = "32 word"

section \<open>Exceptional outcomes\<close>

text \<open>
  \<open>Exception\<close> is \<^verbatim>\<open>ycsbc::utils::Exception\<close> (utils.h), \<open>InvalidArgument\<close> and \<open>OutOfRange\<close> are the
  standard exceptions of \<^verbatim>\<open>std::stoi\<close> and \<^verbatim>\<open>std::map::at\<close>, \<open>AssertFail\<close> is a failing \<^verbatim>\<open>assert\<close> of a
  build without \<^verbatim>\<open>NDEBUG\<close>, \<open>Undefined\<close> an operation the language leaves undefined, and
  \<open>Exit n\<close> a call of \<^verbatim>\<open>exit(n)\<close>. \<open>ThrownLiteral\<close> is a thrown string literal and \<open>LibraryError\<close> an exception of a
  library; no handler of the program catches them.
\<close>

datatype exn =
    Exception string
  | InvalidArgument string
  | OutOfRange string
  | AssertFail string
  | Undefined string
  | Exit int
  | ThrownLiteral string
  | LibraryError string

type_synonym 'a res = "exn + 'a"

definition andThen :: "'a res \<Rightarrow> ('a \<Rightarrow> 'b res) \<Rightarrow> 'b res" where
  "andThen m f = (case m of Inl e \<Rightarrow> Inl e | Inr x \<Rightarrow> f x)"

text \<open>\<^verbatim>\<open>assert(b)\<close>: checked in a debug build, absent when \<^verbatim>\<open>NDEBUG\<close> is defined.\<close>

definition assert_that :: "bool \<Rightarrow> bool \<Rightarrow> string \<Rightarrow> unit res" where
  "assert_that ndebug b msg = (if ndebug \<or> b then Inr () else Inl (AssertFail msg))"

lemma andThen_simps [simp, res_simps]:
  "andThen (Inl e) f = Inl e"
  "andThen (Inr x) f = f x"
  by (simp_all add: andThen_def)

lemma andThen_eq_Inr [res_simps]:
  "andThen m f = Inr y \<longleftrightarrow> (\<exists>x. m = Inr x \<and> f x = Inr y)"
  by (cases m) simp_all

lemma andThen_assoc [res_simps]:
  "andThen (andThen m f) g = andThen m (\<lambda>x. andThen (f x) g)"
  by (cases m) simp_all

lemma assert_that_simps [simp, res_simps]:
  "assert_that ndebug True msg = Inr ()"
  "assert_that True b msg = Inr ()"
  "assert_that False False msg = Inl (AssertFail msg)"
  by (simp_all add: assert_that_def)

section \<open>Decimal strings\<close>

definition digit :: "nat \<Rightarrow> char" where
  "digit d = char_of (48 + d)"

definition is_digit :: "char \<Rightarrow> bool" where
  "is_digit c \<longleftrightarrow> 48 \<le> (of_char c :: nat) \<and> (of_char c :: nat) \<le> 57"

definition digit_val :: "char \<Rightarrow> nat" where
  "digit_val c = of_char c - 48"

text \<open>\<^verbatim>\<open>std::to_string\<close> of an unsigned integer.\<close>

fun to_string :: "nat \<Rightarrow> string" where
  "to_string n = (if n < 10 then [digit n] else to_string (n div 10) @ [digit (n mod 10)])"

declare to_string.simps [simp del]

definition dec_val :: "string \<Rightarrow> nat" where
  "dec_val s = foldl (\<lambda>a c. 10 * a + digit_val c) 0 s"

lemma of_char_digit: "d < 10 \<Longrightarrow> of_char (digit d) = 48 + d"
  by (simp add: digit_def)

lemma digit_val_digit [simp, dec_simps]: "d < 10 \<Longrightarrow> digit_val (digit d) = d"
  by (simp add: digit_val_def of_char_digit)

lemma is_digit_digit [simp, dec_simps]: "d < 10 \<Longrightarrow> is_digit (digit d)"
  by (simp add: is_digit_def of_char_digit)

lemma digit_inject [simp]: "d < 10 \<Longrightarrow> e < 10 \<Longrightarrow> digit d = digit e \<longleftrightarrow> d = e"
  by (metis digit_val_digit)

lemma digit_zero [simp]: "digit 0 = CHR ''0''"
  by (simp add: digit_def) code_simp

lemma is_digit_lt: "is_digit c \<Longrightarrow> digit_val c < 10"
  unfolding is_digit_def digit_val_def by linarith

lemma is_digit_inject: "is_digit c \<Longrightarrow> is_digit d \<Longrightarrow> digit_val c = digit_val d \<Longrightarrow> c = d"
proof -
  assume "is_digit c" "is_digit d" "digit_val c = digit_val d"
  then have "(of_char c :: nat) = of_char d"
    unfolding is_digit_def digit_val_def by linarith
  then show "c = d" by simp
qed

lemma to_string_nonempty [simp]: "to_string n \<noteq> []"
  by (subst to_string.simps) simp

lemma to_string_digits: "\<forall>c \<in> set (to_string n). is_digit c"
proof (induction n rule: to_string.induct)
  case (1 n)
  then show ?case by (cases "n < 10") (auto simp: to_string.simps [of n])
qed

lemma dec_val_Nil [simp]: "dec_val [] = 0"
  by (simp add: dec_val_def)

lemma dec_val_snoc: "dec_val (s @ [c]) = 10 * dec_val s + digit_val c"
  by (simp add: dec_val_def)

lemma dec_val_append: "dec_val (s @ t) = dec_val s * 10 ^ length t + dec_val t"
proof (induction t rule: rev_induct)
  case (snoc c t)
  have "dec_val ((s @ t) @ [c]) = 10 * dec_val (s @ t) + digit_val c"
    by (rule dec_val_snoc)
  with snoc show ?case by (simp add: dec_val_snoc algebra_simps)
qed simp

lemma dec_val_Cons: "dec_val (c # s) = digit_val c * 10 ^ length s + dec_val s"
  using dec_val_append [of "[c]" s] by (simp add: dec_val_def)

lemma dec_val_to_string [simp, dec_simps]: "dec_val (to_string n) = n"
proof (induction n rule: to_string.induct)
  case (1 n)
  then show ?case
    by (cases "n < 10") (auto simp: to_string.simps [of n] dec_val_snoc dec_val_Cons)
qed

lemma to_string_inject [simp]: "to_string m = to_string n \<longleftrightarrow> m = n"
  by (metis dec_val_to_string)

lemma dec_val_zeros [simp, dec_simps]: "dec_val (replicate k (CHR ''0'') @ s) = dec_val s"
proof -
  have "dec_val (replicate k (CHR ''0'')) = 0"
    by (induction k) (simp_all add: dec_val_Cons digit_val_def)
  then show ?thesis by (simp add: dec_val_append)
qed

lemma dec_val_bound: "\<forall>c \<in> set s. is_digit c \<Longrightarrow> dec_val s < 10 ^ length s"
proof (induction s)
  case (Cons c s)
  then have "dec_val s < 10 ^ length s" and "digit_val c < 10"
    by (auto dest: is_digit_lt)
  then have "digit_val c * 10 ^ length s + dec_val s < digit_val c * 10 ^ length s + 10 ^ length s"
    and "digit_val c * 10 ^ length s \<le> 9 * 10 ^ length s"
    by (auto intro: mult_le_mono1)
  then show ?case unfolding dec_val_Cons list.size(4) add_Suc_right power_Suc add_0_right by linarith
qed simp

lemma length_to_string_le: "n < 10 ^ k \<Longrightarrow> 0 < k \<Longrightarrow> length (to_string n) \<le> k"
proof (induction k arbitrary: n)
  case (Suc k)
  show ?case
  proof (cases "n < 10")
    case True
    then show ?thesis by (simp add: to_string.simps [of n])
  next
    case False
    with Suc.prems have "n div 10 < 10 ^ k" and "0 < k"
      by (auto simp: less_mult_imp_div_less mult.commute intro: ccontr)
    then have "length (to_string (n div 10)) \<le> k" by (rule Suc.IH)
    with False show ?thesis by (simp add: to_string.simps [of n])
  qed
qed simp

text \<open>
  Digit strings of one length compare, byte by byte, as the numbers they denote.
\<close>

lemma dec_val_less_iff:
  assumes "length s = length t" and "\<forall>c \<in> set s. is_digit c" and "\<forall>c \<in> set t. is_digit c"
  shows "s < t \<longleftrightarrow> dec_val s < dec_val t"
  using assms
proof (induction s t rule: list_induct2)
  case (Cons c s d t)
  have b: "dec_val s < 10 ^ length t" "dec_val t < 10 ^ length t"
    using Cons.prems Cons.hyps dec_val_bound [of s] dec_val_bound [of t] by auto
  have dc: "is_digit c" "is_digit d" using Cons.prems by auto
  have lt: "c < d \<longleftrightarrow> digit_val c < digit_val d"
    using dc by (auto simp: is_digit_def digit_val_def less_char_def)
  have step: "x * 10 ^ length t + dec_val s < y * 10 ^ length t + dec_val t"
    if "x < y" and "dec_val s < 10 ^ length t" for x y :: nat
  proof -
    have "x * 10 ^ length t + dec_val s < (x + 1) * 10 ^ length t" using that by simp
    also have "\<dots> \<le> y * 10 ^ length t" using that by (intro mult_le_mono1) simp
    finally show ?thesis by simp
  qed
  have step': "y * 10 ^ length t + dec_val t < x * 10 ^ length t + dec_val s"
    if "y < x" for x y :: nat
  proof -
    have "y * 10 ^ length t + dec_val t < (y + 1) * 10 ^ length t" using b by simp
    also have "\<dots> \<le> x * 10 ^ length t" using that by (intro mult_le_mono1) simp
    finally show ?thesis by simp
  qed
  consider "digit_val c < digit_val d" | "digit_val c = digit_val d" | "digit_val d < digit_val c"
    by linarith
  then show ?case
  proof cases
    case 1
    with lt b step show ?thesis by (simp add: dec_val_Cons Cons.hyps)
  next
    case 2
    then have "c = d" using is_digit_inject [OF dc] by simp
    with Cons show ?thesis by (simp add: dec_val_Cons)
  next
    case 3
    then have "c \<noteq> d" "\<not> c < d" using lt by auto
    with 3 step' show ?thesis by (simp add: dec_val_Cons Cons.hyps) (meson less_asym)
  qed
qed simp

section \<open>Unsigned machine integers\<close>

named_theorems unat_simps \<open>unsigned arithmetic without wrap-around\<close>

lemma unat_u64_bound: "unat (x :: u64) < 2 ^ 64"
  using unsigned_less [of x] by simp

lemma unat_u32_bound: "unat (x :: u32) < 2 ^ 32"
  using unsigned_less [of x] by simp

lemma unat_plus_one [unat_simps]: "x < y \<Longrightarrow> unat ((x :: u64) + 1) = unat x + 1"
  using unat_u64_bound [of y] by (simp add: unat_word_ariths word_less_nat_alt)

lemma unat_plus [unat_simps]: "unat x + unat y < 2 ^ 64 \<Longrightarrow> unat ((x :: u64) + y) = unat x + unat y"
  by (simp add: unat_word_ariths)

lemma unat_minus [unat_simps]: "y \<le> x \<Longrightarrow> unat ((x :: u64) - y) = unat x - unat y"
  by (rule unat_sub)

lemma unat_of_nat_u64 [unat_simps]: "n < 2 ^ 64 \<Longrightarrow> unat (of_nat n :: u64) = n"
  by (simp add: unat_of_nat)

lemma of_nat_unat_u64: "(of_nat (unat (x :: u64)) :: u64) = x"
  by simp

section \<open>Signed machine integers\<close>

definition int32_ok :: "int \<Rightarrow> bool" where
  "int32_ok x \<longleftrightarrow> - (2 ^ 31) \<le> x \<and> x < 2 ^ 31"

definition int64_ok :: "int \<Rightarrow> bool" where
  "int64_ok x \<longleftrightarrow> - (2 ^ 63) \<le> x \<and> x < 2 ^ 63"

text \<open>C++ division of signed integers truncates towards zero.\<close>

definition cdiv :: "int \<Rightarrow> int \<Rightarrow> int" where
  "cdiv a b = sgn a * sgn b * (\<bar>a\<bar> div \<bar>b\<bar>)"

definition cmod :: "int \<Rightarrow> int \<Rightarrow> int" where
  "cmod a b = a - b * cdiv a b"

lemma cdiv_nonneg [simp]: "0 \<le> a \<Longrightarrow> 0 < b \<Longrightarrow> cdiv a b = a div b"
  by (cases "a = 0") (simp_all add: cdiv_def sgn_if)

lemma cmod_nonneg [simp]: "0 \<le> a \<Longrightarrow> 0 < b \<Longrightarrow> cmod a b = a mod b"
  by (simp add: cmod_def minus_mult_div_eq_mod)

end
