(* ===== verification/Effects.thy ===== *)
theory Effects
  imports Prelude
begin

text \<open>
  Calls that read and change a state, may fail, and may not return. A computation of type
  \<open>('s, 'a) eff\<close> maps the state to \<open>None\<close> when the call does not return, to \<open>Some (Inl e)\<close> when it ends
  with the exceptional outcome \<open>e\<close>, and to \<open>Some (Inr (x, s'))\<close> when it returns \<open>x\<close> in state \<open>s'\<close>.
\<close>

type_synonym ('s, 'a) eff = "'s \<Rightarrow> ('a \<times> 's) res option"

named_theorems eff_simps \<open>sequencing of effects\<close>

definition ret :: "'a \<Rightarrow> ('s, 'a) eff" where
  "ret x = (\<lambda>s. Some (Inr (x, s)))"

definition raise :: "exn \<Rightarrow> ('s, 'a) eff" where
  "raise e = (\<lambda>s. Some (Inl e))"

definition bind :: "('s, 'a) eff \<Rightarrow> ('a \<Rightarrow> ('s, 'b) eff) \<Rightarrow> ('s, 'b) eff" where
  "bind m f = (\<lambda>s. case m s of
       None \<Rightarrow> None
     | Some (Inl e) \<Rightarrow> Some (Inl e)
     | Some (Inr (x, s')) \<Rightarrow> f x s')"

text \<open>Run a fallible update, a fallible value, or a plain read of the state.\<close>

definition lift :: "('s \<Rightarrow> ('a \<times> 's) res) \<Rightarrow> ('s, 'a) eff" where
  "lift f = (\<lambda>s. Some (f s))"

definition lift_res :: "'a res \<Rightarrow> ('s, 'a) eff" where
  "lift_res r = (\<lambda>s. Some (map_sum id (\<lambda>x. (x, s)) r))"

definition reads :: "('s \<Rightarrow> 'a) \<Rightarrow> ('s, 'a) eff" where
  "reads f = (\<lambda>s. Some (Inr (f s, s)))"

lemma bind_simps [simp, eff_simps]:
  "m s = None \<Longrightarrow> bind m f s = None"
  "m s = Some (Inl e) \<Longrightarrow> bind m f s = Some (Inl e)"
  "m s = Some (Inr (x, s')) \<Longrightarrow> bind m f s = f x s'"
  by (simp_all add: bind_def)

lemma bind_ret [simp, eff_simps]: "bind (ret x) f = f x" "bind m ret = m"
  by (auto simp: bind_def ret_def fun_eq_iff split: option.splits sum.splits)

lemma bind_raise [simp, eff_simps]: "bind (raise e) f = raise e"
  by (simp add: bind_def raise_def)

lemma bind_assoc: "bind (bind m f) g = bind m (\<lambda>x. bind (f x) g)"
  by (auto simp: bind_def fun_eq_iff split: option.splits sum.splits)

lemma bind_reads [simp, eff_simps]: "bind (reads h) f s = f (h s) s"
  by (simp add: bind_def reads_def)

lemma ret_apply [simp, eff_simps]: "ret x s = Some (Inr (x, s))"
  by (simp add: ret_def)

lemma raise_apply [simp, eff_simps]: "raise e s = Some (Inl e)"
  by (simp add: raise_def)

lemma lift_apply [simp, eff_simps]: "lift f s = Some (f s)"
  by (simp add: lift_def)

lemma bind_lift: "bind (lift h) f s = (case h s of Inl e \<Rightarrow> Some (Inl e) | Inr (x, s') \<Rightarrow> f x s')"
  by (simp add: bind_def lift_def)

lemma bind_eq_Inr:
  "bind m f s = Some (Inr (y, s'')) \<longleftrightarrow> (\<exists>x s'. m s = Some (Inr (x, s')) \<and> f x s' = Some (Inr (y, s'')))"
  by (auto simp: bind_def split: option.splits sum.splits)

text \<open>
  Total correctness: \<open>yields m s Q\<close> says that the call returns normally, with a result and a state
  in \<open>Q\<close>. The rules below are how the properties of the handlers are put together.
\<close>

definition yields :: "('s, 'a) eff \<Rightarrow> 's \<Rightarrow> ('a \<Rightarrow> 's \<Rightarrow> bool) \<Rightarrow> bool" where
  "yields m s Q \<longleftrightarrow> (\<exists>x s'. m s = Some (Inr (x, s')) \<and> Q x s')"

lemma yields_ret [simp, intro]: "Q x s \<Longrightarrow> yields (ret x) s Q"
  by (simp add: yields_def)

lemma yields_reads [simp]: "yields (reads h) s Q \<longleftrightarrow> Q (h s) s"
  by (simp add: yields_def reads_def)

lemma yields_bind:
  "yields m s P \<Longrightarrow> (\<And>x s'. P x s' \<Longrightarrow> yields (f x) s' Q) \<Longrightarrow> yields (bind m f) s Q"
  unfolding yields_def by (metis bind_simps(3))

lemma yields_bind_reads [simp]: "yields (bind (reads h) f) s Q \<longleftrightarrow> yields (f (h s)) s Q"
  by (simp add: yields_def)

lemma yields_mono: "yields m s P \<Longrightarrow> (\<And>x s'. P x s' \<Longrightarrow> Q x s') \<Longrightarrow> yields m s Q"
  unfolding yields_def by blast

lemma yields_lift: "h s = Inr (x, s') \<Longrightarrow> Q x s' \<Longrightarrow> yields (lift h) s Q"
  by (simp add: yields_def)

end
