(* ===== verification/Utils.thy ===== *)
theory Utils
  imports Prelude
begin

text \<open>
  The helpers of \<^verbatim>\<open>src/utils/utils.h\<close>: the FNV hash, the thread-local random sources, string
  trimming and Boolean parsing; with the standard numeric parsers (\<^verbatim>\<open>std::stoi\<close>, \<^verbatim>\<open>std::stol\<close>,
  \<^verbatim>\<open>std::stoul\<close>, \<^verbatim>\<open>std::stod\<close>) that the sources apply to property values.

  Doubles are modelled by the real numbers they denote: rounding, infinities and NaN are not
  modelled. \<^verbatim>\<open>std::minstd_rand\<close> is modelled exactly; the algorithm by which
  \<^verbatim>\<open>std::uniform_real_distribution\<close> turns engine outputs into a double is left to the
  implementation by the C++ standard, so it is the parameter \<open>canon\<close>.
\<close>

section \<open>FNV hash\<close>

definition kFNVOffsetBasis64 :: u64 where
  "kFNVOffsetBasis64 = 0xCBF29CE484222325"

definition kFNVPrime64 :: u64 where
  "kFNVPrime64 = 1099511628211"

text \<open>The body of the loop of \<open>FNVHash64\<close>, run \<open>n\<close> more times.\<close>

fun fnv_loop :: "nat \<Rightarrow> u64 \<Rightarrow> u64 \<Rightarrow> u64" where
  "fnv_loop 0 val hash = hash"
| "fnv_loop (Suc n) val hash =
     (let octet = val AND 0x00ff;
          val = drop_bit 8 val;
          hash = hash XOR octet;
          hash = hash * kFNVPrime64
      in fnv_loop n val hash)"

definition FNVHash64 :: "u64 \<Rightarrow> u64" where
  "FNVHash64 val = fnv_loop 8 val kFNVOffsetBasis64"

definition Hash :: "u64 \<Rightarrow> u64" where
  "Hash val = FNVHash64 val"

section \<open>Thread-local random sources\<close>

text \<open>
  \<^verbatim>\<open>std::minstd_rand\<close>: the linear congruential engine with multiplier 48271, increment 0 and
  modulus \<open>2\<^sup>3\<^sup>1 - 1\<close>. Its seed is reduced modulo the modulus, and 0 is replaced by 1.
\<close>

definition minstd_m :: nat where
  "minstd_m = 2147483647"

definition minstd_seed :: "nat \<Rightarrow> nat" where
  "minstd_seed s = (if s mod minstd_m = 0 then 1 else s mod minstd_m)"

definition minstd_next :: "nat \<Rightarrow> nat" where
  "minstd_next x = (48271 * x) mod minstd_m"

text \<open>
  The thread-local statics of \<open>ThreadLocalRandomInt\<close> and \<open>ThreadLocalRandomDouble\<close>, and the
  thread-local static of \<^verbatim>\<open>SequentialGenerator\<close>. The distribution object of
  \<open>ThreadLocalRandomDouble\<close> is built by the first call of a thread, with that call's bounds.
\<close>

record tls =
  rn_int :: nat
  rn_double :: nat
  uniform_bounds :: "(real \<times> real) option"
  seq_counter :: u64

definition ThreadLocalRandomInt :: "tls \<Rightarrow> u32 \<times> tls" where
  "ThreadLocalRandomInt t =
     (let x = minstd_next (rn_int t) in (of_nat x, t\<lparr>rn_int := x\<rparr>))"

definition ThreadLocalRandomDouble ::
    "(nat \<Rightarrow> real \<times> nat) \<Rightarrow> real \<Rightarrow> real \<Rightarrow> tls \<Rightarrow> real \<times> tls" where
  "ThreadLocalRandomDouble canon mn mx t =
     (let (a, b) = (case uniform_bounds t of Some ab \<Rightarrow> ab | None \<Rightarrow> (mn, mx));
          (c, x) = canon (rn_double t)
      in (c * (b - a) + a, t\<lparr>rn_double := x, uniform_bounds := Some (a, b)\<rparr>))"

text \<open>What the standard promises of the canonical double: it lies in \<open>[0, 1)\<close>.\<close>

definition canon_ok :: "(nat \<Rightarrow> real \<times> nat) \<Rightarrow> bool" where
  "canon_ok canon \<longleftrightarrow> (\<forall>x. 0 \<le> fst (canon x) \<and> fst (canon x) < 1)"

text \<open>\<open>RandomPrintChar\<close>, with the value \<open>r\<close> of \<^verbatim>\<open>rand()\<close>.\<close>

definition RandomPrintChar :: "nat \<Rightarrow> char" where
  "RandomPrintChar r = char_of (r mod 94 + 33)"

section \<open>Strings\<close>

text \<open>\<^verbatim>\<open>std::isspace\<close> and \<^verbatim>\<open>::tolower\<close> in the C locale.\<close>

definition isspace :: "char \<Rightarrow> bool" where
  "isspace c \<longleftrightarrow> (of_char c :: nat) = 32 \<or> (9 \<le> (of_char c :: nat) \<and> (of_char c :: nat) \<le> 13)"

definition tolower :: "char \<Rightarrow> char" where
  "tolower c = (if 65 \<le> (of_char c :: nat) \<and> (of_char c :: nat) \<le> 90
                then char_of ((of_char c :: nat) + 32) else c)"

definition StrToBool :: "string \<Rightarrow> bool res" where
  "StrToBool s =
     (let str = map tolower s in
      if str = ''true'' \<or> str = ''1'' then Inr True
      else if str = ''false'' \<or> str = ''0'' then Inr False
      else Inl (Exception (''Invalid bool string: '' @ str)))"

definition Trim :: "string \<Rightarrow> string" where
  "Trim str = (let front = dropWhile isspace str in rev (dropWhile isspace (rev front)))"

section \<open>Numeric parsers of the standard library\<close>

definition skip_sign :: "string \<Rightarrow> bool \<times> string" where
  "skip_sign s = (case s of c # r \<Rightarrow> if c = CHR ''-'' then (True, r)
                                    else if c = CHR ''+'' then (False, r) else (False, s)
                          | [] \<Rightarrow> (False, []))"

text \<open>
  The longest numeral at the front of the string, after white space and a sign: its value, or
  nothing when there is no digit. What follows the numeral is ignored, as \<^verbatim>\<open>std::stoi\<close> does.
\<close>

definition parse_long :: "string \<Rightarrow> int option" where
  "parse_long s =
     (let (neg, r) = skip_sign (dropWhile isspace s);
          ds = takeWhile is_digit r
      in if ds = [] then None
         else Some (if neg then - int (dec_val ds) else int (dec_val ds)))"

definition stoi :: "string \<Rightarrow> int res" where
  "stoi s = (case parse_long s of
       None \<Rightarrow> Inl (InvalidArgument ''stoi'')
     | Some v \<Rightarrow> if int32_ok v then Inr v else Inl (OutOfRange ''stoi''))"

definition stol :: "string \<Rightarrow> int res" where
  "stol s = (case parse_long s of
       None \<Rightarrow> Inl (InvalidArgument ''stol'')
     | Some v \<Rightarrow> if int64_ok v then Inr v else Inl (OutOfRange ''stol''))"

definition stoul :: "string \<Rightarrow> u64 res" where
  "stoul s = (case parse_long s of
       None \<Rightarrow> Inl (InvalidArgument ''stoul'')
     | Some v \<Rightarrow> if \<bar>v\<bar> < 2 ^ 64 then Inr (word_of_int v) else Inl (OutOfRange ''stoul''))"

text \<open>
  \<^verbatim>\<open>std::stod\<close> on decimal numerals: digits with an optional fraction and exponent. The
  hexadecimal, infinity and NaN forms are outside the model.
\<close>

definition parse_exp :: "string \<Rightarrow> int" where
  "parse_exp s = (case s of
       c # r \<Rightarrow> if c = CHR ''e'' \<or> c = CHR ''E''
                then (let (neg, q) = skip_sign r; ds = takeWhile is_digit q
                      in if neg then - int (dec_val ds) else int (dec_val ds))
                else 0
     | [] \<Rightarrow> 0)"

definition stod :: "string \<Rightarrow> real res" where
  "stod s =
     (let (neg, r) = skip_sign (dropWhile isspace s);
          ip = takeWhile is_digit r;
          r1 = dropWhile is_digit r;
          (fp, r2) = (case r1 of c # q \<Rightarrow> if c = CHR ''.''
                                   then (takeWhile is_digit q, dropWhile is_digit q) else ([], r1)
                               | [] \<Rightarrow> ([], []));
          m = real (dec_val (ip @ fp)) / 10 ^ length fp;
          e = parse_exp r2;
          v = (if 0 \<le> e then m * 10 ^ nat e else m / 10 ^ nat (- e))
      in if ip = [] \<and> fp = [] then Inl (InvalidArgument ''stod'')
         else Inr (if neg then - v else v))"

section \<open>The hash is FNV-1a on the little-endian octets\<close>

definition octet :: "u64 \<Rightarrow> nat \<Rightarrow> u64" where
  "octet v i = drop_bit (8 * i) v AND 0xff"

definition fnv_step :: "u64 \<Rightarrow> u64 \<Rightarrow> u64" where
  "fnv_step h b = (h XOR b) * kFNVPrime64"

definition fnv1a :: "u64 list \<Rightarrow> u64" where
  "fnv1a bs = foldl fnv_step kFNVOffsetBasis64 bs"

lemma octet_drop_bit: "octet (drop_bit 8 v) i = octet v (Suc i)"
  by (simp add: octet_def drop_bit_drop_bit add.commute)

lemma fnv_loop_foldl: "fnv_loop n v h = foldl fnv_step h (map (octet v) [0..<n])"
proof (induction n arbitrary: v h)
  case (Suc n)
  have "map (octet v) [0..<Suc n] = octet v 0 # map (octet (drop_bit 8 v)) [0..<n]"
    by (subst upt_conv_Cons) (simp_all add: octet_drop_bit map_Suc_upt [symmetric] comp_def del: upt_Suc)
  then show ?case
    by (simp add: Suc.IH Let_def octet_def [of v 0] del: upt_Suc) (simp add: fnv_step_def)
qed simp

lemma kFNVPrime64_unit: "kFNVPrime64 * 14886173955864302971 = 1"
  by (simp add: kFNVPrime64_def)

lemma mult_prime_inject: "x * kFNVPrime64 = y * kFNVPrime64 \<longleftrightarrow> x = y"
proof
  assume "x * kFNVPrime64 = y * kFNVPrime64"
  then have "x * (kFNVPrime64 * 14886173955864302971) = y * (kFNVPrime64 * 14886173955864302971)"
    by (simp only: mult.assoc [symmetric])
  then show "x = y" by (simp only: kFNVPrime64_unit mult_1_right)
qed simp

lemma xor_xor_cancel: "((h :: u64) XOR b) XOR b = h"
  by (simp add: xor.assoc)

lemma xor_inject: "(h :: u64) XOR b = k XOR b \<longleftrightarrow> h = k"
proof
  assume "h XOR b = k XOR b"
  then have "(h XOR b) XOR b = (k XOR b) XOR b" by simp
  then show "h = k" by (simp only: xor_xor_cancel)
qed simp

lemma fnv_step_inject_hash: "fnv_step h b = fnv_step k b \<longleftrightarrow> h = k"
  by (simp add: fnv_step_def mult_prime_inject xor_inject)

lemma fnv_step_inject_octet: "fnv_step h b = fnv_step h c \<longleftrightarrow> b = c"
  by (simp add: fnv_step_def mult_prime_inject xor_inject xor.commute [of h])

lemma foldl_fnv_inject: "foldl fnv_step h bs = foldl fnv_step k bs \<longleftrightarrow> h = k"
  by (induction bs arbitrary: h k) (simp_all add: fnv_step_inject_hash)

lemma fnv1a_one_octet: "fnv1a (xs @ b # ys) = fnv1a (xs @ c # ys) \<longleftrightarrow> b = c"
  by (simp add: fnv1a_def foldl_fnv_inject fnv_step_inject_octet)

lemma octets_determine:
  assumes "\<forall>i < 8. octet v i = octet w i"
  shows "v = w"
proof (rule bit_word_eqI)
  fix n assume "n < LENGTH(64)"
  then have n: "n div 8 < 8" "n = 8 * (n div 8) + n mod 8" "n mod 8 < 64"
    using mod_less_divisor [of 8 n] by (auto simp del: mod_less_divisor)
  have eight: "bit (255 :: u64) m" if "m < 8" for m
  proof -
    have "(255 :: u64) = mask 8" by (simp add: mask_eq_exp_minus_1)
    moreover have "bit (mask 8 :: u64) m" using that by (simp only: bit_mask_iff) simp
    ultimately show ?thesis by (simp only:)
  qed
  have "bit (octet v (n div 8)) (n mod 8) = bit (octet w (n div 8)) (n mod 8)"
    using assms n by simp
  then show "bit v n = bit w n"
    using n eight by (simp add: octet_def bit_and_iff bit_drop_bit_eq)
qed

section \<open>Lemmas on the random sources\<close>

lemma minstd_next_range:
  assumes "0 < x" and "x < minstd_m"
  shows "0 < minstd_next x \<and> minstd_next x < minstd_m"
proof -
  have "coprime (48271 :: nat) minstd_m"
    unfolding minstd_m_def coprime_iff_gcd_eq_1 by (simp add: gcd_nat.simps)
  moreover have "\<not> minstd_m dvd x" using assms by (auto dest: dvd_imp_le)
  ultimately have "\<not> minstd_m dvd 48271 * x"
    by (simp add: coprime_commute coprime_dvd_mult_right_iff)
  then show ?thesis
    by (simp add: minstd_next_def dvd_eq_mod_eq_0 minstd_m_def)
qed

lemma minstd_seed_range: "0 < minstd_seed s \<and> minstd_seed s < minstd_m"
  by (auto simp: minstd_seed_def minstd_m_def)

lemma random_double_range:
  assumes "canon_ok canon" and "uniform_bounds t = None \<or> uniform_bounds t = Some (0, 1)"
  shows "0 \<le> fst (ThreadLocalRandomDouble canon 0 1 t) \<and> fst (ThreadLocalRandomDouble canon 0 1 t) < 1"
  using assms by (auto simp: ThreadLocalRandomDouble_def canon_ok_def split_beta)

lemma random_double_bounds:
  assumes "uniform_bounds t = None \<or> uniform_bounds t = Some (0, 1)"
  shows "uniform_bounds (snd (ThreadLocalRandomDouble canon 0 1 t)) = Some (0, 1)"
  using assms by (auto simp: ThreadLocalRandomDouble_def split_beta)

section \<open>Lemmas on strings\<close>

lemma dropWhile_id: "s = [] \<or> \<not> P (hd s) \<Longrightarrow> dropWhile P s = s"
  by (cases s) auto

lemma hd_dropWhile_not: "dropWhile P s \<noteq> [] \<Longrightarrow> \<not> P (hd (dropWhile P s))"
  by (rule hd_dropWhile)

lemma rev_dropWhile_rev_split:
  "s = rev (dropWhile P (rev s)) @ rev (takeWhile P (rev s))"
  by (metis rev_append rev_rev_ident takeWhile_dropWhile_id)

lemma Trim_decompose:
  "\<exists>l r. str = l @ Trim str @ r \<and> (\<forall>c \<in> set l. isspace c) \<and> (\<forall>c \<in> set r. isspace c)"
proof -
  let ?f = "dropWhile isspace str"
  have "str = takeWhile isspace str @ ?f" by simp
  also have "?f = Trim str @ rev (takeWhile isspace (rev ?f))"
    unfolding Trim_def Let_def by (rule rev_dropWhile_rev_split)
  finally have "str = takeWhile isspace str @ Trim str @ rev (takeWhile isspace (rev ?f))" .
  then show ?thesis
    by (intro exI conjI) (auto dest: set_takeWhileD)
qed

lemma hd_Trim: "Trim str \<noteq> [] \<Longrightarrow> \<not> isspace (hd (Trim str))"
proof -
  let ?f = "dropWhile isspace str"
  assume ne: "Trim str \<noteq> []"
  have f: "?f = Trim str @ rev (takeWhile isspace (rev ?f))"
    unfolding Trim_def Let_def by (rule rev_dropWhile_rev_split)
  then have "hd ?f = hd (Trim str)" and "?f \<noteq> []"
    using ne by (metis hd_append2, metis append_is_Nil_conv)
  then show ?thesis by (metis hd_dropWhile)
qed

lemma last_Trim: "Trim str \<noteq> [] \<Longrightarrow> \<not> isspace (last (Trim str))"
  unfolding Trim_def Let_def by (metis hd_dropWhile last_rev rev_is_Nil_conv)

lemma Trim_id: "s = [] \<or> (\<not> isspace (hd s) \<and> \<not> isspace (last s)) \<Longrightarrow> Trim s = s"
  by (auto simp: Trim_def Let_def dropWhile_id hd_rev)

lemma parse_long_to_string: "parse_long (to_string n) = Some (int n)"
proof -
  obtain c r where s: "to_string n = c # r" by (cases "to_string n") auto
  have d: "is_digit c" using to_string_digits [of n] s by simp
  have "\<not> isspace c" and "c \<noteq> CHR ''-''" and "c \<noteq> CHR ''+''"
    using d by (auto simp: isspace_def is_digit_def)
  moreover have "takeWhile is_digit (to_string n) = to_string n"
    using to_string_digits by (simp add: takeWhile_eq_all_conv)
  ultimately show ?thesis
    using dec_val_to_string [of n] s by (simp add: parse_long_def skip_sign_def)
qed

section \<open>Properties\<close>

text \<open>C5: \<^verbatim>\<open>FNVHash64\<close>, which shifts and masks its argument in a loop, is the FNV-1a hash of the eight octets of the number, least
  significant octet first.\<close>

theorem fnv_hash_is_fnv1a: "FNVHash64 v = fnv1a (map (octet v) [0..<8])"
  unfolding FNVHash64_def fnv1a_def by (rule fnv_loop_foldl)

text \<open>The hash separates numbers that differ in one octet: key numbers that share seven of their eight octets, for instance
  the 256 numbers of one aligned block, never hash to the same value.\<close>

theorem fnv_hash_separates_octet:
  assumes "i < 8" and "\<forall>j < 8. j \<noteq> i \<longrightarrow> octet v j = octet w j" and "v \<noteq> w"
  shows "FNVHash64 v \<noteq> FNVHash64 w"
proof -
  have split: "[0..<8] = [0..<i] @ i # [Suc i..<8]"
    using upt_add_eq_append [of 0 i "8 - i"] assms(1) by (simp add: upt_conv_Cons [symmetric] del: upt_Suc)
  have xs: "map (octet v) [0..<i] = map (octet w) [0..<i]" and ys: "map (octet v) [Suc i..<8] = map (octet w) [Suc i..<8]"
    using assms(1,2) by auto
  have "octet v i \<noteq> octet w i" using octets_determine [of v w] assms by metis
  then have "fnv1a (map (octet w) [0..<i] @ octet v i # map (octet w) [Suc i..<8]) \<noteq>
      fnv1a (map (octet w) [0..<i] @ octet w i # map (octet w) [Suc i..<8])"
    by (simp add: fnv1a_one_octet)
  then show ?thesis
    unfolding FNVHash64_def fnv_loop_foldl fnv1a_def split map_append list.map xs ys .
qed

theorem fnv_hash_separates_octet_witness: "FNVHash64 0x1234 \<noteq> FNVHash64 0x12FF"
proof (rule fnv_hash_separates_octet [of 0])
  have eq: "drop_bit 8 (0x1234 :: u64) = drop_bit 8 0x12FF" by (simp add: drop_bit_eq_div)
  have "octet 0x1234 (Suc j) = octet 0x12FF (Suc j)" for j
    unfolding octet_drop_bit [symmetric] eq ..
  then show "\<forall>j < 8. j \<noteq> 0 \<longrightarrow> octet 0x1234 j = octet 0x12FF j"
    by (metis not0_implies_Suc)
qed simp_all

text \<open>\<^verbatim>\<open>Trim\<close> removes exactly the white space at the two ends: given any string with white space before and after a text that
  neither starts nor ends with white space, it returns the text.\<close>

theorem trim_removes_padding:
  assumes "\<forall>c \<in> set l. isspace c" and "\<forall>c \<in> set r. isspace c"
    and "s \<noteq> [] \<Longrightarrow> \<not> isspace (hd s) \<and> \<not> isspace (last s)"
  shows "Trim (l @ s @ r) = s"
proof (cases "s = []")
  case True
  then have none: "dropWhile isspace (l @ s @ r) = []" using assms(1,2) 
    by (simp only: dropWhile_eq_Nil_conv set_append) auto
  show ?thesis unfolding Trim_def none using True by simp
next
  case False
  then obtain a b where s: "s = a # b" by (cases s) auto
  obtain c d where s': "s = c @ [d]" using False by (cases s rule: rev_cases) auto
  have "dropWhile isspace (l @ s @ r) = s @ r" using assms False s by (simp add: dropWhile_append2)
  moreover have "dropWhile isspace (rev r @ rev s) = rev s"
    using assms(2,3) False s' by (subst dropWhile_append2) auto
  ultimately show ?thesis by (simp add: Trim_def Let_def)
qed

theorem trim_removes_padding_witness: "Trim ('' '' @ ''a b'' @ ''  '') = ''a b''"
  by (rule trim_removes_padding) (simp_all add: isspace_def)

end
