(* ===== verification/Props.thy ===== *)
theory Props
  imports Utils
begin

text \<open>
  \<^verbatim>\<open>class Properties\<close> of \<^verbatim>\<open>src/utils/properties.h\<close>: a string-to-string map, its accessors and the
  loader of property files; and the two copies of the command-line parser
  (\<^verbatim>\<open>src/core/ycsbc.cc\<close> and \<^verbatim>\<open>src/core/command_line.h\<close>).

  The interface locale \<open>keyed_table\<close> states the lookup-after-store laws that the clients of a
  string-keyed table rely on; it is interpreted here on \<open>Properties\<close> and, in \<open>DB_Layer\<close> and
  \<open>Workload_Variants\<close>, on the factory registries.
\<close>

section \<open>The interface of a string-keyed table\<close>

locale keyed_table =
  fixes empty_table :: 't
    and store :: "'t \<Rightarrow> string \<Rightarrow> 'v \<Rightarrow> 't"
    and find_key :: "'t \<Rightarrow> string \<Rightarrow> 'v option"
  assumes find_empty: "find_key empty_table k = None"
    and find_store: "find_key (store t k v) j = (if j = k then Some v else find_key t j)"
begin

definition store_all :: "'t \<Rightarrow> (string \<times> 'v) list \<Rightarrow> 't" where
  "store_all t kvs = foldl (\<lambda>t (k, v). store t k v) t kvs"

lemma store_all_simps [simp]:
  "store_all t [] = t"
  "store_all t ((k, v) # kvs) = store_all (store t k v) kvs"
  by (simp_all add: store_all_def)

lemma find_store_all:
  "find_key (store_all t kvs) k =
     (case map_of (rev kvs) k of Some v \<Rightarrow> Some v | None \<Rightarrow> find_key t k)"
proof (induction kvs arbitrary: t)
  case (Cons kv kvs)
  show ?case
    by (cases kv) (auto simp: Cons.IH find_store map_add_def split: option.splits)
qed simp

lemma last_store_wins:
  "k \<notin> fst ` set later \<Longrightarrow> find_key (store_all t (earlier @ (k, v) # later)) k = Some v"
proof -
  assume k: "k \<notin> fst ` set later"
  then have "map_of (rev later) k = None" by (simp add: map_of_eq_None_iff)
  then show ?thesis by (simp add: find_store_all map_add_def)
qed

lemma find_store_all_distinct:
  assumes "distinct (map fst kvs)" and "(k, v) \<in> set kvs"
  shows "find_key (store_all t kvs) k = Some v"
proof -
  from assms have "distinct (map fst (rev kvs))" by (simp add: rev_map [symmetric])
  with assms(2) have "map_of (rev kvs) k = Some v" by (simp add: map_of_is_SomeI)
  then show ?thesis by (simp add: find_store_all)
qed

end

section \<open>Properties\<close>

record Properties =
  property_map :: "string \<rightharpoonup> string"

definition no_properties :: Properties where
  "no_properties = \<lparr>property_map = Map.empty\<rparr>"

definition GetProperty :: "Properties \<Rightarrow> string \<Rightarrow> string \<Rightarrow> string" where
  "GetProperty p key default_value =
     (case property_map p key of None \<Rightarrow> default_value | Some v \<Rightarrow> v)"

text \<open>\<^verbatim>\<open>operator[]\<close> is \<^verbatim>\<open>std::map::at\<close>, which throws on a missing key.\<close>

definition property_at :: "Properties \<Rightarrow> string \<Rightarrow> string res" where
  "property_at p key =
     (case property_map p key of None \<Rightarrow> Inl (OutOfRange ''map::at'') | Some v \<Rightarrow> Inr v)"

definition SetProperty :: "Properties \<Rightarrow> string \<Rightarrow> string \<Rightarrow> Properties" where
  "SetProperty p key value = p\<lparr>property_map := (property_map p)(key \<mapsto> value)\<rparr>"

definition ContainsKey :: "Properties \<Rightarrow> string \<Rightarrow> bool" where
  "ContainsKey p key \<longleftrightarrow> property_map p key \<noteq> None"

definition ToMap :: "Properties \<Rightarrow> (string \<rightharpoonup> string)" where
  "ToMap p = property_map p"

interpretation properties: keyed_table no_properties SetProperty property_map
  by unfold_locales (simp_all add: no_properties_def SetProperty_def)

subsection \<open>Loading a property file\<close>

text \<open>The pieces that successive calls of \<^verbatim>\<open>std::getline\<close> return until end of file.\<close>

fun getlines :: "string \<Rightarrow> string list" where
  "getlines [] = [[]]"
| "getlines (c # s) =
     (if c = CHR 0x0A then [] # getlines s
      else (case getlines s of l # ls \<Rightarrow> (c # l) # ls | [] \<Rightarrow> [[c]]))"

text \<open>\<^verbatim>\<open>find_first_of('=')\<close>: the text before and after the first equals sign.\<close>

fun split_eq :: "string \<Rightarrow> (string \<times> string) option" where
  "split_eq [] = None"
| "split_eq (c # s) =
     (if c = CHR ''='' then Some ([], s)
      else (case split_eq s of None \<Rightarrow> None | Some (k, v) \<Rightarrow> Some (c # k, v)))"

definition load_line :: "Properties \<Rightarrow> string \<Rightarrow> Properties" where
  "load_line p line =
     (if (case line of c # _ \<Rightarrow> c = CHR ''#'' | [] \<Rightarrow> False) then p
      else (case split_eq line of
              None \<Rightarrow> p
            | Some (k, v) \<Rightarrow> SetProperty p (Trim k) (Trim v)))"

text \<open>\<open>Load\<close> on a stream: \<open>None\<close> when the file could not be opened, else its contents.\<close>

definition Load :: "Properties \<Rightarrow> string option \<Rightarrow> Properties res" where
  "Load p input =
     (case input of
        None \<Rightarrow> Inl (Exception ''File not open!'')
      | Some content \<Rightarrow> Inr (foldl load_line p (getlines content)))"

section \<open>The command line\<close>

definition StrStartWith :: "string \<Rightarrow> string \<Rightarrow> bool" where
  "StrStartWith str pre \<longleftrightarrow> take (length pre) str = pre"

text \<open>
  The loop of \<open>ParseCommandLine\<close> over \<^verbatim>\<open>argv[1..argc)\<close>; \<open>fs\<close> gives the contents of a file, or
  \<open>None\<close> if it cannot be opened. The result is the properties and the arguments not consumed.
  The handler around \<open>Load\<close> catches \<^verbatim>\<open>std::string\<close>, which \<open>Load\<close> never throws, so its exception
  leaves the function.
\<close>

fun parse_args :: "(string \<Rightarrow> string option) \<Rightarrow> Properties \<Rightarrow> string list \<Rightarrow> (Properties \<times> string list) res" where
  "parse_args fs props [] = Inr (props, [])"
| "parse_args fs props (a # rest) =
     (if \<not> StrStartWith a ''-'' then Inr (props, a # rest)
      else if a = ''-load'' then parse_args fs (SetProperty props ''doload'' ''true'') rest
      else if a = ''-run'' \<or> a = ''-t'' then
        parse_args fs (SetProperty props ''dotransaction'' ''true'') rest
      else if a = ''-threads'' then
        (case rest of [] \<Rightarrow> Inl (Exit 0)
         | v # rest' \<Rightarrow> parse_args fs (SetProperty props ''threadcount'' v) rest')
      else if a = ''-db'' then
        (case rest of [] \<Rightarrow> Inl (Exit 0)
         | v # rest' \<Rightarrow> parse_args fs (SetProperty props ''dbname'' v) rest')
      else if a = ''-P'' then
        (case rest of [] \<Rightarrow> Inl (Exit 0)
         | f # rest' \<Rightarrow> (case Load props (fs f) of
                          Inl e \<Rightarrow> Inl e
                        | Inr props' \<Rightarrow> parse_args fs props' rest'))
      else if a = ''-p'' then
        (case rest of [] \<Rightarrow> Inl (Exit 0)
         | prop # rest' \<Rightarrow> (case split_eq prop of
                             None \<Rightarrow> Inl (Exit 0)
                           | Some (k, v) \<Rightarrow> parse_args fs (SetProperty props (Trim k) (Trim v)) rest'))
      else if a = ''-s'' then parse_args fs (SetProperty props ''status'' ''true'') rest
      else Inl (Exit 0))"

definition ParseCommandLine ::
    "(string \<Rightarrow> string option) \<Rightarrow> string list \<Rightarrow> Properties \<Rightarrow> Properties res" where
  "ParseCommandLine fs args props =
     (case parse_args fs props args of
        Inl e \<Rightarrow> Inl e
      | Inr (props', rest) \<Rightarrow>
          if length args - length rest = 0 \<or> rest \<noteq> [] then Inl (Exit 0) else Inr props')"

section \<open>Lemmas on files and arguments\<close>

lemma getlines_nonempty [simp]: "getlines s \<noteq> []"
  by (induction s) (auto split: list.splits)

lemma getlines_append_newline:
  "CHR 0x0A \<notin> set l \<Longrightarrow> getlines (l @ CHR 0x0A # s) = l # getlines s"
  by (induction l) auto

lemma split_eq_append:
  "CHR ''='' \<notin> set k \<Longrightarrow> split_eq (k @ CHR ''='' # v) = Some (k, v)"
  by (induction k) auto

lemma split_eq_Some:
  "split_eq s = Some (k, v) \<Longrightarrow> s = k @ CHR ''='' # v \<and> CHR ''='' \<notin> set k"
  by (induction s arbitrary: k) (auto split: if_splits option.splits)

text \<open>
  A property file as people write it: one \<^verbatim>\<open>key=value\<close> line per entry, where keys and values
  carry no surrounding white space, a key has no equals sign and does not start with a hash.
\<close>

definition clean_text :: "string \<Rightarrow> bool" where
  "clean_text s \<longleftrightarrow> CHR 0x0A \<notin> set s \<and> (s = [] \<or> (\<not> isspace (hd s) \<and> \<not> isspace (last s)))"

definition clean_entry :: "string \<times> string \<Rightarrow> bool" where
  "clean_entry kv \<longleftrightarrow> clean_text (fst kv) \<and> clean_text (snd kv) \<and> CHR ''='' \<notin> set (fst kv)
     \<and> (fst kv = [] \<or> hd (fst kv) \<noteq> CHR ''#'')"

definition render_entry :: "string \<times> string \<Rightarrow> string" where
  "render_entry kv = fst kv @ CHR ''='' # snd kv"

definition render_file :: "(string \<times> string) list \<Rightarrow> string" where
  "render_file kvs = concat (map (\<lambda>kv. render_entry kv @ [CHR 0x0A]) kvs)"

lemma load_line_entry:
  "clean_entry (k, v) \<Longrightarrow> load_line p (render_entry (k, v)) = SetProperty p k v"
  by (cases k)
    (auto simp: load_line_def render_entry_def clean_entry_def clean_text_def split_eq_append
      Trim_id split: option.splits)

lemma getlines_render:
  "\<forall>kv \<in> set kvs. clean_entry kv \<Longrightarrow> getlines (render_file kvs) = map render_entry kvs @ [[]]"
proof (induction kvs)
  case (Cons kv kvs)
  then have "CHR 0x0A \<notin> set (render_entry kv)"
    by (auto simp: clean_entry_def clean_text_def render_entry_def)
  with Cons show ?case
    by (simp add: render_file_def getlines_append_newline)
qed (simp add: render_file_def)

lemma foldl_load_lines:
  "\<forall>kv \<in> set kvs. clean_entry kv \<Longrightarrow>
     foldl load_line p (map render_entry kvs) = properties.store_all p kvs"
proof (induction kvs arbitrary: p)
  case (Cons kv kvs)
  then show ?case by (cases kv) (simp add: load_line_entry)
qed simp

lemma load_line_blank [simp]: "load_line p [] = p"
  by (simp add: load_line_def)

lemma Load_rendered:
  assumes "\<forall>kv \<in> set kvs. clean_entry kv"
  shows "Load p (Some (render_file kvs)) = Inr (properties.store_all p kvs)"
  using assms by (simp add: Load_def getlines_render foldl_load_lines)

lemma parse_args_suffix:
  "parse_args fs props args = Inr (props', rest) \<Longrightarrow>
     \<exists>used. args = used @ rest \<and> (rest = [] \<or> \<not> StrStartWith (hd rest) ''-'')"
proof (induction fs props args rule: parse_args.induct)
  case (2 fs props a rest')
  note IH = 2
  show ?case
  proof (cases "StrStartWith a ''-''")
    case False
    with "2.prems" show ?thesis by auto
  next
    case True
    then have "\<exists>used. a # rest' = a # used @ rest \<and> (rest = [] \<or> \<not> StrStartWith (hd rest) ''-'')"
      using IH by (auto split: if_splits list.splits sum.splits option.splits)
        (metis append_Cons)+
    then show ?thesis by (metis append_Cons)
  qed
qed simp

section \<open>Properties\<close>

text \<open>C35: A property file written as one \<^verbatim>\<open>key=value\<close> line per entry, with distinct keys, loads without error, and afterwards
  \<^verbatim>\<open>GetProperty\<close> returns for each key the value of its line, over whatever was set before, and leaves every other key as it was.\<close>

theorem load_round_trip:
  assumes "\<forall>kv \<in> set kvs. clean_entry kv" and "distinct (map fst kvs)"
  shows "\<exists>p'. Load p (Some (render_file kvs)) = Inr p'
     \<and> (\<forall>(k, v) \<in> set kvs. GetProperty p' k d = v)
     \<and> (\<forall>k. k \<notin> fst ` set kvs \<longrightarrow> GetProperty p' k d = GetProperty p k d)"
proof -
  let ?p = "properties.store_all p kvs"
  have "property_map ?p k = Some v" if "(k, v) \<in> set kvs" for k v
    using properties.find_store_all_distinct [OF assms(2) that] .
  moreover have "property_map ?p k = property_map p k" if "k \<notin> fst ` set kvs" for k
  proof -
    have "map_of (rev kvs) k = None" using that by (simp add: map_of_eq_None_iff)
    then show ?thesis by (simp add: properties.find_store_all)
  qed
  ultimately show ?thesis using Load_rendered [OF assms(1), of p] by (auto simp: GetProperty_def)
qed

theorem load_round_trip_witness:
  "\<exists>p'. Load no_properties (Some (render_file [(''recordcount'', ''1000''), (''fieldcount'', ''10'')])) = Inr p'
     \<and> GetProperty p' ''fieldcount'' ''0'' = ''10''"
proof -
  have "\<forall>kv \<in> set [(''recordcount'', ''1000''), (''fieldcount'', ''10'')]. clean_entry kv"
    by (simp add: clean_entry_def clean_text_def isspace_def)
  from load_round_trip [OF this, of no_properties "''0''"] show ?thesis by auto
qed

text \<open>Settings take effect in the order of the command line: a \<^verbatim>\<open>-p\<close> setting is in force exactly when no later \<^verbatim>\<open>-P\<close> file sets the
  same key, because a file loaded after it overrides it.\<close>

theorem later_argument_wins:
  assumes "\<forall>kv \<in> set kvs. clean_entry kv" and "fs f = Some (render_file kvs)"
    and "clean_text k" and "clean_text v" and "CHR ''='' \<notin> set k"
  shows "map_sum id (\<lambda>p. GetProperty p k d)
           (ParseCommandLine fs [''-p'', k @ ''='' @ v, ''-P'', f] props)
         = Inr (case map_of (rev kvs) k of None \<Rightarrow> v | Some w \<Rightarrow> w)
       \<and> map_sum id (\<lambda>p. GetProperty p k d)
           (ParseCommandLine fs [''-P'', f, ''-p'', k @ ''='' @ v] props) = Inr v"
proof (intro conjI)
  have tr: "Trim k = k" "Trim v = v" using assms(3,4) by (auto simp: clean_text_def intro!: Trim_id)
  have sp: "split_eq (k @ CHR ''='' # v) = Some (k, v)" by (rule split_eq_append [OF assms(5)])
  show "map_sum id (\<lambda>p. GetProperty p k d)
           (ParseCommandLine fs [''-p'', k @ ''='' @ v, ''-P'', f] props)
         = Inr (case map_of (rev kvs) k of None \<Rightarrow> v | Some w \<Rightarrow> w)"
    using Load_rendered [OF assms(1)] assms(2)
    by (simp add: ParseCommandLine_def StrStartWith_def sp tr properties.find_store_all GetProperty_def
        properties.find_store split: option.splits)
  show "map_sum id (\<lambda>p. GetProperty p k d)
           (ParseCommandLine fs [''-P'', f, ''-p'', k @ ''='' @ v] props) = Inr v"
    using Load_rendered [OF assms(1)] assms(2)
    by (simp add: ParseCommandLine_def StrStartWith_def sp tr GetProperty_def properties.find_store)
qed

theorem later_argument_wins_witness:
  "map_sum id (\<lambda>p. GetProperty p ''a'' ''?'')
     (ParseCommandLine (\<lambda>_. Some (render_file [(''a'', ''2'')])) [''-p'', ''a'' @ ''='' @ ''1'', ''-P'', ''f''] no_properties)
     = Inr ''2''
   \<and> map_sum id (\<lambda>p. GetProperty p ''a'' ''?'')
     (ParseCommandLine (\<lambda>_. Some (render_file [(''a'', ''2'')])) [''-P'', ''f'', ''-p'', ''a'' @ ''='' @ ''1''] no_properties)
     = Inr ''1''"
proof -
  have c: "\<forall>kv \<in> set [(''a'', ''2'')]. clean_entry kv" "clean_text ''a''" "clean_text ''1''"
    by (simp_all add: clean_entry_def clean_text_def isspace_def)
  let ?fs = "\<lambda>_ :: string. Some (render_file [(''a'', ''2'')])"
  show ?thesis
    using later_argument_wins [OF c(1), of ?fs "''f''", OF refl c(2,3), of "''?''" no_properties] by simp
qed

end
