(* ===== verification/Sync.thy ===== *)
theory Sync
  imports Prelude
begin

text \<open>
  The synchronisation and pacing helpers of \<^verbatim>\<open>src/utils\<close>: \<^verbatim>\<open>countdown_latch.h\<close>, \<^verbatim>\<open>rate_limit.h\<close> and
  \<^verbatim>\<open>timer.h\<close>. Times are integers, in nanoseconds, and are arguments of the operations that read a
  clock. The signed 64-bit arithmetic of the rate limiter is checked: an overflow is \<open>Undefined\<close>.
\<close>

section \<open>Count-down latch\<close>

record CountDownLatch =
  cdl_count :: int

definition new_CountDownLatch :: "int \<Rightarrow> CountDownLatch" where
  "new_CountDownLatch count = \<lparr>cdl_count = count\<rparr>"

text \<open>The predicate that \<^verbatim>\<open>Await\<close>, \<^verbatim>\<open>AwaitFor\<close> and \<^verbatim>\<open>AwaitForUs\<close> wait for.\<close>

definition latch_open :: "CountDownLatch \<Rightarrow> bool" where
  "latch_open l \<longleftrightarrow> cdl_count l \<le> 0"

text \<open>\<open>CountDown\<close> returns the latch and whether it called \<^verbatim>\<open>notify_all\<close>.\<close>

definition CountDown :: "CountDownLatch \<Rightarrow> CountDownLatch \<times> bool" where
  "CountDown l = (let l' = l\<lparr>cdl_count := cdl_count l - 1\<rparr> in (l', cdl_count l' \<le> 0))"

text \<open>
  \<^verbatim>\<open>AwaitFor(timeout)\<close>: \<open>hist\<close> gives the latch at each instant from the call on; the wait ends when the
  latch opens or the timeout has passed, and returns the predicate at that instant.
\<close>

fun AwaitFor :: "(nat \<Rightarrow> CountDownLatch) \<Rightarrow> nat \<Rightarrow> nat \<Rightarrow> bool" where
  "AwaitFor hist t 0 = latch_open (hist t)"
| "AwaitFor hist t (Suc timeout) = (if latch_open (hist t) then True else AwaitFor hist (Suc t) timeout)"

fun count_downs :: "nat \<Rightarrow> CountDownLatch \<Rightarrow> CountDownLatch" where
  "count_downs 0 l = l"
| "count_downs (Suc k) l = count_downs k (fst (CountDown l))"

lemma count_downs_count: "cdl_count (count_downs k l) = cdl_count l - int k"
  by (induction k arbitrary: l) (simp_all add: CountDown_def Let_def)

lemma AwaitFor_iff: "AwaitFor hist t d \<longleftrightarrow> (\<exists>k \<le> d. latch_open (hist (t + k)))"
proof (induction d arbitrary: t)
  case (Suc d)
  have "(\<exists>k \<le> Suc d. latch_open (hist (t + k))) \<longleftrightarrow>
      latch_open (hist t) \<or> (\<exists>k \<le> d. latch_open (hist (Suc t + k)))"
    by (metis Suc_le_mono add.right_neutral add_Suc_right add_Suc_shift not0_implies_Suc zero_le)
  with Suc show ?case by simp
qed simp

section \<open>Token-bucket rate limiter\<close>

definition TOKEN_PRECISION :: int where
  "TOKEN_PRECISION = 10000"

record RateLimiter =
  rl_r :: int
  rl_b :: int
  rl_tokens :: int
  rl_last :: int

text \<open>A signed 64-bit result, or undefined behaviour when it does not fit.\<close>

definition s64 :: "int \<Rightarrow> int res" where
  "s64 x = (if int64_ok x then Inr x else Inl (Undefined ''signed overflow''))"

definition new_RateLimiter :: "int \<Rightarrow> int \<Rightarrow> int \<Rightarrow> RateLimiter res" where
  "new_RateLimiter r b now =
     andThen (s64 (r * TOKEN_PRECISION)) (\<lambda>r'.
     andThen (s64 (b * TOKEN_PRECISION)) (\<lambda>b'.
     Inr \<lparr>rl_r = r', rl_b = b', rl_tokens = 0, rl_last = now\<rparr>))"

text \<open>
  \<open>Consume(n)\<close> at time \<open>now\<close>: the new state, and the nanoseconds the caller then sleeps.
\<close>

definition Consume :: "int \<Rightarrow> int \<Rightarrow> RateLimiter \<Rightarrow> (RateLimiter \<times> int) res" where
  "Consume n now l =
     (if rl_r l \<le> 0 then Inr (l, 0)
      else
        andThen (s64 (now - rl_last l)) (\<lambda>diff.
        andThen (s64 (diff * rl_r l)) (\<lambda>p.
        andThen (s64 (rl_tokens l + cdiv p 1000000000)) (\<lambda>refilled.
        let l = l\<lparr>rl_tokens := min (rl_b l) refilled, rl_last := now\<rparr> in
        andThen (s64 (n * TOKEN_PRECISION)) (\<lambda>c.
        andThen (s64 (rl_tokens l - c)) (\<lambda>tokens.
        let l = l\<lparr>rl_tokens := tokens\<rparr> in
        if tokens < 0
        then andThen (s64 (- tokens * 1000000000)) (\<lambda>q. Inr (l, cdiv q (rl_r l)))
        else Inr (l, 0)))))))"

definition SetRate :: "int \<Rightarrow> int \<Rightarrow> RateLimiter \<Rightarrow> RateLimiter res" where
  "SetRate r now l =
     andThen (s64 (now - rl_last l)) (\<lambda>diff.
     andThen (s64 (diff * rl_r l)) (\<lambda>p.
     andThen (s64 (p * TOKEN_PRECISION)) (\<lambda>q.
     andThen (s64 (rl_tokens l + cdiv q 1000000000)) (\<lambda>refilled.
     andThen (s64 (r * TOKEN_PRECISION)) (\<lambda>r'.
     Inr (l\<lparr>rl_tokens := min (rl_b l) refilled, rl_last := now, rl_r := r'\<rparr>))))))"

text \<open>
  A client that consumes one token per operation: it calls \<open>Consume(1)\<close> at the times of the list
  and sleeps as told, so each call comes no earlier than the previous one plus its sleep.
\<close>

fun paced_run :: "RateLimiter \<Rightarrow> int \<Rightarrow> int list \<Rightarrow> RateLimiter res" where
  "paced_run l earliest [] = Inr l"
| "paced_run l earliest (now # ts) =
     (if now < earliest then Inl (Exception ''call during the sleep'')
      else andThen (Consume 1 now l) (\<lambda>(l', wait). paced_run l' (now + wait) ts))"

lemma div_mult_upper: "0 < (d :: int) \<Longrightarrow> d * (x div d) \<le> x"
  using mult_div_mod_eq [of d x] pos_mod_sign [of d x] by linarith

lemma div_mult_lower: "0 < (d :: int) \<Longrightarrow> x - d < d * (x div d)"
  using mult_div_mod_eq [of d x] pos_mod_bound [of d x] by linarith

lemma s64_Inr [res_simps]: "s64 x = Inr y \<longleftrightarrow> int64_ok x \<and> y = x"
  by (auto simp: s64_def)

text \<open>What a successful \<open>Consume\<close> with a positive rate computed.\<close>

lemma Consume_InrD:
  assumes "Consume n now l = Inr (l', wait)" and "0 < rl_r l" and "rl_last l \<le> now"
  defines "refilled \<equiv> min (rl_b l) (rl_tokens l + (now - rl_last l) * rl_r l div 1000000000)"
  shows "l' = l\<lparr>rl_tokens := refilled - n * TOKEN_PRECISION, rl_last := now\<rparr>"
    and "wait = (if rl_tokens l' < 0 then (- rl_tokens l' * 1000000000) div rl_r l else 0)"
  using assms by (auto simp: Consume_def Let_def res_simps split: if_splits)

lemma Consume_total:
  assumes "0 \<le> now - rl_last l" and "(now - rl_last l) * rl_r l < 2 ^ 62" and "now - rl_last l < 2 ^ 62"
    and "\<bar>rl_tokens l\<bar> < 2 ^ 32" and "0 \<le> rl_b l" and "rl_b l < 2 ^ 32"
  shows "\<exists>l' wait. Consume 1 now l = Inr (l', wait)"
proof (cases "rl_r l \<le> 0")
  case True
  then show ?thesis by (simp add: Consume_def)
next
  case False
  define p where "p = (now - rl_last l) * rl_r l"
  have p: "0 \<le> p" "p < 2 ^ 62" using assms False by (auto simp: p_def)
  define q where "q = p div 1000000000"
  have q: "0 \<le> q" using p by (simp add: q_def pos_imp_zdiv_nonneg_iff)
  then have "q \<le> p" using div_mult_upper [of 1000000000 p] by (simp add: q_def)
  with q have q: "0 \<le> q" "q \<le> p" by auto
  define t where "t = min (rl_b l) (rl_tokens l + q) - TOKEN_PRECISION"
  have t: "- (2 ^ 32) - 10000 \<le> t" "t < 2 ^ 32" "int64_ok t" "int64_ok (- t * 1000000000)"
    using assms q by (auto simp: t_def TOKEN_PRECISION_def int64_ok_def min_def)
  show ?thesis
    using assms p q t False
    by (simp add: Consume_def Let_def s64_def int64_ok_def TOKEN_PRECISION_def
        flip: p_def q_def t_def) (auto simp: t_def TOKEN_PRECISION_def min_def)
qed

text \<open>
  What holds between the calls of a paced client: the debt of the bucket is covered by the
  time until the earliest next call, up to the two truncating divisions.
\<close>

definition pace_inv :: "RateLimiter \<Rightarrow> int \<Rightarrow> bool" where
  "pace_inv l earliest \<longleftrightarrow> 0 < rl_r l \<and> 0 \<le> rl_b l \<and> rl_last l \<le> earliest \<and>
     (rl_tokens l < 0 \<longrightarrow> - rl_tokens l * 1000000000 - rl_r l < (earliest - rl_last l) * rl_r l)"

lemma paced_step:
  assumes c: "Consume 1 now l = Inr (l', wait)" and inv: "pace_inv l earliest" and "earliest \<le> now"
  shows "pace_inv l' (now + wait)" and "rl_last l' = now" and "rl_r l' = rl_r l"
    and "1000000000 * (rl_tokens l' + TOKEN_PRECISION) \<le> 1000000000 * rl_tokens l + rl_r l * (now - rl_last l)"
    and "- rl_r l - 1000000000 * (TOKEN_PRECISION + 1) \<le> 1000000000 * rl_tokens l'"
proof -
  have r: "0 < rl_r l" "rl_last l \<le> now" "0 \<le> rl_b l"
    using assms by (auto simp: pace_inv_def)
  define q where "q = (now - rl_last l) * rl_r l div 1000000000"
  define m where "m = min (rl_b l) (rl_tokens l + q)"
  note D = Consume_InrD [OF c r(1,2), folded q_def, folded m_def]
  have l': "rl_tokens l' = m - TOKEN_PRECISION" "rl_last l' = now" "rl_r l' = rl_r l" "rl_b l' = rl_b l"
    using D(1) by simp_all
  have q_le: "1000000000 * q \<le> (now - rl_last l) * rl_r l"
    and q_ge: "(now - rl_last l) * rl_r l - 1000000000 < 1000000000 * q"
    unfolding q_def by (rule div_mult_upper, simp) (rule div_mult_lower, simp)
  have "0 \<le> q" using r by (simp add: q_def pos_imp_zdiv_nonneg_iff)
  have "(earliest - rl_last l) * rl_r l \<le> (now - rl_last l) * rl_r l"
    using r assms(3) by (intro mult_right_mono) auto
  moreover have "rl_tokens l < 0 \<longrightarrow> - rl_tokens l * 1000000000 - rl_r l < (earliest - rl_last l) * rl_r l"
    using inv by (simp add: pace_inv_def)
  ultimately have "rl_tokens l < 0 \<longrightarrow> - rl_r l - 1000000000 < 1000000000 * (rl_tokens l + q)"
    using q_ge by (cases "rl_tokens l < 0") (simp_all add: left_diff_distrib)
  with \<open>0 \<le> q\<close> r have "- rl_r l - 1000000000 < 1000000000 * (rl_tokens l + q)" by (cases "rl_tokens l < 0") simp_all
  then have "- rl_r l - 1000000000 \<le> 1000000000 * m" using r by (auto simp: m_def min_def)
  then show "- rl_r l - 1000000000 * (TOKEN_PRECISION + 1) \<le> 1000000000 * rl_tokens l'"
    by (simp add: l')
  have "1000000000 * m \<le> 1000000000 * rl_tokens l + (now - rl_last l) * rl_r l"
    using q_le by (auto simp: m_def min_def)
  then show "1000000000 * (rl_tokens l' + TOKEN_PRECISION) \<le> 1000000000 * rl_tokens l + rl_r l * (now - rl_last l)"
    by (simp add: l' mult.commute)
  have w: "- rl_tokens l' * 1000000000 - rl_r l < wait * rl_r l" if "rl_tokens l' < 0"
    using D(2) that div_mult_lower [OF r(1), of "- rl_tokens l' * 1000000000"] by (simp add: mult.commute)
  have "0 \<le> wait" using D(2) r by (auto simp: pos_imp_zdiv_nonneg_iff)
  with w r show "pace_inv l' (now + wait)" by (simp add: pace_inv_def l'(2-4))
qed (use Consume_InrD [OF c] assms in \<open>auto simp: pace_inv_def\<close>)

lemma paced_run_bound:
  assumes "paced_run l earliest ts = Inr l'" and "pace_inv l earliest"
  shows "1000000000 * (rl_tokens l' + int (length ts) * TOKEN_PRECISION)
           \<le> 1000000000 * rl_tokens l + rl_r l * (rl_last l' - rl_last l)
         \<and> (ts \<noteq> [] \<longrightarrow> - rl_r l - 1000000000 * (TOKEN_PRECISION + 1) \<le> 1000000000 * rl_tokens l')
         \<and> rl_last l' = last (rl_last l # ts)"
  using assms
proof (induction l earliest ts rule: paced_run.induct)
  case (2 l earliest now ts)
  from "2.prems" obtain m wait where now: "\<not> now < earliest" and m: "Consume 1 now l = Inr (m, wait)"
    and rest: "paced_run m (now + wait) ts = Inr l'"
    by (auto simp: res_simps split: if_splits)
  note s = paced_step [OF m "2.prems"(2)]
  have IH: "1000000000 * (rl_tokens l' + int (length ts) * TOKEN_PRECISION)
           \<le> 1000000000 * rl_tokens m + rl_r m * (rl_last l' - rl_last m)
         \<and> (ts \<noteq> [] \<longrightarrow> - rl_r m - 1000000000 * (TOKEN_PRECISION + 1) \<le> 1000000000 * rl_tokens l')
         \<and> rl_last l' = last (rl_last m # ts)"
    using "2.IH" [OF now rest] s(1) now unfolding not_less by blast
  show ?case
  proof (cases "ts = []")
    case True
    then show ?thesis using rest s now by (auto simp: algebra_simps)
  next
    case False
    then show ?thesis using IH s now by (auto simp: algebra_simps)
  qed
qed simp

section \<open>Timer\<close>

text \<open>\<^verbatim>\<open>Timer<uint64_t, std::nano>\<close>, the instance of \<^verbatim>\<open>db_wrapper.h\<close>; times in nanoseconds.\<close>

record Timer =
  tm_time :: int

definition Timer_Start :: "int \<Rightarrow> Timer" where
  "Timer_Start now = \<lparr>tm_time = now\<rparr>"

definition Timer_End :: "int \<Rightarrow> Timer \<Rightarrow> u64" where
  "Timer_End now t = word_of_int (now - tm_time t)"

section \<open>Properties\<close>

text \<open>C25: The token bucket keeps its promise: a client that calls \<^verbatim>\<open>Consume(1)\<close> before each operation, and sleeps as told, has
  started at most \<open>rate * elapsed + 1\<close> operations (plus one precision step and one nanosecond of rate for the two truncating
  divisions), at every call, for every rate and every sequence of call times.\<close>

theorem rate_limit_bound:
  assumes "new_RateLimiter rate b t0 = Inr l" and "0 < rate" and "0 \<le> b"
    and "paced_run l t0 ts = Inr l'" and "ts \<noteq> []"
  shows "1000000000 * TOKEN_PRECISION * int (length ts)
     \<le> rate * TOKEN_PRECISION * (last ts - t0) + 1000000000 * (TOKEN_PRECISION + 1) + rate * TOKEN_PRECISION"
proof -
  have l: "l = \<lparr>rl_r = rate * TOKEN_PRECISION, rl_b = b * TOKEN_PRECISION, rl_tokens = 0, rl_last = t0\<rparr>"
    using assms(1) by (auto simp: new_RateLimiter_def res_simps)
  then have "pace_inv l t0" using assms(2,3) by (simp add: pace_inv_def TOKEN_PRECISION_def)
  from paced_run_bound [OF assms(4) this] assms(5) show ?thesis
    by (auto simp: l algebra_simps)
qed

lemma paced_example:
  "new_RateLimiter 1000 10 0 = Inr \<lparr>rl_r = 10000000, rl_b = 100000, rl_tokens = 0, rl_last = 0\<rparr>"
  "paced_run \<lparr>rl_r = 10000000, rl_b = 100000, rl_tokens = 0, rl_last = 0\<rparr> 0 [0, 1000000] =
     Inr \<lparr>rl_r = 10000000, rl_b = 100000, rl_tokens = - 10000, rl_last = 1000000\<rparr>"
  by (simp_all add: new_RateLimiter_def s64_def int64_ok_def TOKEN_PRECISION_def Consume_def Let_def cdiv_def)

theorem rate_limit_bound_witness:
  "1000000000 * TOKEN_PRECISION * int (length [0, 1000000 :: int])
     \<le> 1000 * TOKEN_PRECISION * (last [0, 1000000] - 0) + 1000000000 * (TOKEN_PRECISION + 1) + 1000 * TOKEN_PRECISION"
  by (rule rate_limit_bound [OF paced_example(1) _ _ paced_example(2)]) simp_all

text \<open>\<^verbatim>\<open>Consume\<close> and \<^verbatim>\<open>SetRate\<close> disagree about the unit of \<^verbatim>\<open>r_\<close>, which already carries the precision factor: in the same
  state and after the same idle time, \<^verbatim>\<open>Consume(0)\<close> credits one token for a millisecond at 1000 operations per second, and
  \<^verbatim>\<open>SetRate\<close> credits ten thousand times as many.\<close>

theorem set_rate_scales_twice:
  "map_sum id (rl_tokens \<circ> fst) (Consume 0 1000000 \<lparr>rl_r = 10000000, rl_b = 2 ^ 40, rl_tokens = 0, rl_last = 0\<rparr>)
     = Inr (1 * TOKEN_PRECISION)
   \<and> map_sum id rl_tokens (SetRate 1000 1000000 \<lparr>rl_r = 10000000, rl_b = 2 ^ 40, rl_tokens = 0, rl_last = 0\<rparr>)
     = Inr (10000 * TOKEN_PRECISION)"
  by (simp add: Consume_def SetRate_def s64_def int64_ok_def TOKEN_PRECISION_def Let_def cdiv_def)

text \<open>A latch created for \<open>n\<close> client threads is closed as long as fewer than \<open>n\<close> of them have counted down, is open from the
  \<open>n\<close>-th \<^verbatim>\<open>CountDown\<close> on, and each of these calls wakes the waiting threads, so no wake-up is lost; a waiter with a timeout
  returns true exactly when the latch opens before its time is up.\<close>

theorem latch_opens_after_n:
  assumes "0 < n"
  shows "(latch_open (count_downs k (new_CountDownLatch (int n))) \<longleftrightarrow> n \<le> k)
     \<and> (snd (CountDown (count_downs k (new_CountDownLatch (int n)))) \<longleftrightarrow> n \<le> Suc k)
     \<and> (AwaitFor (\<lambda>t. count_downs (f t) (new_CountDownLatch (int n))) t d \<longleftrightarrow> (\<exists>i \<le> d. n \<le> f (t + i)))"
  using assms by (auto simp: latch_open_def count_downs_count new_CountDownLatch_def CountDown_def Let_def AwaitFor_iff)

theorem latch_opens_after_n_witness:
  "\<not> latch_open (count_downs 2 (new_CountDownLatch (int 3))) \<and> latch_open (count_downs 3 (new_CountDownLatch (int 3)))
   \<and> AwaitFor (\<lambda>t. count_downs t (new_CountDownLatch (int 3))) 0 5"
  using latch_opens_after_n [of 3 2 id 0 5] latch_opens_after_n [of 3 3 id 0 5] by auto

end
