(* ===== verification/DB_Layer.thy ===== *)
theory DB_Layer
  imports Props Sync
begin

text \<open>
  The database interface and its generic implementations: \<^verbatim>\<open>src/core/db.h\<close> (the abstract class \<^verbatim>\<open>DB\<close>),
  \<^verbatim>\<open>measurements.h/.cc\<close>, \<^verbatim>\<open>basic_db.h/.cc\<close>, \<^verbatim>\<open>db_wrapper.h\<close> and \<^verbatim>\<open>db_factory.h/.cc\<close>.

  A class derived from \<^verbatim>\<open>DB\<close> is a record of its virtual functions (\<open>'d DB\<close>) over the type \<open>'d\<close> of its
  members. An output parameter \<^verbatim>\<open>result\<close>, which callers pass empty, is part of the returned value.
\<close>

section \<open>The interface\<close>

datatype Status = kOK | kError | kNotFound | kNotImplemented

type_synonym Field = "string \<times> string"

record 'd DB =
  db_Init :: "'d \<Rightarrow> (unit \<times> 'd) res"
  db_Cleanup :: "'d \<Rightarrow> (unit \<times> 'd) res"
  db_Read :: "string \<Rightarrow> string \<Rightarrow> string list option \<Rightarrow> 'd \<Rightarrow> ((Status \<times> Field list) \<times> 'd) res"
  db_Scan :: "string \<Rightarrow> string \<Rightarrow> int \<Rightarrow> string list option \<Rightarrow> 'd \<Rightarrow> ((Status \<times> Field list list) \<times> 'd) res"
  db_Update :: "string \<Rightarrow> string \<Rightarrow> Field list \<Rightarrow> 'd \<Rightarrow> (Status \<times> 'd) res"
  db_Insert :: "string \<Rightarrow> string \<Rightarrow> Field list \<Rightarrow> 'd \<Rightarrow> (Status \<times> 'd) res"
  db_Delete :: "string \<Rightarrow> string \<Rightarrow> 'd \<Rightarrow> (Status \<times> 'd) res"
  db_ReadIdx :: "u64 \<Rightarrow> 'd \<Rightarrow> ((Status \<times> string) \<times> 'd) res"
  db_ReInitBeforeTransaction :: bool
  db_SetProps :: "Properties \<Rightarrow> 'd \<Rightarrow> 'd"

section \<open>Operations (core\_workload.h, core\_workload.cc)\<close>

datatype Operation =
    INSERT | READ | UPDATE | SCAN | READMODIFYWRITE | DELETE | RDIDX
  | INSERT_FAILED | READ_FAILED | UPDATE_FAILED | SCAN_FAILED | READMODIFYWRITE_FAILED
  | DELETE_FAILED | RDIDX_FAILED

definition all_ops :: "Operation list" where
  "all_ops = [INSERT, READ, UPDATE, SCAN, READMODIFYWRITE, DELETE, RDIDX,
     INSERT_FAILED, READ_FAILED, UPDATE_FAILED, SCAN_FAILED, READMODIFYWRITE_FAILED,
     DELETE_FAILED, RDIDX_FAILED]"

fun op_index :: "Operation \<Rightarrow> nat" where
  "op_index INSERT = 0"
| "op_index READ = 1"
| "op_index UPDATE = 2"
| "op_index SCAN = 3"
| "op_index READMODIFYWRITE = 4"
| "op_index DELETE = 5"
| "op_index RDIDX = 6"
| "op_index INSERT_FAILED = 7"
| "op_index READ_FAILED = 8"
| "op_index UPDATE_FAILED = 9"
| "op_index SCAN_FAILED = 10"
| "op_index READMODIFYWRITE_FAILED = 11"
| "op_index DELETE_FAILED = 12"
| "op_index RDIDX_FAILED = 13"

lemma op_index_inject [simp]: "op_index a = op_index b \<longleftrightarrow> a = b"
  by (cases a; cases b) simp_all

instantiation Operation :: linorder
begin

definition less_eq_Operation :: "Operation \<Rightarrow> Operation \<Rightarrow> bool" where
  "less_eq_Operation a b \<longleftrightarrow> op_index a \<le> op_index b"

definition less_Operation :: "Operation \<Rightarrow> Operation \<Rightarrow> bool" where
  "less_Operation a b \<longleftrightarrow> op_index a < op_index b"

instance
  by standard (auto simp: less_eq_Operation_def less_Operation_def)

end

lemma all_ops_sorted: "sorted all_ops" "distinct all_ops" "set all_ops = UNIV"
proof -
  show "sorted all_ops" "distinct all_ops" by (simp_all add: all_ops_def less_eq_Operation_def)
  have "op \<in> set all_ops" for op by (cases op) (simp_all add: all_ops_def)
  then show "set all_ops = UNIV" by blast
qed

fun kOperationString :: "Operation \<Rightarrow> string" where
  "kOperationString INSERT = ''INSERT''"
| "kOperationString READ = ''READ''"
| "kOperationString UPDATE = ''UPDATE''"
| "kOperationString SCAN = ''SCAN''"
| "kOperationString READMODIFYWRITE = ''READMODIFYWRITE''"
| "kOperationString DELETE = ''DELETE''"
| "kOperationString RDIDX = ''RDIDX''"
| "kOperationString INSERT_FAILED = ''INSERT-FAILED''"
| "kOperationString READ_FAILED = ''READ-FAILED''"
| "kOperationString UPDATE_FAILED = ''UPDATE-FAILED''"
| "kOperationString SCAN_FAILED = ''SCAN-FAILED''"
| "kOperationString READMODIFYWRITE_FAILED = ''READMODIFYWRITE-FAILED''"
| "kOperationString DELETE_FAILED = ''DELETE-FAILED''"
| "kOperationString RDIDX_FAILED = ''RDIDX-FAILED''"

lemma kOperationString_inject: "kOperationString a = kOperationString b \<longleftrightarrow> a = b"
  by (cases a; cases b) simp_all

section \<open>Calls through the interface\<close>

text \<open>The calls a workload makes, and their results, as data.\<close>

datatype dbcall =
    CRead string string "string list option"
  | CScan string string int "string list option"
  | CUpdate string string "Field list"
  | CInsert string string "Field list"
  | CDelete string string
  | CReadIdx u64

datatype db_result =
    RStatus Status
  | RFields Status "Field list"
  | RRows Status "Field list list"
  | RData Status string

fun db_call :: "'d DB \<Rightarrow> dbcall \<Rightarrow> 'd \<Rightarrow> (db_result \<times> 'd) res" where
  "db_call db (CRead t k fs) d = map_sum id (apfst (\<lambda>(s, r). RFields s r)) (db_Read db t k fs d)"
| "db_call db (CScan t k n fs) d = map_sum id (apfst (\<lambda>(s, r). RRows s r)) (db_Scan db t k n fs d)"
| "db_call db (CUpdate t k vs) d = map_sum id (apfst RStatus) (db_Update db t k vs d)"
| "db_call db (CInsert t k vs) d = map_sum id (apfst RStatus) (db_Insert db t k vs d)"
| "db_call db (CDelete t k) d = map_sum id (apfst RStatus) (db_Delete db t k d)"
| "db_call db (CReadIdx i) d = map_sum id (apfst (\<lambda>(s, r). RData s r)) (db_ReadIdx db i d)"

fun db_calls :: "'d DB \<Rightarrow> dbcall list \<Rightarrow> 'd \<Rightarrow> (db_result list \<times> 'd) res" where
  "db_calls db [] d = Inr ([], d)"
| "db_calls db (c # cs) d =
     andThen (db_call db c d) (\<lambda>(r, d).
     andThen (db_calls db cs d) (\<lambda>(rs, d). Inr (r # rs, d)))"

lemma map_result_Inr: "map_sum id (apfst f) x = Inr (y, d) \<longleftrightarrow> (\<exists>z. x = Inr (z, d) \<and> f z = y)"
  by (cases x) auto

lemma map_state_Inr: "map_sum id (apsnd f) x = Inr (y, d) \<Longrightarrow> \<exists>d'. x = Inr (y, d')"
  by (cases x) auto

lemma db_calls_length: "db_calls db cs d = Inr (rs, d') \<Longrightarrow> length rs = length cs"
  by (induction cs arbitrary: d rs) (auto simp: res_simps)

fun result_status :: "db_result \<Rightarrow> Status" where
  "result_status (RStatus s) = s"
| "result_status (RFields s _) = s"
| "result_status (RRows s _) = s"
| "result_status (RData s _) = s"

text \<open>
  One database layer on top of another: \<open>impl\<close> returns what \<open>spec\<close> returns and changes the state
  \<open>absf\<close> sees as \<open>spec\<close> does.
\<close>

locale db_simulation =
  fixes impl :: "'c DB" and spec :: "'d DB" and absf :: "'c \<Rightarrow> 'd"
  assumes call_sim: "map_sum id (apsnd absf) (db_call impl c s) = db_call spec c (absf s)"
begin

lemma calls_sim: "map_sum id (apsnd absf) (db_calls impl cs s) = db_calls spec cs (absf s)"
proof (induction cs arbitrary: s)
  case (Cons c cs)
  show ?case
  proof (cases "db_call impl c s")
    case (Inl e)
    then have "db_call spec c (absf s) = Inl e" using call_sim [of c s] by simp
    with Inl show ?thesis by simp
  next
    case (Inr p)
    obtain r s' where p: "p = (r, s')" by (cases p)
    have "db_call spec c (absf s) = Inr (r, absf s')" using call_sim [of c s] Inr p by simp
    then show ?thesis
      using Inr p Cons.IH [of s', symmetric] by (cases "db_calls impl cs s'") (auto simp: split_beta)
  qed
qed simp

end

end
