(* ===== verification/Generators.thy ===== *)
theory Generators
  imports Utils
begin

text \<open>
  The value generators of \<^verbatim>\<open>src/core\<close> that do not depend on the Zipf distribution: constant,
  counter, uniform, sequential, discrete and random-byte generators. Each is a record of its
  fields, and \<^verbatim>\<open>Next\<close> returns the value and the updated generator; a random draw is an
  argument of \<^verbatim>\<open>Next\<close>.

  The locale \<open>generator\<close> is the contract of the abstract class \<^verbatim>\<open>Generator\<close> (generator.h):
  \<^verbatim>\<open>Last\<close> repeats what \<^verbatim>\<open>Next\<close> returned, and values stay in the generator's range. It is
  interpreted on every generator of this theory that keeps the contract.
\<close>

section \<open>The contract of a generator\<close>

locale generator =
  fixes nxt :: "'i \<Rightarrow> 'g \<Rightarrow> 'v \<times> 'g"
    and lst :: "'g \<Rightarrow> 'v"
    and adm :: "'g \<Rightarrow> 'i \<Rightarrow> bool"
    and inv :: "'g \<Rightarrow> bool"
    and ran :: "'g \<Rightarrow> 'v set"
  assumes last_next: "inv g \<Longrightarrow> adm g i \<Longrightarrow> lst (snd (nxt i g)) = fst (nxt i g)"
    and inv_next: "inv g \<Longrightarrow> adm g i \<Longrightarrow> inv (snd (nxt i g))"
    and next_ran: "inv g \<Longrightarrow> adm g i \<Longrightarrow> fst (nxt i g) \<in> ran g"
    and ran_next: "inv g \<Longrightarrow> adm g i \<Longrightarrow> ran (snd (nxt i g)) = ran g"
begin

fun draws :: "'g \<Rightarrow> 'i list \<Rightarrow> 'v list \<times> 'g" where
  "draws g [] = ([], g)"
| "draws g (i # is) = (let (v, g1) = nxt i g; (vs, g2) = draws g1 is in (v # vs, g2))"

fun adm_all :: "'g \<Rightarrow> 'i list \<Rightarrow> bool" where
  "adm_all g [] \<longleftrightarrow> True"
| "adm_all g (i # is) \<longleftrightarrow> adm g i \<and> adm_all (snd (nxt i g)) is"

lemma draws_ran:
  "inv g \<Longrightarrow> adm_all g is \<Longrightarrow>
     set (fst (draws g is)) \<subseteq> ran g \<and> length (fst (draws g is)) = length is
     \<and> inv (snd (draws g is)) \<and> ran (snd (draws g is)) = ran g"
proof (induction "is" arbitrary: g)
  case (Cons i "is")
  let ?g = "snd (nxt i g)"
  have adm: "adm g i" and inv': "inv ?g" and rest: "adm_all ?g is" and ran': "ran ?g = ran g"
    using Cons.prems inv_next ran_next by auto
  from Cons.IH [OF inv' rest] ran' next_ran [OF Cons.prems(1) adm]
  show ?case by (simp add: split_beta Let_def)
qed simp

lemma draws_last:
  "inv g \<Longrightarrow> adm_all g is \<Longrightarrow> is \<noteq> [] \<Longrightarrow> lst (snd (draws g is)) = last (fst (draws g is))"
proof (induction "is" arbitrary: g)
  case (Cons i "is")
  then show ?case
  proof (cases "is = []")
    case True
    with Cons.prems last_next show ?thesis by (simp add: split_beta Let_def)
  next
    case False
    with Cons.prems have "lst (snd (draws (snd (nxt i g)) is)) = last (fst (draws (snd (nxt i g)) is))"
      using inv_next by (intro Cons.IH) auto
    moreover have "fst (draws (snd (nxt i g)) is) \<noteq> []"
      using draws_ran [of "snd (nxt i g)" "is"] Cons.prems inv_next False by fastforce
    ultimately show ?thesis by (simp add: split_beta Let_def)
  qed
qed simp

end

section \<open>Constant generator (const\_generator.h)\<close>

record ConstGenerator =
  cg_constant :: u64

text \<open>The constructor takes an \<^verbatim>\<open>int\<close> and stores it in a \<^verbatim>\<open>uint64_t\<close>.\<close>

definition new_ConstGenerator :: "int \<Rightarrow> ConstGenerator" where
  "new_ConstGenerator constant = \<lparr>cg_constant = word_of_int constant\<rparr>"

definition ConstGenerator_Next :: "ConstGenerator \<Rightarrow> u64 \<times> ConstGenerator" where
  "ConstGenerator_Next g = (cg_constant g, g)"

definition ConstGenerator_Last :: "ConstGenerator \<Rightarrow> u64" where
  "ConstGenerator_Last g = cg_constant g"

interpretation const_gen: generator
  "\<lambda>_ :: unit. ConstGenerator_Next" ConstGenerator_Last "\<lambda>_ _. True" "\<lambda>_. True" "\<lambda>g. {cg_constant g}"
  by unfold_locales (simp_all add: ConstGenerator_Next_def ConstGenerator_Last_def)

section \<open>Counter generator (counter\_generator.h)\<close>

record CounterGenerator =
  cnt_counter :: u64

definition new_CounterGenerator :: "u64 \<Rightarrow> CounterGenerator" where
  "new_CounterGenerator start = \<lparr>cnt_counter = start\<rparr>"

text \<open>\<^verbatim>\<open>counter_.fetch_add(1)\<close> returns the value before the increment.\<close>

definition CounterGenerator_Next :: "CounterGenerator \<Rightarrow> u64 \<times> CounterGenerator" where
  "CounterGenerator_Next g = (cnt_counter g, g\<lparr>cnt_counter := cnt_counter g + 1\<rparr>)"

definition CounterGenerator_Last :: "CounterGenerator \<Rightarrow> u64" where
  "CounterGenerator_Last g = cnt_counter g - 1"

interpretation counter_gen: generator
  "\<lambda>_ :: unit. CounterGenerator_Next" CounterGenerator_Last "\<lambda>_ _. True" "\<lambda>_. True" "\<lambda>_. UNIV"
  by unfold_locales (simp_all add: CounterGenerator_Next_def CounterGenerator_Last_def)

section \<open>Uniform generator (uniform\_generator.h)\<close>

text \<open>
  The generator owns a default-seeded \<^verbatim>\<open>std::mt19937_64\<close>, whose state has type \<open>'e\<close>. The algorithm
  of \<^verbatim>\<open>std::uniform_int_distribution\<close> is left open by the standard: it is the parameter \<open>udist\<close>,
  and \<open>udist_ok\<close> is what the standard promises, a value between the two inclusive bounds.
\<close>

record 'e UniformGenerator =
  ug_generator :: 'e
  ug_min :: u64
  ug_max :: u64
  ug_last_int :: u64

type_synonym 'e int_dist = "u64 \<Rightarrow> u64 \<Rightarrow> 'e \<Rightarrow> u64 \<times> 'e"

definition udist_ok :: "'e int_dist \<Rightarrow> bool" where
  "udist_ok udist \<longleftrightarrow> (\<forall>a b e. a \<le> b \<longrightarrow> a \<le> fst (udist a b e) \<and> fst (udist a b e) \<le> b)"

definition UniformGenerator_Next :: "'e int_dist \<Rightarrow> 'e UniformGenerator \<Rightarrow> u64 \<times> 'e UniformGenerator" where
  "UniformGenerator_Next udist g =
     (let (v, e) = udist (ug_min g) (ug_max g) (ug_generator g)
      in (v, g\<lparr>ug_generator := e, ug_last_int := v\<rparr>))"

definition UniformGenerator_Last :: "'e UniformGenerator \<Rightarrow> u64" where
  "UniformGenerator_Last g = ug_last_int g"

text \<open>The constructor draws once; \<open>mt0\<close> is the default-seeded engine.\<close>

definition new_UniformGenerator :: "'e int_dist \<Rightarrow> 'e \<Rightarrow> u64 \<Rightarrow> u64 \<Rightarrow> 'e UniformGenerator" where
  "new_UniformGenerator udist mt0 mn mx =
     snd (UniformGenerator_Next udist \<lparr>ug_generator = mt0, ug_min = mn, ug_max = mx, ug_last_int = 0\<rparr>)"

interpretation uniform_gen: generator
  UniformGenerator_Next UniformGenerator_Last "\<lambda>_. udist_ok" "\<lambda>g. ug_min g \<le> ug_max g"
  "\<lambda>g. {ug_min g..ug_max g}"
  by unfold_locales
    (auto simp: UniformGenerator_Next_def UniformGenerator_Last_def udist_ok_def split_beta)

lemma new_UniformGenerator_bounds [simp]:
  "ug_min (new_UniformGenerator udist mt0 mn mx) = mn"
  "ug_max (new_UniformGenerator udist mt0 mn mx) = mx"
  by (simp_all add: new_UniformGenerator_def UniformGenerator_Next_def split_beta)

section \<open>Sequential generator (sequential\_generator.h)\<close>

record SequentialGenerator =
  sg_min :: u64
  sg_max :: u64

text \<open>The counter is a thread-local static, shared by all generators of a thread.\<close>

definition SequentialGenerator_Next :: "SequentialGenerator \<Rightarrow> tls \<Rightarrow> u64 \<times> tls" where
  "SequentialGenerator_Next g t =
     (let c = (if seq_counter t = 0 then sg_min g else seq_counter t);
          val = c;
          c = c + 1;
          c = (if c \<ge> sg_max g then sg_min g else c)
      in (val, t\<lparr>seq_counter := c\<rparr>))"

definition SequentialGenerator_Last :: "SequentialGenerator \<Rightarrow> u64" where
  "SequentialGenerator_Last g = 0"

text \<open>The counters a thread can hold between two calls.\<close>

definition seq_ok :: "SequentialGenerator \<Rightarrow> tls \<Rightarrow> bool" where
  "seq_ok g t \<longleftrightarrow> sg_min g < sg_max g
     \<and> (seq_counter t = 0 \<or> (sg_min g \<le> seq_counter t \<and> seq_counter t < sg_max g))"

definition seq_index :: "SequentialGenerator \<Rightarrow> tls \<Rightarrow> nat" where
  "seq_index g t = (if seq_counter t = 0 then 0 else unat (seq_counter t) - unat (sg_min g))"

lemma seq_step:
  assumes "seq_ok g t"
  shows "unat (fst (SequentialGenerator_Next g t)) = unat (sg_min g) + seq_index g t"
    and "seq_ok g (snd (SequentialGenerator_Next g t))"
    and "seq_index g (snd (SequentialGenerator_Next g t)) =
           (seq_index g t + 1) mod (unat (sg_max g) - unat (sg_min g))"
proof -
  let ?c = "if seq_counter t = 0 then sg_min g else seq_counter t"
  have c: "sg_min g \<le> ?c" "?c < sg_max g" using assms by (auto simp: seq_ok_def)
  have cn: "unat (sg_min g) \<le> unat ?c" "unat ?c < unat (sg_max g)"
    using c by (simp_all add: word_le_nat_alt word_less_nat_alt)
  have idx: "unat ?c = unat (sg_min g) + seq_index g t"
    using cn by (auto simp: seq_index_def)
  then show "unat (fst (SequentialGenerator_Next g t)) = unat (sg_min g) + seq_index g t"
    by (simp add: SequentialGenerator_Next_def Let_def)
  have suc: "unat (?c + 1) = unat ?c + 1"
    using c(2) by (rule unat_plus_one)
  have nz: "?c + 1 \<noteq> 0" using suc by (metis Suc_eq_plus1 nat.distinct(1) unat_0)
  show "seq_ok g (snd (SequentialGenerator_Next g t))"
    using assms c cn suc
    by (auto simp: SequentialGenerator_Next_def seq_ok_def Let_def word_le_nat_alt word_less_nat_alt)
  show "seq_index g (snd (SequentialGenerator_Next g t)) =
          (seq_index g t + 1) mod (unat (sg_max g) - unat (sg_min g))"
  proof (cases "sg_max g \<le> ?c + 1")
    case True
    then have "seq_index g t + 1 = unat (sg_max g) - unat (sg_min g)"
      using cn idx suc by (simp add: word_le_nat_alt)
    then show ?thesis using True
      by (simp add: SequentialGenerator_Next_def seq_index_def Let_def)
  next
    case False
    then have lt: "seq_index g t + 1 < unat (sg_max g) - unat (sg_min g)"
      using cn idx suc by (simp add: word_le_nat_alt)
    have "seq_index g (snd (SequentialGenerator_Next g t)) = unat (?c + 1) - unat (sg_min g)"
      using False nz by (simp add: SequentialGenerator_Next_def seq_index_def Let_def)
    then show ?thesis using lt idx suc by simp
  qed
qed

fun seq_draws :: "nat \<Rightarrow> SequentialGenerator \<Rightarrow> tls \<Rightarrow> u64 list" where
  "seq_draws 0 g t = []"
| "seq_draws (Suc n) g t =
     (let (v, t') = SequentialGenerator_Next g t in v # seq_draws n g t')"

lemma seq_draws_nth:
  assumes "seq_ok g t"
  shows "map unat (seq_draws n g t) =
     map (\<lambda>k. unat (sg_min g) + (seq_index g t + k) mod (unat (sg_max g) - unat (sg_min g))) [0..<n]"
  using assms
proof (induction n arbitrary: t)
  case (Suc n)
  let ?w = "unat (sg_max g) - unat (sg_min g)" and ?t = "snd (SequentialGenerator_Next g t)"
  have small: "seq_index g t mod ?w = seq_index g t"
    using Suc.prems by (auto simp: seq_index_def seq_ok_def word_le_nat_alt word_less_nat_alt)
  have "map unat (seq_draws n g ?t) =
      map (\<lambda>k. unat (sg_min g) + (seq_index g t + Suc k) mod ?w) [0..<n]"
    using Suc.IH [OF seq_step(2) [OF Suc.prems]] seq_step(3) [OF Suc.prems]
    by (simp add: mod_add_left_eq)
  moreover have "map f [0..<Suc n] = f 0 # map (\<lambda>k. f (Suc k)) [0..<n]" for f :: "nat \<Rightarrow> nat"
    by (subst upt_conv_Cons) (simp_all add: map_Suc_upt [symmetric] comp_def del: upt_Suc)
  ultimately show ?case
    using seq_step(1) [OF Suc.prems] small by (simp add: split_beta Let_def del: upt_Suc)
qed simp

section \<open>Properties\<close>

text \<open>The sequential generator of a thread whose counter is fresh walks through the half-open interval from \<^verbatim>\<open>min\<close> to \<^verbatim>\<open>max\<close> in order,
  again and again: the \<open>k\<close>-th of any number of calls returns \<open>min + k mod (max - min)\<close>; the upper bound itself is never returned.\<close>

theorem sequential_cycles:
  assumes "sg_min g < sg_max g" and "seq_counter t = 0"
  shows "map unat (seq_draws n g t) =
     map (\<lambda>k. unat (sg_min g) + k mod (unat (sg_max g) - unat (sg_min g))) [0..<n]"
  using seq_draws_nth [of g t n] assms by (simp add: seq_ok_def seq_index_def)

theorem sequential_cycles_witness:
  "map unat (seq_draws 4 \<lparr>sg_min = 5, sg_max = 8\<rparr> \<lparr>rn_int = 1, rn_double = 1, uniform_bounds = None, seq_counter = 0\<rparr>)
     = [5, 6, 7, 5]"
  using sequential_cycles [of "\<lparr>sg_min = 5, sg_max = 8\<rparr>"
      "\<lparr>rn_int = 1, rn_double = 1, uniform_bounds = None, seq_counter = 0\<rparr>" 4]
  by (simp add: upt_rec)

end
