(* ===== verification/Choosers.thy ===== *)
theory Choosers
  imports Generators
begin

text \<open>
  The discrete generator (\<^verbatim>\<open>src/core/discrete_generator.h\<close>), which picks one of a list of weighted
  values, and the random-byte generator (\<^verbatim>\<open>src/core/random_byte_generator.h\<close>), which fills field
  values. Weights are real numbers, so the lemmas on the discrete generator are about the exact
  arithmetic its code approximates in doubles.
\<close>

section \<open>Discrete generator\<close>

record 'v DiscreteGenerator =
  dg_values :: "('v \<times> real) list"
  dg_sum :: real
  dg_last :: 'v

text \<open>\<^verbatim>\<open>last_\<close> is an uninitialised atomic until the first \<^verbatim>\<open>AddValue\<close>: its first content is an argument.\<close>

definition new_DiscreteGenerator :: "'v \<Rightarrow> 'v DiscreteGenerator" where
  "new_DiscreteGenerator garbage = \<lparr>dg_values = [], dg_sum = 0, dg_last = garbage\<rparr>"

definition DiscreteGenerator_AddValue :: "'v DiscreteGenerator \<Rightarrow> 'v \<Rightarrow> real \<Rightarrow> 'v DiscreteGenerator" where
  "DiscreteGenerator_AddValue g value weight =
     (let g = (if dg_values g = [] then g\<lparr>dg_last := value\<rparr> else g)
      in g\<lparr>dg_values := dg_values g @ [(value, weight)], dg_sum := dg_sum g + weight\<rparr>)"

fun discrete_scan :: "('v \<times> real) list \<Rightarrow> real \<Rightarrow> real \<Rightarrow> 'v option" where
  "discrete_scan [] sm chooser = None"
| "discrete_scan (p # ps) sm chooser =
     (if chooser < snd p / sm then Some (fst p) else discrete_scan ps sm (chooser - snd p / sm))"

text \<open>\<^verbatim>\<open>Next\<close>, with \<open>u\<close> the value of \<^verbatim>\<open>ThreadLocalRandomDouble()\<close>.\<close>

definition DiscreteGenerator_Next ::
    "bool \<Rightarrow> real \<Rightarrow> 'v DiscreteGenerator \<Rightarrow> ('v \<times> 'v DiscreteGenerator) res" where
  "DiscreteGenerator_Next ndebug u g =
     (case discrete_scan (dg_values g) (dg_sum g) u of
        Some v \<Rightarrow> Inr (v, g\<lparr>dg_last := v\<rparr>)
      | None \<Rightarrow> andThen (assert_that ndebug False ''false'') (\<lambda>_. Inr (dg_last g, g)))"

definition DiscreteGenerator_Last :: "'v DiscreteGenerator \<Rightarrow> 'v" where
  "DiscreteGenerator_Last g = dg_last g"

text \<open>The invariant that \<open>AddValue\<close> with positive weights keeps.\<close>

definition discrete_inv :: "'v DiscreteGenerator \<Rightarrow> bool" where
  "discrete_inv g \<longleftrightarrow> (\<forall>p \<in> set (dg_values g). 0 < snd p) \<and> dg_sum g = sum_list (map snd (dg_values g))"

lemma discrete_inv_new: "discrete_inv (new_DiscreteGenerator x)"
  by (simp add: discrete_inv_def new_DiscreteGenerator_def)

lemma discrete_inv_AddValue:
  "discrete_inv g \<Longrightarrow> 0 < w \<Longrightarrow> discrete_inv (DiscreteGenerator_AddValue g v w)"
  by (auto simp: discrete_inv_def DiscreteGenerator_AddValue_def Let_def)

lemma AddValue_values [simp]:
  "dg_values (DiscreteGenerator_AddValue g v w) = dg_values g @ [(v, w)]"
  by (simp add: DiscreteGenerator_AddValue_def Let_def)

text \<open>
  The scan stops at the value whose interval of the cumulative distribution holds the draw.
\<close>

lemma discrete_scan_interval:
  assumes "0 < sm" and "\<forall>p \<in> set ps. 0 < snd p" and "0 \<le> c" and "c * sm < sum_list (map snd ps)"
  shows "\<exists>i < length ps. discrete_scan ps sm c = Some (fst (ps ! i))
           \<and> sum_list (map snd (take i ps)) \<le> c * sm \<and> c * sm < sum_list (map snd (take (Suc i) ps))"
  using assms(2-4)
proof (induction ps arbitrary: c)
  case (Cons p ps)
  show ?case
  proof (cases "c < snd p / sm")
    case True
    then have "c * sm < snd p" using assms(1) by (simp add: pos_less_divide_eq)
    with True Cons.prems assms(1) show ?thesis by (intro exI [of _ 0]) simp
  next
    case False
    let ?c = "c - snd p / sm"
    have c: "?c * sm = c * sm - snd p" using assms(1) by (simp add: field_simps)
    have "\<exists>i < length ps. discrete_scan ps sm ?c = Some (fst (ps ! i))
        \<and> sum_list (map snd (take i ps)) \<le> ?c * sm \<and> ?c * sm < sum_list (map snd (take (Suc i) ps))"
      using Cons.prems False c by (intro Cons.IH) auto
    then obtain i where i: "i < length ps" "discrete_scan ps sm ?c = Some (fst (ps ! i))"
      "sum_list (map snd (take i ps)) \<le> ?c * sm" "?c * sm < sum_list (map snd (take (Suc i) ps))"
      by blast
    with False c show ?thesis
      by (intro exI [of _ "Suc i"]) (auto simp: take_Suc_Cons)
  qed
next
  case Nil
  then have "0 \<le> c * sm" using assms(1) by (simp add: mult_nonneg_nonneg)
  with Nil show ?case by simp
qed

lemma sum_list_pos: "ws \<noteq> [] \<Longrightarrow> \<forall>w \<in> set ws. 0 < w \<Longrightarrow> 0 < sum_list (ws :: real list)"
proof (induction ws)
  case (Cons w ws)
  then show ?case by (cases "ws = []") (auto intro: add_pos_pos)
qed simp

lemma discrete_Next_interval:
  assumes "discrete_inv g" and "dg_values g \<noteq> []" and "0 \<le> u" and "u < 1"
  obtains i where "i < length (dg_values g)"
    and "DiscreteGenerator_Next ndebug u g =
           Inr (fst (dg_values g ! i), g\<lparr>dg_last := fst (dg_values g ! i)\<rparr>)"
    and "sum_list (map snd (take i (dg_values g))) \<le> u * dg_sum g"
    and "u * dg_sum g < sum_list (map snd (take (Suc i) (dg_values g)))"
proof -
  have pos: "0 < dg_sum g"
    using assms(1,2) by (auto simp: discrete_inv_def intro!: sum_list_pos)
  then have "u * dg_sum g < sum_list (map snd (dg_values g))"
    using assms(1,4) by (simp add: discrete_inv_def)
  then show ?thesis
    using discrete_scan_interval [OF pos, of "dg_values g" u] assms that
    by (auto simp: discrete_inv_def DiscreteGenerator_Next_def)
qed

interpretation discrete_gen: generator
  "\<lambda>u g. projr (DiscreteGenerator_Next True u g)" DiscreteGenerator_Last
  "\<lambda>_ u. 0 \<le> u \<and> u < 1" "\<lambda>g. discrete_inv g \<and> dg_values g \<noteq> []" "\<lambda>g. fst ` set (dg_values g)"
proof unfold_locales
  fix g :: "'a DiscreteGenerator" and u :: real
  assume "discrete_inv g \<and> dg_values g \<noteq> []" and "0 \<le> u \<and> u < 1"
  then obtain i where i: "i < length (dg_values g)"
    and n: "DiscreteGenerator_Next True u g =
           Inr (fst (dg_values g ! i), g\<lparr>dg_last := fst (dg_values g ! i)\<rparr>)"
    by (auto elim: discrete_Next_interval [where ndebug = True])
  then have eq: "projr (DiscreteGenerator_Next True u g) =
      (fst (dg_values g ! i), g\<lparr>dg_last := fst (dg_values g ! i)\<rparr>)" by simp
  show "DiscreteGenerator_Last (snd (projr (DiscreteGenerator_Next True u g))) =
      fst (projr (DiscreteGenerator_Next True u g))"
    by (simp add: eq DiscreteGenerator_Last_def)
  show "discrete_inv (snd (projr (DiscreteGenerator_Next True u g)))
      \<and> dg_values (snd (projr (DiscreteGenerator_Next True u g))) \<noteq> []"
    using \<open>discrete_inv g \<and> dg_values g \<noteq> []\<close> by (simp add: eq discrete_inv_def)
  show "fst (projr (DiscreteGenerator_Next True u g)) \<in> fst ` set (dg_values g)"
    using i by (simp add: eq)
  show "fst ` set (dg_values (snd (projr (DiscreteGenerator_Next True u g)))) = fst ` set (dg_values g)"
    by (simp add: eq)
qed

section \<open>Random-byte generator\<close>

record RandomByteGenerator =
  rbg_buf :: "char list"
  rbg_off :: nat

text \<open>The constructor leaves the six-byte buffer uninitialised (\<open>garbage\<close>) and sets the offset to 6.\<close>

definition new_RandomByteGenerator :: "char list \<Rightarrow> RandomByteGenerator" where
  "new_RandomByteGenerator garbage = \<lparr>rbg_buf = garbage, rbg_off = 6\<rparr>"

text \<open>One byte of the buffer: the masked bits plus the code of a space.\<close>

definition byte_of :: "u32 \<Rightarrow> char" where
  "byte_of x = char_of (unat (x + 32))"

text \<open>\<^verbatim>\<open>bytes\<close> is a signed \<^verbatim>\<open>int\<close>, so \<^verbatim>\<open>>>\<close> is the arithmetic shift.\<close>

definition fill_buf :: "u32 \<Rightarrow> char list" where
  "fill_buf bytes =
     [byte_of (bytes AND 31),
      byte_of (signed_drop_bit 5 bytes AND 63),
      byte_of (signed_drop_bit 10 bytes AND 95),
      byte_of (signed_drop_bit 15 bytes AND 31),
      byte_of (signed_drop_bit 20 bytes AND 63),
      byte_of (signed_drop_bit 25 bytes AND 95)]"

definition RandomByteGenerator_Next :: "RandomByteGenerator \<Rightarrow> tls \<Rightarrow> char \<times> RandomByteGenerator \<times> tls" where
  "RandomByteGenerator_Next g t =
     (let (g, t) =
        (if rbg_off g = 6
         then (let (bytes, t) = ThreadLocalRandomInt t in (\<lparr>rbg_buf = fill_buf bytes, rbg_off = 0\<rparr>, t))
         else (g, t))
      in (rbg_buf g ! rbg_off g, g\<lparr>rbg_off := rbg_off g + 1\<rparr>, t))"

definition RandomByteGenerator_Last :: "RandomByteGenerator \<Rightarrow> char" where
  "RandomByteGenerator_Last g = rbg_buf g ! nat ((int (rbg_off g) - 1 + 6) mod 6)"

text \<open>\<^verbatim>\<open>std::generate_n\<close> with the generator's \<^verbatim>\<open>Next\<close>.\<close>

fun generate_bytes :: "nat \<Rightarrow> RandomByteGenerator \<Rightarrow> tls \<Rightarrow> string \<times> RandomByteGenerator \<times> tls" where
  "generate_bytes 0 g t = ([], g, t)"
| "generate_bytes (Suc n) g t =
     (let (c, g, t) = RandomByteGenerator_Next g t;
          (s, g, t) = generate_bytes n g t
      in (c # s, g, t))"

text \<open>The bytes the generator can produce: from the space to code 127.\<close>

definition plain_byte :: "char \<Rightarrow> bool" where
  "plain_byte c \<longleftrightarrow> 32 \<le> (of_char c :: nat) \<and> (of_char c :: nat) \<le> 127"

lemma byte_of_range:
  assumes "unat x \<le> 95"
  shows "plain_byte (byte_of x)"
proof -
  have "unat (x + 32) = unat x + 32"
    using assms by (simp add: unat_word_ariths)
  with assms show ?thesis by (simp add: plain_byte_def byte_of_def)
qed

lemma mask_le: "unat (x AND m) \<le> unat (m :: u32)"
  by (simp add: word_and_le1 word_le_nat_alt [symmetric])

lemma fill_buf_plain: "\<forall>c \<in> set (fill_buf bytes). plain_byte c"
proof -
  have "unat (x AND 31) \<le> 95" "unat (x AND 63) \<le> 95" "unat (x AND 95) \<le> 95" for x :: u32
    using mask_le [of x 31] mask_le [of x 63] mask_le [of x 95] by simp_all
  then show ?thesis by (simp add: fill_buf_def byte_of_range)
qed

lemma length_fill_buf [simp]: "length (fill_buf bytes) = 6"
  by (simp add: fill_buf_def)

definition rbg_inv :: "RandomByteGenerator \<Rightarrow> bool" where
  "rbg_inv g \<longleftrightarrow> rbg_off g = 6 \<or> (rbg_off g < 6 \<and> length (rbg_buf g) = 6 \<and> (\<forall>c \<in> set (rbg_buf g). plain_byte c))"

lemma rbg_inv_new: "rbg_inv (new_RandomByteGenerator x)"
  by (simp add: rbg_inv_def new_RandomByteGenerator_def)

lemma rbg_Next:
  assumes "rbg_inv g"
  shows "plain_byte (fst (RandomByteGenerator_Next g t))"
    and "rbg_inv (fst (snd (RandomByteGenerator_Next g t)))"
    and "RandomByteGenerator_Last (fst (snd (RandomByteGenerator_Next g t))) = fst (RandomByteGenerator_Next g t)"
proof -
  define g' where "g' = (if rbg_off g = 6
     then \<lparr>rbg_buf = fill_buf (fst (ThreadLocalRandomInt t)), rbg_off = 0\<rparr> else g)"
  have g': "rbg_off g' < 6" "length (rbg_buf g') = 6" "\<forall>c \<in> set (rbg_buf g'). plain_byte c"
    using assms fill_buf_plain by (auto simp: g'_def rbg_inv_def)
  have n: "fst (RandomByteGenerator_Next g t) = rbg_buf g' ! rbg_off g'"
    "fst (snd (RandomByteGenerator_Next g t)) = g'\<lparr>rbg_off := rbg_off g' + 1\<rparr>"
    by (simp_all add: RandomByteGenerator_Next_def g'_def split_beta Let_def)
  show "plain_byte (fst (RandomByteGenerator_Next g t))" using g' n by simp
  show "rbg_inv (fst (snd (RandomByteGenerator_Next g t)))" using g' n by (auto simp: rbg_inv_def)
  have "nat ((int (rbg_off g' + 1) - 1 + 6) mod 6) = rbg_off g'"
    using g'(1) by (simp add: mod_pos_pos_trivial)
  then show "RandomByteGenerator_Last (fst (snd (RandomByteGenerator_Next g t))) = fst (RandomByteGenerator_Next g t)"
    using n by (simp add: RandomByteGenerator_Last_def)
qed

interpretation byte_gen: generator
  "\<lambda>_ :: unit. \<lambda>(g, t). RandomByteGenerator_Next g t" "\<lambda>(g, t). RandomByteGenerator_Last g"
  "\<lambda>_ _. True" "\<lambda>(g, t). rbg_inv g" "\<lambda>_. {c. plain_byte c}"
  by unfold_locales (auto simp: rbg_Next split_beta)

lemma generate_bytes_plain:
  "rbg_inv g \<Longrightarrow> length (fst (generate_bytes n g t)) = n
     \<and> (\<forall>c \<in> set (fst (generate_bytes n g t)). plain_byte c)"
proof (induction n arbitrary: g t)
  case (Suc n)
  let ?r = "RandomByteGenerator_Next g t"
  from Suc.IH [OF rbg_Next(2) [OF Suc.prems, of t], of "snd (snd ?r)"] rbg_Next(1) [OF Suc.prems, of t]
  show ?case by (simp add: split_beta Let_def)
qed simp

section \<open>Properties\<close>

text \<open>A discrete generator with positive weights never falls through its loop: for every draw in \<open>[0, 1)\<close> it returns the value
  whose interval of the cumulative weights contains the draw, so each operation is chosen with its configured proportion, and
  \<^verbatim>\<open>Last()\<close> repeats the choice.\<close>

theorem discrete_choice_by_weight:
  assumes "\<forall>p \<in> set ps. 0 < snd p" and "ps \<noteq> []" and "0 \<le> u" and "u < 1"
  shows "\<exists>i g. i < length ps
     \<and> DiscreteGenerator_Next ndebug u (foldl (\<lambda>g (v, w). DiscreteGenerator_AddValue g v w) (new_DiscreteGenerator x) ps)
         = Inr (fst (ps ! i), g)
     \<and> DiscreteGenerator_Last g = fst (ps ! i)
     \<and> sum_list (map snd (take i ps)) \<le> u * sum_list (map snd ps)
     \<and> u * sum_list (map snd ps) < sum_list (map snd (take (Suc i) ps))"
proof -
  let ?g = "foldl (\<lambda>g (v, w). DiscreteGenerator_AddValue g v w) (new_DiscreteGenerator x) ps"
  have "discrete_inv ?g \<and> dg_values ?g = ps"
    using assms(1)
  proof (induction ps rule: rev_induct)
    case Nil
    then show ?case using discrete_inv_new by (simp add: new_DiscreteGenerator_def)
  next
    case (snoc p ps)
    then show ?case by (simp add: split_beta discrete_inv_AddValue)
  qed
  then have inv: "discrete_inv ?g" and ps: "dg_values ?g = ps" and sm: "dg_sum ?g = sum_list (map snd ps)"
    by (auto simp: discrete_inv_def)
  show ?thesis
    by (rule discrete_Next_interval [OF inv _ assms(3,4), of ndebug])
      (use assms(2) in \<open>auto simp: ps sm DiscreteGenerator_Last_def\<close>)
qed

theorem discrete_choice_by_weight_witness:
  "\<exists>i g. i < length [(CHR ''r'', 95 / 100), (CHR ''u'', 5 / 100 :: real)]
     \<and> DiscreteGenerator_Next False (96 / 100)
         (foldl (\<lambda>g (v, w). DiscreteGenerator_AddValue g v w) (new_DiscreteGenerator CHR ''?'')
           [(CHR ''r'', 95 / 100), (CHR ''u'', 5 / 100)])
         = Inr (fst ([(CHR ''r'', 95 / 100), (CHR ''u'', 5 / 100 :: real)] ! i), g)"
  using discrete_choice_by_weight [of "[(CHR ''r'', 95 / 100), (CHR ''u'', 5 / 100)]" "96 / 100" False "CHR ''?''"]
  by auto

text \<open>The random-byte generator fills a value of the requested length with bytes from the space to code 127: no control
  character, no newline and no zero byte ever enters a generated field value, although the buffer starts uninitialised.\<close>

theorem generated_values_plain:
  "length (fst (generate_bytes n (new_RandomByteGenerator garbage) t)) = n
   \<and> list_all (\<lambda>c. 32 \<le> (of_char c :: nat) \<and> (of_char c :: nat) \<le> 127)
       (fst (generate_bytes n (new_RandomByteGenerator garbage) t))"
  using generate_bytes_plain [OF rbg_inv_new, of n garbage t] by (simp add: plain_byte_def list_all_iff)

end
