(* ===== verification/Acked.thy ===== *)
theory Acked
  imports Generators
begin

text \<open>
  \<^verbatim>\<open>AcknowledgedCounterGenerator\<close> (\<^verbatim>\<open>src/core/acknowledged_counter_generator.h\<close> and \<^verbatim>\<open>.cc\<close>): a counter that
  hands out key numbers and reports, as \<^verbatim>\<open>Last()\<close>, the largest number below which every number has
  been acknowledged. Acknowledgements arrive in any order and are kept in a ring of
  \<open>2\<^sup>1\<^sup>6\<close> flags.

  The abstract specification is the set of acknowledged numbers; \<open>ack_rel\<close> relates it to the ring,
  and the locale \<open>ack_sequence\<close> is the contract the workload relies on, interpreted on the
  code's definitions at the end.
\<close>

section \<open>The generator\<close>

definition kWindowSize :: u64 where
  "kWindowSize = push_bit 16 1"

definition kWindowMask :: u64 where
  "kWindowMask = kWindowSize - 1"

text \<open>
  The ring is indexed by numbers masked with \<open>kWindowMask\<close> only, so a total function on indices
  stands for the vector of flags.
\<close>

record AcknowledgedCounterGenerator =
  ack_counter :: CounterGenerator
  ack_limit :: u64
  ack_window :: "nat \<Rightarrow> bool"

definition new_AcknowledgedCounterGenerator :: "u64 \<Rightarrow> AcknowledgedCounterGenerator" where
  "new_AcknowledgedCounterGenerator start =
     \<lparr>ack_counter = new_CounterGenerator start, ack_limit = start - 1, ack_window = (\<lambda>_. False)\<rparr>"

definition Acked_Next :: "AcknowledgedCounterGenerator \<Rightarrow> u64 \<times> AcknowledgedCounterGenerator" where
  "Acked_Next g = (let (v, c) = CounterGenerator_Next (ack_counter g) in (v, g\<lparr>ack_counter := c\<rparr>))"

definition Acked_Last :: "AcknowledgedCounterGenerator \<Rightarrow> u64" where
  "Acked_Last g = ack_limit g"

definition slot_of :: "u64 \<Rightarrow> nat" where
  "slot_of i = unat (i AND kWindowMask)"

text \<open>The loop of \<open>Acknowledge\<close>: clears the flags of consecutive acknowledged numbers.\<close>

function ack_advance :: "u64 \<Rightarrow> u64 \<Rightarrow> (nat \<Rightarrow> bool) \<Rightarrow> u64 \<times> (nat \<Rightarrow> bool)" where
  "ack_advance i until window =
     (if i < until then
        (let slot = slot_of i in
         if \<not> window slot then (i, window)
         else ack_advance (i + 1) until (window(slot := False)))
      else (i, window))"
  by pat_completeness auto
termination
proof (relation "measure (\<lambda>(i, until, window). unat until - unat i)", simp)
  fix i until :: u64 and window :: "nat \<Rightarrow> bool" and slot
  assume "i < until"
  moreover from this have "unat (i + 1) = unat i + 1" by (rule unat_plus_one)
  ultimately show "((i + 1, until, window(slot := False)), i, until, window)
      \<in> measure (\<lambda>(i, until, window). unat until - unat i)"
    by (simp add: word_less_nat_alt)
qed

declare ack_advance.simps [simp del]

definition Acknowledge :: "u64 \<Rightarrow> AcknowledgedCounterGenerator \<Rightarrow> AcknowledgedCounterGenerator res" where
  "Acknowledge value g =
     (let cur_slot = slot_of value in
      if ack_window g cur_slot then Inl (Exception ''Not enough window size'')
      else
        (let window = (ack_window g)(cur_slot := True);
             limit = ack_limit g;
             until = limit + kWindowSize;
             (i, window') = ack_advance (limit + 1) until window
         in Inr (g\<lparr>ack_window := window', ack_limit := i - 1\<rparr>)))"

section \<open>The ring as a set of numbers\<close>

text \<open>\<open>W\<close> is the number of slots; \<open>ack_next g\<close> the first number not yet covered by \<open>Last()\<close>.\<close>

definition W :: nat where
  "W = 65536"

definition ack_next :: "AcknowledgedCounterGenerator \<Rightarrow> nat" where
  "ack_next g = unat (ack_limit g + 1)"

text \<open>
  The flags that are set are those of the numbers in \<open>A\<close> from \<open>n\<close> on.
\<close>

definition window_rel :: "nat set \<Rightarrow> nat \<Rightarrow> (nat \<Rightarrow> bool) \<Rightarrow> bool" where
  "window_rel A n window \<longleftrightarrow> (\<forall>s < W. window s \<longleftrightarrow> (\<exists>v \<in> A. n \<le> v \<and> v mod W = s))"

lemma W_pos [simp]: "0 < W"
  by (simp add: W_def)

lemma kWindowSize_eq: "kWindowSize = 65536"
  by (simp add: kWindowSize_def push_bit_eq_mult)

lemma slot_of_mod: "slot_of i = unat i mod W"
proof -
  have "kWindowMask = mask 16" by (simp add: kWindowMask_def kWindowSize_eq mask_eq_exp_minus_1)
  then have "slot_of i = unat (take_bit 16 i)" by (simp add: slot_of_def take_bit_eq_mask)
  also have "\<dots> = unat i mod W" by (simp add: take_bit_eq_mod unat_mod W_def)
  finally show ?thesis .
qed

lemma slot_of_less [simp]: "slot_of i < W"
  by (simp add: slot_of_mod)

lemma mod_eq_close:
  assumes "(a :: nat) mod W = b mod W" and "a \<le> b" and "b < a + W"
  shows "a = b"
proof -
  have "W dvd b - a" using mod_eq_dvd_iff_nat [OF assms(2), of W] assms(1) by simp
  then show ?thesis using assms(2,3) by (auto dest: dvd_imp_le)
qed

lemma window_rel_slot:
  assumes "window_rel A n window" and "A \<subseteq> {..<n + W}"
    and "n \<le> v" and "v < n + W" and "v < 2 ^ 64"
  shows "window (slot_of (of_nat v)) \<longleftrightarrow> v \<in> A"
proof -
  have s: "slot_of (of_nat v) = v mod W" using assms(5) by (simp add: slot_of_mod unat_of_nat_u64)
  have "window (v mod W) \<longleftrightarrow> (\<exists>u \<in> A. n \<le> u \<and> u mod W = v mod W)"
    using assms(1) by (simp add: window_rel_def)
  also have "\<dots> \<longleftrightarrow> v \<in> A"
  proof
    assume "\<exists>u \<in> A. n \<le> u \<and> u mod W = v mod W"
    then obtain u where u: "u \<in> A" "n \<le> u" "u mod W = v mod W" by blast
    have "u < n + W" using u(1) assms(2) by blast
    then have "u = v"
      using mod_eq_close [of u v] mod_eq_close [of v u] u assms(3,4) by (cases "u \<le> v") auto
    with u show "v \<in> A" by simp
  qed (use assms(3) in blast)
  finally show ?thesis by (simp add: s)
qed

lemma window_rel_clear:
  assumes "window_rel A n window" and "A \<subseteq> {..<n + W}" and "n < 2 ^ 64"
  shows "window_rel A (Suc n) (window(slot_of (of_nat n) := False))"
  unfolding window_rel_def
proof (intro allI impI)
  fix s assume s: "s < W"
  have sn: "slot_of (of_nat n) = n mod W" using assms(3) by (simp add: slot_of_mod unat_of_nat_u64)
  show "(window(slot_of (of_nat n) := False)) s \<longleftrightarrow> (\<exists>v \<in> A. Suc n \<le> v \<and> v mod W = s)"
  proof (cases "s = n mod W")
    case True
    have "\<not> (\<exists>v \<in> A. Suc n \<le> v \<and> v mod W = n mod W)"
    proof
      assume "\<exists>v \<in> A. Suc n \<le> v \<and> v mod W = n mod W"
      then obtain v where "v \<in> A" "Suc n \<le> v" "v mod W = n mod W" by blast
      with assms(2) mod_eq_close [of n v] show False by auto
    qed
    with True sn show ?thesis by simp
  next
    case False
    then have "n \<le> v \<and> v mod W = s \<longleftrightarrow> Suc n \<le> v \<and> v mod W = s" for v
      by (auto simp: Suc_le_eq le_less)
    then have "(\<exists>v \<in> A. n \<le> v \<and> v mod W = s) \<longleftrightarrow> (\<exists>v \<in> A. Suc n \<le> v \<and> v mod W = s)"
      by simp
    with False sn s assms(1) show ?thesis by (simp add: window_rel_def)
  qed
qed

lemma window_rel_insert:
  assumes "window_rel A n window" and "n \<le> v" and "v < 2 ^ 64"
  shows "window_rel (insert v A) n (window(slot_of (of_nat v) := True))"
  using assms by (auto simp: window_rel_def slot_of_mod unat_of_nat_u64)

text \<open>
  The loop stops at the first number from \<open>n\<close> on that is not in \<open>A\<close>.
\<close>

lemma ack_advance_correct:
  assumes "window_rel A n window" and "A \<subseteq> {..<m}" and "n \<le> m" and "m < n + W" and "m < 2 ^ 64"
  shows "\<exists>k window'. ack_advance (of_nat n) (of_nat m) window = (of_nat k, window')
           \<and> n \<le> k \<and> k \<le> m \<and> {n..<k} \<subseteq> A \<and> k \<notin> A \<and> window_rel A k window'"
  using assms
proof (induction "m - n" arbitrary: n window)
  case 0
  then have "n = m" by simp
  moreover have "m \<notin> A" using "0.prems" by auto
  ultimately show ?case
    using "0.prems" by (intro exI [of _ m] exI [of _ window]) (simp add: ack_advance.simps)
next
  case (Suc d)
  then have nm: "n < m" "n < 2 ^ 64" by auto
  have lt: "(of_nat n :: u64) < of_nat m"
    using Suc.prems nm by (simp add: word_less_nat_alt unat_of_nat_u64)
  have sub: "A \<subseteq> {..<n + W}" using Suc.prems by auto
  have slot: "window (slot_of (of_nat n)) \<longleftrightarrow> n \<in> A"
    using window_rel_slot [OF Suc.prems(1) sub] nm by simp
  show ?case
  proof (cases "n \<in> A")
    case False
    then show ?thesis using lt slot Suc.prems
      by (intro exI [of _ n] exI [of _ window]) (simp add: ack_advance.simps)
  next
    case True
    let ?w = "window(slot_of (of_nat n) := False)"
    have "\<exists>k window'. ack_advance (of_nat (Suc n)) (of_nat m) ?w = (of_nat k, window')
        \<and> Suc n \<le> k \<and> k \<le> m \<and> {Suc n..<k} \<subseteq> A \<and> k \<notin> A \<and> window_rel A k window'"
      using Suc.hyps(2) Suc.prems nm window_rel_clear [OF Suc.prems(1) sub nm(2)]
      by (intro Suc.hyps(1)) auto
    then obtain k window' where k: "ack_advance (of_nat (Suc n)) (of_nat m) ?w = (of_nat k, window')"
      "Suc n \<le> k" "k \<le> m" "{Suc n..<k} \<subseteq> A" "k \<notin> A" "window_rel A k window'"
      by blast
    have "ack_advance (of_nat n) (of_nat m) window = (of_nat k, window')"
      using lt slot True k(1) by (subst ack_advance.simps) (simp add: Let_def add.commute)
    moreover have "{n..<k} \<subseteq> A" using k(2,4) True by (auto simp: Suc_le_eq atLeastLessThan_iff subset_iff)
        (metis le_eq_less_or_eq)
    ultimately show ?thesis using k by (intro exI [of _ k] exI [of _ window']) auto
  qed
qed

section \<open>The relation to the set of acknowledged numbers\<close>

text \<open>
  \<open>ack_rel s n A g\<close>: the generator was created at \<open>s\<close>, has handed out the numbers below \<open>n\<close>, and the
  numbers in \<open>A\<close> have been acknowledged.
\<close>

definition ack_rel :: "nat \<Rightarrow> nat \<Rightarrow> nat set \<Rightarrow> AcknowledgedCounterGenerator \<Rightarrow> bool" where
  "ack_rel s n A g \<longleftrightarrow>
     cnt_counter (ack_counter g) = of_nat n \<and> n < 2 ^ 63 \<and> A \<subseteq> {s..<n}
     \<and> s \<le> ack_next g \<and> ack_next g \<le> n \<and> {s..<ack_next g} \<subseteq> A \<and> ack_next g \<notin> A
     \<and> window_rel A (ack_next g) (ack_window g)"

text \<open>The first number from \<open>s\<close> on that is not in \<open>A\<close>.\<close>

definition first_missing :: "nat \<Rightarrow> nat set \<Rightarrow> nat" where
  "first_missing s A = (LEAST m. s \<le> m \<and> m \<notin> A)"

lemma first_missing_eqI:
  "s \<le> m \<Longrightarrow> m \<notin> A \<Longrightarrow> {s..<m} \<subseteq> A \<Longrightarrow> first_missing s A = m"
  unfolding first_missing_def
  by (rule Least_equality) (auto simp: subset_iff intro: leI)

lemma ack_rel_next: "ack_rel s n A g \<Longrightarrow> ack_next g = first_missing s A"
  by (rule first_missing_eqI [symmetric]) (simp_all add: ack_rel_def)

lemma ack_rel_new:
  assumes "s < 2 ^ 63"
  shows "ack_rel s s {} (new_AcknowledgedCounterGenerator (of_nat s))"
  using assms
  by (simp add: ack_rel_def new_AcknowledgedCounterGenerator_def new_CounterGenerator_def
      ack_next_def window_rel_def unat_of_nat_u64)

lemma ack_rel_Next:
  assumes "ack_rel s n A g" and "Suc n < 2 ^ 63"
  shows "fst (Acked_Next g) = of_nat n" and "ack_rel s (Suc n) A (snd (Acked_Next g))"
  using assms
  by (auto simp: Acked_Next_def CounterGenerator_Next_def ack_rel_def ack_next_def add.commute)

lemma ack_rel_Acknowledge:
  assumes rel: "ack_rel s n A g" and v: "s \<le> v" "v < n" "v \<notin> A"
    and win: "n < first_missing s A + W"
  shows "\<exists>g'. Acknowledge (of_nat v) g = Inr g' \<and> ack_rel s n (insert v A) g'"
proof -
  let ?N = "ack_next g" and ?A = "insert v A"
  have N: "?N = first_missing s A" by (rule ack_rel_next [OF rel])
  have b: "n < 2 ^ 63" "A \<subseteq> {s..<n}" "{s..<?N} \<subseteq> A" "?N \<le> n" "s \<le> ?N"
    and w: "window_rel A ?N (ack_window g)"
    using rel by (auto simp: ack_rel_def)
  have vN: "?N \<le> v" using v b(3) by (auto simp: subset_iff not_le [symmetric])
  have slot: "\<not> ack_window g (slot_of (of_nat v))"
  proof -
    have "A \<subseteq> {..<?N + W}" using b(2) win N by auto
    then show ?thesis using window_rel_slot [OF w, of v] v vN b win N by auto
  qed
  define m where "m = ?N + W - 1"
  have limit1: "ack_limit g + 1 = of_nat ?N" by (simp add: ack_next_def)
  have until: "ack_limit g + kWindowSize = of_nat m"
  proof -
    have "ack_limit g + kWindowSize = (ack_limit g + 1) + 65535" by (simp add: kWindowSize_eq)
    then show ?thesis by (simp add: limit1 m_def W_def)
  qed
  have "\<exists>k window'. ack_advance (of_nat ?N) (of_nat m) ((ack_window g)(slot_of (of_nat v) := True)) = (of_nat k, window')
      \<and> ?N \<le> k \<and> k \<le> m \<and> {?N..<k} \<subseteq> ?A \<and> k \<notin> ?A \<and> window_rel ?A k window'"
  proof (rule ack_advance_correct)
    show "window_rel ?A ?N ((ack_window g)(slot_of (of_nat v) := True))"
      using window_rel_insert [OF w vN] v b by simp
    have "n < m + 1" using win N by (simp add: m_def W_def)
    then show "?A \<subseteq> {..<m}" using v b(2) by fastforce
  qed (use b in \<open>auto simp: m_def W_def\<close>)
  then obtain k window' where k:
    "ack_advance (of_nat ?N) (of_nat m) ((ack_window g)(slot_of (of_nat v) := True)) = (of_nat k, window')"
    "?N \<le> k" "{?N..<k} \<subseteq> ?A" "k \<notin> ?A" "window_rel ?A k window'"
    by blast
  let ?g = "g\<lparr>ack_window := window', ack_limit := of_nat k - 1\<rparr>"
  have kn: "k \<le> n"
  proof (rule ccontr)
    assume "\<not> k \<le> n"
    then have "n \<in> {?N..<k}" using b by simp
    then have "n \<in> ?A" using k(3) by blast
    then show False using v b by auto
  qed
  have "Acknowledge (of_nat v) g = Inr ?g"
    unfolding Acknowledge_def Let_def using slot limit1 until k(1) by simp
  moreover have "{s..<k} \<subseteq> ?A" using b(3) k(3) by (auto simp: subset_iff) (meson not_le)
  then have "ack_rel s n ?A ?g"
    using rel v k b kn unfolding ack_rel_def ack_next_def [of ?g]
    by (simp add: unat_of_nat_u64)
  ultimately show ?thesis by blast
qed

section \<open>The contract of an acknowledged sequence\<close>

locale ack_sequence =
  fixes take_number :: "'g \<Rightarrow> u64 \<times> 'g"
    and acknowledge :: "u64 \<Rightarrow> 'g \<Rightarrow> 'g res"
    and last_acked :: "'g \<Rightarrow> u64"
    and rel :: "nat \<Rightarrow> nat \<Rightarrow> nat set \<Rightarrow> 'g \<Rightarrow> bool"
    and window :: nat
  assumes take_val: "rel s n A g \<Longrightarrow> Suc n < 2 ^ 63 \<Longrightarrow> fst (take_number g) = of_nat n"
    and take_rel: "rel s n A g \<Longrightarrow> Suc n < 2 ^ 63 \<Longrightarrow> rel s (Suc n) A (snd (take_number g))"
    and ack_ok: "rel s n A g \<Longrightarrow> s \<le> v \<Longrightarrow> v < n \<Longrightarrow> v \<notin> A \<Longrightarrow> n < first_missing s A + window
        \<Longrightarrow> \<exists>g'. acknowledge (of_nat v) g = Inr g' \<and> rel s n (insert v A) g'"
    and last_val: "rel s n A g \<Longrightarrow> unat (last_acked g + 1) = first_missing s A"
    and missing_le: "rel s n A g \<Longrightarrow> first_missing s A \<le> n"
    and acked_below: "rel s n A g \<Longrightarrow> {s..<first_missing s A} \<subseteq> A"
    and missing_not_in: "rel s n A g \<Longrightarrow> s \<le> first_missing s A \<and> first_missing s A \<notin> A"
begin

lemma missing_mono:
  assumes "rel s n A g" and "rel s n B h" and "A \<subseteq> B"
  shows "first_missing s A \<le> first_missing s B"
proof (rule ccontr)
  assume "\<not> ?thesis"
  then have "first_missing s B \<in> {s..<first_missing s A}" using missing_not_in [OF assms(2)] by simp
  then have "first_missing s B \<in> B" using acked_below [OF assms(1)] assms(3) by blast
  with missing_not_in [OF assms(2)] show False by simp
qed

fun ack_all :: "nat list \<Rightarrow> 'g \<Rightarrow> 'g res" where
  "ack_all [] g = Inr g"
| "ack_all (v # vs) g = andThen (acknowledge (of_nat v) g) (ack_all vs)"

lemma numbers_up_to_last_acked:
  "rel s n A g \<Longrightarrow> s \<le> k \<Longrightarrow> k < unat (last_acked g + 1) \<Longrightarrow> k \<in> A"
  using acked_below [of s n A g] by (auto simp: last_val)

text \<open>
  Acknowledgements in any order, as long as the numbers handed out stay within the window.
\<close>

lemma ack_all_any_order:
  assumes "rel s n A g" and "distinct vs" and "set vs \<inter> A = {}" and "set vs \<subseteq> {s..<n}"
    and "n < first_missing s A + window"
  shows "\<exists>g'. ack_all vs g = Inr g' \<and> rel s n (A \<union> set vs) g'"
  using assms
proof (induction vs arbitrary: A g)
  case (Cons v vs)
  obtain g1 where g1: "acknowledge (of_nat v) g = Inr g1" "rel s n (insert v A) g1"
    using ack_ok [OF Cons.prems(1), of v] Cons.prems by auto
  have "first_missing s A \<le> first_missing s (insert v A)"
    using Cons.prems(1) g1(2) by (rule missing_mono) auto
  then have "\<exists>g'. ack_all vs g1 = Inr g' \<and> rel s n (insert v A \<union> set vs) g'"
    using Cons.prems g1(2) by (intro Cons.IH) auto
  with g1(1) show ?case by auto
qed simp

end

interpretation acked: ack_sequence Acked_Next Acknowledge Acked_Last ack_rel W
proof unfold_locales
  fix s n A g assume rel: "ack_rel s n A g"
  note N = ack_rel_next [OF rel]
  show "unat (Acked_Last g + 1) = first_missing s A"
    using N by (simp add: Acked_Last_def ack_next_def)
  show "first_missing s A \<le> n" and "{s..<first_missing s A} \<subseteq> A"
    and "s \<le> first_missing s A \<and> first_missing s A \<notin> A"
    using rel by (simp_all add: N [symmetric] ack_rel_def)
qed (auto intro: ack_rel_Next ack_rel_Acknowledge)

section \<open>Properties\<close>

text \<open>\<open>k\<close> calls of \<^verbatim>\<open>Next()\<close>.\<close>

fun Acked_take :: "nat \<Rightarrow> AcknowledgedCounterGenerator \<Rightarrow> u64 list \<times> AcknowledgedCounterGenerator" where
  "Acked_take 0 g = ([], g)"
| "Acked_take (Suc k) g = (let (v, g) = Acked_Next g; (vs, g) = Acked_take k g in (v # vs, g))"

lemma ack_rel_take:
  "ack_rel s n A g \<Longrightarrow> n + k < 2 ^ 63 \<Longrightarrow>
     fst (Acked_take k g) = map of_nat [n..<n + k] \<and> ack_rel s (n + k) A (snd (Acked_take k g))"
proof (induction k arbitrary: n g)
  case (Suc k)
  have "Suc n < 2 ^ 63" using Suc.prems by simp
  note nx = ack_rel_Next [OF Suc.prems(1) this]
  have "fst (Acked_take k (snd (Acked_Next g))) = map of_nat [Suc n..<Suc n + k] \<and>
      ack_rel s (Suc n + k) A (snd (Acked_take k (snd (Acked_Next g))))"
    using Suc.prems nx by (intro Suc.IH) auto
  moreover have "[n..<n + Suc k] = n # [Suc n..<Suc n + k]" by (simp add: upt_conv_Cons del: upt_Suc)
  ultimately show ?case using nx(1) by (simp add: split_beta Let_def del: upt_Suc)
qed simp

text \<open>C23: A fresh generator that has handed out fewer than 65536 numbers accepts their acknowledgements in any order, without an
  exception, and when the last of them has come in, \<^verbatim>\<open>Last()\<close> is the greatest number handed out, whatever the order was.\<close>

theorem acknowledge_any_order:
  assumes "s + k < 2 ^ 63" and "0 < k" and "k < W" and "distinct vs" and "set vs = {s..<s + k}"
  shows "\<exists>g. acked.ack_all vs (snd (Acked_take k (new_AcknowledgedCounterGenerator (of_nat s)))) = Inr g
           \<and> Acked_Last g = of_nat (s + k - 1)"
proof -
  let ?g = "snd (Acked_take k (new_AcknowledgedCounterGenerator (of_nat s)))"
  have rel: "ack_rel s (s + k) {} ?g" using ack_rel_take [OF ack_rel_new] assms(1) by simp
  have fm: "first_missing s {} = s" by (rule first_missing_eqI) auto
  from acked.ack_all_any_order [OF rel assms(4)] assms fm obtain g where
    g: "acked.ack_all vs ?g = Inr g" "ack_rel s (s + k) {s..<s + k} g" by auto
  have "first_missing s {s..<s + k} = s + k" by (rule first_missing_eqI) auto
  then have "unat (Acked_Last g + 1) = s + k" using acked.last_val [OF g(2)] by simp
  then have "Acked_Last g + 1 = of_nat (s + k)" by (metis of_nat_unat_u64)
  then have "Acked_Last g = of_nat (s + k) - 1" by (metis add_diff_cancel)
  then show ?thesis using g(1) assms(2) by (auto simp: of_nat_diff)
qed

theorem acknowledge_any_order_witness:
  "\<exists>g. acked.ack_all [7, 5, 6] (snd (Acked_take 3 (new_AcknowledgedCounterGenerator (of_nat 5)))) = Inr g
     \<and> Acked_Last g = of_nat (5 + 3 - 1)"
  by (rule acknowledge_any_order) (auto simp: W_def)



text \<open>The guard of \<^verbatim>\<open>Acknowledge\<close> only sees a slot that is already set. A number that is a whole window ahead of the limit
  falls on the slot of the next expected number: on a fresh generator that starts at 0, acknowledging 65536 raises no
  exception and moves \<^verbatim>\<open>Last()\<close> to 0, a number that nobody has acknowledged.\<close>

theorem acknowledge_beyond_window:
  "\<exists>g. Acknowledge 65536 (new_AcknowledgedCounterGenerator 0) = Inr g \<and> Acked_Last g = 0"
  by (simp add: Acknowledge_def new_AcknowledgedCounterGenerator_def new_CounterGenerator_def kWindowSize_eq
      slot_of_mod W_def Let_def ack_advance.simps Acked_Last_def)

end
