(* ===== verification/Doubles.thy ===== *)
theory Doubles
  imports Prelude Complex_Main
begin

text \<open>
  The rounding of \<^verbatim>\<open>double\<close> values, where the program turns one into an integer: to the nearest number
  with a significand of 53 bits, ties to the even one. The exponent is unbounded: the numbers
  converted in \<^verbatim>\<open>src/core\<close> are far from the limits of the format.
\<close>

section \<open>Rounding\<close>

definition round_even :: "real \<Rightarrow> int" where
  "round_even x =
     (let n = \<lfloor>x\<rfloor>; d = x - of_int n
      in if d < 1 / 2 then n else if 1 / 2 < d then n + 1 else if even n then n else n + 1)"

text \<open>The exponent of the unit in the last place of \<open>x\<close>.\<close>

definition ulp_exponent :: "real \<Rightarrow> int" where
  "ulp_exponent x = \<lfloor>log 2 \<bar>x\<bar>\<rfloor> - 52"

definition to_double :: "real \<Rightarrow> real" where
  "to_double x =
     (if x = 0 then 0 else of_int (round_even (x / 2 powr of_int (ulp_exponent x))) * 2 powr of_int (ulp_exponent x))"

text \<open>The conversion of a \<^verbatim>\<open>uint64_t\<close> to \<^verbatim>\<open>double\<close>.\<close>

definition double_of_u64 :: "u64 \<Rightarrow> real" where
  "double_of_u64 n = to_double (real (unat n))"

text \<open>The conversion of a double to \<^verbatim>\<open>uint64_t\<close>: truncation, undefined outside the range.\<close>

definition u64_of_double :: "real \<Rightarrow> u64 res" where
  "u64_of_double x =
     (if 0 \<le> x \<and> x < 2 ^ 64 then Inr (of_nat (nat \<lfloor>x\<rfloor>)) else Inl (Undefined ''double to uint64_t''))"

section \<open>Lemmas\<close>

lemma round_even_ge: "of_int n \<le> x \<Longrightarrow> n \<le> round_even x"
proof -
  assume "of_int n \<le> x"
  then have "n \<le> \<lfloor>x\<rfloor>" by (simp add: le_floor_iff)
  then show ?thesis by (auto simp: round_even_def Let_def)
qed

lemma round_even_le: "x \<le> of_int n \<Longrightarrow> round_even x \<le> n"
proof (cases "x = of_int n")
  case False
  moreover assume "x \<le> of_int n"
  ultimately have "\<lfloor>x\<rfloor> < n" by (simp add: floor_less_iff)
  then show ?thesis by (auto simp: round_even_def Let_def)
qed (simp add: round_even_def)

lemma ulp_exponent_eqI:
  assumes "2 powr of_int (52 + e) \<le> x" and "x < 2 powr of_int (53 + e)"
  shows "ulp_exponent x = e"
proof -
  have "0 < x" using assms(1) less_le_trans [of 0 "2 powr of_int (52 + e)" x] by simp
  moreover have "(53 + e :: int) = (52 + e) + 1" by simp
  ultimately have "\<lfloor>log 2 x\<rfloor> = 52 + e"
    using assms floor_log_eq_powr_iff [of x 2 "52 + e"] by (simp add: add.commute)
  then show ?thesis using \<open>0 < x\<close> by (simp add: ulp_exponent_def)
qed

lemma ulp_exponent_bounds:
  assumes "0 < x"
  shows "2 powr of_int (52 + ulp_exponent x) \<le> x" and "x < 2 powr of_int (53 + ulp_exponent x)"
proof -
  have "\<lfloor>log 2 x\<rfloor> = 52 + ulp_exponent x" using assms by (simp add: ulp_exponent_def)
  then show "2 powr of_int (52 + ulp_exponent x) \<le> x" "x < 2 powr of_int (53 + ulp_exponent x)"
    using assms floor_log_eq_powr_iff [of x 2 "52 + ulp_exponent x"] by (simp_all add: add.commute)
qed

text \<open>A multiple of the unit in the last place bounds the rounded value as it bounds the exact one.\<close>

lemma to_double_ge:
  assumes "0 < x" and "of_int m * 2 powr of_int (ulp_exponent x) \<le> x"
  shows "of_int m * 2 powr of_int (ulp_exponent x) \<le> to_double x"
proof -
  have "of_int m \<le> x / 2 powr of_int (ulp_exponent x)" using assms(2) by (simp add: pos_le_divide_eq)
  then have "m \<le> round_even (x / 2 powr of_int (ulp_exponent x))" by (rule round_even_ge)
  then show ?thesis using assms(1) by (simp add: to_double_def)
qed

lemma to_double_le:
  assumes "0 < x" and "x \<le> of_int m * 2 powr of_int (ulp_exponent x)"
  shows "to_double x \<le> of_int m * 2 powr of_int (ulp_exponent x)"
proof -
  have "x / 2 powr of_int (ulp_exponent x) \<le> of_int m" using assms(2) by (simp add: pos_divide_le_eq)
  then have "round_even (x / 2 powr of_int (ulp_exponent x)) \<le> m" by (rule round_even_le)
  then show ?thesis using assms(1) by (simp add: to_double_def)
qed

text \<open>Up to \<open>2\<^sup>5\<^sup>3\<close> every integer is a multiple of the unit.\<close>

lemma ulp_multiple:
  assumes "0 < x" and "x < 2 ^ 53"
  shows "\<exists>m :: int. real n = of_int m * 2 powr of_int (ulp_exponent x)"
proof -
  have "(2 :: real) powr 53 = 2 ^ 53" using powr_realpow [of "2 :: real" 53] by simp
  then have "2 powr of_int (52 + ulp_exponent x) < (2 :: real) powr 53"
    using ulp_exponent_bounds(1) [OF assms(1)] assms(2) by linarith
  then have "of_int (52 + ulp_exponent x) < (53 :: real)" by (subst (asm) powr_less_cancel_iff) simp_all
  then have "ulp_exponent x \<le> 0" by simp
  then obtain k where k: "ulp_exponent x = - int k" by (metis int_nat_eq minus_minus neg_0_le_iff_le nat_0_le)
  have "real n = of_int (int n * 2 ^ k) * 2 powr of_int (ulp_exponent x)"
    by (simp add: k powr_minus powr_realpow)
  then show ?thesis by blast
qed

lemma to_double_2_53: "to_double (2 ^ 53) = 2 ^ 53"
proof -
  have "ulp_exponent (2 ^ 53) = 1" by (rule ulp_exponent_eqI) simp_all
  then show ?thesis unfolding to_double_def by (simp add: round_even_def)
qed

lemma to_double_nat_le:
  assumes "0 \<le> x" and "x \<le> real n" and "n \<le> 2 ^ 53"
  shows "to_double x \<le> real n"
proof -
  consider "x = 0" | "x = 2 ^ 53" | "0 < x" "x < 2 ^ 53"
  proof -
    have "real n \<le> 2 ^ 53" using assms(3) by (metis of_nat_le_iff of_nat_numeral of_nat_power)
    then show ?thesis using assms(1,2) that by linarith
  qed
  then show ?thesis
  proof cases
    case 3
    then obtain m :: int where "real n = of_int m * 2 powr of_int (ulp_exponent x)" using ulp_multiple by blast
    then show ?thesis using to_double_le [OF 3(1)] assms(2) by simp
  qed (use assms(2) in \<open>simp_all only: to_double_2_53, simp add: to_double_def\<close>)
qed

lemma to_double_nat_ge:
  assumes "real n \<le> x" and "x \<le> 2 ^ 53"
  shows "real n \<le> to_double x"
proof -
  consider "x = 0" | "x = 2 ^ 53" | "0 < x" "x < 2 ^ 53"
    using assms of_nat_0_le_iff [of n, where 'a = real] by linarith
  then show ?thesis
  proof cases
    case 3
    then obtain m :: int where "real n = of_int m * 2 powr of_int (ulp_exponent x)" using ulp_multiple by blast
    then show ?thesis using to_double_ge [OF 3(1)] assms(1) by simp
  qed (use assms(1) in \<open>simp_all only: to_double_2_53, simp add: to_double_def\<close>)
qed

lemma to_double_nat: "n \<le> 2 ^ 53 \<Longrightarrow> to_double (real n) = real n"
proof -
  assume n: "n \<le> 2 ^ 53"
  then have "real n \<le> 2 ^ 53" by (metis of_nat_le_iff of_nat_numeral of_nat_power)
  then show ?thesis using to_double_nat_le [of "real n" n] to_double_nat_ge [of n "real n"] n by simp
qed

lemma double_of_u64_exact: "unat n \<le> 2 ^ 53 \<Longrightarrow> double_of_u64 n = real (unat n)"
  unfolding double_of_u64_def by (rule to_double_nat)

end
