(* ===== verification/Zipfian.thy ===== *)
theory Zipfian
  imports Generators Doubles
begin

text \<open>
  The Zipf generators of \<^verbatim>\<open>src/core\<close>: \<^verbatim>\<open>zipfian_generator.h\<close>, \<^verbatim>\<open>scrambled_zipfian_generator.h\<close> and
  \<^verbatim>\<open>skewed_latest_generator.h\<close>. The random double is the argument \<open>u\<close> of \<^verbatim>\<open>Next\<close>.

  The weights (\<^verbatim>\<open>Zeta\<close>, \<^verbatim>\<open>Eta\<close>, the scaled draw) are real numbers and \<^verbatim>\<open>std::pow\<close> is \<open>powr\<close>: their
  rounding moves a draw by a tiny probability. Every conversion of a \<^verbatim>\<open>uint64_t\<close> to \<^verbatim>\<open>double\<close>, and the
  product and the sum of the last \<^verbatim>\<open>return\<close> of \<^verbatim>\<open>Next\<close>, which decide the integer that comes out, are rounded
  to 53 bits as the code does (\<open>Doubles\<close>). A conversion of a double to \<^verbatim>\<open>uint64_t\<close> outside its range, and a power
  of a negative base, are undefined in C++ and \<open>Undefined\<close> here.
\<close>

section \<open>Zipfian generator\<close>

record ZipfianGenerator =
  zg_items :: u64
  zg_base :: u64
  zg_theta :: real
  zg_zeta_n :: real
  zg_eta :: real
  zg_alpha :: real
  zg_zeta_2 :: real
  zg_count_for_zeta :: u64
  zg_last_value :: u64
  zg_allow_count_decrease :: bool

definition kZipfianConst :: real where
  "kZipfianConst = 99 / 100"

definition kMaxNumItems :: u64 where
  "kMaxNumItems = drop_bit 24 (- 1)"

text \<open>The four-argument and the two-argument \<^verbatim>\<open>Zeta\<close>; the loop runs over \<open>last_num + 1 .. cur_num\<close>.
  (With \<open>cur_num\<close> the greatest 64-bit number the C++ loop would not end; \<open>kMaxNumItems\<close> is far below.)\<close>

definition Zeta_from :: "u64 \<Rightarrow> u64 \<Rightarrow> real \<Rightarrow> real \<Rightarrow> real" where
  "Zeta_from last_num cur_num theta last_zeta =
     foldl (\<lambda>zeta i. zeta + 1 / (to_double (real i) powr theta)) last_zeta [unat last_num + 1 ..< unat cur_num + 1]"

definition Zeta :: "u64 \<Rightarrow> real \<Rightarrow> real" where
  "Zeta num theta = Zeta_from 0 num theta 0"

definition Eta :: "ZipfianGenerator \<Rightarrow> real" where
  "Eta g = (1 - (2 / double_of_u64 (zg_items g)) powr (1 - zg_theta g)) / (1 - zg_zeta_2 g / zg_zeta_n g)"

definition cpp_pow :: "real \<Rightarrow> real \<Rightarrow> real res" where
  "cpp_pow x y = (if x < 0 then Inl (Undefined ''pow of a negative base'') else Inr (x powr y))"

text \<open>The part of \<open>Next(num)\<close> under the mutex: extend \<open>zeta\<close> when the number of items grew.\<close>

definition Zipfian_recompute :: "u64 \<Rightarrow> ZipfianGenerator \<Rightarrow> ZipfianGenerator" where
  "Zipfian_recompute num g =
     (if num \<noteq> zg_count_for_zeta g \<and> num > zg_count_for_zeta g then
        (let g = g\<lparr>zg_zeta_n := Zeta_from (zg_count_for_zeta g) num (zg_theta g) (zg_zeta_n g)\<rparr>;
             g = g\<lparr>zg_count_for_zeta := num\<rparr>
         in g\<lparr>zg_eta := Eta g\<rparr>)
      else g)"

definition Zipfian_NextN ::
    "bool \<Rightarrow> real \<Rightarrow> u64 \<Rightarrow> ZipfianGenerator \<Rightarrow> (u64 \<times> ZipfianGenerator) res" where
  "Zipfian_NextN ndebug u num g =
     andThen (assert_that ndebug (num \<ge> 2 \<and> num < kMaxNumItems) ''num >= 2 && num < kMaxNumItems'') (\<lambda>_.
     let g = Zipfian_recompute num g;
         uz = u * zg_zeta_n g
     in if uz < 1 then Inr (zg_base g, g\<lparr>zg_last_value := zg_base g\<rparr>)
        else if uz < 1 + (1 / 2) powr zg_theta g
             then Inr (zg_base g + 1, g\<lparr>zg_last_value := zg_base g + 1\<rparr>)
        else andThen (cpp_pow (zg_eta g * u - zg_eta g + 1) (zg_alpha g)) (\<lambda>x.
             andThen (u64_of_double (to_double (double_of_u64 (zg_base g) + to_double (double_of_u64 num * x)))) (\<lambda>v.
             Inr (v, g\<lparr>zg_last_value := v\<rparr>))))"

definition Zipfian_Next :: "bool \<Rightarrow> real \<Rightarrow> ZipfianGenerator \<Rightarrow> (u64 \<times> ZipfianGenerator) res" where
  "Zipfian_Next ndebug u g = Zipfian_NextN ndebug u (zg_items g) g"

definition Zipfian_Last :: "ZipfianGenerator \<Rightarrow> u64" where
  "Zipfian_Last g = zg_last_value g"

text \<open>The three constructors; each ends with one call of \<open>Next()\<close>, which draws \<open>u\<close>.\<close>

definition new_ZipfianGenerator4 ::
    "bool \<Rightarrow> real \<Rightarrow> u64 \<Rightarrow> u64 \<Rightarrow> real \<Rightarrow> real \<Rightarrow> ZipfianGenerator res" where
  "new_ZipfianGenerator4 ndebug u mn mx zipfian_const zeta_n =
     (let items = mx - mn + 1 in
      andThen (assert_that ndebug (items \<ge> 2 \<and> items < kMaxNumItems) ''items_ >= 2 && items_ < kMaxNumItems'') (\<lambda>_.
      let g = \<lparr>zg_items = items, zg_base = mn, zg_theta = zipfian_const, zg_zeta_n = zeta_n,
               zg_eta = 0, zg_alpha = 1 / (1 - zipfian_const), zg_zeta_2 = Zeta 2 zipfian_const,
               zg_count_for_zeta = items, zg_last_value = 0, zg_allow_count_decrease = False\<rparr>;
          g = g\<lparr>zg_eta := Eta g\<rparr>
      in andThen (Zipfian_Next ndebug u g) (\<lambda>(_, g). Inr g)))"

definition new_ZipfianGenerator3 ::
    "bool \<Rightarrow> real \<Rightarrow> u64 \<Rightarrow> u64 \<Rightarrow> real \<Rightarrow> ZipfianGenerator res" where
  "new_ZipfianGenerator3 ndebug u mn mx zipfian_const =
     new_ZipfianGenerator4 ndebug u mn mx zipfian_const (Zeta (mx - mn + 1) zipfian_const)"

definition new_ZipfianGenerator1 :: "bool \<Rightarrow> real \<Rightarrow> u64 \<Rightarrow> ZipfianGenerator res" where
  "new_ZipfianGenerator1 ndebug u num_items =
     new_ZipfianGenerator3 ndebug u 0 (num_items - 1) kZipfianConst"

section \<open>Scrambled Zipfian generator\<close>

record ScrambledZipfianGenerator =
  sz_base :: u64
  sz_num_items :: u64
  sz_generator :: ZipfianGenerator

definition kUsedZipfianConstant :: real where
  "kUsedZipfianConstant = 99 / 100"

definition kZetan :: real where
  "kZetan = 26.46902820178302"

definition kItemCount :: u64 where
  "kItemCount = 10000000000"

definition new_ScrambledZipfianGenerator3 ::
    "bool \<Rightarrow> real \<Rightarrow> u64 \<Rightarrow> u64 \<Rightarrow> real \<Rightarrow> ScrambledZipfianGenerator res" where
  "new_ScrambledZipfianGenerator3 ndebug u mn mx zipfian_const =
     andThen (if zipfian_const = kUsedZipfianConstant
              then new_ZipfianGenerator4 ndebug u 0 kItemCount zipfian_const kZetan
              else new_ZipfianGenerator3 ndebug u 0 kItemCount zipfian_const) (\<lambda>g.
     Inr \<lparr>sz_base = mn, sz_num_items = mx - mn + 1, sz_generator = g\<rparr>)"

definition new_ScrambledZipfianGenerator1 ::
    "bool \<Rightarrow> real \<Rightarrow> u64 \<Rightarrow> ScrambledZipfianGenerator res" where
  "new_ScrambledZipfianGenerator1 ndebug u num_items =
     new_ScrambledZipfianGenerator3 ndebug u 0 (num_items - 1) kZipfianConst"

text \<open>A remainder by zero is undefined.\<close>

definition Scramble :: "ScrambledZipfianGenerator \<Rightarrow> u64 \<Rightarrow> u64 res" where
  "Scramble g value =
     (if sz_num_items g = 0 then Inl (Undefined ''remainder by zero'')
      else Inr (sz_base g + FNVHash64 value mod sz_num_items g))"

definition Scrambled_Next ::
    "bool \<Rightarrow> real \<Rightarrow> ScrambledZipfianGenerator \<Rightarrow> (u64 \<times> ScrambledZipfianGenerator) res" where
  "Scrambled_Next ndebug u g =
     andThen (Zipfian_Next ndebug u (sz_generator g)) (\<lambda>(v, z).
     andThen (Scramble g v) (\<lambda>k. Inr (k, g\<lparr>sz_generator := z\<rparr>)))"

definition Scrambled_Last :: "ScrambledZipfianGenerator \<Rightarrow> u64 res" where
  "Scrambled_Last g = Scramble g (Zipfian_Last (sz_generator g))"

section \<open>Skewed-latest generator\<close>

text \<open>
  The generator refers to a counter \<open>basis_\<close>; its virtual \<^verbatim>\<open>Last()\<close> is read at each call and is the
  argument \<open>mx\<close> here.
\<close>

record SkewedLatestGenerator =
  sl_zipfian :: ZipfianGenerator
  sl_last :: u64

definition SkewedLatest_Next ::
    "bool \<Rightarrow> real \<Rightarrow> u64 \<Rightarrow> SkewedLatestGenerator \<Rightarrow> (u64 \<times> SkewedLatestGenerator) res" where
  "SkewedLatest_Next ndebug u mx g =
     andThen (Zipfian_NextN ndebug u mx (sl_zipfian g)) (\<lambda>(v, z).
     Inr (mx - v, g\<lparr>sl_zipfian := z, sl_last := mx - v\<rparr>))"

definition new_SkewedLatestGenerator ::
    "bool \<Rightarrow> real \<Rightarrow> real \<Rightarrow> u64 \<Rightarrow> SkewedLatestGenerator res" where
  "new_SkewedLatestGenerator ndebug u0 u1 mx =
     andThen (new_ZipfianGenerator1 ndebug u0 mx) (\<lambda>z.
     andThen (SkewedLatest_Next ndebug u1 mx \<lparr>sl_zipfian = z, sl_last = 0\<rparr>) (\<lambda>(_, g). Inr g))"

definition SkewedLatest_Last :: "SkewedLatestGenerator \<Rightarrow> u64" where
  "SkewedLatest_Last g = sl_last g"

section \<open>Lemmas on zeta\<close>

declare of_nat_unat [simp del]

lemma foldl_add_sum:
  fixes f :: "nat \<Rightarrow> real"
  shows "foldl (\<lambda>z i. z + f i) z [a..<b] = z + (\<Sum>i = a..<b. f i)"
  by (induction b) (auto simp: sum.atLeastLessThan_Suc)

lemma Zeta_from_sum:
  "Zeta_from a b theta z = z + (\<Sum>i = unat a + 1 ..< unat b + 1. 1 / (to_double (real i) powr theta))"
  unfolding Zeta_from_def by (rule foldl_add_sum)

lemma Zeta_sum: "Zeta n theta = (\<Sum>i = 1 ..< unat n + 1. 1 / (to_double (real i) powr theta))"
  by (simp add: Zeta_def Zeta_from_sum)

lemma Zeta_incremental:
  assumes "a \<le> b"
  shows "Zeta_from a b theta (Zeta a theta) = Zeta b theta"
  unfolding Zeta_from_sum Zeta_sum
  by (rule sum.atLeastLessThan_concat) (use assms in \<open>simp_all add: word_le_nat_alt\<close>)

lemma Zeta_2: "Zeta 2 theta = 1 + (1 / 2) powr theta"
proof -
  have "{1 ..< unat (2 :: u64) + 1} = {1, 2 :: nat}" by auto
  then show ?thesis using to_double_nat [of 1] to_double_nat [of 2] by (simp add: Zeta_sum powr_divide)
qed

lemma Zeta_mono:
  assumes "m \<le> n"
  shows "Zeta m theta \<le> Zeta n theta"
  unfolding Zeta_sum
  by (rule sum_mono2) (use assms in \<open>auto simp: word_le_nat_alt\<close>)

lemma Zeta_pos: "2 \<le> n \<Longrightarrow> 0 < Zeta n theta"
  using Zeta_mono [of 2 n theta] by (simp add: Zeta_2) (smt (verit) powr_ge_zero)

text \<open>Counts of items are below \<open>2\<^sup>4\<^sup>0\<close> and exact as doubles.\<close>

lemma kMaxNumItems_val: "unat kMaxNumItems = 2 ^ 40 - 1"
  by (simp add: kMaxNumItems_def drop_bit_eq_div)

lemma items_exact: "n < kMaxNumItems \<Longrightarrow> double_of_u64 n = real (unat n)"
  by (rule double_of_u64_exact) (simp add: word_less_nat_alt kMaxNumItems_val)

section \<open>The invariant and the range of \<open>Next\<close>\<close>

text \<open>
  What the constructors establish and \<open>Next\<close> keeps. \<open>zg_eta\<close> is computed from the initial number
  of items, also after the item count has grown, as in the code.
\<close>

definition zipf_inv :: "ZipfianGenerator \<Rightarrow> bool" where
  "zipf_inv g \<longleftrightarrow> 0 < zg_theta g \<and> zg_theta g < 1 \<and> 2 \<le> zg_items g \<and> zg_items g < kMaxNumItems
     \<and> zg_items g \<le> zg_count_for_zeta g
     \<and> zg_alpha g = 1 / (1 - zg_theta g) \<and> zg_zeta_2 g = Zeta 2 (zg_theta g)
     \<and> 0 < zg_zeta_n g \<and> zg_eta g = Eta g"

text \<open>The stored \<open>zeta\<close> is that of the stored item count.\<close>

definition zeta_exact :: "ZipfianGenerator \<Rightarrow> bool" where
  "zeta_exact g \<longleftrightarrow> zg_zeta_n g = Zeta (zg_count_for_zeta g) (zg_theta g)"

lemma Zeta_from_ge: "z \<le> Zeta_from a b theta z"
  by (simp add: Zeta_from_sum sum_nonneg)

lemma zipf_inv_recompute:
  assumes "zipf_inv g"
  shows "zipf_inv (Zipfian_recompute num g)"
proof -
  have "0 < Zeta_from (zg_count_for_zeta g) num (zg_theta g) (zg_zeta_n g)"
    using assms Zeta_from_ge [of "zg_zeta_n g"] by (auto simp: zipf_inv_def intro: less_le_trans)
  then show ?thesis
    using assms by (auto simp: zipf_inv_def Zipfian_recompute_def Eta_def Let_def)
qed

lemma zeta_exact_recompute:
  assumes "zeta_exact g"
  shows "zeta_exact (Zipfian_recompute num g)"
  using assms Zeta_incremental [of "zg_count_for_zeta g" num "zg_theta g"]
  by (auto simp: zeta_exact_def Zipfian_recompute_def Let_def)

lemma recompute_fields [simp]:
  "zg_base (Zipfian_recompute num g) = zg_base g"
  "zg_items (Zipfian_recompute num g) = zg_items g"
  "zg_theta (Zipfian_recompute num g) = zg_theta g"
  "num \<le> zg_count_for_zeta g \<Longrightarrow> Zipfian_recompute num g = g"
  by (auto simp: Zipfian_recompute_def Let_def)

text \<open>
  When the first two branches are not taken, the draw lies beyond the mass of the first two
  items, so the base of the power is at least \<open>(2 / items) ^ (1 - theta)\<close> and at most 1.
\<close>

lemma zipf_third_branch:
  assumes inv: "zipf_inv g" and u: "u < 1" and third: "1 + (1 / 2) powr zg_theta g \<le> u * zg_zeta_n g"
  shows "(2 / real (unat (zg_items g))) powr (1 - zg_theta g) \<le> zg_eta g * u - zg_eta g + 1"
    and "zg_eta g * u - zg_eta g + 1 \<le> 1"
    and "2 < unat (zg_items g) \<Longrightarrow> zg_eta g * u - zg_eta g + 1 < 1"
proof -
  let ?th = "zg_theta g" and ?n = "real (unat (zg_items g))"
  let ?q = "(2 / ?n) powr (1 - ?th)" and ?r = "zg_zeta_2 g / zg_zeta_n g"
  have th: "0 < ?th" "?th < 1" and n: "2 \<le> ?n"
    using inv by (auto simp: zipf_inv_def word_le_nat_alt)
  have z: "0 < zg_zeta_n g" "zg_zeta_2 g = 1 + (1 / 2) powr ?th"
    using inv by (auto simp: zipf_inv_def Zeta_2 intro!: Zeta_pos)
  have r: "?r \<le> u" using third z by (simp add: pos_divide_le_eq)
  then have r1: "0 < 1 - ?r" using u by simp
  have q1: "?q \<le> 1" using n th by (intro powr_le1) auto
  have eta: "zg_eta g = (1 - ?q) / (1 - ?r)" using inv by (simp add: zipf_inv_def Eta_def items_exact)
  then have eta0: "0 \<le> zg_eta g" using r1 q1 by simp
  have "zg_eta g * (1 - u) \<le> zg_eta g * (1 - ?r)" using eta0 r by (intro mult_left_mono) auto
  also have "\<dots> = 1 - ?q"
    using eta r1 by (metis less_irrefl nonzero_eq_divide_eq)
  finally show "?q \<le> zg_eta g * u - zg_eta g + 1" by (simp add: algebra_simps)
  have "0 \<le> zg_eta g * (1 - u)" using eta0 u by simp
  then show "zg_eta g * u - zg_eta g + 1 \<le> 1" by (simp add: algebra_simps)
  show "zg_eta g * u - zg_eta g + 1 < 1" if "2 < unat (zg_items g)"
  proof -
    have "?q < 1" using th that powr_less_mono2 [of "1 - ?th" "2 / ?n" 1] by simp
    then have "0 < zg_eta g * (1 - u)" using eta r1 u by simp
    then show ?thesis by (simp add: algebra_simps)
  qed
qed

lemma powr_root_ge:
  assumes "0 < a" and "0 < t" and "t < 1" and "a powr (1 - t) \<le> (x :: real)"
  shows "a \<le> x powr (1 / (1 - t))"
proof -
  have "a = (a powr (1 - t)) powr (1 / (1 - t))" using assms by (simp add: powr_powr)
  also have "\<dots> \<le> x powr (1 / (1 - t))" using assms by (intro powr_mono2) auto
  finally show ?thesis .
qed

text \<open>What one call of \<open>Next(num)\<close> does, on each of its three branches.\<close>

definition zipf_offset :: "real \<Rightarrow> u64 \<Rightarrow> ZipfianGenerator \<Rightarrow> nat" where
  "zipf_offset u num g =
     (if u * zg_zeta_n g < 1 then 0
      else if u * zg_zeta_n g < 1 + (1 / 2) powr zg_theta g then 1
      else nat \<lfloor>to_double (real (unat (zg_base g))
             + to_double (real (unat num) * (zg_eta g * u - zg_eta g + 1) powr zg_alpha g))\<rfloor> - unat (zg_base g))"

text \<open>The base of the power and the power itself, on the third branch.\<close>

lemma zipf_third_power:
  assumes inv: "zipf_inv g" and u: "u < 1" and third: "1 + (1 / 2) powr zg_theta g \<le> u * zg_zeta_n g"
  shows "0 < zg_eta g * u - zg_eta g + 1"
    and "2 / real (unat (zg_items g)) \<le> (zg_eta g * u - zg_eta g + 1) powr zg_alpha g"
    and "(zg_eta g * u - zg_eta g + 1) powr zg_alpha g \<le> 1"
proof -
  let ?n = "real (unat (zg_items g))" and ?x = "zg_eta g * u - zg_eta g + 1"
  have n: "2 \<le> ?n" using inv by (simp add: zipf_inv_def word_le_nat_alt)
  note t = zipf_third_branch [OF inv u third]
  have "0 < (2 / ?n) powr (1 - zg_theta g)" using n by simp
  then show x: "0 < ?x" using t(1) by linarith
  show "2 / ?n \<le> ?x powr zg_alpha g"
    using powr_root_ge [of "2 / ?n" "zg_theta g" ?x] t(1) inv n by (simp add: zipf_inv_def)
  show "?x powr zg_alpha g \<le> 1"
    using t(2) x inv powr_le1 [of "zg_alpha g" ?x] by (simp add: zipf_inv_def)
qed

text \<open>
  The rounded value of the last \<^verbatim>\<open>return\<close>: when every integer of the range is a double, the two roundings
  keep it between \<open>base + m\<close> and \<open>base + num\<close> whenever the exact offset is between \<open>m\<close> and \<open>num\<close>.
\<close>

lemma rounded_draw_bounds:
  assumes y: "real m \<le> y" "y \<le> real num" and fit: "base + num \<le> 2 ^ 53"
  defines "d \<equiv> to_double (real base + to_double y)"
  shows "real (base + m) \<le> d" and "d \<le> real (base + num)"
proof -
  have n: "num \<le> 2 ^ 53" using fit by simp
  have s: "real (base + num) \<le> 2 ^ 53" using fit by (metis of_nat_le_iff of_nat_numeral of_nat_power)
  then have y53: "0 \<le> y" "y \<le> 2 ^ 53" using y by simp_all
  have p: "real m \<le> to_double y" "to_double y \<le> real num"
    using to_double_nat_ge [OF y(1) y53(2)] to_double_nat_le [OF y53(1) y(2) n] by simp_all
  show "real (base + m) \<le> d"
    unfolding d_def by (rule to_double_nat_ge) (use p s in simp_all)
  have "0 \<le> to_double y" using p(1) of_nat_0_le_iff [of m, where 'a = real] by linarith
  then have "0 \<le> real base + to_double y" "real base + to_double y \<le> real (base + num)" using p(2) by simp_all
  then show "d \<le> real (base + num)" unfolding d_def by (rule to_double_nat_le [OF _ _ fit])
qed

lemma zipf_third_value:
  assumes inv: "zipf_inv g" and u: "u < 1" and num: "zg_items g \<le> num \<or> m = 0"
    and third: "1 + (1 / 2) powr zg_theta g \<le> u * zg_zeta_n g"
    and fit: "unat (zg_base g) + unat num \<le> 2 ^ 53" and m: "m \<le> 2"
  defines "d \<equiv> to_double (real (unat (zg_base g))
             + to_double (real (unat num) * (zg_eta g * u - zg_eta g + 1) powr zg_alpha g))"
  shows "real (unat (zg_base g) + m) \<le> d" and "d \<le> real (unat (zg_base g) + unat num)"
proof -
  let ?n = "real (unat (zg_items g))" and ?y = "(zg_eta g * u - zg_eta g + 1) powr zg_alpha g"
  note p = zipf_third_power [OF inv u third]
  have n: "2 \<le> ?n" using inv by (simp add: zipf_inv_def word_le_nat_alt)
  have "real m \<le> real (unat num) * ?y"
  proof (cases "m = 0")
    case False
    then have "?n \<le> real (unat num)" using num by (simp add: word_le_nat_alt)
    then have "?n * (2 / ?n) \<le> real (unat num) * ?y" using p(2) n by (intro mult_mono) auto
    then show ?thesis using m n by simp
  qed simp
  moreover have "real (unat num) * ?y \<le> real (unat num)" using p(3) by (intro mult_left_le) auto
  ultimately show "real (unat (zg_base g) + m) \<le> d" "d \<le> real (unat (zg_base g) + unat num)"
    unfolding d_def using rounded_draw_bounds [OF _ _ fit] by blast+
qed

lemma zipf_offset_le:
  assumes inv: "zipf_inv g" and u: "u < 1" and num: "2 \<le> num" and fit: "unat (zg_base g) + unat num \<le> 2 ^ 53"
  shows "zipf_offset u num g \<le> unat num"
proof (cases "u * zg_zeta_n g < 1 + (1 / 2) powr zg_theta g")
  case True
  then show ?thesis using num by (simp add: zipf_offset_def word_le_nat_alt)
next
  case False
  then show ?thesis
    using zipf_third_value(2) [OF inv u _ _ fit, of 0] by (auto simp: zipf_offset_def le_diff_conv nat_le_iff floor_le_iff)
qed

lemma zipf_offset_third_ge:
  assumes inv: "zipf_inv g" and u: "u < 1" and num: "zg_items g \<le> num"
    and third: "1 + (1 / 2) powr zg_theta g \<le> u * zg_zeta_n g"
    and fit: "unat (zg_base g) + unat num \<le> 2 ^ 53"
  shows "2 \<le> zipf_offset u num g"
proof -
  have "\<not> u * zg_zeta_n g < 1" using third powr_ge_zero [of "1 / 2" "zg_theta g"] by linarith
  moreover have "real (unat (zg_base g) + 2) \<le> to_double (real (unat (zg_base g))
             + to_double (real (unat num) * (zg_eta g * u - zg_eta g + 1) powr zg_alpha g))"
    using zipf_third_value(1) [OF inv u _ third fit, of 2] num by simp
  then have "unat (zg_base g) + 2 \<le> nat \<lfloor>to_double (real (unat (zg_base g))
             + to_double (real (unat num) * (zg_eta g * u - zg_eta g + 1) powr zg_alpha g))\<rfloor>"
    by (simp add: le_nat_iff le_floor_iff)
  ultimately show ?thesis using third by (simp add: zipf_offset_def)
qed

lemma Zipfian_NextN_eq:
  assumes inv: "zipf_inv g" and u: "0 \<le> u" "u < 1" and num: "2 \<le> num" "num < kMaxNumItems"
    and fit: "unat (zg_base g) + unat num \<le> 2 ^ 53"
  shows "Zipfian_NextN ndebug u num g =
     (let g' = Zipfian_recompute num g; v = zg_base g + of_nat (zipf_offset u num g')
      in Inr (v, g'\<lparr>zg_last_value := v\<rparr>))"
proof -
  let ?g = "Zipfian_recompute num g"
  let ?x = "zg_eta ?g * u - zg_eta ?g + 1" and ?b = "unat (zg_base g)"
  note inv' = zipf_inv_recompute [OF inv, of num]
  show ?thesis
  proof (cases "u * zg_zeta_n ?g < 1 + (1 / 2) powr zg_theta g")
    case True
    then show ?thesis using num by (auto simp: Zipfian_NextN_def zipf_offset_def Let_def)
  next
    case False
    then have b: "1 + (1 / 2) powr zg_theta ?g \<le> u * zg_zeta_n ?g" by simp
    have x0: "0 < ?x" by (rule zipf_third_power(1) [OF inv' u(2) b])
    have n1: "\<not> u * zg_zeta_n ?g < 1" using b powr_ge_zero [of "1 / 2" "zg_theta ?g"] by linarith
    let ?d = "to_double (real ?b + to_double (real (unat num) * ?x powr zg_alpha ?g))"
    have d: "real ?b \<le> ?d" "?d \<le> real (?b + unat num)"
      using zipf_third_value [OF inv' u(2) _ b, of num 0] fit by simp_all
    then have fl: "?b \<le> nat \<lfloor>?d\<rfloor>" by (simp add: le_nat_iff le_floor_iff)
    have "real (?b + unat num) \<le> 2 ^ 53" using fit by (metis of_nat_le_iff of_nat_numeral of_nat_power)
    then have "?d \<le> 2 ^ 53" using d(2) by (rule order_trans [rotated])
    moreover have "(2 :: real) ^ 53 < 2 ^ 64" by simp
    ultimately have lim: "?d < 2 ^ 64" by (rule order_le_less_trans)
    have pos: "0 \<le> ?d" using order_trans [OF of_nat_0_le_iff d(1)] .
    have "of_nat (nat \<lfloor>?d\<rfloor>) = zg_base g + of_nat (zipf_offset u num ?g)"
      using False n1 fl by (simp add: zipf_offset_def of_nat_diff of_nat_unat_u64)
    then have "u64_of_double ?d = Inr (zg_base g + of_nat (zipf_offset u num ?g))"
      using lim pos by (simp add: u64_of_double_def)
    moreover have "double_of_u64 (zg_base g) = real ?b" using fit by (intro double_of_u64_exact) simp
    ultimately show ?thesis
      using num False n1 x0 by (simp add: Zipfian_NextN_def cpp_pow_def Let_def items_exact)
  qed
qed

lemma Zipfian_NextN_ok:
  assumes "zipf_inv g" and "0 \<le> u" and "u < 1" and "2 \<le> num" and "num < kMaxNumItems"
    and "unat (zg_base g) + unat num \<le> 2 ^ 53"
  obtains v g' where "Zipfian_NextN ndebug u num g = Inr (v, g')"
    and "zipf_inv g'" and "zg_last_value g' = v" and "zg_base g' = zg_base g"
    and "zg_items g' = zg_items g" and "zg_count_for_zeta g' = max num (zg_count_for_zeta g)"
    and "unat v = unat (zg_base g) + zipf_offset u num (Zipfian_recompute num g)"
proof -
  let ?r = "Zipfian_recompute num g"
  let ?v = "zg_base g + of_nat (zipf_offset u num ?r)"
  have off: "zipf_offset u num ?r \<le> unat num"
    by (rule zipf_offset_le [OF zipf_inv_recompute [OF assms(1)] assms(3,4)]) (use assms(6) in simp)
  have "unat ?v = unat (zg_base g) + zipf_offset u num ?r"
    using off assms(6) unat_u64_bound [of num] by (simp add: unat_simps)
  moreover have "zipf_inv (?r\<lparr>zg_last_value := ?v\<rparr>)"
    using zipf_inv_recompute [OF assms(1), of num] by (simp add: zipf_inv_def Eta_def)
  moreover have "zg_count_for_zeta ?r = max num (zg_count_for_zeta g)"
    by (auto simp: Zipfian_recompute_def Let_def max_def)
  ultimately show ?thesis
    using that [of ?v "?r\<lparr>zg_last_value := ?v\<rparr>"] Zipfian_NextN_eq [OF assms, of ndebug]
    by (simp add: Let_def)
qed

text \<open>The states a generator over \<open>[min, max]\<close> is in between calls of \<open>Next()\<close>.\<close>

definition zipf_ready :: "ZipfianGenerator \<Rightarrow> bool" where
  "zipf_ready g \<longleftrightarrow> zipf_inv g \<and> zg_count_for_zeta g = zg_items g \<and> zg_items g < kMaxNumItems
     \<and> unat (zg_base g) + unat (zg_items g) \<le> 2 ^ 53"

lemma zipf_ready_offset:
  assumes "zipf_ready g" and "u < 1"
  shows "zipf_offset u (zg_items g) g \<le> unat (zg_items g)"
  by (rule zipf_offset_le) (use assms in \<open>auto simp: zipf_ready_def zipf_inv_def\<close>)

lemma Zipfian_Next_eq:
  assumes "zipf_ready g" and "0 \<le> u" and "u < 1"
  shows "Zipfian_Next ndebug u g =
     (let v = zg_base g + of_nat (zipf_offset u (zg_items g) g) in Inr (v, g\<lparr>zg_last_value := v\<rparr>))"
  unfolding Zipfian_Next_def
  using Zipfian_NextN_eq [of g u "zg_items g" ndebug] assms by (simp add: zipf_ready_def zipf_inv_def Let_def)

lemma zipf_ready_last [simp]: "zipf_ready (g\<lparr>zg_last_value := v\<rparr>) \<longleftrightarrow> zipf_ready g"
  by (simp add: zipf_ready_def zipf_inv_def Eta_def)

text \<open>Where a draw falls: the first two items have their own branches, and the rest of the mass goes to the items beyond.\<close>

lemma zipf_ready_draw:
  assumes g: "zipf_ready g" and u: "u < 1"
  defines "v \<equiv> zg_base g + of_nat (zipf_offset u (zg_items g) g)"
  shows "unat v = unat (zg_base g) + zipf_offset u (zg_items g) g"
    and "zipf_offset u (zg_items g) g = 0 \<longleftrightarrow> u * zg_zeta_n g < 1"
    and "zipf_offset u (zg_items g) g = 1 \<longleftrightarrow> 1 \<le> u * zg_zeta_n g \<and> u * zg_zeta_n g < 1 + (1 / 2) powr zg_theta g"
proof -
  have h: "zipf_inv g" "unat (zg_base g) + unat (zg_items g) \<le> 2 ^ 53" using g by (simp_all add: zipf_ready_def)
  show "unat v = unat (zg_base g) + zipf_offset u (zg_items g) g"
    using zipf_ready_offset [OF g u] h(2) unat_u64_bound [of "zg_items g"] by (simp add: v_def unat_simps)
  have third: "2 \<le> zipf_offset u (zg_items g) g" if "\<not> u * zg_zeta_n g < 1 + (1 / 2) powr zg_theta g"
    using zipf_offset_third_ge [OF h(1) u _ _ h(2)] that by simp
  have pos: "0 < (1 / 2) powr zg_theta g" by simp
  show "zipf_offset u (zg_items g) g = 0 \<longleftrightarrow> u * zg_zeta_n g < 1"
    "zipf_offset u (zg_items g) g = 1 \<longleftrightarrow> 1 \<le> u * zg_zeta_n g \<and> u * zg_zeta_n g < 1 + (1 / 2) powr zg_theta g"
    using third pos by (cases "u * zg_zeta_n g < 1 + (1 / 2) powr zg_theta g"; force simp: zipf_offset_def)+
qed

lemma Zipfian_Next_ok:
  assumes "zipf_ready g" and "0 \<le> u" and "u < 1"
  obtains v g' where "Zipfian_Next ndebug u g = Inr (v, g')" and "zipf_ready g'"
    and "zg_last_value g' = v" and "zg_base g' = zg_base g" and "zg_items g' = zg_items g"
    and "unat v = unat (zg_base g) + zipf_offset u (zg_items g) g"
proof -
  show ?thesis
    using that Zipfian_Next_eq [OF assms, of ndebug] zipf_ready_draw(1) [OF assms(1,3)] assms(1) by (simp add: Let_def)
qed

interpretation zipf_gen: generator
  "\<lambda>u g. projr (Zipfian_Next True u g)" Zipfian_Last "\<lambda>_ u. 0 \<le> u \<and> u < 1" zipf_ready
  "\<lambda>g. {v. zg_base g \<le> v \<and> unat v \<le> unat (zg_base g) + unat (zg_items g)}"
proof unfold_locales
  fix g :: ZipfianGenerator and u :: real
  assume g: "zipf_ready g" and u: "0 \<le> u \<and> u < 1"
  from Zipfian_Next_ok [OF g, of u True] u obtain v g' where
    n: "Zipfian_Next True u g = Inr (v, g')" "zipf_ready g'" "zg_last_value g' = v"
      "zg_base g' = zg_base g" "zg_items g' = zg_items g"
      "unat v = unat (zg_base g) + zipf_offset u (zg_items g) g"
    by blast
  have "zipf_offset u (zg_items g) g \<le> unat (zg_items g)" using zipf_ready_offset [OF g] u by blast
  with n show "Zipfian_Last (snd (projr (Zipfian_Next True u g))) = fst (projr (Zipfian_Next True u g))"
    and "zipf_ready (snd (projr (Zipfian_Next True u g)))"
    and "fst (projr (Zipfian_Next True u g)) \<in>
          {v. zg_base g \<le> v \<and> unat v \<le> unat (zg_base g) + unat (zg_items g)}"
    and "{v. zg_base (snd (projr (Zipfian_Next True u g))) \<le> v \<and>
            unat v \<le> unat (zg_base (snd (projr (Zipfian_Next True u g)))) + unat (zg_items (snd (projr (Zipfian_Next True u g))))}
        = {v. zg_base g \<le> v \<and> unat v \<le> unat (zg_base g) + unat (zg_items g)}"
    by (simp_all add: Zipfian_Last_def word_le_nat_alt)
qed

section \<open>The constructors\<close>

lemma new_Zipfian4_ready:
  assumes "0 < theta" and "theta < 1" and "0 < zeta_n" and "2 \<le> mx - mn + 1"
    and "mx - mn + 1 < kMaxNumItems" and "unat mn + unat (mx - mn + 1) \<le> 2 ^ 53" and "0 \<le> u" and "u < 1"
  shows "\<exists>g. new_ZipfianGenerator4 ndebug u mn mx theta zeta_n = Inr g \<and> zipf_ready g
           \<and> zg_base g = mn \<and> zg_items g = mx - mn + 1 \<and> zg_zeta_n g = zeta_n \<and> zg_theta g = theta"
proof -
  let ?g = "\<lparr>zg_items = mx - mn + 1, zg_base = mn, zg_theta = theta, zg_zeta_n = zeta_n,
      zg_eta = 0, zg_alpha = 1 / (1 - theta), zg_zeta_2 = Zeta 2 theta,
      zg_count_for_zeta = mx - mn + 1, zg_last_value = 0, zg_allow_count_decrease = False\<rparr>"
  let ?h = "?g\<lparr>zg_eta := Eta ?g\<rparr>"
  have "zipf_ready ?h"
    using assms by (simp add: zipf_ready_def zipf_inv_def zeta_exact_def Eta_def)
  then have n: "\<exists>v. Zipfian_Next ndebug u ?h = Inr (v, ?h\<lparr>zg_last_value := v\<rparr>) \<and> zipf_ready (?h\<lparr>zg_last_value := v\<rparr>)"
    using Zipfian_Next_eq [of ?h u ndebug] assms(7,8) by (simp only: Let_def zipf_ready_last) blast
  then obtain v where
    "Zipfian_Next ndebug u ?h = Inr (v, ?h\<lparr>zg_last_value := v\<rparr>)" "zipf_ready (?h\<lparr>zg_last_value := v\<rparr>)"
    by blast
  then show ?thesis using assms(4,5) by (simp add: new_ZipfianGenerator4_def Let_def)
qed

lemma new_Zipfian3_ready:
  assumes "0 < theta" and "theta < 1" and "2 \<le> mx - mn + 1"
    and "mx - mn + 1 < kMaxNumItems" and "unat mn + unat (mx - mn + 1) \<le> 2 ^ 53" and "0 \<le> u" and "u < 1"
  shows "\<exists>g. new_ZipfianGenerator3 ndebug u mn mx theta = Inr g \<and> zipf_ready g
           \<and> zg_base g = mn \<and> zg_items g = mx - mn + 1 \<and> zg_zeta_n g = Zeta (mx - mn + 1) theta \<and> zg_theta g = theta"
  unfolding new_ZipfianGenerator3_def
  using assms Zeta_pos [OF assms(3)] by (intro new_Zipfian4_ready) auto

section \<open>Scrambled and skewed-latest generators\<close>

lemma Scramble_range:
  assumes "sz_num_items g \<noteq> 0" and "unat (sz_base g) + unat (sz_num_items g) \<le> 2 ^ 64"
  shows "\<exists>k. Scramble g v = Inr k \<and> sz_base g \<le> k
     \<and> unat k < unat (sz_base g) + unat (sz_num_items g)"
proof -
  let ?m = "FNVHash64 v mod sz_num_items g"
  have m: "unat ?m < unat (sz_num_items g)"
    using assms(1) by (simp add: unat_mod unat_gt_0)
  then have "unat (sz_base g + ?m) = unat (sz_base g) + unat ?m"
    using assms(2) by (intro unat_plus) linarith
  with m assms(1) show ?thesis by (simp add: Scramble_def word_le_nat_alt)
qed

lemma Scrambled_Next_ok:
  assumes "zipf_ready (sz_generator g)" and "0 \<le> u" and "u < 1"
    and "sz_num_items g \<noteq> 0" and "unat (sz_base g) + unat (sz_num_items g) \<le> 2 ^ 64"
  obtains k g' where "Scrambled_Next ndebug u g = Inr (k, g')" and "Scrambled_Last g' = Inr k"
    and "sz_base g \<le> k" and "unat k < unat (sz_base g) + unat (sz_num_items g)"
    and "zipf_ready (sz_generator g')" and "sz_base g' = sz_base g" and "sz_num_items g' = sz_num_items g"
proof -
  from Zipfian_Next_ok [OF assms(1-3), of ndebug] obtain v z where
    z: "Zipfian_Next ndebug u (sz_generator g) = Inr (v, z)" "zipf_ready z" "zg_last_value z = v"
    by metis
  obtain k where k: "Scramble g v = Inr k" "sz_base g \<le> k" "unat k < unat (sz_base g) + unat (sz_num_items g)"
    using Scramble_range [OF assms(4,5)] by blast
  have "Scrambled_Last (g\<lparr>sz_generator := z\<rparr>) = Inr k"
    using k(1) z(3) by (simp add: Scrambled_Last_def Zipfian_Last_def Scramble_def split: if_splits)
  then show ?thesis
    using that [of k "g\<lparr>sz_generator := z\<rparr>"] z k by (simp add: Scrambled_Next_def)
qed

lemma SkewedLatest_Next_ok:
  assumes "zipf_inv (sl_zipfian g)" and "zg_base (sl_zipfian g) = 0" and "0 \<le> u" and "u < 1"
    and "2 \<le> mx" and "mx < kMaxNumItems"
  obtains k g' where "SkewedLatest_Next ndebug u mx g = Inr (k, g')" and "k \<le> mx"
    and "zipf_inv (sl_zipfian g')" and "zg_base (sl_zipfian g') = 0" and "sl_last g' = k"
proof -
  have fit: "unat (zg_base (sl_zipfian g)) + unat mx \<le> 2 ^ 53"
    using assms(2,6) by (simp add: word_less_nat_alt kMaxNumItems_val)
  from Zipfian_NextN_ok [OF assms(1,3-6) fit, of ndebug] obtain v z where
    z: "Zipfian_NextN ndebug u mx (sl_zipfian g) = Inr (v, z)" "zipf_inv z"
      "zg_base z = zg_base (sl_zipfian g)"
      "unat v = unat (zg_base (sl_zipfian g)) + zipf_offset u mx (Zipfian_recompute mx (sl_zipfian g))"
    by metis
  have "zipf_offset u mx (Zipfian_recompute mx (sl_zipfian g)) \<le> unat mx"
    by (rule zipf_offset_le [OF zipf_inv_recompute [OF assms(1)] assms(4,5)]) (use fit in simp)
  then have v: "unat v \<le> unat mx" using z(4) assms(2) by simp
  then have "mx - v \<le> mx" by (simp add: word_le_nat_alt unat_minus)
  then show ?thesis
    using that [of "mx - v" "g\<lparr>sl_zipfian := z, sl_last := mx - v\<rparr>"] z assms(2)
    by (simp add: SkewedLatest_Next_def)
qed

section \<open>Properties\<close>

text \<open>A sequence of draws; the first undefined operation or failed assertion ends it.\<close>

fun zipf_draws :: "bool \<Rightarrow> real list \<Rightarrow> ZipfianGenerator \<Rightarrow> (u64 list \<times> ZipfianGenerator) res" where
  "zipf_draws ndebug [] g = Inr ([], g)"
| "zipf_draws ndebug (u # us) g =
     andThen (Zipfian_Next ndebug u g) (\<lambda>(v, g).
     andThen (zipf_draws ndebug us g) (\<lambda>(vs, g). Inr (v # vs, g)))"

lemma zipf_draws_ok:
  assumes "zipf_ready g" and "\<forall>u \<in> set us. 0 \<le> u \<and> u < 1"
  shows "\<exists>vs g'. zipf_draws ndebug us g = Inr (vs, g') \<and> list_all2 (\<lambda>u v.
       unat (zg_base g) \<le> unat v \<and> unat v \<le> unat (zg_base g) + unat (zg_items g)
     \<and> (unat v = unat (zg_base g) \<longleftrightarrow> u * zg_zeta_n g < 1)
     \<and> (unat v = unat (zg_base g) + 1 \<longleftrightarrow> 1 \<le> u * zg_zeta_n g \<and> u * zg_zeta_n g < Zeta 2 (zg_theta g))) us vs"
  using assms
proof (induction us arbitrary: g)
  case (Cons u us)
  let ?v = "zg_base g + of_nat (zipf_offset u (zg_items g) g)"
  have u: "0 \<le> u" "u < 1" using Cons.prems(2) by simp_all
  from Cons.IH [of "g\<lparr>zg_last_value := ?v\<rparr>"] Cons.prems obtain vs g' where
    "zipf_draws ndebug us (g\<lparr>zg_last_value := ?v\<rparr>) = Inr (vs, g')"
    "list_all2 (\<lambda>u v. unat (zg_base g) \<le> unat v \<and> unat v \<le> unat (zg_base g) + unat (zg_items g)
     \<and> (unat v = unat (zg_base g) \<longleftrightarrow> u * zg_zeta_n g < 1)
     \<and> (unat v = unat (zg_base g) + 1 \<longleftrightarrow> 1 \<le> u * zg_zeta_n g \<and> u * zg_zeta_n g < Zeta 2 (zg_theta g))) us vs"
    by auto
  then show ?case
    using Zipfian_Next_eq [OF Cons.prems(1) u, of ndebug] zipf_ready_draw [OF Cons.prems(1) u(2)]
      zipf_ready_offset [OF Cons.prems(1) u(2)] by (simp add: Let_def Zeta_2)
qed simp

text \<open>C6: A Zipfian generator over \<open>[mn, mx]\<close> with \<open>mx\<close> below \<open>2\<^sup>5\<^sup>3\<close> (at least two and fewer than \<^verbatim>\<open>kMaxNumItems\<close> items, a
  constant between 0 and 1) is built without undefined behaviour or failed assertion, and every sequence of draws succeeds. Each
  draw is \<open>mn\<close> exactly when the random number scaled by zeta is below the weight of item 1, \<open>mn + 1\<close> exactly when it is
  below the sum of the first two weights, and otherwise lies beyond. No draw is below \<open>mn\<close> or above \<open>mx + 1\<close>: the conversions and
  the final product and sum are rounded to 53 bits, which can carry a draw at the end of the interval one step past \<open>mx\<close>. The
  weights themselves are exact real numbers.\<close>

theorem zipfian_draws_in_range:
  assumes "0 < theta" and "theta < 1" and "mn < mx" and "unat mx - unat mn + 1 < unat kMaxNumItems"
    and "unat mx < 2 ^ 53" and "0 \<le> u0 \<and> u0 < 1" and "\<forall>u \<in> set us. 0 \<le> u \<and> u < 1"
  shows "\<exists>g vs g'. new_ZipfianGenerator3 ndebug u0 mn mx theta = Inr g
     \<and> zipf_draws ndebug us g = Inr (vs, g')
     \<and> list_all2 (\<lambda>u v. mn \<le> v \<and> v \<le> mx + 1
          \<and> (v = mn \<longleftrightarrow> u * Zeta (mx - mn + 1) theta < 1)
          \<and> (v = mn + 1 \<longleftrightarrow> 1 \<le> u * Zeta (mx - mn + 1) theta \<and> u * Zeta (mx - mn + 1) theta < Zeta 2 theta)) us vs"
proof -
  have w: "unat mn < unat mx" using assms(3) by (simp add: word_less_nat_alt)
  have sub: "unat (mx - mn) = unat mx - unat mn" using assms(3) by (intro unat_minus) simp
  have up: "unat (mx + 1) = unat mx + 1" "unat (mn + 1) = unat mn + 1"
    using assms(5) w unat_plus [of mx 1] unat_plus [of mn 1] by simp_all
  have items: "unat (mx - mn + 1) = unat mx - unat mn + 1"
    using assms(5) sub w unat_plus [of "mx - mn" 1] by simp
  have "2 \<le> mx - mn + 1" "mx - mn + 1 < kMaxNumItems" "unat mn + unat (mx - mn + 1) \<le> 2 ^ 53"
    using assms(4,5) w unfolding word_le_nat_alt word_less_nat_alt items by simp_all
  then obtain g where g: "new_ZipfianGenerator3 ndebug u0 mn mx theta = Inr g" "zipf_ready g" "zg_base g = mn"
    "zg_items g = mx - mn + 1" "zg_zeta_n g = Zeta (mx - mn + 1) theta" "zg_theta g = theta"
    using new_Zipfian3_ready [OF assms(1,2)] assms(6) by blast
  from zipf_draws_ok [OF g(2) assms(7), of ndebug] g(1) show ?thesis
    unfolding g(3-6) items word_le_nat_alt word_unat_eq_iff up using w by auto
qed

theorem zipfian_draws_in_range_witness:
  "\<exists>g vs g'. new_ZipfianGenerator3 True (1 / 2) 10 14 (99 / 100) = Inr g
     \<and> zipf_draws True [0, 9 / 10] g = Inr (vs, g')
     \<and> list_all2 (\<lambda>u v. 10 \<le> v \<and> v \<le> 14 + 1
          \<and> (v = 10 \<longleftrightarrow> u * Zeta (14 - 10 + 1) (99 / 100) < 1)
          \<and> (v = 10 + 1 \<longleftrightarrow> 1 \<le> u * Zeta (14 - 10 + 1) (99 / 100)
                \<and> u * Zeta (14 - 10 + 1) (99 / 100) < Zeta 2 (99 / 100))) [0, 9 / 10] vs"
  by (rule zipfian_draws_in_range) (auto simp: kMaxNumItems_val)

text \<open>A generator over ten items.\<close>

definition zipf10 :: ZipfianGenerator where
  "zipf10 = projr (new_ZipfianGenerator3 True 0 0 9 (1 / 2))"

lemma zipf10_ready: "zipf_ready zipf10" and zipf10_base: "zg_base zipf10 = 0"
  using new_Zipfian3_ready [of "1 / 2" 9 0 0 True]
  by (auto simp: zipf10_def kMaxNumItems_def drop_bit_eq_div word_le_nat_alt word_less_nat_alt)

text \<open>C34: The incremental update of zeta is exact: after any sequence of calls \<^verbatim>\<open>Next(num)\<close> with growing and shrinking item counts,
  the stored sum equals the full sum over the greatest count seen.\<close>

theorem zeta_incremental_exact:
  assumes "zeta_exact g"
  shows "zeta_exact (foldl (\<lambda>g num. Zipfian_recompute num g) g nums)
     \<and> zg_count_for_zeta (foldl (\<lambda>g num. Zipfian_recompute num g) g nums) = fold max nums (zg_count_for_zeta g)"
  using assms
proof (induction nums arbitrary: g)
  case (Cons num nums)
  have "zg_count_for_zeta (Zipfian_recompute num g) = max num (zg_count_for_zeta g)"
    by (auto simp: Zipfian_recompute_def Let_def max_def)
  with Cons.IH [OF zeta_exact_recompute [OF Cons.prems, of num]] show ?case by simp
qed simp

theorem zeta_incremental_exact_witness:
  "zeta_exact (foldl (\<lambda>g num. Zipfian_recompute num g)
     \<lparr>zg_items = 2, zg_base = 0, zg_theta = 1 / 2, zg_zeta_n = Zeta 2 (1 / 2), zg_eta = 0, zg_alpha = 2,
      zg_zeta_2 = Zeta 2 (1 / 2), zg_count_for_zeta = 2, zg_last_value = 0, zg_allow_count_decrease = False\<rparr> [5, 3, 8])"
  by (rule zeta_incremental_exact [THEN conjunct1]) (simp add: zeta_exact_def)

lemma new_Scrambled_ready:
  assumes "0 \<le> u0" and "u0 < 1" and "0 < theta" and "theta < 1"
  shows "\<exists>g. new_ScrambledZipfianGenerator3 ndebug u0 mn mx theta = Inr g \<and> zipf_ready (sz_generator g)
     \<and> sz_base g = mn \<and> sz_num_items g = mx - mn + 1"
proof -
  have kz: "kItemCount - 0 + 1 = 10000000001" by (simp add: kItemCount_def)
  have lim: "2 \<le> kItemCount - 0 + 1" "kItemCount - 0 + 1 < kMaxNumItems" "unat (0 :: u64) + unat (kItemCount - 0 + 1) \<le> 2 ^ 53"
    unfolding kz by (simp_all add: kMaxNumItems_def drop_bit_eq_div)
  have "\<exists>z. (if theta = kUsedZipfianConstant then new_ZipfianGenerator4 ndebug u0 0 kItemCount theta kZetan
            else new_ZipfianGenerator3 ndebug u0 0 kItemCount theta) = Inr z \<and> zipf_ready z"
  proof (cases "theta = kUsedZipfianConstant")
    case True
    have "\<exists>z. new_ZipfianGenerator4 ndebug u0 0 kItemCount theta kZetan = Inr z \<and> zipf_ready z
        \<and> zg_base z = 0 \<and> zg_items z = kItemCount - 0 + 1 \<and> zg_zeta_n z = kZetan \<and> zg_theta z = theta"
      by (rule new_Zipfian4_ready) (use assms lim in \<open>auto simp: kZetan_def kz [simplified]\<close>)
    with True show ?thesis by auto
  next
    case False
    have "\<exists>z. new_ZipfianGenerator3 ndebug u0 0 kItemCount theta = Inr z \<and> zipf_ready z
        \<and> zg_base z = 0 \<and> zg_items z = kItemCount - 0 + 1
        \<and> zg_zeta_n z = Zeta (kItemCount - 0 + 1) theta \<and> zg_theta z = theta"
      by (rule new_Zipfian3_ready) (use assms lim in auto)
    with False show ?thesis by auto
  qed
  then show ?thesis by (auto simp: new_ScrambledZipfianGenerator3_def)
qed

lemma span_items:
  assumes "mn \<le> mx" and "unat mx + 1 < 2 ^ 64"
  shows "unat (mx - mn + 1 :: u64) = unat mx - unat mn + 1" and "(mx - mn + 1 :: u64) \<noteq> 0" and "unat mn + unat (mx - mn + 1) \<le> 2 ^ 64"
    and "unat mn \<le> unat mx"
proof -
  have "unat (mx - mn) = unat mx - unat mn" using assms(1) by (rule unat_minus)
  then show n: "unat (mx - mn + 1 :: u64) = unat mx - unat mn + 1" and le: "unat mn \<le> unat mx"
    using assms unat_plus [of "mx - mn" 1] by (auto simp: word_le_nat_alt)
  show "(mx - mn + 1 :: u64) \<noteq> 0" using n by (auto simp del: unat_0 simp: unat_eq_zero [symmetric])
  show "unat mn + unat (mx - mn + 1) \<le> 2 ^ 64" using n le assms(2) by simp
qed

text \<open>The scrambled generator over \<open>[mn, mx]\<close> is built without undefined behaviour and returns a key in the closed interval from
  \<open>mn\<close> to \<open>mx\<close> for every draw, and \<^verbatim>\<open>Last()\<close>, which hashes the last Zipf value again, repeats it.\<close>

theorem scrambled_in_range:
  assumes "mn \<le> mx" and "unat mx + 1 < 2 ^ 64" and "0 \<le> u0" and "u0 < 1" and "0 \<le> u" and "u < 1"
    and "0 < theta" and "theta < 1"
  shows "\<exists>g k g'. new_ScrambledZipfianGenerator3 ndebug u0 mn mx theta = Inr g
     \<and> Scrambled_Next ndebug u g = Inr (k, g') \<and> Scrambled_Last g' = Inr k \<and> mn \<le> k \<and> k \<le> mx"
proof -
  obtain g where g: "new_ScrambledZipfianGenerator3 ndebug u0 mn mx theta = Inr g" "zipf_ready (sz_generator g)"
    "sz_base g = mn" "sz_num_items g = mx - mn + 1"
    using new_Scrambled_ready [OF assms(3,4,7,8)] by blast
  note n = span_items [OF assms(1,2)]
  obtain k g' where "Scrambled_Next ndebug u g = Inr (k, g')" "Scrambled_Last g' = Inr k" "mn \<le> k" "unat k < unat mn + unat (mx - mn + 1)"
    by (rule Scrambled_Next_ok [OF g(2) assms(5,6), of ndebug]) (use g n(2,3) in simp_all)
  then show ?thesis using g(1) n(1,4) by (auto simp: word_le_nat_alt)
qed

theorem scrambled_in_range_witness:
  "\<exists>g k g'. new_ScrambledZipfianGenerator3 False 0 100 1099 (99 / 100) = Inr g
     \<and> Scrambled_Next False (1 / 3) g = Inr (k, g') \<and> Scrambled_Last g' = Inr k \<and> 100 \<le> k \<and> k \<le> 1099"
  by (rule scrambled_in_range) simp_all

text \<open>The skewed-latest generator never returns a key beyond the basis counter: for every basis of at least two items, however
  it grew since the last call, the key lies between 0 and the last acknowledged one, and \<^verbatim>\<open>Last()\<close> repeats it.\<close>

theorem skewed_latest_in_range:
  assumes "zipf_inv (sl_zipfian g)" and "zg_base (sl_zipfian g) = 0" and "0 \<le> u" and "u < 1"
    and "2 \<le> mx" and "mx < kMaxNumItems"
  shows "\<exists>k g'. SkewedLatest_Next ndebug u mx g = Inr (k, g') \<and> k \<le> mx \<and> SkewedLatest_Last g' = k
     \<and> zipf_inv (sl_zipfian g') \<and> zg_base (sl_zipfian g') = 0"
  using SkewedLatest_Next_ok [OF assms, of ndebug] by (metis SkewedLatest_Last_def)

theorem skewed_latest_in_range_witness:
  "\<exists>k g'. SkewedLatest_Next False (1 / 4) 50 \<lparr>sl_zipfian = zipf10, sl_last = 0\<rparr> = Inr (k, g') \<and> k \<le> 50"
  using skewed_latest_in_range [of "\<lparr>sl_zipfian = zipf10, sl_last = 0\<rparr>" "1 / 4" 50 False] zipf10_ready
  by (auto simp: zipf_ready_def kMaxNumItems_def drop_bit_eq_div zipf10_base)

section \<open>Beyond the exact integers\<close>

text \<open>The generator over three items with constant 1/2, on any base.\<close>

definition zipf3 :: "u64 \<Rightarrow> ZipfianGenerator" where
  "zipf3 b = (let g = \<lparr>zg_items = 3, zg_base = b, zg_theta = 1 / 2, zg_zeta_n = Zeta 3 (1 / 2), zg_eta = 0, zg_alpha = 2,
      zg_zeta_2 = Zeta 2 (1 / 2), zg_count_for_zeta = 3, zg_last_value = b, zg_allow_count_decrease = False\<rparr>
    in g\<lparr>zg_eta := Eta g\<rparr>)"

lemma new_zipf3: "new_ZipfianGenerator3 ndebug 0 b (b + 2) (1 / 2) = Inr (zipf3 b)"
  by (simp add: new_ZipfianGenerator3_def new_ZipfianGenerator4_def Let_def Zipfian_Next_def Zipfian_NextN_def
      Zipfian_recompute_def zipf3_def Eta_def kMaxNumItems_def drop_bit_eq_div)

lemma Zeta_3_half: "Zeta 3 (1 / 2) = 1 + sqrt (1 / 2) + sqrt (1 / 3)"
proof -
  have "{1 ..< unat (3 :: u64) + 1} = {1, 2, 3 :: nat}" by auto
  then show ?thesis
    using to_double_nat [of 1] to_double_nat [of 2] to_double_nat [of 3]
    by (simp add: Zeta_sum powr_half_sqrt real_sqrt_divide)
qed

lemma zipf3_bounds:
  "0 \<le> zg_eta (zipf3 b)" "zg_eta (zipf3 b) \<le> 1" "1 + (1 / 2) powr (1 / 2) \<le> 63 / 64 * zg_zeta_n (zipf3 b)"
proof -
  have s: "7 / 10 \<le> sqrt (1 / 2)" "57 / 100 \<le> sqrt (1 / 3)" "81 / 100 \<le> sqrt (2 / 3)"
    by (rule real_le_rsqrt, simp add: power2_eq_square)+
  have s': "sqrt (1 / 2) \<le> 71 / 100" "sqrt (1 / 3) \<le> 58 / 100" "sqrt (2 / 3) \<le> 1"
    by (rule real_le_lsqrt; simp add: power2_eq_square)+
  note s = s s'
  have z2: "Zeta 2 (1 / 2) = 1 + sqrt (1 / 2)" by (simp add: Zeta_2 powr_half_sqrt)
  let ?z = "1 + sqrt (1 / 2) + sqrt (1 / 3)"
  have z: "0 < ?z" using s by linarith
  have eta: "zg_eta (zipf3 b) = (1 - sqrt (2 / 3)) / (1 - (1 + sqrt (1 / 2)) / ?z)"
    using to_double_nat [of 3] by (simp add: zipf3_def Eta_def z2 Zeta_3_half powr_half_sqrt double_of_u64_def)
  have d: "1 - (1 + sqrt (1 / 2)) / ?z = sqrt (1 / 3) / ?z" using z by (simp add: field_simps)
  then have eta': "zg_eta (zipf3 b) = (1 - sqrt (2 / 3)) * ?z / sqrt (1 / 3)" unfolding eta by simp
  have "(1 - sqrt (2 / 3)) * ?z \<le> 19 / 100 * (23 / 10)" using s z by (intro mult_mono) simp_all
  then have "(1 - sqrt (2 / 3)) * ?z \<le> sqrt (1 / 3)" using s by linarith
  then show "zg_eta (zipf3 b) \<le> 1" unfolding eta' using s by (simp add: divide_le_eq_1_pos)
  show "0 \<le> zg_eta (zipf3 b)" unfolding eta' using s z by simp
  show "1 + (1 / 2) powr (1 / 2) \<le> 63 / 64 * zg_zeta_n (zipf3 b)"
    using s by (simp add: zipf3_def Let_def Zeta_3_half powr_half_sqrt)
qed

text \<open>The rounded product of the draw 63/64: between 21/8 and 3.\<close>

lemma to_double_near_3:
  assumes "21 / 8 \<le> y" and "y \<le> 3"
  shows "21 / 8 \<le> to_double y" and "to_double y \<le> 3"
proof -
  have "ulp_exponent y = - 51" by (rule ulp_exponent_eqI) (use assms in simp_all)
  then have "real_of_int (21 * 2 ^ 48) * 2 powr of_int (ulp_exponent y) = 21 / 8" by (simp add: powr_minus powr_numeral)
  then show "21 / 8 \<le> to_double y" using to_double_ge [of y "21 * 2 ^ 48"] assms by simp
  show "to_double y \<le> 3" using to_double_nat_le [of y 3] assms by simp
qed

definition zipf3_product :: real where
  "zipf3_product = to_double (3 * (zg_eta (zipf3 0) * (63 / 64) - zg_eta (zipf3 0) + 1) powr 2)"

lemma zipf3_product_bounds: "21 / 8 \<le> zipf3_product" "zipf3_product \<le> 3"
proof -
  let ?x = "zg_eta (zipf3 0) * (63 / 64) - zg_eta (zipf3 0) + 1"
  have x: "63 / 64 \<le> ?x" "?x \<le> 1" using zipf3_bounds(1,2) [of 0] by simp_all
  have "(63 / 64)\<^sup>2 \<le> ?x\<^sup>2" "?x\<^sup>2 \<le> 1\<^sup>2" using x by (intro power_mono; linarith)+
  then have "21 / 8 \<le> 3 * ?x powr 2" "3 * ?x powr 2 \<le> 3" using x by (simp_all add: power2_eq_square)
  then show "21 / 8 \<le> zipf3_product" "zipf3_product \<le> 3" unfolding zipf3_product_def by (rule to_double_near_3)+
qed

lemma zipf3_draw:
  assumes "u64_of_double (to_double (double_of_u64 b + zipf3_product)) = Inr v"
  shows "\<exists>g'. Zipfian_Next ndebug (63 / 64) (zipf3 b) = Inr (v, g')"
proof -
  have "0 \<le> zg_eta (zipf3 b) * (63 / 64) - zg_eta (zipf3 b) + 1" using zipf3_bounds(1,2) [of b] by simp
  moreover have "zg_eta (zipf3 0) = zg_eta (zipf3 b)" by (simp add: zipf3_def Eta_def)
  moreover have f: "zg_items (zipf3 b) = 3" "zg_base (zipf3 b) = b" "zg_theta (zipf3 b) = 1 / 2" "zg_alpha (zipf3 b) = 2"
    "zg_count_for_zeta (zipf3 b) = 3" "double_of_u64 3 = 3"
    using to_double_nat [of 3] by (simp_all add: zipf3_def Let_def double_of_u64_def)
  moreover have "0 < (1 / 2) powr (1 / 2 :: real)" by simp
  then have "\<not> 63 / 64 * zg_zeta_n (zipf3 b) < 1" using zipf3_bounds(3) [of b] by linarith
  moreover have "\<not> 63 / 64 * zg_zeta_n (zipf3 b) < 1 + (1 / 2) powr (1 / 2)" using zipf3_bounds(3) [of b] by linarith
  ultimately show ?thesis
    using assms
    by (simp del: times_divide_eq_left add: f Zipfian_Next_def Zipfian_NextN_def cpp_pow_def Let_def zipf3_product_def kMaxNumItems_def drop_bit_eq_div)
qed

text \<open>C29: Outside the range of exact integers the draws leave \<open>[min, max]\<close>. With \<open>min = 2\<^sup>6\<^sup>0 + 1\<close> the conversion of the base rounds it
  down, and the draw 63/64 of a generator over three items is \<open>2\<^sup>6\<^sup>0\<close>, below \<open>min\<close>; with \<open>min = 2\<^sup>5\<^sup>2\<close> the sum is rounded up
  and the same draw is \<open>max + 1\<close>.\<close>

theorem zipfian_rounding_leaves_range:
  "(\<exists>g g'. new_ZipfianGenerator3 ndebug 0 (2 ^ 60 + 1) (2 ^ 60 + 3) (1 / 2) = Inr g
      \<and> Zipfian_Next ndebug (63 / 64) g = Inr (2 ^ 60, g'))
   \<and> (\<exists>g g'. new_ZipfianGenerator3 ndebug 0 (2 ^ 52) (2 ^ 52 + 2) (1 / 2) = Inr g
      \<and> Zipfian_Next ndebug (63 / 64) g = Inr (2 ^ 52 + 3, g'))"
proof
  note p = zipf3_product_bounds
  have "ulp_exponent (2 ^ 60 + 1) = 8" by (rule ulp_exponent_eqI) simp_all
  then have b: "double_of_u64 (2 ^ 60 + 1) = 2 ^ 60"
    by (simp add: double_of_u64_def to_double_def round_even_def powr_numeral Let_def floor_divide_of_int_eq)
  have "ulp_exponent (2 ^ 60 + zipf3_product) = 8" by (rule ulp_exponent_eqI) (use p in simp_all)
  moreover have "\<lfloor>(2 ^ 60 + zipf3_product) / 256\<rfloor> = 2 ^ 52" using p by (simp add: floor_eq_iff)
  ultimately have "to_double (2 ^ 60 + zipf3_product) = 2 ^ 60"
    using p by (simp add: to_double_def round_even_def powr_numeral Let_def)
  then have "u64_of_double (to_double (double_of_u64 (2 ^ 60 + 1) + zipf3_product)) = Inr (2 ^ 60)"
    unfolding b by (simp add: u64_of_double_def)
  then show "\<exists>g g'. new_ZipfianGenerator3 ndebug 0 (2 ^ 60 + 1) (2 ^ 60 + 3) (1 / 2) = Inr g
      \<and> Zipfian_Next ndebug (63 / 64) g = Inr (2 ^ 60, g')"
    using zipf3_draw new_zipf3 [of ndebug "2 ^ 60 + 1"] by simp
  have "double_of_u64 (2 ^ 52) = 2 ^ 52" by (simp add: double_of_u64_exact)
  moreover have "ulp_exponent (2 ^ 52 + zipf3_product) = 0" by (rule ulp_exponent_eqI) (use p in simp_all)
  moreover have "round_even (2 ^ 52 + zipf3_product) = 2 ^ 52 + 3"
  proof (cases "zipf3_product = 3")
    case False
    then have "\<lfloor>2 ^ 52 + zipf3_product\<rfloor> = 2 ^ 52 + 2" using p by (simp add: floor_eq_iff)
    then show ?thesis using p by (simp add: round_even_def Let_def)
  next
    case True
    show ?thesis unfolding True by (simp add: round_even_def Let_def)
  qed
  ultimately have "u64_of_double (to_double (double_of_u64 (2 ^ 52) + zipf3_product)) = Inr (2 ^ 52 + 3)"
    using p by (simp add: to_double_def u64_of_double_def)
  then show "\<exists>g g'. new_ZipfianGenerator3 ndebug 0 (2 ^ 52) (2 ^ 52 + 2) (1 / 2) = Inr g
      \<and> Zipfian_Next ndebug (63 / 64) g = Inr (2 ^ 52 + 3, g')"
    using zipf3_draw new_zipf3 [of ndebug "2 ^ 52"] by simp
qed

end
