(* ===== verification/Workload.thy ===== *)
theory Workload
  imports Effects DB_Layer Choosers Acked Zipfian
begin

text \<open>
  \<^verbatim>\<open>class CoreWorkload\<close> of \<^verbatim>\<open>src/core/core_workload.h\<close> and \<^verbatim>\<open>core_workload.cc\<close>: the configuration read by
  \<^verbatim>\<open>Init\<close>, the key and value builders, and the handlers \<^verbatim>\<open>DoInsert\<close> and \<^verbatim>\<open>DoTransaction\<close> with their transactions.

  The handlers are effects on a context of the workload object, the thread-local random sources of
  the calling thread and the database. \<open>env\<close> collects what the C++ standard library leaves open: the
  algorithms of the two random distributions, the initial engine, and whether asserts are compiled in.
  The loop of \<open>NextTransactionKeyNum\<close> may not end; a handler that does not return is \<open>None\<close>.
  Memory exhaustion is not modelled.
\<close>

section \<open>Generators behind a pointer\<close>

record 'e env =
  env_ndebug :: bool
  env_canon :: "nat \<Rightarrow> real \<times> nat"
  env_udist :: "'e int_dist"
  env_mt0 :: 'e

datatype 'e gen =
    GConst ConstGenerator
  | GUniform "'e UniformGenerator"
  | GZipfian ZipfianGenerator
  | GScrambled ScrambledZipfianGenerator
  | GLatest SkewedLatestGenerator
  | GSequential SequentialGenerator

text \<open>\<^verbatim>\<open>ThreadLocalRandomDouble()\<close> with its default bounds.\<close>

definition draw :: "'e env \<Rightarrow> tls \<Rightarrow> real \<times> tls" where
  "draw env t = ThreadLocalRandomDouble (env_canon env) 0 1 t"

text \<open>
  The virtual \<^verbatim>\<open>Next()\<close> of \<^verbatim>\<open>Generator<uint64_t>\<close>; \<open>basis\<close> is \<^verbatim>\<open>Last()\<close> of the counter that a skewed-latest
  generator refers to.
\<close>

fun gen_Next :: "'e env \<Rightarrow> u64 \<Rightarrow> 'e gen \<Rightarrow> tls \<Rightarrow> (u64 \<times> 'e gen \<times> tls) res" where
  "gen_Next env basis (GConst g) t = (let (v, g) = ConstGenerator_Next g in Inr (v, GConst g, t))"
| "gen_Next env basis (GUniform g) t =
     (let (v, g) = UniformGenerator_Next (env_udist env) g in Inr (v, GUniform g, t))"
| "gen_Next env basis (GZipfian g) t =
     (let (u, t) = draw env t in
      andThen (Zipfian_Next (env_ndebug env) u g) (\<lambda>(v, g). Inr (v, GZipfian g, t)))"
| "gen_Next env basis (GScrambled g) t =
     (let (u, t) = draw env t in
      andThen (Scrambled_Next (env_ndebug env) u g) (\<lambda>(v, g). Inr (v, GScrambled g, t)))"
| "gen_Next env basis (GLatest g) t =
     (let (u, t) = draw env t in
      andThen (SkewedLatest_Next (env_ndebug env) u basis g) (\<lambda>(v, g). Inr (v, GLatest g, t)))"
| "gen_Next env basis (GSequential g) t =
     (let (v, t) = SequentialGenerator_Next g t in Inr (v, GSequential g, t))"

section \<open>The workload object\<close>

record 'e CoreWorkload =
  wl_table_name :: string
  wl_field_count :: int
  wl_field_prefix :: string
  wl_read_all_fields :: bool
  wl_write_all_fields :: bool
  wl_field_len_generator :: "'e gen option"
  wl_op_chooser :: "Operation DiscreteGenerator"
  wl_key_chooser :: "'e gen option"
  wl_field_chooser :: "'e gen option"
  wl_scan_len_chooser :: "'e gen option"
  wl_insert_key_sequence :: "CounterGenerator option"
  wl_transaction_insert_key_sequence :: "AcknowledgedCounterGenerator option"
  wl_ordered_inserts :: bool
  wl_record_count :: u64
  wl_zero_padding :: int

definition new_CoreWorkload :: "Operation \<Rightarrow> int \<Rightarrow> 'e CoreWorkload" where
  "new_CoreWorkload garbage_op garbage_padding =
     \<lparr>wl_table_name = [], wl_field_count = 0, wl_field_prefix = [], wl_read_all_fields = False,
      wl_write_all_fields = False, wl_field_len_generator = None,
      wl_op_chooser = new_DiscreteGenerator garbage_op, wl_key_chooser = None, wl_field_chooser = None,
      wl_scan_len_chooser = None, wl_insert_key_sequence = None,
      wl_transaction_insert_key_sequence = None, wl_ordered_inserts = True, wl_record_count = 0,
      wl_zero_padding = garbage_padding\<rparr>"

text \<open>An \<^verbatim>\<open>int\<close> passed where a \<^verbatim>\<open>uint64_t\<close> is expected, and a \<^verbatim>\<open>uint64_t\<close> stored in an \<^verbatim>\<open>int\<close>.\<close>

definition u64_of_int :: "int \<Rightarrow> u64" where
  "u64_of_int i = word_of_int i"

definition int_of_u64 :: "u64 \<Rightarrow> int" where
  "int_of_u64 v = sint (ucast v :: u32)"

text \<open>The cast \<^verbatim>\<open>(int)x\<close> of a double: truncation, undefined outside the range of \<^verbatim>\<open>int\<close>.\<close>

definition int_of_double :: "real \<Rightarrow> int res" where
  "int_of_double x =
     (let i = (if 0 \<le> x then \<lfloor>x\<rfloor> else \<lceil>x\<rceil>)
      in if int32_ok i then Inr i else Inl (Undefined ''double to int''))"

subsection \<open>Initialisation\<close>

definition GetFieldLenGenerator :: "'e env \<Rightarrow> Properties \<Rightarrow> tls \<Rightarrow> ('e gen \<times> tls) res" where
  "GetFieldLenGenerator env p t =
     (let field_len_dist = GetProperty p ''field_len_dist'' ''constant'' in
      andThen (stoi (GetProperty p ''fieldlength'' ''100'')) (\<lambda>field_len.
      if field_len_dist = ''constant'' then Inr (GConst (new_ConstGenerator field_len), t)
      else if field_len_dist = ''uniform'' then
        Inr (GUniform (new_UniformGenerator (env_udist env) (env_mt0 env) 1 (u64_of_int field_len)), t)
      else if field_len_dist = ''zipfian'' then
        (let (u, t) = draw env t in
         andThen (new_ZipfianGenerator3 (env_ndebug env) u 1 (u64_of_int field_len) kZipfianConst) (\<lambda>g.
         Inr (GZipfian g, t)))
      else Inl (Exception (''Unknown field length distribution: '' @ field_len_dist))))"

definition add_if_pos :: "Operation DiscreteGenerator \<Rightarrow> Operation \<Rightarrow> real \<Rightarrow> Operation DiscreteGenerator" where
  "add_if_pos g op proportion =
     (if proportion > 0 then DiscreteGenerator_AddValue g op proportion else g)"

text \<open>The choice of the key chooser by \<open>requestdistribution\<close>.\<close>

definition new_key_chooser ::
    "'e env \<Rightarrow> Properties \<Rightarrow> string \<Rightarrow> u64 \<Rightarrow> real \<Rightarrow> AcknowledgedCounterGenerator \<Rightarrow> u64 \<Rightarrow> u64 \<Rightarrow> tls
     \<Rightarrow> ('e gen \<times> tls) res" where
  "new_key_chooser env p request_dist record_count insert_proportion sequence min_read_idx max_read_idx t =
     (if request_dist = ''uniform'' then
        Inr (GUniform (new_UniformGenerator (env_udist env) (env_mt0 env) 0 (record_count - 1)), t)
      else if request_dist = ''zipfian'' then
        andThen (stoi (GetProperty p ''operationcount'' '''')) (\<lambda>op_count.
        andThen (int_of_double (real_of_int op_count * insert_proportion * 2)) (\<lambda>new_keys.
        let (u, t) = draw env t in
        if ContainsKey p ''zipfian_const'' then
          andThen (stod (GetProperty p ''zipfian_const'' '''')) (\<lambda>zipfian_const.
          andThen (new_ScrambledZipfianGenerator3 (env_ndebug env) u 0
                     (record_count + u64_of_int new_keys - 1) zipfian_const) (\<lambda>g.
          Inr (GScrambled g, t)))
        else
          andThen (new_ScrambledZipfianGenerator1 (env_ndebug env) u
                     (record_count + u64_of_int new_keys)) (\<lambda>g.
          Inr (GScrambled g, t))))
      else if request_dist = ''latest'' then
        (let (u0, t) = draw env t; (u1, t) = draw env t in
         andThen (new_SkewedLatestGenerator (env_ndebug env) u0 u1 (Acked_Last sequence)) (\<lambda>g.
         Inr (GLatest g, t)))
      else if request_dist = ''sequential'' then
        Inr (GSequential \<lparr>sg_min = min_read_idx, sg_max = max_read_idx\<rparr>, t)
      else Inl (Exception (''Unknown request distribution: '' @ request_dist)))"

definition new_scan_len_chooser :: "'e env \<Rightarrow> string \<Rightarrow> int \<Rightarrow> int \<Rightarrow> tls \<Rightarrow> ('e gen \<times> tls) res" where
  "new_scan_len_chooser env scan_len_dist min_scan_len max_scan_len t =
     (if scan_len_dist = ''uniform'' then
        Inr (GUniform (new_UniformGenerator (env_udist env) (env_mt0 env)
               (u64_of_int min_scan_len) (u64_of_int max_scan_len)), t)
      else if scan_len_dist = ''zipfian'' then
        (let (u, t) = draw env t in
         andThen (new_ZipfianGenerator3 (env_ndebug env) u (u64_of_int min_scan_len)
                    (u64_of_int max_scan_len) kZipfianConst) (\<lambda>g.
         Inr (GZipfian g, t)))
      else Inl (Exception (''Distribution not allowed for scan length: '' @ scan_len_dist)))"

definition CoreWorkload_Init ::
    "'e env \<Rightarrow> Properties \<Rightarrow> tls \<Rightarrow> 'e CoreWorkload \<Rightarrow> ('e CoreWorkload \<times> tls) res" where
  "CoreWorkload_Init env p t wl =
     (let wl = wl\<lparr>wl_table_name := GetProperty p ''table'' ''usertable''\<rparr> in
      andThen (stoi (GetProperty p ''fieldcount'' ''10'')) (\<lambda>field_count.
      let wl = wl\<lparr>wl_field_count := field_count,
                  wl_field_prefix := GetProperty p ''fieldnameprefix'' ''field''\<rparr> in
      andThen (GetFieldLenGenerator env p t) (\<lambda>(g, t).
      let wl = wl\<lparr>wl_field_len_generator := Some g\<rparr> in
      andThen (stod (GetProperty p ''readproportion'' ''0.95'')) (\<lambda>read_proportion.
      andThen (stod (GetProperty p ''updateproportion'' ''0.05'')) (\<lambda>update_proportion.
      andThen (stod (GetProperty p ''insertproportion'' ''0.0'')) (\<lambda>insert_proportion.
      andThen (stod (GetProperty p ''scanproportion'' ''0.0'')) (\<lambda>scan_proportion.
      andThen (stod (GetProperty p ''readmodifywriteproportion'' ''0.0'')) (\<lambda>readmodifywrite_proportion.
      andThen (stod (GetProperty p ''readidxproportion'' ''0.0'')) (\<lambda>rdidx_proportion.
      andThen (stoi (GetProperty p ''recordcount'' '''')) (\<lambda>record_count.
      let wl = wl\<lparr>wl_record_count := u64_of_int record_count\<rparr>;
          request_dist = GetProperty p ''requestdistribution'' ''uniform'' in
      andThen (stoi (GetProperty p ''minscanlength'' ''1'')) (\<lambda>min_scan_len.
      andThen (stoi (GetProperty p ''maxscanlength'' ''1000'')) (\<lambda>max_scan_len.
      let scan_len_dist = GetProperty p ''scanlengthdistribution'' ''uniform'' in
      andThen (stoi (GetProperty p ''insertstart'' ''0'')) (\<lambda>insert_start.
      andThen (stoi (GetProperty p ''minreadidx'' ''0'')) (\<lambda>min_read_idx.
      andThen (stoi (GetProperty p ''maxreadidx'' ''1000000'')) (\<lambda>max_read_idx.
      andThen (stoi (GetProperty p ''zeropadding'' ''20'')) (\<lambda>zero_padding.
      andThen (StrToBool (GetProperty p ''readallfields'' ''true'')) (\<lambda>read_all.
      andThen (StrToBool (GetProperty p ''writeallfields'' ''false'')) (\<lambda>write_all.
      let ops = wl_op_chooser wl;
          ops = add_if_pos ops READ read_proportion;
          ops = add_if_pos ops UPDATE update_proportion;
          ops = add_if_pos ops INSERT insert_proportion;
          ops = add_if_pos ops SCAN scan_proportion;
          ops = add_if_pos ops READMODIFYWRITE readmodifywrite_proportion;
          ops = add_if_pos ops RDIDX rdidx_proportion;
          sequence = new_AcknowledgedCounterGenerator (wl_record_count wl);
          wl = wl\<lparr>wl_zero_padding := zero_padding, wl_read_all_fields := read_all,
                  wl_write_all_fields := write_all,
                  wl_ordered_inserts := (GetProperty p ''insertorder'' ''hashed'' \<noteq> ''hashed''),
                  wl_op_chooser := ops,
                  wl_insert_key_sequence := Some (new_CounterGenerator (u64_of_int insert_start)),
                  wl_transaction_insert_key_sequence := Some sequence\<rparr> in
      andThen (new_key_chooser env p request_dist (wl_record_count wl) insert_proportion sequence
                 (u64_of_int min_read_idx) (u64_of_int max_read_idx) t) (\<lambda>(g, t).
      let wl = wl\<lparr>wl_key_chooser := Some g,
                  wl_field_chooser :=
                    Some (GUniform (new_UniformGenerator (env_udist env) (env_mt0 env) 0
                            (u64_of_int (field_count - 1))))\<rparr> in
      andThen (new_scan_len_chooser env scan_len_dist min_scan_len max_scan_len t) (\<lambda>(g, t).
      Inr (wl\<lparr>wl_scan_len_chooser := Some g\<rparr>, t)))))))))))))))))))))"

section \<open>Handlers\<close>

record ('e, 'd) ctx =
  cx_wl :: "'e CoreWorkload"
  cx_tls :: tls
  cx_db :: 'd

text \<open>\<open>p->Next()\<close> for a generator pointer \<open>p\<close> of the workload.\<close>

definition next_from ::
    "'e env \<Rightarrow> ('e CoreWorkload \<Rightarrow> 'e gen option) \<Rightarrow> ('e gen option \<Rightarrow> 'e CoreWorkload \<Rightarrow> 'e CoreWorkload)
     \<Rightarrow> (('e, 'd) ctx, u64) eff" where
  "next_from env sel upd s =
     (case sel (cx_wl s) of
        None \<Rightarrow> Some (Inl (Undefined ''null generator''))
      | Some g \<Rightarrow>
          (let basis = (case wl_transaction_insert_key_sequence (cx_wl s) of
                          Some a \<Rightarrow> Acked_Last a | None \<Rightarrow> 0)
           in Some (andThen (gen_Next env basis g (cx_tls s)) (\<lambda>(v, g', t').
                Inr (v, s\<lparr>cx_wl := upd (Some g') (cx_wl s), cx_tls := t'\<rparr>)))))"

definition next_key :: "'e env \<Rightarrow> (('e, 'd) ctx, u64) eff" where
  "next_key env = next_from env wl_key_chooser (\<lambda>g wl. wl\<lparr>wl_key_chooser := g\<rparr>)"

definition next_field :: "'e env \<Rightarrow> (('e, 'd) ctx, u64) eff" where
  "next_field env = next_from env wl_field_chooser (\<lambda>g wl. wl\<lparr>wl_field_chooser := g\<rparr>)"

definition next_field_len :: "'e env \<Rightarrow> (('e, 'd) ctx, u64) eff" where
  "next_field_len env = next_from env wl_field_len_generator (\<lambda>g wl. wl\<lparr>wl_field_len_generator := g\<rparr>)"

definition next_scan_len :: "'e env \<Rightarrow> (('e, 'd) ctx, u64) eff" where
  "next_scan_len env = next_from env wl_scan_len_chooser (\<lambda>g wl. wl\<lparr>wl_scan_len_chooser := g\<rparr>)"

definition next_op :: "'e env \<Rightarrow> (('e, 'd) ctx, Operation) eff" where
  "next_op env = lift (\<lambda>s.
     let (u, t) = draw env (cx_tls s) in
     andThen (DiscreteGenerator_Next (env_ndebug env) u (wl_op_chooser (cx_wl s))) (\<lambda>(op, g).
     Inr (op, s\<lparr>cx_wl := (cx_wl s)\<lparr>wl_op_chooser := g\<rparr>, cx_tls := t\<rparr>)))"

definition next_insert_key :: "(('e, 'd) ctx, u64) eff" where
  "next_insert_key = lift (\<lambda>s.
     case wl_insert_key_sequence (cx_wl s) of
       None \<Rightarrow> Inl (Undefined ''null generator'')
     | Some g \<Rightarrow> (let (v, g) = CounterGenerator_Next g
                  in Inr (v, s\<lparr>cx_wl := (cx_wl s)\<lparr>wl_insert_key_sequence := Some g\<rparr>\<rparr>)))"

definition next_transaction_insert_key :: "(('e, 'd) ctx, u64) eff" where
  "next_transaction_insert_key = lift (\<lambda>s.
     case wl_transaction_insert_key_sequence (cx_wl s) of
       None \<Rightarrow> Inl (Undefined ''null generator'')
     | Some g \<Rightarrow> (let (v, g) = Acked_Next g
                  in Inr (v, s\<lparr>cx_wl := (cx_wl s)\<lparr>wl_transaction_insert_key_sequence := Some g\<rparr>\<rparr>)))"

definition acknowledge_key :: "u64 \<Rightarrow> (('e, 'd) ctx, unit) eff" where
  "acknowledge_key key_num = lift (\<lambda>s.
     case wl_transaction_insert_key_sequence (cx_wl s) of
       None \<Rightarrow> Inl (Undefined ''null generator'')
     | Some g \<Rightarrow> andThen (Acknowledge key_num g) (\<lambda>g.
         Inr ((), s\<lparr>cx_wl := (cx_wl s)\<lparr>wl_transaction_insert_key_sequence := Some g\<rparr>\<rparr>)))"

text \<open>A call on the database of the context.\<close>

definition on_db :: "('d \<Rightarrow> ('a \<times> 'd) res) \<Rightarrow> (('e, 'd) ctx, 'a) eff" where
  "on_db call = lift (\<lambda>s. andThen (call (cx_db s)) (\<lambda>(x, d). Inr (x, s\<lparr>cx_db := d\<rparr>)))"

subsection \<open>Keys and values\<close>

definition BuildKeyName :: "'e CoreWorkload \<Rightarrow> u64 \<Rightarrow> string" where
  "BuildKeyName wl key_num =
     (let key_num = (if \<not> wl_ordered_inserts wl then Hash key_num else key_num);
          prekey = ''user'';
          value = to_string (unat key_num);
          fill = max 0 (wl_zero_padding wl - int (length value))
      in prekey @ replicate (nat fill) (CHR ''0'') @ value)"

text \<open>
  \<open>len\<close> bytes from a fresh byte generator, whose buffer is uninitialised (and never read before it
  is filled).
\<close>

definition random_bytes :: "nat \<Rightarrow> (('e, 'd) ctx, string) eff" where
  "random_bytes len = lift (\<lambda>s.
     let (str, g, t) = generate_bytes len (new_RandomByteGenerator []) (cx_tls s) in Inr (str, s\<lparr>cx_tls := t\<rparr>))"

fun build_fields :: "'e env \<Rightarrow> nat list \<Rightarrow> (('e, 'd) ctx, Field list) eff" where
  "build_fields env [] = ret []"
| "build_fields env (i # is) =
     bind (reads (\<lambda>s. wl_field_prefix (cx_wl s) @ to_string i)) (\<lambda>name.
     bind (next_field_len env) (\<lambda>len.
     bind (random_bytes (unat len)) (\<lambda>value.
     bind (build_fields env is) (\<lambda>rest.
     ret ((name, value) # rest)))))"

definition BuildValues :: "'e env \<Rightarrow> (('e, 'd) ctx, Field list) eff" where
  "BuildValues env =
     bind (reads (\<lambda>s. wl_field_count (cx_wl s))) (\<lambda>n. build_fields env [0..<nat n])"

text \<open>The field name stays empty: the call of \<^verbatim>\<open>NextFieldName\<close> is commented out in the code.\<close>

definition BuildSingleValue :: "'e env \<Rightarrow> (('e, 'd) ctx, Field list) eff" where
  "BuildSingleValue env =
     bind (next_field_len env) (\<lambda>len.
     bind (random_bytes (unat len)) (\<lambda>value.
     ret [([], value)]))"

definition BuildSingleValueOfLen :: "int \<Rightarrow> (('e, 'd) ctx, Field list) eff" where
  "BuildSingleValueOfLen val_len =
     bind (random_bytes (nat val_len)) (\<lambda>value. ret [([], value)])"

definition NextFieldName :: "'e env \<Rightarrow> (('e, 'd) ctx, string) eff" where
  "NextFieldName env =
     bind (next_field env) (\<lambda>n.
     reads (\<lambda>s. wl_field_prefix (cx_wl s) @ to_string (unat n)))"

text \<open>The values of a write: all fields, or one.\<close>

definition build_write :: "'e env \<Rightarrow> (('e, 'd) ctx, Field list) eff" where
  "build_write env =
     bind (reads (\<lambda>s. wl_write_all_fields (cx_wl s))) (\<lambda>all.
     if all then BuildValues env else BuildSingleValue env)"

text \<open>The field list of a read: no list (all fields), or one field.\<close>

definition build_read :: "'e env \<Rightarrow> (('e, 'd) ctx, string list option) eff" where
  "build_read env =
     bind (reads (\<lambda>s. wl_read_all_fields (cx_wl s))) (\<lambda>all.
     if \<not> all then bind (NextFieldName env) (\<lambda>f. ret (Some [f])) else ret None)"

subsection \<open>Choosing a key\<close>

partial_function (option) NextTransactionKeyNum ::
    "'e env \<Rightarrow> ('e, 'd) ctx \<Rightarrow> (u64 \<times> ('e, 'd) ctx) res option" where
  "NextTransactionKeyNum env s =
     (case next_key env s of
        None \<Rightarrow> None
      | Some (Inl e) \<Rightarrow> Some (Inl e)
      | Some (Inr (key_num, s')) \<Rightarrow>
          (case wl_transaction_insert_key_sequence (cx_wl s') of
             None \<Rightarrow> Some (Inl (Undefined ''null generator''))
           | Some a \<Rightarrow> if key_num > Acked_Last a then NextTransactionKeyNum env s'
                       else Some (Inr (key_num, s'))))"

definition key_name :: "u64 \<Rightarrow> (('e, 'd) ctx, string) eff" where
  "key_name key_num = reads (\<lambda>s. BuildKeyName (cx_wl s) key_num)"

definition table_of :: "(('e, 'd) ctx, string) eff" where
  "table_of = reads (\<lambda>s. wl_table_name (cx_wl s))"

subsection \<open>Operations\<close>

definition DoInsert :: "'e env \<Rightarrow> 'd DB \<Rightarrow> (('e, 'd) ctx, bool) eff" where
  "DoInsert env db =
     bind next_insert_key (\<lambda>n.
     bind (key_name n) (\<lambda>key.
     bind (build_write env) (\<lambda>values.
     bind table_of (\<lambda>table.
     bind (on_db (db_Insert db table key values)) (\<lambda>st.
     ret (st = kOK))))))"

definition TransactionRead :: "'e env \<Rightarrow> 'd DB \<Rightarrow> (('e, 'd) ctx, Status) eff" where
  "TransactionRead env db =
     bind (NextTransactionKeyNum env) (\<lambda>n.
     bind (key_name n) (\<lambda>key.
     bind (build_read env) (\<lambda>flds.
     bind table_of (\<lambda>table.
     bind (on_db (db_Read db table key flds)) (\<lambda>(st, result).
     ret st)))))"

text \<open>The status of the read is dropped.\<close>

definition TransactionReadModifyWrite :: "'e env \<Rightarrow> 'd DB \<Rightarrow> (('e, 'd) ctx, Status) eff" where
  "TransactionReadModifyWrite env db =
     bind (NextTransactionKeyNum env) (\<lambda>n.
     bind (key_name n) (\<lambda>key.
     bind (build_read env) (\<lambda>flds.
     bind table_of (\<lambda>table.
     bind (on_db (db_Read db table key flds)) (\<lambda>_.
     bind (build_write env) (\<lambda>values.
     on_db (db_Update db table key values)))))))"

definition TransactionScan :: "'e env \<Rightarrow> 'd DB \<Rightarrow> (('e, 'd) ctx, Status) eff" where
  "TransactionScan env db =
     bind (NextTransactionKeyNum env) (\<lambda>n.
     bind (key_name n) (\<lambda>key.
     bind (next_scan_len env) (\<lambda>len.
     bind (build_read env) (\<lambda>flds.
     bind table_of (\<lambda>table.
     bind (on_db (db_Scan db table key (int_of_u64 len) flds)) (\<lambda>(st, result).
     ret st))))))"

definition TransactionUpdate :: "'e env \<Rightarrow> 'd DB \<Rightarrow> (('e, 'd) ctx, Status) eff" where
  "TransactionUpdate env db =
     bind (NextTransactionKeyNum env) (\<lambda>n.
     bind (key_name n) (\<lambda>key.
     bind (build_write env) (\<lambda>values.
     bind table_of (\<lambda>table.
     on_db (db_Update db table key values)))))"

definition TransactionInsert :: "'e env \<Rightarrow> 'd DB \<Rightarrow> (('e, 'd) ctx, Status) eff" where
  "TransactionInsert env db =
     bind next_transaction_insert_key (\<lambda>n.
     bind (key_name n) (\<lambda>key.
     bind (build_write env) (\<lambda>values.
     bind table_of (\<lambda>table.
     bind (on_db (db_Insert db table key values)) (\<lambda>st.
     bind (acknowledge_key n) (\<lambda>_.
     ret st))))))"

definition TransactionReadIdx :: "'e env \<Rightarrow> 'd DB \<Rightarrow> (('e, 'd) ctx, Status) eff" where
  "TransactionReadIdx env db =
     bind (next_key env) (\<lambda>idx.
     bind (on_db (db_ReadIdx db idx)) (\<lambda>(st, data). ret st))"

text \<open>
  \<open>DoTransaction\<close>: in the case \<open>RDIDX\<close> the code breaks out of the switch without assigning \<^verbatim>\<open>status\<close>,
  and then compares it.
\<close>

definition DoTransaction :: "'e env \<Rightarrow> 'd DB \<Rightarrow> (('e, 'd) ctx, bool) eff" where
  "DoTransaction env db =
     bind (next_op env) (\<lambda>op.
     bind (case op of
             READ \<Rightarrow> TransactionRead env db
           | UPDATE \<Rightarrow> TransactionUpdate env db
           | INSERT \<Rightarrow> TransactionInsert env db
           | SCAN \<Rightarrow> TransactionScan env db
           | READMODIFYWRITE \<Rightarrow> TransactionReadModifyWrite env db
           | RDIDX \<Rightarrow> raise (Undefined ''status is uninitialised'')
           | _ \<Rightarrow> raise (Exception ''Operation request is not recognized!'')) (\<lambda>status.
     ret (status = kOK)))"

end
