(* ===== verification/Workload_Props.thy ===== *)
theory Workload_Props
  imports Workload
begin

text \<open>
  Correctness of the core workload: key names, the choice of keys, and the handlers. The invariant
  \<open>wl_ok\<close> is what \<^verbatim>\<open>Init\<close> establishes for the request distributions whose key loop always ends at once
  (uniform and latest); under it every handler returns.
\<close>

section \<open>Key names\<close>

lemma BuildKeyName_alt:
  "BuildKeyName wl n =
     (let v = to_string (unat (if wl_ordered_inserts wl then n else Hash n))
      in ''user'' @ replicate (nat (wl_zero_padding wl) - length v) (CHR ''0'') @ v)"
  by (simp add: BuildKeyName_def Let_def nat_diff_distrib' max_def)

lemma BuildKeyName_inject:
  "BuildKeyName wl m = BuildKeyName wl n \<longleftrightarrow>
     (if wl_ordered_inserts wl then m = n else Hash m = Hash n)"
proof -
  have "dec_val (drop 4 (BuildKeyName wl n)) = unat (if wl_ordered_inserts wl then n else Hash n)" for n
    by (simp add: BuildKeyName_alt Let_def)
  then have "BuildKeyName wl m = BuildKeyName wl n \<Longrightarrow>
      unat (if wl_ordered_inserts wl then m else Hash m) = unat (if wl_ordered_inserts wl then n else Hash n)"
    by metis
  then show ?thesis by (auto simp: BuildKeyName_alt word_unat_eq_iff split: if_splits)
qed

lemma to_string_u64_length: "length (to_string (unat (n :: u64))) \<le> 20"
proof (rule length_to_string_le)
  have "unat n < 2 ^ 64" by (rule unat_u64_bound)
  also have "(2 :: nat) ^ 64 < 10 ^ 20" by simp
  finally show "unat n < 10 ^ 20" .
qed simp

lemma list_less_append_same: "(xs @ ys < xs @ zs) = (ys < (zs :: 'a :: linorder list))"
  by (induction xs) auto

lemma BuildKeyName_order:
  assumes "wl_ordered_inserts wl" and "20 \<le> wl_zero_padding wl"
  shows "BuildKeyName wl m < BuildKeyName wl n \<longleftrightarrow> m < n"
proof -
  define pad where "pad v = replicate (nat (wl_zero_padding wl) - length (to_string v)) (CHR ''0'') @ to_string v" for v
  have name: "BuildKeyName wl k = ''user'' @ pad (unat k)" for k
    using assms(1) by (simp add: BuildKeyName_alt pad_def Let_def)
  have len: "length (pad (unat k)) = nat (wl_zero_padding wl)" for k :: u64
    using to_string_u64_length [of k] assms(2) by (simp add: pad_def)
  have dig: "\<forall>c \<in> set (pad v). is_digit c" for v
    using to_string_digits [of v] by (auto simp: pad_def is_digit_def)
  have val: "dec_val (pad v) = v" for v by (simp add: pad_def)
  have "BuildKeyName wl m < BuildKeyName wl n \<longleftrightarrow> pad (unat m) < pad (unat n)"
    unfolding name by (rule list_less_append_same)
  also have "\<dots> \<longleftrightarrow> unat m < unat n"
    using dec_val_less_iff [OF _ dig dig, of "unat m" "unat n"] len val by simp
  finally show ?thesis by (simp add: word_less_nat_alt)
qed

section \<open>Generators behind a pointer\<close>

text \<open>The library promises about the environment, and the state of a thread's random source.\<close>

definition env_ok :: "'e env \<Rightarrow> bool" where
  "env_ok env \<longleftrightarrow> canon_ok (env_canon env) \<and> udist_ok (env_udist env)"

definition tls_ok :: "tls \<Rightarrow> bool" where
  "tls_ok t \<longleftrightarrow> uniform_bounds t = None \<or> uniform_bounds t = Some (0, 1)"

lemma draw_ok:
  assumes "env_ok env" and "tls_ok t"
  shows "0 \<le> fst (draw env t)" and "fst (draw env t) < 1" and "tls_ok (snd (draw env t))"
  using assms random_double_range [of "env_canon env" t] random_double_bounds [of t "env_canon env"]
  by (auto simp: draw_def env_ok_def tls_ok_def)

text \<open>
  \<open>gen_ok basis g\<close>: the generator can be called, as often as one likes, while the basis counter stands at \<open>basis\<close>.
\<close>

fun gen_ok :: "u64 \<Rightarrow> 'e gen \<Rightarrow> bool" where
  "gen_ok basis (GConst g) \<longleftrightarrow> True"
| "gen_ok basis (GUniform g) \<longleftrightarrow> ug_min g \<le> ug_max g"
| "gen_ok basis (GZipfian g) \<longleftrightarrow> zipf_ready g"
| "gen_ok basis (GScrambled g) \<longleftrightarrow> zipf_ready (sz_generator g) \<and> sz_num_items g \<noteq> 0
     \<and> unat (sz_base g) + unat (sz_num_items g) \<le> 2 ^ 64"
| "gen_ok basis (GLatest g) \<longleftrightarrow> zipf_inv (sl_zipfian g) \<and> zg_base (sl_zipfian g) = 0
     \<and> 2 \<le> basis \<and> basis < kMaxNumItems"
| "gen_ok basis (GSequential g) \<longleftrightarrow> True"

text \<open>A generator whose every number is at most the basis, so that the key loop ends at once.\<close>

fun gen_below :: "u64 \<Rightarrow> 'e gen \<Rightarrow> bool" where
  "gen_below basis (GConst g) \<longleftrightarrow> cg_constant g \<le> basis"
| "gen_below basis (GUniform g) \<longleftrightarrow> ug_max g \<le> basis"
| "gen_below basis (GScrambled g) \<longleftrightarrow> sz_base g = 0 \<and> unat (sz_num_items g) \<le> unat basis + 1"
| "gen_below basis (GLatest g) \<longleftrightarrow> True"
| "gen_below basis _ \<longleftrightarrow> False"

lemma gen_Next_ok:
  assumes env: "env_ok env" and t: "tls_ok t" and g: "gen_ok basis g"
  shows "\<exists>v g' t'. gen_Next env basis g t = Inr (v, g', t') \<and> gen_ok basis g' \<and> tls_ok t'
     \<and> (gen_below basis g \<longrightarrow> v \<le> basis \<and> gen_below basis g')"
proof (cases g)
  case (GConst c)
  then show ?thesis using g t by (simp add: ConstGenerator_Next_def)
next
  case (GUniform u)
  have "udist_ok (env_udist env)" using env by (simp add: env_ok_def)
  then have "ug_min u \<le> fst (env_udist env (ug_min u) (ug_max u) (ug_generator u))"
    "fst (env_udist env (ug_min u) (ug_max u) (ug_generator u)) \<le> ug_max u"
    using g GUniform by (auto simp: udist_ok_def)
  then show ?thesis using g t GUniform by (auto simp: UniformGenerator_Next_def split_beta)
next
  case (GZipfian z)
  note d = draw_ok [OF env t]
  have "zipf_ready z" using g GZipfian by simp
  then obtain v z' where "Zipfian_Next (env_ndebug env) (fst (draw env t)) z = Inr (v, z')" "zipf_ready z'"
    by (rule Zipfian_Next_ok [OF _ d(1,2)]) blast
  then show ?thesis using GZipfian d(3) by (simp add: split_beta Let_def)
next
  case (GScrambled z)
  note d = draw_ok [OF env t]
  have h: "zipf_ready (sz_generator z)" "sz_num_items z \<noteq> 0" "unat (sz_base z) + unat (sz_num_items z) \<le> 2 ^ 64"
    using g GScrambled by simp_all
  obtain k z' where "Scrambled_Next (env_ndebug env) (fst (draw env t)) z = Inr (k, z')"
    "unat k < unat (sz_base z) + unat (sz_num_items z)"
    "zipf_ready (sz_generator z')" "sz_base z' = sz_base z" "sz_num_items z' = sz_num_items z"
    by (rule Scrambled_Next_ok [OF h(1) d(1,2) h(2,3), of "env_ndebug env"]) blast
  then show ?thesis using GScrambled d(3) h by (auto simp: split_beta Let_def word_le_nat_alt)
next
  case (GLatest l)
  note d = draw_ok [OF env t]
  have h: "zipf_inv (sl_zipfian l)" "zg_base (sl_zipfian l) = 0" "2 \<le> basis" "basis < kMaxNumItems"
    using g GLatest by simp_all
  obtain k l' where "SkewedLatest_Next (env_ndebug env) (fst (draw env t)) basis l = Inr (k, l')" "k \<le> basis"
    "zipf_inv (sl_zipfian l')" "zg_base (sl_zipfian l') = 0"
    by (rule SkewedLatest_Next_ok [OF h(1,2) d(1,2) h(3,4), of "env_ndebug env"]) blast
  then show ?thesis using GLatest d(3) h by (simp add: split_beta Let_def)
next
  case (GSequential q)
  then show ?thesis
    using g t by (auto simp: SequentialGenerator_Next_def tls_ok_def Let_def)
qed

section \<open>The invariant of the workload\<close>

text \<open>
  \<open>wl_ok k n wl\<close>: \<open>n\<close> is the first key number not yet acknowledged, and at least \<open>k\<close> more can be inserted.
\<close>

definition static_ok :: "'e gen option \<Rightarrow> bool" where
  "static_ok p \<longleftrightarrow> (\<exists>g. p = Some g \<and> (\<forall>b. gen_ok b g))"

definition ops_ok :: "Operation DiscreteGenerator \<Rightarrow> bool" where
  "ops_ok g \<longleftrightarrow> discrete_inv g \<and> dg_values g \<noteq> []
     \<and> fst ` set (dg_values g) \<subseteq> {READ, UPDATE, INSERT, SCAN, READMODIFYWRITE}"

definition seq_at :: "nat \<Rightarrow> AcknowledgedCounterGenerator option \<Rightarrow> bool" where
  "seq_at n p \<longleftrightarrow> (\<exists>a s c A. p = Some a \<and> ack_rel s c A a \<and> first_missing s A = n) \<and> 1 \<le> n"

text \<open>All numbers handed out have been acknowledged.\<close>

definition settled :: "nat \<Rightarrow> AcknowledgedCounterGenerator option \<Rightarrow> bool" where
  "settled n p \<longleftrightarrow> (\<exists>a s. p = Some a \<and> ack_rel s n {s..<n} a) \<and> 1 \<le> n"

definition key_ok :: "u64 \<Rightarrow> 'e gen option \<Rightarrow> bool" where
  "key_ok basis p \<longleftrightarrow> (\<exists>g. p = Some g \<and> gen_ok basis g \<and> gen_below basis g)"

definition wl_ok :: "nat \<Rightarrow> nat \<Rightarrow> 'e CoreWorkload \<Rightarrow> bool" where
  "wl_ok k n wl \<longleftrightarrow>
     static_ok (wl_field_len_generator wl) \<and> static_ok (wl_field_chooser wl) \<and> static_ok (wl_scan_len_chooser wl)
     \<and> ops_ok (wl_op_chooser wl) \<and> seq_at n (wl_transaction_insert_key_sequence wl)
     \<and> n + k < unat kMaxNumItems \<and> key_ok (of_nat (n - 1)) (wl_key_chooser wl)
     \<and> wl_insert_key_sequence wl \<noteq> None"

definition cx_ok :: "nat \<Rightarrow> nat \<Rightarrow> ('e, 'd) ctx \<Rightarrow> bool" where
  "cx_ok k n s \<longleftrightarrow> wl_ok k n (cx_wl s) \<and> tls_ok (cx_tls s)"

text \<open>
  What a handler leaves as it is when it only draws random numbers; \<open>const_len\<close> is the length of every field when the configuration fixes it.
\<close>

fun const_len :: "'e gen option \<Rightarrow> u64 option" where
  "const_len (Some (GConst g)) = Some (cg_constant g)"
| "const_len _ = None"

definition same_cfg :: "'e CoreWorkload \<Rightarrow> 'e CoreWorkload \<Rightarrow> bool" where
  "same_cfg w w' \<longleftrightarrow>
     wl_table_name w' = wl_table_name w \<and> wl_field_count w' = wl_field_count w
     \<and> wl_field_prefix w' = wl_field_prefix w \<and> wl_read_all_fields w' = wl_read_all_fields w
     \<and> wl_write_all_fields w' = wl_write_all_fields w \<and> wl_ordered_inserts w' = wl_ordered_inserts w
     \<and> wl_zero_padding w' = wl_zero_padding w \<and> wl_insert_key_sequence w' = wl_insert_key_sequence w
     \<and> wl_transaction_insert_key_sequence w' = wl_transaction_insert_key_sequence w
     \<and> const_len (wl_field_len_generator w') = const_len (wl_field_len_generator w)"

definition quiet :: "nat \<Rightarrow> nat \<Rightarrow> ('e, 'd) ctx \<Rightarrow> ('e, 'd) ctx \<Rightarrow> bool" where
  "quiet k n s s' \<longleftrightarrow> cx_ok k n s' \<and> cx_db s' = cx_db s \<and> same_cfg (cx_wl s) (cx_wl s')"

lemma quiet_refl: "cx_ok k n s \<Longrightarrow> quiet k n s s"
  by (simp add: quiet_def same_cfg_def)

lemma quiet_trans: "quiet k n s s' \<Longrightarrow> quiet k n s' s'' \<Longrightarrow> quiet k n s s''"
  by (simp add: quiet_def same_cfg_def)

lemma quiet_ok: "quiet k n s s' \<Longrightarrow> cx_ok k n s'"
  by (simp add: quiet_def)

lemma BuildKeyName_cfg: "same_cfg w w' \<Longrightarrow> BuildKeyName w' m = BuildKeyName w m"
  by (simp add: BuildKeyName_def same_cfg_def)

lemma seq_at_last:
  assumes "seq_at n (Some a)"
  shows "Acked_Last a = of_nat (n - 1)"
proof -
  from assms obtain s c A where rel: "ack_rel s c A a" and fm: "first_missing s A = n" and n: "1 \<le> n"
    by (auto simp: seq_at_def)
  have "unat (Acked_Last a + 1) = n" using acked.last_val [OF rel] fm by simp
  then have "Acked_Last a + 1 = of_nat n" by (metis of_nat_unat_u64)
  then have "Acked_Last a = of_nat n - 1" by (metis add_diff_cancel)
  then show ?thesis using n by (simp add: of_nat_diff)
qed

lemma first_missing_prefix: "s \<le> n \<Longrightarrow> first_missing s {s..<n} = n"
  by (rule first_missing_eqI) auto

lemma settled_seq_at: "settled n p \<Longrightarrow> seq_at n p"
  unfolding settled_def seq_at_def by (metis ack_rel_def first_missing_prefix le_trans)

lemma settled_insert:
  assumes "settled n (Some a)" and "Suc n < 2 ^ 63"
  shows "fst (Acked_Next a) = of_nat n" and "seq_at n (Some (snd (Acked_Next a)))"
    and "\<exists>a'. Acknowledge (of_nat n) (snd (Acked_Next a)) = Inr a' \<and> settled (Suc n) (Some a')"
proof -
  from assms obtain s where rel: "ack_rel s n {s..<n} a" and n: "1 \<le> n" by (auto simp: settled_def)
  have sn: "s \<le> n" using rel by (simp add: ack_rel_def)
  note fm = first_missing_prefix [OF sn]
  show "fst (Acked_Next a) = of_nat n" by (rule acked.take_val [OF rel assms(2)])
  have rel1: "ack_rel s (Suc n) {s..<n} (snd (Acked_Next a))" by (rule acked.take_rel [OF rel assms(2)])
  then show "seq_at n (Some (snd (Acked_Next a)))" using fm n by (auto simp: seq_at_def)
  have "\<exists>a'. Acknowledge (of_nat n) (snd (Acked_Next a)) = Inr a' \<and> ack_rel s (Suc n) (insert n {s..<n}) a'"
    by (rule acked.ack_ok [OF rel1]) (simp_all add: sn fm W_def)
  moreover have "insert n {s..<n} = {s..<Suc n}" using sn by auto
  ultimately show "\<exists>a'. Acknowledge (of_nat n) (snd (Acked_Next a)) = Inr a' \<and> settled (Suc n) (Some a')"
    using n by (auto simp: settled_def)
qed

section \<open>Drawing numbers and building values\<close>

lemma kMax_less: "m < unat kMaxNumItems \<Longrightarrow> m < 2 ^ 63 \<and> Suc m < 2 ^ 63"
  by (simp add: kMaxNumItems_def drop_bit_eq_div)

lemma wl_ok_basis:
  assumes "wl_ok k n w"
  shows "(case wl_transaction_insert_key_sequence w of Some a \<Rightarrow> Acked_Last a | None \<Rightarrow> 0) = of_nat (n - 1)"
proof -
  have "seq_at n (wl_transaction_insert_key_sequence w)"
    using assms by (auto simp: wl_ok_def)
  moreover from this obtain a where "wl_transaction_insert_key_sequence w = Some a" by (auto simp: seq_at_def)
  ultimately show ?thesis using seq_at_last by simp
qed

lemma next_from_static:
  assumes env: "env_ok env" and ok: "cx_ok k n s" and st: "static_ok (sel (cx_wl s))"
    and upd: "\<And>g. static_ok (Some g) \<Longrightarrow> const_len (Some g) = const_len (sel (cx_wl s))
      \<Longrightarrow> wl_ok k n (upd (Some g) (cx_wl s)) \<and> same_cfg (cx_wl s) (upd (Some g) (cx_wl s))"
  shows "yields (next_from env sel upd) s (\<lambda>v s'. quiet k n s s' \<and> (\<forall>l. const_len (sel (cx_wl s)) = Some l \<longrightarrow> v = l))"
proof -
  obtain g where g: "sel (cx_wl s) = Some g" "\<forall>b. gen_ok b g" using st by (auto simp: static_ok_def)
  let ?b = "case wl_transaction_insert_key_sequence (cx_wl s) of Some a \<Rightarrow> Acked_Last a | None \<Rightarrow> 0"
  have t: "tls_ok (cx_tls s)" using ok by (simp add: cx_ok_def)
  from gen_Next_ok [OF env t, of ?b g] g obtain v g' t' where
    n: "gen_Next env ?b g (cx_tls s) = Inr (v, g', t')" "tls_ok t'" by auto
  have "\<forall>b. gen_ok b g'"
    using n(1) g(2) gen_Next_ok [OF env t, of ?b g]
    by (cases g) (auto simp: ConstGenerator_Next_def UniformGenerator_Next_def split_beta Let_def andThen_def split: sum.splits)
  then have st': "static_ok (Some g')" by (simp add: static_ok_def)
  have cl: "const_len (Some g') = const_len (Some g)" "\<forall>l. const_len (Some g) = Some l \<longrightarrow> v = l"
    using n(1) by (cases g; auto simp: ConstGenerator_Next_def UniformGenerator_Next_def split_beta Let_def andThen_def split: sum.splits)+
  from upd [OF st'] cl show ?thesis
    using g n ok unfolding yields_def next_from_def by (auto simp: quiet_def cx_ok_def Let_def)
qed

lemma next_static:
  assumes "env_ok env" and "cx_ok k n s"
  shows "yields (next_field_len env) s (\<lambda>v s'. quiet k n s s' \<and> (\<forall>l. const_len (wl_field_len_generator (cx_wl s)) = Some l \<longrightarrow> v = l))"
    and "yields (next_field env) s (\<lambda>v s'. quiet k n s s')"
    and "yields (next_scan_len env) s (\<lambda>v s'. quiet k n s s')"
proof -
  show "yields (next_field_len env) s (\<lambda>v s'. quiet k n s s' \<and> (\<forall>l. const_len (wl_field_len_generator (cx_wl s)) = Some l \<longrightarrow> v = l))"
    unfolding next_field_len_def using assms by (intro next_from_static) (auto simp: cx_ok_def wl_ok_def same_cfg_def)
  show "yields (next_field env) s (\<lambda>v s'. quiet k n s s')" unfolding next_field_def
    by (rule yields_mono [OF next_from_static [OF assms]]) (use assms in \<open>auto simp: cx_ok_def wl_ok_def same_cfg_def\<close>)
  show "yields (next_scan_len env) s (\<lambda>v s'. quiet k n s s')" unfolding next_scan_len_def
    by (rule yields_mono [OF next_from_static [OF assms]]) (use assms in \<open>auto simp: cx_ok_def wl_ok_def same_cfg_def\<close>)
qed

lemma generate_bytes_tls: "uniform_bounds (snd (snd (generate_bytes m g t))) = uniform_bounds t"
proof (induction m arbitrary: g t)
  case (Suc m)
  have "uniform_bounds (snd (snd (RandomByteGenerator_Next g t))) = uniform_bounds t"
    by (simp add: RandomByteGenerator_Next_def ThreadLocalRandomInt_def Let_def split_beta)
  then show ?case by (simp add: Suc.IH Let_def split_beta)
qed simp

lemma random_bytes_ok:
  assumes "cx_ok k n s"
  shows "yields (random_bytes len) s (\<lambda>v s'. quiet k n s s' \<and> length v = len \<and> list_all plain_byte v)"
proof -
  let ?r = "generate_bytes len (new_RandomByteGenerator []) (cx_tls s)"
  have "tls_ok (snd (snd ?r))" using assms generate_bytes_tls by (simp add: cx_ok_def tls_ok_def)
  moreover have "length (fst ?r) = len" "list_all plain_byte (fst ?r)"
    using generate_bytes_plain [OF rbg_inv_new] by (auto simp: list_all_iff)
  ultimately show ?thesis using assms
    by (auto simp: yields_def random_bytes_def quiet_def cx_ok_def same_cfg_def split_beta Let_def)
qed

definition plain_value :: "u64 option \<Rightarrow> Field \<Rightarrow> bool" where
  "plain_value len v \<longleftrightarrow> list_all plain_byte (snd v) \<and> (\<forall>l. len = Some l \<longrightarrow> length (snd v) = unat l)"

abbreviation fixed_len :: "('e, 'd) ctx \<Rightarrow> u64 option" where
  "fixed_len s \<equiv> const_len (wl_field_len_generator (cx_wl s))"

lemma build_fields_ok:
  assumes env: "env_ok env" and "cx_ok k n s"
  shows "yields (build_fields env is) s (\<lambda>vs s'. quiet k n s s'
     \<and> map fst vs = map (\<lambda>i. wl_field_prefix (cx_wl s) @ to_string i) is \<and> list_all (plain_value (fixed_len s)) vs)"
  using assms(2)
proof (induction "is" arbitrary: s)
  case Nil
  then show ?case unfolding build_fields.simps by (intro yields_ret) (simp add: quiet_refl)
next
  case (Cons i "is")
  let ?pre = "wl_field_prefix (cx_wl s)"
  show ?case
    unfolding build_fields.simps yields_bind_reads
  proof (rule yields_bind [OF next_static(1) [OF env Cons.prems]])
    fix len s1 assume s1: "quiet k n s s1 \<and> (\<forall>l. fixed_len s = Some l \<longrightarrow> len = l)"
    then have q1: "quiet k n s s1" by simp
    show "yields (bind (random_bytes (unat len)) (\<lambda>value. bind (build_fields env is) (\<lambda>rest.
        ret ((?pre @ to_string i, value) # rest)))) s1
      (\<lambda>vs s'. quiet k n s s' \<and> map fst vs = map (\<lambda>i. ?pre @ to_string i) (i # is)
        \<and> list_all (plain_value (fixed_len s)) vs)"
    proof (rule yields_bind [OF random_bytes_ok [OF quiet_ok [OF q1]]])
      fix bs s2 assume s2: "quiet k n s1 s2 \<and> length bs = unat len \<and> list_all plain_byte bs"
      then have q: "quiet k n s s2" using q1 quiet_trans by blast
      have pre: "wl_field_prefix (cx_wl s2) = ?pre" "fixed_len s2 = fixed_len s" using q by (simp_all add: quiet_def same_cfg_def)
      have "plain_value (fixed_len s) (?pre @ to_string i, bs)" using s1 s2 by (simp add: plain_value_def)
      then show "yields (bind (build_fields env is) (\<lambda>rest. ret ((?pre @ to_string i, bs) # rest))) s2
        (\<lambda>vs s'. quiet k n s s' \<and> map fst vs = map (\<lambda>i. ?pre @ to_string i) (i # is)
          \<and> list_all (plain_value (fixed_len s)) vs)"
        by (intro yields_bind [OF Cons.IH [OF quiet_ok [OF q]]])
          (use q pre in \<open>auto intro!: yields_ret intro: quiet_trans\<close>)
    qed
  qed
qed

text \<open>What a write carries: every field by name, or a single value without a name.\<close>

definition write_shape :: "'e CoreWorkload \<Rightarrow> Field list \<Rightarrow> bool" where
  "write_shape w vs \<longleftrightarrow>
     (if wl_write_all_fields w
      then map fst vs = map (\<lambda>i. wl_field_prefix w @ to_string i) [0..<nat (wl_field_count w)]
      else map fst vs = [[]]) \<and> list_all (plain_value (const_len (wl_field_len_generator w))) vs"

lemma build_write_ok:
  assumes env: "env_ok env" and ok: "cx_ok k n s"
  shows "yields (build_write env) s (\<lambda>vs s'. quiet k n s s' \<and> write_shape (cx_wl s) vs)"
proof (cases "wl_write_all_fields (cx_wl s)")
  case True
  then show ?thesis
    unfolding build_write_def yields_bind_reads BuildValues_def
    using build_fields_ok [OF env ok] by (auto simp: write_shape_def elim: yields_mono)
next
  case False
  have "yields (BuildSingleValue env) s (\<lambda>vs s'. quiet k n s s' \<and> map fst vs = [[]] \<and> list_all (plain_value (fixed_len s)) vs)"
    unfolding BuildSingleValue_def
  proof (rule yields_bind [OF next_static(1) [OF env ok]])
    fix len s1 assume s1: "quiet k n s s1 \<and> (\<forall>l. fixed_len s = Some l \<longrightarrow> len = l)"
    then have q1: "quiet k n s s1" by simp
    show "yields (bind (random_bytes (unat len)) (\<lambda>value. ret [([], value)])) s1
      (\<lambda>vs s'. quiet k n s s' \<and> map fst vs = [[]] \<and> list_all (plain_value (fixed_len s)) vs)"
      by (rule yields_bind [OF random_bytes_ok [OF quiet_ok [OF q1]]])
        (use s1 in \<open>auto intro!: yields_ret intro: quiet_trans simp: plain_value_def\<close>)
  qed
  with False show ?thesis by (simp add: build_write_def write_shape_def)
qed

text \<open>What a read asks for: all fields, or one field of the record.\<close>

definition read_shape :: "'e CoreWorkload \<Rightarrow> string list option \<Rightarrow> bool" where
  "read_shape w flds \<longleftrightarrow>
     (if wl_read_all_fields w then flds = None else (\<exists>i. flds = Some [wl_field_prefix w @ to_string i]))"

lemma build_read_ok:
  assumes env: "env_ok env" and ok: "cx_ok k n s"
  shows "yields (build_read env) s (\<lambda>flds s'. quiet k n s s' \<and> read_shape (cx_wl s) flds)"
proof (cases "wl_read_all_fields (cx_wl s)")
  case True
  then show ?thesis using quiet_refl [OF ok] by (auto simp: build_read_def read_shape_def intro!: yields_ret)
next
  case False
  have "yields (NextFieldName env) s (\<lambda>f s'. quiet k n s s' \<and> (\<exists>i. f = wl_field_prefix (cx_wl s) @ to_string i))"
    unfolding NextFieldName_def
    by (rule yields_bind [OF next_static(2) [OF env ok]]) (auto simp: quiet_def same_cfg_def)
  then have "yields (bind (NextFieldName env) (\<lambda>f. ret (Some [f]))) s
      (\<lambda>flds s'. quiet k n s s' \<and> (\<exists>i. flds = Some [wl_field_prefix (cx_wl s) @ to_string i]))"
    by (rule yields_bind) (auto intro!: yields_ret)
  with False show ?thesis by (simp add: build_read_def read_shape_def)
qed

section \<open>Choosing a key\<close>

lemma next_key_ok:
  assumes env: "env_ok env" and ok: "cx_ok k n s"
  shows "yields (next_key env) s (\<lambda>m s'. quiet k n s s' \<and> m \<le> of_nat (n - 1))"
proof -
  let ?b = "of_nat (n - 1) :: u64"
  have w: "wl_ok k n (cx_wl s)" and t: "tls_ok (cx_tls s)" using ok by (simp_all add: cx_ok_def)
  note b = wl_ok_basis [OF w]
  obtain g where g: "wl_key_chooser (cx_wl s) = Some g" "gen_ok ?b g" "gen_below ?b g"
    using w by (auto simp: wl_ok_def key_ok_def)
  from gen_Next_ok [OF env t g(2)] g(3) obtain v g' t' where
    n: "gen_Next env ?b g (cx_tls s) = Inr (v, g', t')" "gen_ok ?b g'" "tls_ok t'" "v \<le> ?b" "gen_below ?b g'"
    by blast
  have "next_key env s = Some (Inr (v, s\<lparr>cx_wl := (cx_wl s)\<lparr>wl_key_chooser := Some g'\<rparr>, cx_tls := t'\<rparr>))"
    unfolding next_key_def next_from_def b using g(1) n(1) by simp
  moreover have "wl_ok k n ((cx_wl s)\<lparr>wl_key_chooser := Some g'\<rparr>)"
    using w n by (simp add: wl_ok_def key_ok_def)
  ultimately show ?thesis using n(3,4) by (auto simp: yields_def quiet_def cx_ok_def same_cfg_def)
qed

lemma NextTransactionKeyNum_ok:
  assumes env: "env_ok env" and ok: "cx_ok k n s"
  shows "yields (NextTransactionKeyNum env) s (\<lambda>m s'. quiet k n s s' \<and> m \<le> of_nat (n - 1))"
proof -
  from next_key_ok [OF assms] obtain m s' where
    m: "next_key env s = Some (Inr (m, s'))" "quiet k n s s'" "m \<le> of_nat (n - 1)" by (auto simp: yields_def)
  have w: "wl_ok k n (cx_wl s')" using m(2) by (simp add: quiet_def cx_ok_def)
  obtain a where a: "wl_transaction_insert_key_sequence (cx_wl s') = Some a"
    using w by (auto simp: wl_ok_def seq_at_def)
  have "\<not> Acked_Last a < m" using wl_ok_basis [OF w] a m(3) by simp
  then have "NextTransactionKeyNum env s = Some (Inr (m, s'))"
    by (subst NextTransactionKeyNum.simps) (simp add: m(1) a)
  then show ?thesis using m by (auto simp: yields_def)
qed

lemma next_op_ok:
  assumes env: "env_ok env" and ok: "cx_ok k n s"
  shows "yields (next_op env) s (\<lambda>op s'. quiet k n s s' \<and> op \<in> fst ` set (dg_values (wl_op_chooser (cx_wl s))))"
proof -
  have o: "ops_ok (wl_op_chooser (cx_wl s))" and t: "tls_ok (cx_tls s)" and w: "wl_ok k n (cx_wl s)"
    using ok by (simp_all add: cx_ok_def wl_ok_def)
  note d = draw_ok [OF env t]
  let ?g = "wl_op_chooser (cx_wl s)"
  from o have "discrete_inv ?g" "dg_values ?g \<noteq> []" by (simp_all add: ops_ok_def)
  then obtain i where i: "i < length (dg_values ?g)"
    and n: "DiscreteGenerator_Next (env_ndebug env) (fst (draw env (cx_tls s))) ?g =
           Inr (fst (dg_values ?g ! i), ?g\<lparr>dg_last := fst (dg_values ?g ! i)\<rparr>)"
    by (rule discrete_Next_interval [OF _ _ d(1,2), where ndebug = "env_ndebug env"])
  have "ops_ok (?g\<lparr>dg_last := x\<rparr>)" for x using o by (simp add: ops_ok_def discrete_inv_def)
  then have "wl_ok k n ((cx_wl s)\<lparr>wl_op_chooser := ?g\<lparr>dg_last := x\<rparr>\<rparr>)" for x using w by (simp add: wl_ok_def)
  then show ?thesis using i n d(3)
    by (auto simp: yields_def next_op_def split_beta Let_def quiet_def cx_ok_def same_cfg_def)
qed

section \<open>Transactions\<close>

definition db_total :: "'d DB \<Rightarrow> bool" where
  "db_total db \<longleftrightarrow> (\<forall>c d. \<exists>r d'. db_call db c d = Inr (r, d'))"

text \<open>
  The calls that a workload makes, and a database that serves calls of the kind \<open>A\<close>: from every state that satisfies \<open>I\<close> it returns, in such a state.
\<close>

fun wl_call :: "'e CoreWorkload \<Rightarrow> dbcall \<Rightarrow> bool" where
  "wl_call w (CRead _ _ flds) = read_shape w flds"
| "wl_call w (CScan _ _ _ flds) = read_shape w flds"
| "wl_call w (CUpdate _ _ vs) = write_shape w vs"
| "wl_call w (CInsert _ _ vs) = write_shape w vs"
| "wl_call w _ = False"

definition db_serves :: "'d DB \<Rightarrow> ('d \<Rightarrow> bool) \<Rightarrow> (dbcall \<Rightarrow> bool) \<Rightarrow> bool" where
  "db_serves db I A \<longleftrightarrow> (\<forall>c d. I d \<longrightarrow> A c \<longrightarrow> (\<exists>r d'. db_call db c d = Inr (r, d') \<and> I d'))"

lemma db_total_serves: "db_total db \<Longrightarrow> db_serves db (\<lambda>_. True) A"
  by (simp add: db_total_def db_serves_def)

text \<open>What the handlers leave as it is.\<close>

definition wl_stable :: "'e CoreWorkload \<Rightarrow> 'e CoreWorkload \<Rightarrow> bool" where
  "wl_stable w w' \<longleftrightarrow> wl_call w' = wl_call w \<and> BuildKeyName w' = BuildKeyName w \<and> wl_table_name w' = wl_table_name w"

text \<open>The calls that a transaction makes, when \<open>n\<close> is the next key number to be inserted.\<close>

fun tx_trace :: "'e CoreWorkload \<Rightarrow> nat \<Rightarrow> Operation \<Rightarrow> dbcall list \<Rightarrow> bool" where
  "tx_trace w n READ cs \<longleftrightarrow> (\<exists>m flds. m \<le> of_nat (n - 1) \<and> read_shape w flds
     \<and> cs = [CRead (wl_table_name w) (BuildKeyName w m) flds])"
| "tx_trace w n UPDATE cs \<longleftrightarrow> (\<exists>m vs. m \<le> of_nat (n - 1) \<and> write_shape w vs
     \<and> cs = [CUpdate (wl_table_name w) (BuildKeyName w m) vs])"
| "tx_trace w n INSERT cs \<longleftrightarrow> (\<exists>vs. write_shape w vs
     \<and> cs = [CInsert (wl_table_name w) (BuildKeyName w (of_nat n)) vs])"
| "tx_trace w n SCAN cs \<longleftrightarrow> (\<exists>m len flds. m \<le> of_nat (n - 1) \<and> read_shape w flds
     \<and> cs = [CScan (wl_table_name w) (BuildKeyName w m) len flds])"
| "tx_trace w n READMODIFYWRITE cs \<longleftrightarrow> (\<exists>m flds vs. m \<le> of_nat (n - 1) \<and> read_shape w flds \<and> write_shape w vs
     \<and> cs = [CRead (wl_table_name w) (BuildKeyName w m) flds, CUpdate (wl_table_name w) (BuildKeyName w m) vs])"
| "tx_trace w n _ cs \<longleftrightarrow> False"

text \<open>The transaction made the calls of its trace and returned the status of the last one.\<close>

definition tx_calls :: "'d DB \<Rightarrow> nat \<Rightarrow> Operation \<Rightarrow> ('e, 'd) ctx \<Rightarrow> Status \<Rightarrow> ('e, 'd) ctx \<Rightarrow> bool" where
  "tx_calls db n op s st s' \<longleftrightarrow>
     (\<exists>cs rs. tx_trace (cx_wl s) n op cs \<and> db_calls db cs (cx_db s) = Inr (rs, cx_db s') \<and> rs \<noteq> []
       \<and> st = result_status (last rs))"

definition tx_done ::
    "('d \<Rightarrow> bool) \<Rightarrow> 'd DB \<Rightarrow> nat \<Rightarrow> nat \<Rightarrow> Operation \<Rightarrow> ('e, 'd) ctx \<Rightarrow> Status \<Rightarrow> ('e, 'd) ctx \<Rightarrow> bool" where
  "tx_done I db k n op s st s' \<longleftrightarrow> tx_calls db n op s st s' \<and> cx_ok k n s' \<and> I (cx_db s') \<and> wl_stable (cx_wl s) (cx_wl s')
     \<and> wl_transaction_insert_key_sequence (cx_wl s') = wl_transaction_insert_key_sequence (cx_wl s)"

lemma on_db_bind: "call (cx_db s) = Inr (x, d) \<Longrightarrow> bind (on_db call) f s = f x (s\<lparr>cx_db := d\<rparr>)"
  by (simp add: on_db_def)

lemma on_db_apply: "call (cx_db s) = Inr (x, d) \<Longrightarrow> on_db call s = Some (Inr (x, s\<lparr>cx_db := d\<rparr>))"
  by (simp add: on_db_def)

lemmas tx_simps = key_name_def table_of_def on_db_bind on_db_apply

lemma cx_ok_db [simp]: "cx_ok k n (s\<lparr>cx_db := d\<rparr>) = cx_ok k n s"
  by (simp add: cx_ok_def)

lemma db_servesE:
  assumes "db_serves db I (wl_call w)" and "I d"
  shows "read_shape w flds \<Longrightarrow> \<exists>st r d'. db_Read db t key flds d = Inr ((st, r), d') \<and> I d'"
    and "read_shape w flds \<Longrightarrow> \<exists>st r d'. db_Scan db t key len flds d = Inr ((st, r), d') \<and> I d'"
    and "write_shape w vs \<Longrightarrow> \<exists>st d'. db_Update db t key vs d = Inr (st, d') \<and> I d'"
    and "write_shape w vs \<Longrightarrow> \<exists>st d'. db_Insert db t key vs d = Inr (st, d') \<and> I d'"
proof -
  have *: "wl_call w c \<Longrightarrow> \<exists>r d'. db_call db c d = Inr (r, d') \<and> I d'" for c using assms unfolding db_serves_def by blast
  from * [of "CRead t key flds"] show "read_shape w flds \<Longrightarrow> \<exists>st r d'. db_Read db t key flds d = Inr ((st, r), d') \<and> I d'"
    by (auto simp: map_result_Inr)
  from * [of "CScan t key len flds"] show "read_shape w flds \<Longrightarrow> \<exists>st r d'. db_Scan db t key len flds d = Inr ((st, r), d') \<and> I d'"
    by (auto simp: map_result_Inr)
  from * [of "CUpdate t key vs"] show "write_shape w vs \<Longrightarrow> \<exists>st d'. db_Update db t key vs d = Inr (st, d') \<and> I d'"
    by (auto simp: map_result_Inr)
  from * [of "CInsert t key vs"] show "write_shape w vs \<Longrightarrow> \<exists>st d'. db_Insert db t key vs d = Inr (st, d') \<and> I d'"
    by (auto simp: map_result_Inr)
qed

lemma quietD:
  assumes "quiet k n s s'"
  shows "cx_ok k n s'" and "cx_db s' = cx_db s" and "wl_table_name (cx_wl s') = wl_table_name (cx_wl s)"
    and "BuildKeyName (cx_wl s') m = BuildKeyName (cx_wl s) m"
    and "read_shape (cx_wl s') = read_shape (cx_wl s)" and "write_shape (cx_wl s') = write_shape (cx_wl s)"
    and "wl_transaction_insert_key_sequence (cx_wl s') = wl_transaction_insert_key_sequence (cx_wl s)"
  using assms by (auto simp: quiet_def same_cfg_def BuildKeyName_def read_shape_def write_shape_def fun_eq_iff)

lemma wl_call_shapes: "read_shape w' = read_shape w \<Longrightarrow> write_shape w' = write_shape w \<Longrightarrow> wl_call w' = wl_call w"
proof
  show "read_shape w' = read_shape w \<Longrightarrow> write_shape w' = write_shape w \<Longrightarrow> wl_call w' c = wl_call w c" for c by (cases c) simp_all
qed

lemma quiet_stable: "quiet k n s s' \<Longrightarrow> wl_stable (cx_wl s) (cx_wl s')"
  using quietD(3-6) [of k n s s'] wl_call_shapes [of "cx_wl s'" "cx_wl s"] by (auto simp: wl_stable_def fun_eq_iff)

lemma wl_stable_trans: "wl_stable w w' \<Longrightarrow> wl_stable w' w'' \<Longrightarrow> wl_stable w w''"
  by (simp add: wl_stable_def)

text \<open>The random draws of a transaction, as equations.\<close>

lemma key_step:
  assumes "env_ok env" and "cx_ok k n s"
  obtains m s' where "NextTransactionKeyNum env s = Some (Inr (m, s'))" and "quiet k n s s'" and "m \<le> of_nat (n - 1)"
  using NextTransactionKeyNum_ok [OF assms] by (auto simp: yields_def)

lemma read_step:
  assumes "env_ok env" and "quiet k n s s1"
  obtains flds s2 where "build_read env s1 = Some (Inr (flds, s2))" and "quiet k n s s2" and "read_shape (cx_wl s) flds"
  using build_read_ok [OF assms(1) quiet_ok [OF assms(2)]] quiet_trans [OF assms(2)] quietD(5) [OF assms(2)]
  by (auto simp: yields_def)

lemma write_step:
  assumes "env_ok env" and "quiet k n s s1"
  obtains vs s2 where "build_write env s1 = Some (Inr (vs, s2))" and "quiet k n s s2" and "write_shape (cx_wl s) vs"
  using build_write_ok [OF assms(1) quiet_ok [OF assms(2)]] quiet_trans [OF assms(2)] quietD(6) [OF assms(2)]
  by (auto simp: yields_def)

lemma TransactionRead_ok:
  assumes env: "env_ok env" and db: "db_serves db I (wl_call (cx_wl s))" and inv: "I (cx_db s)" and ok: "cx_ok k n s"
  shows "yields (TransactionRead env db) s (tx_done I db k n READ s)"
proof -
  obtain m s1 where m: "NextTransactionKeyNum env s = Some (Inr (m, s1))" "quiet k n s s1" "m \<le> of_nat (n - 1)"
    by (rule key_step [OF env ok])
  obtain flds s2 where f: "build_read env s1 = Some (Inr (flds, s2))" "quiet k n s s2" "read_shape (cx_wl s) flds"
    by (rule read_step [OF env m(2)])
  obtain st r d' where c: "db_Read db (wl_table_name (cx_wl s)) (BuildKeyName (cx_wl s) m) flds (cx_db s) = Inr ((st, r), d')" "I d'"
    using db_servesE(1) [OF db inv f(3)] by blast
  have "TransactionRead env db s = Some (Inr (st, s2\<lparr>cx_db := d'\<rparr>))"
    unfolding TransactionRead_def using m(1) f(1) c quietD [OF m(2)] quietD [OF f(2)] by (simp add: tx_simps)
  moreover have "tx_done I db k n READ s st (s2\<lparr>cx_db := d'\<rparr>)"
    unfolding tx_done_def tx_calls_def using m(3) f(3) c quietD(1,7) [OF f(2)] quiet_stable [OF f(2)]
    by (intro conjI exI [of _ "[CRead (wl_table_name (cx_wl s)) (BuildKeyName (cx_wl s) m) flds]"] exI [of _ "[RFields st r]"]) auto
  ultimately show ?thesis by (auto simp: yields_def)
qed

lemma TransactionUpdate_ok:
  assumes env: "env_ok env" and db: "db_serves db I (wl_call (cx_wl s))" and inv: "I (cx_db s)" and ok: "cx_ok k n s"
  shows "yields (TransactionUpdate env db) s (tx_done I db k n UPDATE s)"
proof -
  obtain m s1 where m: "NextTransactionKeyNum env s = Some (Inr (m, s1))" "quiet k n s s1" "m \<le> of_nat (n - 1)"
    by (rule key_step [OF env ok])
  obtain vs s2 where f: "build_write env s1 = Some (Inr (vs, s2))" "quiet k n s s2" "write_shape (cx_wl s) vs"
    by (rule write_step [OF env m(2)])
  obtain st d' where c: "db_Update db (wl_table_name (cx_wl s)) (BuildKeyName (cx_wl s) m) vs (cx_db s) = Inr (st, d')" "I d'"
    using db_servesE(3) [OF db inv f(3)] by blast
  have "TransactionUpdate env db s = Some (Inr (st, s2\<lparr>cx_db := d'\<rparr>))"
    unfolding TransactionUpdate_def using m(1) f(1) c quietD [OF m(2)] quietD [OF f(2)] by (simp add: tx_simps)
  moreover have "tx_done I db k n UPDATE s st (s2\<lparr>cx_db := d'\<rparr>)"
    unfolding tx_done_def tx_calls_def using m(3) f(3) c quietD(1,7) [OF f(2)] quiet_stable [OF f(2)]
    by (intro conjI exI [of _ "[CUpdate (wl_table_name (cx_wl s)) (BuildKeyName (cx_wl s) m) vs]"] exI [of _ "[RStatus st]"]) auto
  ultimately show ?thesis by (auto simp: yields_def)
qed

lemma TransactionScan_ok:
  assumes env: "env_ok env" and db: "db_serves db I (wl_call (cx_wl s))" and inv: "I (cx_db s)" and ok: "cx_ok k n s"
  shows "yields (TransactionScan env db) s (tx_done I db k n SCAN s)"
proof -
  obtain m s1 where m: "NextTransactionKeyNum env s = Some (Inr (m, s1))" "quiet k n s s1" "m \<le> of_nat (n - 1)"
    by (rule key_step [OF env ok])
  obtain len s2 where l: "next_scan_len env s1 = Some (Inr (len, s2))" "quiet k n s s2"
    using next_static(3) [OF env quiet_ok [OF m(2)]] quiet_trans [OF m(2)] by (auto simp: yields_def)
  obtain flds s3 where f: "build_read env s2 = Some (Inr (flds, s3))" "quiet k n s s3" "read_shape (cx_wl s) flds"
    by (rule read_step [OF env l(2)])
  let ?c = "CScan (wl_table_name (cx_wl s)) (BuildKeyName (cx_wl s) m) (int_of_u64 len) flds"
  obtain st r d' where c: "db_Scan db (wl_table_name (cx_wl s)) (BuildKeyName (cx_wl s) m) (int_of_u64 len) flds (cx_db s) = Inr ((st, r), d')" "I d'"
    using db_servesE(2) [OF db inv f(3)] by blast
  have "TransactionScan env db s = Some (Inr (st, s3\<lparr>cx_db := d'\<rparr>))"
    unfolding TransactionScan_def using m(1) l(1) f(1) c quietD [OF m(2)] quietD [OF f(2)] by (simp add: tx_simps)
  moreover have "tx_done I db k n SCAN s st (s3\<lparr>cx_db := d'\<rparr>)"
    unfolding tx_done_def tx_calls_def using m(3) f(3) c quietD(1,7) [OF f(2)] quiet_stable [OF f(2)]
    by (intro conjI exI [of _ "[?c]"] exI [of _ "[RRows st r]"]) auto
  ultimately show ?thesis by (auto simp: yields_def)
qed

lemma TransactionReadModifyWrite_ok:
  assumes env: "env_ok env" and db: "db_serves db I (wl_call (cx_wl s))" and inv: "I (cx_db s)" and ok: "cx_ok k n s"
  shows "yields (TransactionReadModifyWrite env db) s (tx_done I db k n READMODIFYWRITE s)"
proof -
  obtain m s1 where m: "NextTransactionKeyNum env s = Some (Inr (m, s1))" "quiet k n s s1" "m \<le> of_nat (n - 1)"
    by (rule key_step [OF env ok])
  obtain flds s2 where f: "build_read env s1 = Some (Inr (flds, s2))" "quiet k n s s2" "read_shape (cx_wl s) flds"
    by (rule read_step [OF env m(2)])
  let ?t = "wl_table_name (cx_wl s)" and ?key = "BuildKeyName (cx_wl s) m"
  obtain st1 r d1 where c: "db_Read db ?t ?key flds (cx_db s) = Inr ((st1, r), d1)" "I d1" using db_servesE(1) [OF db inv f(3)] by blast
  have q: "quiet k n (s\<lparr>cx_db := d1\<rparr>) (s2\<lparr>cx_db := d1\<rparr>)" using f(2) by (simp add: quiet_def)
  obtain vs s3 where v: "build_write env (s2\<lparr>cx_db := d1\<rparr>) = Some (Inr (vs, s3))" "quiet k n (s\<lparr>cx_db := d1\<rparr>) s3"
      "write_shape (cx_wl (s\<lparr>cx_db := d1\<rparr>)) vs"
    by (rule write_step [OF env q])
  obtain st2 d2 where u: "db_Update db ?t ?key vs d1 = Inr (st2, d2)" "I d2"
    using db_servesE(3) [OF db c(2) v(3) [simplified]] by blast
  have "TransactionReadModifyWrite env db s = Some (Inr (st2, s3\<lparr>cx_db := d2\<rparr>))"
    unfolding TransactionReadModifyWrite_def
    using m(1) f(1) c v(1) u quietD [OF m(2)] quietD [OF f(2)] quietD [OF v(2)] by (simp add: tx_simps)
  moreover have "tx_done I db k n READMODIFYWRITE s st2 (s3\<lparr>cx_db := d2\<rparr>)"
    unfolding tx_done_def tx_calls_def using m(3) f(3) c u v(3) quietD(1,7) [OF v(2)] quiet_stable [OF v(2)]
    by (intro conjI exI [of _ "[CRead ?t ?key flds, CUpdate ?t ?key vs]"] exI [of _ "[RFields st1 r, RStatus st2]"]) auto
  ultimately show ?thesis by (auto simp: yields_def)
qed

lemma key_ok_mono:
  assumes "key_ok (of_nat (n - 1)) p" and "1 \<le> n" and "Suc n < unat kMaxNumItems"
  shows "key_ok (of_nat n) p"
proof -
  have n63: "n < 2 ^ 63" "n - 1 < 2 ^ 63" using assms(2,3) kMax_less [of "Suc n"] by auto
  have le: "(of_nat (n - 1) :: u64) \<le> of_nat n" using n63 by (simp add: word_le_nat_alt unat_of_nat_u64)
  have lt: "(of_nat n :: u64) < kMaxNumItems" using n63 assms(3) by (simp add: word_less_nat_alt unat_of_nat_u64)
  obtain g where g: "p = Some g" "gen_ok (of_nat (n - 1)) g" "gen_below (of_nat (n - 1)) g"
    using assms(1) by (auto simp: key_ok_def)
  then have "gen_ok (of_nat n) g \<and> gen_below (of_nat n) g"
    using le lt order_trans [OF _ le] by (cases g) (auto simp: word_le_nat_alt)
  with g(1) show ?thesis by (simp add: key_ok_def)
qed

lemma TransactionInsert_ok:
  assumes env: "env_ok env" and db: "db_serves db I (wl_call (cx_wl s))" and inv: "I (cx_db s)" and ok: "cx_ok (Suc k) n s"
    and idle: "settled n (wl_transaction_insert_key_sequence (cx_wl s))"
  shows "yields (TransactionInsert env db) s (\<lambda>st s'. tx_calls db n INSERT s st s' \<and> cx_ok k (Suc n) s' \<and> I (cx_db s') \<and> wl_stable (cx_wl s) (cx_wl s')
     \<and> settled (Suc n) (wl_transaction_insert_key_sequence (cx_wl s')))"
proof -
  have w: "wl_ok (Suc k) n (cx_wl s)" using ok by (simp add: cx_ok_def)
  have lim: "Suc n + k < unat kMaxNumItems" "1 \<le> n" using w by (auto simp: wl_ok_def seq_at_def)
  obtain a where a: "wl_transaction_insert_key_sequence (cx_wl s) = Some a" using idle by (auto simp: settled_def)
  have n63: "Suc n < 2 ^ 63" using kMax_less [OF lim(1)] by simp
  note ins = settled_insert [OF idle [unfolded a] n63]
  obtain a' where a': "Acknowledge (of_nat n) (snd (Acked_Next a)) = Inr a'" "settled (Suc n) (Some a')" using ins(3) by blast
  define s1 where "s1 = s\<lparr>cx_wl := (cx_wl s)\<lparr>wl_transaction_insert_key_sequence := Some (snd (Acked_Next a))\<rparr>\<rparr>"
  have one: "next_transaction_insert_key s = Some (Inr (of_nat n, s1))"
    using a ins(1) by (simp add: next_transaction_insert_key_def s1_def split_beta Let_def)
  have ok1: "quiet (Suc k) n s1 s1"
    using ok ins(2) by (intro quiet_refl) (simp add: cx_ok_def wl_ok_def s1_def)
  obtain vs s2 where v: "build_write env s1 = Some (Inr (vs, s2))" "quiet (Suc k) n s1 s2" "write_shape (cx_wl s1) vs"
    by (rule write_step [OF env ok1])
  have cfg: "wl_table_name (cx_wl s1) = wl_table_name (cx_wl s)" "BuildKeyName (cx_wl s1) m = BuildKeyName (cx_wl s) m"
    "write_shape (cx_wl s1) = write_shape (cx_wl s)" "cx_db s1 = cx_db s" for m
    by (simp_all add: s1_def BuildKeyName_def write_shape_def fun_eq_iff)
  let ?t = "wl_table_name (cx_wl s)" and ?key = "BuildKeyName (cx_wl s) (of_nat n)"
  obtain st d' where c: "db_Insert db ?t ?key vs (cx_db s) = Inr (st, d')" "I d'"
    using db_servesE(4) [OF db inv v(3) [unfolded cfg(3)]] by blast
  let ?s3 = "s2\<lparr>cx_db := d'\<rparr>"
  let ?s4 = "?s3\<lparr>cx_wl := (cx_wl ?s3)\<lparr>wl_transaction_insert_key_sequence := Some a'\<rparr>\<rparr>"
  have seq2: "wl_transaction_insert_key_sequence (cx_wl s2) = Some (snd (Acked_Next a))"
    using quietD(7) [OF v(2)] by (simp add: s1_def)
  then have "acknowledge_key (of_nat n) ?s3 = Some (Inr ((), ?s4))" using a'(1) by (simp add: acknowledge_key_def)
  then have "TransactionInsert env db s = Some (Inr (st, ?s4))"
    unfolding TransactionInsert_def using one v(1) c quietD [OF v(2)] cfg by (simp add: tx_simps)
  moreover have "tx_calls db n INSERT s st ?s4"
    unfolding tx_calls_def using v(3) c cfg by (intro exI [of _ "[CInsert ?t ?key vs]"] exI [of _ "[RStatus st]"]) auto
  moreover have "cx_ok k (Suc n) ?s4"
    using quietD(1) [OF v(2)] settled_seq_at [OF a'(2)] lim key_ok_mono [of n "wl_key_chooser (cx_wl s2)"]
    by (simp add: cx_ok_def wl_ok_def)
  moreover have "wl_stable (cx_wl s) (cx_wl ?s4)"
  proof -
    have 1: "BuildKeyName (cx_wl ?s4) = BuildKeyName (cx_wl s2)" "read_shape (cx_wl ?s4) = read_shape (cx_wl s2)" "write_shape (cx_wl ?s4) = write_shape (cx_wl s2)"
      by (simp_all add: BuildKeyName_def read_shape_def write_shape_def fun_eq_iff)
    have 2: "read_shape (cx_wl s1) = read_shape (cx_wl s)" by (simp add: s1_def read_shape_def fun_eq_iff)
    show ?thesis using 1 2 cfg quietD(3-6) [OF v(2)] wl_call_shapes [of "cx_wl ?s4" "cx_wl s"] by (simp add: wl_stable_def fun_eq_iff)
  qed
  ultimately show ?thesis using a'(2) c(2) by (auto simp: yields_def)
qed

lemma cx_ok_less: "cx_ok (Suc k) n s \<Longrightarrow> cx_ok k n s"
  by (simp add: cx_ok_def wl_ok_def)

lemma tx_calls_quiet: "quiet k n s s1 \<Longrightarrow> tx_calls db m op s1 st s' = tx_calls db m op s st s'"
  using quietD [of k n s s1]
  by (cases op) (auto simp: tx_calls_def)

lemma DoTransaction_ok:
  assumes env: "env_ok env" and db: "db_serves db I (wl_call (cx_wl s))" and inv: "I (cx_db s)" and ok: "cx_ok (Suc k) n s"
    and idle: "settled n (wl_transaction_insert_key_sequence (cx_wl s))"
  shows "yields (DoTransaction env db) s (\<lambda>b s'. \<exists>op st.
     op \<in> fst ` set (dg_values (wl_op_chooser (cx_wl s))) \<and> tx_calls db n op s st s' \<and> b = (st = kOK)
     \<and> (let n' = (if op = INSERT then Suc n else n) in cx_ok k n' s' \<and> I (cx_db s') \<and> wl_stable (cx_wl s) (cx_wl s')
        \<and> settled n' (wl_transaction_insert_key_sequence (cx_wl s'))))"
  unfolding DoTransaction_def
proof (rule yields_bind [OF next_op_ok [OF env ok]])
  fix op s1 assume s1: "quiet (Suc k) n s s1 \<and> op \<in> fst ` set (dg_values (wl_op_chooser (cx_wl s)))"
  then have q: "quiet (Suc k) n s s1" by simp
  note ok1 = quietD(1) [OF q]
  have idle1: "settled n (wl_transaction_insert_key_sequence (cx_wl s1))" using idle quietD(7) [OF q] by simp
  have st1: "wl_stable (cx_wl s) (cx_wl s1)" by (rule quiet_stable [OF q])
  have db1: "db_serves db I (wl_call (cx_wl s1))" "I (cx_db s1)" using db inv st1 quietD(2) [OF q] by (simp_all add: wl_stable_def)
  have op: "op \<in> {READ, UPDATE, INSERT, SCAN, READMODIFYWRITE}"
    using s1 ok by (auto simp: cx_ok_def wl_ok_def ops_ok_def)
  let ?post = "\<lambda>st s'. tx_calls db n op s st s'
     \<and> (let n' = (if op = INSERT then Suc n else n) in cx_ok k n' s' \<and> I (cx_db s') \<and> wl_stable (cx_wl s) (cx_wl s')
        \<and> settled n' (wl_transaction_insert_key_sequence (cx_wl s')))"
  have weak: "yields m s1 (tx_done I db (Suc k) n op s1) \<Longrightarrow> op \<noteq> INSERT \<Longrightarrow> yields m s1 ?post" for m
    by (erule yields_mono) (use idle1 st1 in \<open>auto simp: tx_done_def tx_calls_quiet [OF q] dest: cx_ok_less intro: wl_stable_trans\<close>)
  have "yields (case op of READ \<Rightarrow> TransactionRead env db | UPDATE \<Rightarrow> TransactionUpdate env db
           | INSERT \<Rightarrow> TransactionInsert env db | SCAN \<Rightarrow> TransactionScan env db
           | READMODIFYWRITE \<Rightarrow> TransactionReadModifyWrite env db
           | RDIDX \<Rightarrow> raise (Undefined ''status is uninitialised'')
           | _ \<Rightarrow> raise (Exception ''Operation request is not recognized!'')) s1 ?post"
  proof (cases "op = INSERT")
    case True
    then show ?thesis using yields_mono [OF TransactionInsert_ok [OF env db1 ok1 idle1]] wl_stable_trans [OF st1] by (simp add: tx_calls_quiet [OF q])
  next
    case False
    then show ?thesis
      using op weak TransactionRead_ok [OF env db1 ok1] TransactionUpdate_ok [OF env db1 ok1]
        TransactionScan_ok [OF env db1 ok1] TransactionReadModifyWrite_ok [OF env db1 ok1]
      by (elim insertE emptyE) simp_all
  qed
  then show "yields (bind (case op of READ \<Rightarrow> TransactionRead env db | UPDATE \<Rightarrow> TransactionUpdate env db
           | INSERT \<Rightarrow> TransactionInsert env db | SCAN \<Rightarrow> TransactionScan env db
           | READMODIFYWRITE \<Rightarrow> TransactionReadModifyWrite env db
           | RDIDX \<Rightarrow> raise (Undefined ''status is uninitialised'')
           | _ \<Rightarrow> raise (Exception ''Operation request is not recognized!'')) (\<lambda>status. ret (status = kOK))) s1
     (\<lambda>b s'. \<exists>op st. op \<in> fst ` set (dg_values (wl_op_chooser (cx_wl s))) \<and> tx_calls db n op s st s' \<and> b = (st = kOK)
     \<and> (let n' = (if op = INSERT then Suc n else n) in cx_ok k n' s' \<and> I (cx_db s') \<and> wl_stable (cx_wl s) (cx_wl s')
        \<and> settled n' (wl_transaction_insert_key_sequence (cx_wl s'))))"
    by (rule yields_bind) (rule yields_ret, intro exI [of _ op], use s1 in blast)
qed

section \<open>Initialisation\<close>

lemma default_numbers:
  "stoi ''10'' = Inr 10" "stoi ''100'' = Inr 100" "stoi ''1'' = Inr 1" "stoi ''1000'' = Inr 1000"
  "stoi ''0'' = Inr 0" "stoi ''1000000'' = Inr 1000000" "stoi ''20'' = Inr 20"
  by (simp_all add: stoi_def parse_long_def skip_sign_def isspace_def is_digit_def dec_val_def digit_val_def int32_ok_def)

lemma default_proportions:
  "stod ''0.95'' = Inr (95 / 100)" "stod ''0.05'' = Inr (5 / 100)" "stod ''0.0'' = Inr 0"
  by (simp_all add: stod_def skip_sign_def isspace_def is_digit_def dec_val_def digit_val_def parse_exp_def)

lemma default_flags: "StrToBool ''true'' = Inr True" "StrToBool ''false'' = Inr False"
  by (simp_all add: StrToBool_def tolower_def)

lemma stoi_to_string: "n < 2 ^ 31 \<Longrightarrow> stoi (to_string n) = Inr (int n)"
  by (simp add: stoi_def parse_long_to_string int32_ok_def)

lemma u64_of_int_simps [simp]: "u64_of_int (int n) = of_nat n" "u64_of_int (numeral m) = numeral m"
  "u64_of_int 1 = 1" "u64_of_int 0 = 0"
  by (simp_all add: u64_of_int_def)

text \<open>The configuration that sets the number of records, the number of operations and the request distribution only.\<close>

definition basic_config :: "nat \<Rightarrow> nat \<Rightarrow> string \<Rightarrow> Properties" where
  "basic_config n q d = SetProperty (SetProperty (SetProperty no_properties ''recordcount'' (to_string n)) ''operationcount'' (to_string q))
     ''requestdistribution'' d"

text \<open>The request distributions other than sequential.\<close>

definition key_dist :: "string \<Rightarrow> bool" where
  "key_dist d \<longleftrightarrow> d \<in> {''uniform'', ''zipfian'', ''latest''}"

lemma new_latest_ok:
  assumes "0 \<le> u0" and "u0 < 1" and "0 \<le> u1" and "u1 < 1" and "2 \<le> mx" and "mx < kMaxNumItems"
  shows "\<exists>g. new_SkewedLatestGenerator ndebug u0 u1 mx = Inr g \<and> zipf_inv (sl_zipfian g) \<and> zg_base (sl_zipfian g) = 0"
proof -
  have "\<exists>z. new_ZipfianGenerator3 ndebug u0 0 (mx - 1) kZipfianConst = Inr z \<and> zipf_ready z
      \<and> zg_base z = 0 \<and> zg_items z = (mx - 1) - 0 + 1"
    using new_Zipfian3_ready [of kZipfianConst "mx - 1" 0 u0 ndebug] assms
    by (auto simp: kZipfianConst_def word_less_nat_alt kMaxNumItems_val)
  then obtain z where z: "new_ZipfianGenerator1 ndebug u0 mx = Inr z" "zipf_inv z" "zg_base z = 0"
    by (auto simp: new_ZipfianGenerator1_def zipf_ready_def)
  let ?g = "\<lparr>sl_zipfian = z, sl_last = 0\<rparr>"
  have "zipf_inv (sl_zipfian ?g)" "zg_base (sl_zipfian ?g) = 0" using z by simp_all
  then obtain k g where "SkewedLatest_Next ndebug u1 mx ?g = Inr (k, g)" "zipf_inv (sl_zipfian g)" "zg_base (sl_zipfian g) = 0"
    by (rule SkewedLatest_Next_ok [OF _ _ assms(3-6), of _ ndebug]) blast
  with z(1) show ?thesis by (simp add: new_SkewedLatestGenerator_def)
qed

lemma settled_new:
  assumes "1 \<le> n" and "n < 2 ^ 63"
  shows "settled n (Some (new_AcknowledgedCounterGenerator (of_nat n)))"
  unfolding settled_def using ack_rel_new [OF assms(2)] assms(1)
  by (intro conjI exI [of _ "new_AcknowledgedCounterGenerator (of_nat n)"] exI [of _ n]) auto

lemma new_key_chooser_ok:
  assumes env: "env_ok env" and t: "tls_ok t" and d: "key_dist d" and n: "3 \<le> n" "n < unat kMaxNumItems"
    and p: "stoi (GetProperty p ''operationcount'' '''') = Inr q" "\<not> ContainsKey p ''zipfian_const''"
  shows "\<exists>g t'. new_key_chooser env p d (of_nat n) 0 (new_AcknowledgedCounterGenerator (of_nat n)) a b t = Inr (g, t')
     \<and> gen_ok (of_nat (n - 1)) g \<and> gen_below (of_nat (n - 1)) g \<and> tls_ok t'"
proof -
  have n63: "n < 2 ^ 63" using kMax_less [OF n(2)] by simp
  have last: "Acked_Last (new_AcknowledgedCounterGenerator (of_nat n)) = of_nat (n - 1)"
    using seq_at_last [OF settled_seq_at [OF settled_new]] n(1) n63 by simp
  have u: "unat (of_nat (n - 1) :: u64) = n - 1" using n63 by (intro unat_of_nat_u64) simp
  have b: "(of_nat n :: u64) - 1 = of_nat (n - 1)" "2 \<le> (of_nat (n - 1) :: u64)" "(of_nat (n - 1) :: u64) < kMaxNumItems"
    unfolding word_le_nat_alt word_less_nat_alt u using n by (auto simp: of_nat_diff)
  note d1 = draw_ok [OF env t]
  note d2 = draw_ok [OF env d1(3)]
  consider "d = ''uniform''" | "d = ''zipfian''" | "d = ''latest''" using d by (auto simp: key_dist_def)
  then show ?thesis
  proof cases
    case 1
    then show ?thesis using t b(1) by (simp add: new_key_chooser_def word_le_nat_alt)
  next
    case 2
    obtain g where g: "new_ScrambledZipfianGenerator3 (env_ndebug env) (fst (draw env t)) 0 (of_nat (n - 1)) kZipfianConst = Inr g"
      "zipf_ready (sz_generator g)" "sz_base g = 0" "sz_num_items g = of_nat (n - 1) - 0 + 1"
      using new_Scrambled_ready [OF d1(1,2), of kZipfianConst "env_ndebug env" 0 "of_nat (n - 1)"] by (auto simp: kZipfianConst_def)
    have fits: "(0 :: u64) \<le> of_nat (n - 1)" "unat (of_nat (n - 1) :: u64) + 1 < 2 ^ 64" unfolding u using n63 by simp_all
    note s = span_items [OF fits]
    have "gen_ok (of_nat (n - 1)) (GScrambled g)" "gen_below (of_nat (n - 1)) (GScrambled g)"
      using g(2) s unfolding gen_ok.simps gen_below.simps g(3,4) by (simp_all only: unat_0 simp_thms diff_zero order_refl)
    moreover have "new_ScrambledZipfianGenerator1 (env_ndebug env) (fst (draw env t)) (of_nat n) = Inr g"
      using g(1) by (simp only: new_ScrambledZipfianGenerator1_def b(1))
    ultimately show ?thesis using 2 p d1(3)
      by (simp add: new_key_chooser_def int_of_double_def int32_ok_def split_beta Let_def)
  next
    case 3
    obtain g where "new_SkewedLatestGenerator (env_ndebug env) (fst (draw env t)) (fst (draw env (snd (draw env t))))
        (of_nat (n - 1)) = Inr g" "zipf_inv (sl_zipfian g)" "zg_base (sl_zipfian g) = 0"
      using new_latest_ok [OF d1(1,2) d2(1,2) b(2,3)] by blast
    then show ?thesis using 3 b(2,3) d2(3)
      by (simp add: new_key_chooser_def last split_beta Let_def)
  qed
qed

text \<open>The configuration fixes the shape of the records.\<close>

definition std_rows :: "bool \<Rightarrow> 'e CoreWorkload \<Rightarrow> bool" where
  "std_rows wa w \<longleftrightarrow> wl_write_all_fields w = wa \<and> wl_read_all_fields w \<and> wl_field_count w = 10 \<and> wl_field_prefix w = ''field''
     \<and> const_len (wl_field_len_generator w) = Some 100 \<and> wl_insert_key_sequence w = Some (new_CounterGenerator 0)"

text \<open>The properties that are left at their defaults, and the ones that are given.\<close>

definition default_keys :: "string list" where
  "default_keys = [''table'', ''fieldcount'', ''fieldnameprefix'', ''field_len_dist'', ''fieldlength'', ''readproportion'', ''updateproportion'',
     ''insertproportion'', ''scanproportion'', ''readmodifywriteproportion'', ''readidxproportion'', ''minscanlength'', ''maxscanlength'',
     ''scanlengthdistribution'', ''insertstart'', ''minreadidx'', ''maxreadidx'', ''zeropadding'', ''readallfields'', ''insertorder'', ''zipfian_const'']"

definition given_props :: "bool \<Rightarrow> nat \<Rightarrow> nat \<Rightarrow> string \<Rightarrow> Properties \<Rightarrow> bool" where
  "given_props wa n q d p \<longleftrightarrow> (\<forall>key \<in> set default_keys. property_map p key = None)
     \<and> property_map p ''recordcount'' = Some (to_string n) \<and> property_map p ''operationcount'' = Some (to_string q)
     \<and> property_map p ''requestdistribution'' = Some d \<and> GetProperty p ''writeallfields'' ''false'' = (if wa then ''true'' else ''false'')"

lemma given_propsD:
  assumes "given_props wa n q d p"
  shows "GetProperty p ''recordcount'' v = to_string n" "GetProperty p ''requestdistribution'' v = d"
    "GetProperty p ''operationcount'' v = to_string q" "GetProperty p ''writeallfields'' ''false'' = (if wa then ''true'' else ''false'')"
    "key \<in> set default_keys \<Longrightarrow> GetProperty p key v = v" "\<not> ContainsKey p ''zipfian_const''"
  using assms by (auto simp: given_props_def GetProperty_def ContainsKey_def default_keys_def)

lemma Init_config:
  assumes env: "env_ok env" and t: "tls_ok t" and d: "key_dist d"
    and n: "3 \<le> n" "n < 2 ^ 31" and q: "q < 2 ^ 31" and k: "n + k < unat kMaxNumItems"
    and p: "given_props wa n q d p"
  shows "\<exists>wl t'. CoreWorkload_Init env p t (new_CoreWorkload x y) = Inr (wl, t')
     \<and> wl_ok k n wl \<and> tls_ok t' \<and> settled n (wl_transaction_insert_key_sequence wl) \<and> std_rows wa wl"
proof -
  note rc = given_propsD(1-4) [OF p] and other = given_propsD(5) [OF p] and const = given_propsD(6) [OF p]
  have "n < unat kMaxNumItems" using k by simp
  moreover have "stoi (GetProperty p ''operationcount'' '''') = Inr (int q)" using q by (simp add: rc stoi_to_string)
  ultimately obtain g t' where g: "new_key_chooser env p d (of_nat n) 0 (new_AcknowledgedCounterGenerator (of_nat n)) 0 1000000 t
      = Inr (g, t')" "gen_ok (of_nat (n - 1)) g" "gen_below (of_nat (n - 1)) g" "tls_ok t'"
    using new_key_chooser_ok [OF env t d n(1) _ _ const] by blast
  have ops: "ops_ok (add_if_pos (add_if_pos (add_if_pos (add_if_pos (add_if_pos (add_if_pos
      (new_DiscreteGenerator x) READ (95 / 100)) UPDATE (5 / 100)) INSERT 0) SCAN 0) READMODIFYWRITE 0) RDIDX 0)"
    by (simp add: ops_ok_def add_if_pos_def discrete_inv_AddValue discrete_inv_new) (simp add: new_DiscreteGenerator_def)
  have n63: "n < 2 ^ 63" "1 \<le> n" using n by auto
  note st = settled_new [OF n63(2,1)]
  have flag: "StrToBool (if wa then ''true'' else ''false'') = Inr wa" by (simp add: default_flags)
  show ?thesis
    unfolding CoreWorkload_Init_def GetFieldLenGenerator_def new_scan_len_chooser_def Let_def
    using g ops st settled_seq_at [OF st] k n
    by (simp add: rc other [unfolded default_keys_def] flag default_numbers default_proportions default_flags stoi_to_string new_CoreWorkload_def
        wl_ok_def static_ok_def key_ok_def std_rows_def new_ConstGenerator_def)
qed

lemma basic_config_given: "given_props False n q d (basic_config n q d)"
  by (simp add: given_props_def default_keys_def basic_config_def GetProperty_def SetProperty_def no_properties_def)

lemma Init_ok:
  assumes "env_ok env" and "tls_ok t" and "key_dist d"
    and "3 \<le> n" and "n < 2 ^ 31" and "q < 2 ^ 31" and "n + k < unat kMaxNumItems"
  shows "\<exists>wl t'. CoreWorkload_Init env (basic_config n q d) t (new_CoreWorkload x y) = Inr (wl, t')
     \<and> wl_ok k n wl \<and> tls_ok t' \<and> settled n (wl_transaction_insert_key_sequence wl)"
  using Init_config [OF assms basic_config_given, of x y] by blast

section \<open>The key loop of the sequential distribution\<close>

definition seq_ctx :: "SequentialGenerator \<Rightarrow> AcknowledgedCounterGenerator \<Rightarrow> ('e, 'd) ctx \<Rightarrow> bool" where
  "seq_ctx g a s \<longleftrightarrow> wl_key_chooser (cx_wl s) = Some (GSequential g)
     \<and> wl_transaction_insert_key_sequence (cx_wl s) = Some a \<and> seq_ok g (cx_tls s)"

lemma next_key_sequential:
  assumes "seq_ctx g a s"
  obtains v s' where "next_key env s = Some (Inr (v, s'))" and "seq_ctx g a s'"
    and "unat v = unat (sg_min g) + seq_index g (cx_tls s)"
    and "seq_index g (cx_tls s') = (seq_index g (cx_tls s) + 1) mod (unat (sg_max g) - unat (sg_min g))"
proof -
  have ok: "seq_ok g (cx_tls s)" using assms by (simp add: seq_ctx_def)
  obtain v t' where n: "SequentialGenerator_Next g (cx_tls s) = (v, t')" by (cases "SequentialGenerator_Next g (cx_tls s)")
  note st = seq_step [OF ok, unfolded n fst_conv snd_conv]
  have eq: "next_key env s = Some (Inr (v, s\<lparr>cx_wl := (cx_wl s)\<lparr>wl_key_chooser := Some (GSequential g)\<rparr>, cx_tls := t'\<rparr>))"
    using assms n by (simp add: next_key_def next_from_def seq_ctx_def)
  then show ?thesis by (rule that) (use assms st in \<open>simp_all add: seq_ctx_def\<close>)
qed

lemma seq_index_less: "seq_ok g t \<Longrightarrow> seq_index g t < unat (sg_max g) - unat (sg_min g)"
  by (auto simp: seq_ok_def seq_index_def word_le_nat_alt word_less_nat_alt)

text \<open>The loop step, when the invariant holds.\<close>

lemma NextTransactionKeyNum_sequential:
  assumes "seq_ctx g a s" and "next_key env s = Some (Inr (v, s'))" and "seq_ctx g a s'"
  shows "NextTransactionKeyNum env s = (if Acked_Last a < v then NextTransactionKeyNum env s' else Some (Inr (v, s')))"
  by (subst NextTransactionKeyNum.simps) (use assms in \<open>simp add: seq_ctx_def\<close>)

lemma sequential_loop_ends:
  assumes "seq_ctx g a s" and "sg_min g \<le> Acked_Last a"
  shows "yields (NextTransactionKeyNum env) s (\<lambda>m s'. m \<le> Acked_Last a \<and> seq_ctx g a s')"
  using assms(1)
proof (induction "unat (sg_max g) - unat (sg_min g) - seq_index g (cx_tls s)" arbitrary: s rule: less_induct)
  case less
  let ?w = "unat (sg_max g) - unat (sg_min g)" and ?i = "seq_index g (cx_tls s)"
  obtain v s' where n: "next_key env s = Some (Inr (v, s'))" "seq_ctx g a s'" "unat v = unat (sg_min g) + ?i"
    "seq_index g (cx_tls s') = (?i + 1) mod ?w"
    by (rule next_key_sequential [OF less.prems, of env]) blast
  note eq = NextTransactionKeyNum_sequential [OF less.prems n(1,2)]
  have i: "?i < ?w" using less.prems seq_index_less by (auto simp: seq_ctx_def)
  show ?case
  proof (cases "v \<le> Acked_Last a")
    case True
    then show ?thesis using eq n(2) by (simp add: yields_def leD)
  next
    case False
    then have go: "NextTransactionKeyNum env s = NextTransactionKeyNum env s'" using eq by (simp add: not_le)
    have rest: "yields (NextTransactionKeyNum env) s' (\<lambda>m s'. m \<le> Acked_Last a \<and> seq_ctx g a s')"
    proof (cases "?i + 1 = ?w")
      case True
      then have i0: "seq_index g (cx_tls s') = 0" using n(4) by simp
      obtain v2 s2 where n2: "next_key env s' = Some (Inr (v2, s2))" "seq_ctx g a s2" "unat v2 = unat (sg_min g)"
        using next_key_sequential [OF n(2), of env] i0 by (metis add_0_right)
      then have "v2 = sg_min g" by (simp add: word_unat_eq_iff)
      then have "NextTransactionKeyNum env s' = Some (Inr (v2, s2))"
        using NextTransactionKeyNum_sequential [OF n(2) n2(1,2)] assms(2) by (simp add: leD)
      with n2 \<open>v2 = sg_min g\<close> assms(2) show ?thesis by (simp add: yields_def)
    next
      case F: False
      then have "seq_index g (cx_tls s') = ?i + 1" using n(4) i by simp
      then show ?thesis using i by (intro less.hyps n(2)) simp
    qed
    then show ?thesis unfolding yields_def go .
  qed
qed

lemma sequential_loop_forever:
  assumes "Acked_Last a < sg_min g" and "seq_ctx g a s"
  shows "NextTransactionKeyNum env s = None"
proof (rule ccontr)
  assume "NextTransactionKeyNum env s \<noteq> None"
  then obtain y where y: "NextTransactionKeyNum env s = Some y" by auto
  have "\<not> seq_ctx g a s"
  proof (rule NextTransactionKeyNum.raw_induct [where P = "\<lambda>_ s _. \<not> seq_ctx g a s", OF _ y], rule notI)
    fix rec :: "'a env \<Rightarrow> ('a, 'b) ctx \<Rightarrow> (u64 \<times> ('a, 'b) ctx) res option" and env s y
    assume IH: "\<And>env s y. rec env s = Some y \<Longrightarrow> \<not> seq_ctx g a s" and c: "seq_ctx g a s"
      and body: "(case next_key env s of None \<Rightarrow> None | Some (Inl e) \<Rightarrow> Some (Inl e)
        | Some (Inr (key_num, s')) \<Rightarrow> (case wl_transaction_insert_key_sequence (cx_wl s') of
             None \<Rightarrow> Some (Inl (Undefined ''null generator''))
           | Some a \<Rightarrow> if key_num > Acked_Last a then rec env s' else Some (Inr (key_num, s')))) = Some y"
    obtain v s' where n: "next_key env s = Some (Inr (v, s'))" "seq_ctx g a s'" "unat v = unat (sg_min g) + seq_index g (cx_tls s)"
      by (rule next_key_sequential [OF c, of env]) blast
    have "Acked_Last a < v" using assms(1) n(3) by (simp add: word_less_nat_alt)
    then have "rec env s' = Some y" using body n(1,2) by (simp add: seq_ctx_def)
    from IH [OF this] n(2) show False by simp
  qed
  with assms(2) show False by simp
qed

section \<open>Properties\<close>

text \<open>C2: A transaction of the core workload, from any state in which the generators are sound and all inserts are acknowledged, on
  any database that serves the calls of the workload (each returns and keeps the invariant \<open>I\<close>): \<^verbatim>\<open>DoTransaction\<close> returns (no exception, no endless loop), having made exactly the calls of one
  of the configured operations. A read, scan or update uses the key name of a number that has been inserted; an insert uses the
  next number, and afterwards that number is acknowledged; a read-modify-write reads and updates the same key. The result is true
  exactly when the status of the last call is \<^verbatim>\<open>kOK\<close>. The state afterwards is again such a state.\<close>

theorem transaction_correct:
  assumes "env_ok env" and "db_serves db I (wl_call (cx_wl s))" and "I (cx_db s)"
    and "cx_ok (Suc k) n s" and "settled n (wl_transaction_insert_key_sequence (cx_wl s))"
  shows "\<exists>b s' op cs rs. DoTransaction env db s = Some (Inr (b, s'))
     \<and> op \<in> fst ` set (dg_values (wl_op_chooser (cx_wl s)))
     \<and> tx_trace (cx_wl s) n op cs \<and> db_calls db cs (cx_db s) = Inr (rs, cx_db s')
     \<and> b = (result_status (last rs) = kOK) \<and> I (cx_db s')
     \<and> (let n' = (if op = INSERT then Suc n else n) in cx_ok k n' s'
        \<and> settled n' (wl_transaction_insert_key_sequence (cx_wl s')))"
  using DoTransaction_ok [OF assms] unfolding yields_def tx_calls_def Let_def by blast

text \<open>C26: With the sequential request distribution, the loop of \<^verbatim>\<open>NextTransactionKeyNum\<close> returns exactly when the first index of the
  configured range does not exceed the last acknowledged key: in that case it returns such a key from every position of the
  thread's counter, and otherwise it never returns.\<close>

theorem sequential_key_loop:
  assumes "seq_ctx g a s"
  shows "if sg_min g \<le> Acked_Last a
     then \<exists>m s'. NextTransactionKeyNum env s = Some (Inr (m, s')) \<and> m \<le> Acked_Last a
     else NextTransactionKeyNum env s = None"
  using sequential_loop_ends [OF assms, of env] sequential_loop_forever [OF _ assms, of env]
  by (auto simp: yields_def not_le)

text \<open>C33: Key names in insertion order: with ordered inserts and a zero padding of at least 20 (the default), the key names compare
  as strings exactly as the 64-bit key numbers compare, so a range scan of the database visits the records in numeric order.\<close>

theorem key_names_in_order:
  assumes "wl_ordered_inserts wl" and "20 \<le> wl_zero_padding wl"
  shows "BuildKeyName wl m < BuildKeyName wl n \<longleftrightarrow> m < n"
  using assms by (rule BuildKeyName_order)

text \<open>Key names are unambiguous for every padding, short or negative paddings included: two key numbers have the same name
  exactly when they are equal (ordered inserts) or have the same hash (hashed inserts).\<close>

theorem key_names_injective:
  "BuildKeyName wl m = BuildKeyName wl n \<longleftrightarrow> (if wl_ordered_inserts wl then m = n else FNVHash64 m = FNVHash64 n)"
  by (simp add: BuildKeyName_inject Hash_def)

text \<open>C22: \<^verbatim>\<open>Init\<close> on a configuration that sets only the number of records (from 3 on), the number of operations and one of the request
  distributions uniform, zipfian and latest succeeds: no parse error, no exception, no undefined behaviour of a generator. It leaves the workload in a state where
  every transaction is correct, with the records \<open>0 .. n-1\<close> as the keys to choose from.\<close>

theorem init_establishes_invariant:
  assumes "env_ok env" and "tls_ok t" and "key_dist d" and "3 \<le> n" and "n < 2 ^ 31" and "q < 2 ^ 31"
    and "n + k < unat kMaxNumItems"
  shows "\<exists>wl t'. CoreWorkload_Init env (basic_config n q d) t (new_CoreWorkload x y) = Inr (wl, t')
     \<and> cx_ok k n \<lparr>cx_wl = wl, cx_tls = t', cx_db = db\<rparr> \<and> settled n (wl_transaction_insert_key_sequence wl)"
  using Init_ok [OF assms] by (simp add: cx_ok_def)

text \<open>The operation \<^verbatim>\<open>RDIDX\<close>, which the configuration key \<^verbatim>\<open>readidxproportion\<close> enables, has no effect and no result: whenever the
  operation chooser picks it, \<^verbatim>\<open>DoTransaction\<close> makes no call on the database and reads an uninitialised status.\<close>

theorem readidx_transaction_undefined:
  assumes "next_op env s = Some (Inr (RDIDX, s'))"
  shows "DoTransaction env db s = Some (Inl (Undefined ''status is uninitialised''))"
  using assms by (simp add: DoTransaction_def)

section \<open>Witnesses\<close>

text \<open>A concrete environment, thread and database.\<close>

definition demo_env :: "unit env" where
  "demo_env = \<lparr>env_ndebug = True, env_canon = (\<lambda>x. (1 / 2, minstd_next x)), env_udist = (\<lambda>a b e. (b, e)), env_mt0 = ()\<rparr>"

definition demo_tls :: tls where
  "demo_tls = \<lparr>rn_int = 1, rn_double = 1, uniform_bounds = None, seq_counter = 0\<rparr>"

text \<open>A database that keeps the list of the keys it was called with.\<close>

definition key_log :: "string list DB" where
  "key_log = \<lparr>db_Init = (\<lambda>d. Inr ((), d)), db_Cleanup = (\<lambda>d. Inr ((), d)),
     db_Read = (\<lambda>t k f d. Inr ((kOK, []), d @ [k])), db_Scan = (\<lambda>t k n f d. Inr ((kOK, []), d @ [k])),
     db_Update = (\<lambda>t k v d. Inr (kOK, d @ [k])), db_Insert = (\<lambda>t k v d. Inr (kOK, d @ [k])),
     db_Delete = (\<lambda>t k d. Inr (kOK, d @ [k])), db_ReadIdx = (\<lambda>i d. Inr ((kOK, []), d)),
     db_ReInitBeforeTransaction = False, db_SetProps = (\<lambda>p d. d)\<rparr>"

lemma demo_env_ok: "env_ok demo_env" and demo_tls_ok: "tls_ok demo_tls" and key_log_total: "db_total key_log"
proof -
  show "env_ok demo_env" by (simp add: env_ok_def demo_env_def canon_ok_def udist_ok_def)
  show "tls_ok demo_tls" by (simp add: tls_ok_def demo_tls_def)
  have "\<exists>r d'. db_call key_log c d = Inr (r, d')" for c d by (cases c) (simp_all add: key_log_def)
  then show "db_total key_log" by (simp add: db_total_def)
qed

theorem init_establishes_invariant_witness:
  "\<exists>wl t'. CoreWorkload_Init demo_env (basic_config 1000 100 ''zipfian'') demo_tls (new_CoreWorkload READ 0) = Inr (wl, t')
     \<and> cx_ok 5 1000 \<lparr>cx_wl = wl, cx_tls = t', cx_db = ()\<rparr> \<and> settled 1000 (wl_transaction_insert_key_sequence wl)"
  by (rule init_establishes_invariant [OF demo_env_ok demo_tls_ok]) (simp_all add: key_dist_def kMaxNumItems_def drop_bit_eq_div)

theorem transaction_correct_witness:
  "\<exists>wl t' b s'. CoreWorkload_Init demo_env (basic_config 1000 100 ''uniform'') demo_tls (new_CoreWorkload READ 0) = Inr (wl, t')
     \<and> DoTransaction demo_env key_log \<lparr>cx_wl = wl, cx_tls = t', cx_db = []\<rparr> = Some (Inr (b, s'))"
proof -
  have "\<exists>wl t'. CoreWorkload_Init demo_env (basic_config 1000 100 ''uniform'') demo_tls (new_CoreWorkload READ 0) = Inr (wl, t')
     \<and> wl_ok (Suc 5) 1000 wl \<and> tls_ok t' \<and> settled 1000 (wl_transaction_insert_key_sequence wl)"
    by (rule Init_ok [OF demo_env_ok demo_tls_ok]) (simp_all add: key_dist_def kMaxNumItems_def drop_bit_eq_div)
  then obtain wl t' where i: "CoreWorkload_Init demo_env (basic_config 1000 100 ''uniform'') demo_tls (new_CoreWorkload READ 0) = Inr (wl, t')"
    and ok: "cx_ok (Suc 5) 1000 \<lparr>cx_wl = wl, cx_tls = t', cx_db = [] :: string list\<rparr>"
      "settled 1000 (wl_transaction_insert_key_sequence (cx_wl \<lparr>cx_wl = wl, cx_tls = t', cx_db = [] :: string list\<rparr>))"
    by (auto simp: cx_ok_def)
  from transaction_correct [OF demo_env_ok db_total_serves [OF key_log_total] TrueI ok] i show ?thesis by blast
qed

definition demo_seq :: "u64 \<Rightarrow> (unit, unit) ctx" where
  "demo_seq l = \<lparr>cx_wl = (new_CoreWorkload READ 20)\<lparr>wl_key_chooser := Some (GSequential \<lparr>sg_min = 5, sg_max = 8\<rparr>),
     wl_transaction_insert_key_sequence := Some (new_AcknowledgedCounterGenerator (l + 1))\<rparr>, cx_tls = demo_tls, cx_db = ()\<rparr>"

theorem sequential_key_loop_witness:
  "(\<exists>m s'. NextTransactionKeyNum demo_env (demo_seq 6) = Some (Inr (m, s')) \<and> m \<le> 6)
   \<and> NextTransactionKeyNum demo_env (demo_seq 3) = None"
proof -
  have ctx: "seq_ctx \<lparr>sg_min = 5, sg_max = 8\<rparr> (new_AcknowledgedCounterGenerator (l + 1)) (demo_seq l)" for l
    by (simp add: seq_ctx_def demo_seq_def demo_tls_def seq_ok_def)
  have last: "Acked_Last (new_AcknowledgedCounterGenerator (l + 1)) = l" for l
    by (simp add: Acked_Last_def new_AcknowledgedCounterGenerator_def)
  from sequential_key_loop [OF ctx [of 6], of demo_env] sequential_key_loop [OF ctx [of 3], of demo_env]
  show ?thesis unfolding last by simp
qed

theorem key_names_in_order_witness:
  "BuildKeyName ((new_CoreWorkload READ 20 :: unit CoreWorkload)\<lparr>wl_ordered_inserts := True\<rparr>) 9
     < BuildKeyName ((new_CoreWorkload READ 20 :: unit CoreWorkload)\<lparr>wl_ordered_inserts := True\<rparr>) 10"
  by (subst key_names_in_order) (simp_all add: new_CoreWorkload_def)

theorem readidx_transaction_undefined_witness:
  "DoTransaction demo_env key_log \<lparr>cx_wl = (new_CoreWorkload READ 20)\<lparr>wl_op_chooser :=
       DiscreteGenerator_AddValue (new_DiscreteGenerator READ) RDIDX 1\<rparr>, cx_tls = demo_tls, cx_db = []\<rparr>
     = Some (Inl (Undefined ''status is uninitialised''))"
  by (rule readidx_transaction_undefined)
    (simp add: next_op_def draw_def ThreadLocalRandomDouble_def demo_tls_def demo_env_def DiscreteGenerator_Next_def
      DiscreteGenerator_AddValue_def new_DiscreteGenerator_def new_CoreWorkload_def)

end
