(* ===== verification/Workload_Variants.thy ===== *)
theory Workload_Variants
  imports Workload_Props
begin

text \<open>
  The workload classes behind the virtual functions of \<^verbatim>\<open>CoreWorkload\<close> and their registry:
  \<^verbatim>\<open>checking_workload.h/.cc\<close>, \<^verbatim>\<open>pure_insert_workload.h/.cc\<close>, \<^verbatim>\<open>tracepeek.h/.cc\<close> and \<^verbatim>\<open>workload_factory.h/.cc\<close>.
  A class is a record of its virtual functions over a state \<open>'s\<close> and a per-thread state \<open>'t\<close>.
\<close>

section \<open>The virtual functions of a workload\<close>

record ('s, 't) WorkloadOps =
  w_InitThread :: "Properties \<Rightarrow> int \<Rightarrow> int \<Rightarrow> int \<Rightarrow> ('s, 't) eff"
  w_DoInsert :: "'t \<Rightarrow> ('s, bool \<times> 't) eff"
  w_DoTransaction :: "'t \<Rightarrow> ('s, bool \<times> 't) eff"

text \<open>\<^verbatim>\<open>CoreWorkload\<close>: its thread state has no members.\<close>

definition CoreWorkloadOps :: "'e env \<Rightarrow> 'd DB \<Rightarrow> (('e, 'd) ctx, unit) WorkloadOps" where
  "CoreWorkloadOps env db =
     \<lparr>w_InitThread = (\<lambda>p mythreadid threadcount num_ops. ret ()),
      w_DoInsert = (\<lambda>state. bind (DoInsert env db) (\<lambda>b. ret (b, state))),
      w_DoTransaction = (\<lambda>state. bind (DoTransaction env db) (\<lambda>b. ret (b, state)))\<rparr>"

section \<open>Checking workload\<close>

record ('e, 'd) check_ctx = "('e, 'd) ctx" +
  ck_stop_at :: int
  ck_tx_count :: int
  ck_correct_count :: int

text \<open>Run an effect of the base class on the base part of the state.\<close>

definition on_base :: "(('e, 'd) ctx, 'a) eff \<Rightarrow> (('e, 'd) check_ctx, 'a) eff" where
  "on_base m s =
     (case m (ctx.truncate s) of
        None \<Rightarrow> None
      | Some (Inl e) \<Rightarrow> Some (Inl e)
      | Some (Inr (x, b)) \<Rightarrow> Some (Inr (x, s\<lparr>cx_wl := cx_wl b, cx_tls := cx_tls b, cx_db := cx_db b\<rparr>)))"

definition Checking_Init ::
    "'e env \<Rightarrow> Properties \<Rightarrow> tls \<Rightarrow> 'e CoreWorkload \<Rightarrow> ('e CoreWorkload \<times> int \<times> tls) res" where
  "Checking_Init env p t wl =
     andThen (CoreWorkload_Init env p t wl) (\<lambda>(wl, t).
     andThen (stoi (GetProperty p ''checkingcount'' ''1000'')) (\<lambda>stop_at.
     Inr (wl, stop_at, t)))"

text \<open>\<^verbatim>\<open>tx_count_.fetch_add(1) == stop_at_\<close>: the comparison is with the value before the increment.\<close>

definition Checking_DoInsert :: "'e env \<Rightarrow> 'd DB \<Rightarrow> (('e, 'd) check_ctx, bool) eff" where
  "Checking_DoInsert env db =
     bind (on_base (DoInsert env db)) (\<lambda>b.
     bind (lift (\<lambda>s. Inr (ck_tx_count s, s\<lparr>ck_tx_count := ck_tx_count s + 1\<rparr>))) (\<lambda>old.
     bind (reads ck_stop_at) (\<lambda>stop_at.
     if old = stop_at then raise (Exit 1) else ret b)))"

definition Checking_DoTransaction :: "'e env \<Rightarrow> 'd DB \<Rightarrow> (('e, 'd) check_ctx, bool) eff" where
  "Checking_DoTransaction env db =
     bind (on_base next_insert_key) (\<lambda>n.
     bind (on_base (key_name n)) (\<lambda>key.
     bind (on_base (build_read env)) (\<lambda>flds.
     bind (on_base table_of) (\<lambda>table.
     bind (on_base (on_db (db_Read db table key flds))) (\<lambda>(st, result).
     if st = kOK
     then bind (lift (\<lambda>s. Inr ((), s\<lparr>ck_correct_count := ck_correct_count s + 1\<rparr>))) (\<lambda>_. ret True)
     else ret False)))))"

section \<open>Pure-insert workload\<close>

text \<open>The constants of \<^verbatim>\<open>InsertThreadState\<close>: a record is \<^verbatim>\<open>I user21424693888996579940\n\<close>.\<close>

definition RECORD_LENGTH :: nat where
  "RECORD_LENGTH = 27"

definition KEY_LENGTH :: nat where
  "KEY_LENGTH = 24"

definition KEY_OFFSET :: nat where
  "KEY_OFFSET = 2"

record InsertThreadState =
  it_workloads :: "string list"
  it_cur_workload :: string
  it_workload_i :: nat
  it_len :: nat
  it_offset :: nat

text \<open>
  The loop of the constructor; \<open>fs\<close> gives the contents of a workload file. A file that cannot be
  opened is reported and then mapped with an invalid descriptor: \<open>Undefined\<close> here. Each file overwrites
  \<^verbatim>\<open>len\<close>. With \<open>RECORD_LENGTH\<close> bytes or more per file the loop ends; the fuel is the number of
  operations still to be loaded, and a file too short to hold a record uses up none of them, so the
  code would go on to the next file for ever if all files were empty: \<open>None\<close> when the fuel is out.
\<close>

fun load_workloads ::
    "(string \<Rightarrow> string option) \<Rightarrow> string \<Rightarrow> int \<Rightarrow> int \<Rightarrow> nat \<Rightarrow> int \<Rightarrow> int \<Rightarrow> int \<Rightarrow> string list \<Rightarrow> nat
     \<Rightarrow> (string list \<times> nat) res option" where
  "load_workloads fs path mythreadid threadcount fuel i loaded_ops num_ops ws len =
     (if \<not> loaded_ops < num_ops then Some (Inr (ws, len))
      else case fuel of
        0 \<Rightarrow> None
      | Suc fuel' \<Rightarrow>
          (let name = ''run.w.'' @ (if i * threadcount + mythreadid + 1 < 0 then ''-'' else '''')
                        @ to_string (nat \<bar>i * threadcount + mythreadid + 1\<bar>)
           in case fs (path @ ''/'' @ name) of
                None \<Rightarrow> Some (Inl (Undefined ''unable to read file''))
              | Some content \<Rightarrow>
                  load_workloads fs path mythreadid threadcount fuel' (i + 1)
                    (loaded_ops + int (length content div RECORD_LENGTH)) num_ops (ws @ [content]) (length content)))"

declare load_workloads.simps [simp del]

definition new_InsertThreadState ::
    "(string \<Rightarrow> string option) \<Rightarrow> Properties \<Rightarrow> nat \<Rightarrow> int \<Rightarrow> int \<Rightarrow> int \<Rightarrow> InsertThreadState res option" where
  "new_InsertThreadState fs p fuel mythreadid threadcount num_ops =
     (case load_workloads fs (GetProperty p ''workloadpath'' ''.'') mythreadid threadcount fuel 0 0 num_ops [] 0 of
        None \<Rightarrow> None
      | Some (Inl e) \<Rightarrow> Some (Inl e)
      | Some (Inr (ws, len)) \<Rightarrow>
          (case ws of
             [] \<Rightarrow> Some (Inl (Undefined ''workloads[0] of an empty vector''))
           | w # _ \<Rightarrow> Some (Inr \<lparr>it_workloads = ws, it_cur_workload = w, it_workload_i = 0, it_len = len, it_offset = 0\<rparr>)))"

definition HasNextKey :: "InsertThreadState \<Rightarrow> bool" where
  "HasNextKey st \<longleftrightarrow> it_offset st + RECORD_LENGTH \<le> it_len st"

text \<open>Reading past the vector or past the mapped file is undefined.\<close>

definition GetNextKey :: "InsertThreadState \<Rightarrow> (string \<times> InsertThreadState) res" where
  "GetNextKey st =
     andThen (if \<not> HasNextKey st then
                (let i = it_workload_i st + 1 in
                 if i < length (it_workloads st)
                 then Inr (st\<lparr>it_workload_i := i, it_cur_workload := it_workloads st ! i, it_offset := 0\<rparr>)
                 else Inl (Undefined ''workloads index''))
              else Inr st) (\<lambda>st.
     if it_offset st + KEY_OFFSET + KEY_LENGTH \<le> length (it_cur_workload st)
     then Inr (take KEY_LENGTH (drop (it_offset st + KEY_OFFSET) (it_cur_workload st)),
               st\<lparr>it_offset := it_offset st + RECORD_LENGTH\<rparr>)
     else Inl (Undefined ''read past the mapping''))"

definition PureInsert_Init ::
    "'e env \<Rightarrow> Properties \<Rightarrow> tls \<Rightarrow> 'e CoreWorkload \<Rightarrow> ('e CoreWorkload \<times> int \<times> tls) res" where
  "PureInsert_Init env p t wl =
     andThen (CoreWorkload_Init env p t wl) (\<lambda>(wl, t).
     andThen (stoi (GetProperty p ''valuelength'' ''100'')) (\<lambda>value_len.
     Inr (wl, value_len, t)))"

definition PureInsert_DoInsert ::
    "int \<Rightarrow> 'd DB \<Rightarrow> InsertThreadState \<Rightarrow> (('e, 'd) ctx, bool \<times> InsertThreadState) eff" where
  "PureInsert_DoInsert value_len db state =
     bind (lift_res (GetNextKey state)) (\<lambda>(key, state).
     bind (BuildSingleValueOfLen value_len) (\<lambda>value.
     bind table_of (\<lambda>table.
     bind (on_db (db_Insert db table key value)) (\<lambda>st.
     ret (st = kOK, state)))))"

definition PureInsertOps ::
    "(string \<Rightarrow> string option) \<Rightarrow> nat \<Rightarrow> int \<Rightarrow> 'd DB \<Rightarrow> (('e, 'd) ctx, InsertThreadState) WorkloadOps" where
  "PureInsertOps fs fuel value_len db =
     \<lparr>w_InitThread = (\<lambda>p mythreadid threadcount num_ops s.
        map_option (map_sum id (\<lambda>st. (st, s))) (new_InsertThreadState fs p fuel mythreadid threadcount num_ops)),
      w_DoInsert = PureInsert_DoInsert value_len db,
      w_DoTransaction = PureInsert_DoInsert value_len db\<rparr>"

section \<open>Workload factory\<close>

type_synonym 'w wl_registry = "string \<rightharpoonup> 'w"

definition RegisterWorkload :: "'w wl_registry \<Rightarrow> string \<Rightarrow> 'w \<Rightarrow> 'w wl_registry" where
  "RegisterWorkload registry nm creator = registry(nm \<mapsto> creator)"

definition CreateWorkload :: "'w wl_registry \<Rightarrow> Properties \<Rightarrow> 'w option" where
  "CreateWorkload registry p =
     registry (GetProperty p ''workload'' ''com.yahoo.ycsb.workloads.CoreWorkload'')"

interpretation wl_registry: keyed_table "Map.empty :: 'w wl_registry" RegisterWorkload "\<lambda>r. r"
  by unfold_locales (simp_all add: RegisterWorkload_def)

section \<open>Reading the keys of the workload files\<close>

definition render_record :: "string \<Rightarrow> string" where
  "render_record key = ''I '' @ key @ [CHR 0x0A]"

definition render_keys :: "string list \<Rightarrow> string" where
  "render_keys ks = concat (map render_record ks)"

fun next_keys :: "nat \<Rightarrow> InsertThreadState \<Rightarrow> (string list \<times> InsertThreadState) res" where
  "next_keys 0 st = Inr ([], st)"
| "next_keys (Suc n) st =
     andThen (GetNextKey st) (\<lambda>(k, st). andThen (next_keys n st) (\<lambda>(ks, st). Inr (k # ks, st)))"

lemma length_render_keys: "\<forall>k \<in> set ks. length k = 24 \<Longrightarrow> length (render_keys ks) = 27 * length ks"
  by (induction ks) (auto simp: render_keys_def render_record_def)

lemma length_render_record: "length (render_record k) = length k + 3"
  by (simp add: render_record_def)

lemma drop_render_keys:
  "\<forall>k \<in> set ks. length k = 24 \<Longrightarrow> drop (27 * j) (render_keys ks) = render_keys (drop j ks)"
proof (induction ks arbitrary: j)
  case (Cons k ks)
  show ?case
  proof (cases j)
    case (Suc i)
    have "drop (27 * Suc i) (render_record k @ render_keys ks) = drop (27 * i) (render_keys ks)"
      using Cons.prems by (simp add: length_render_record)
    then show ?thesis using Cons Suc by (simp add: render_keys_def)
  qed simp
qed (simp add: render_keys_def)

lemma key_at:
  assumes "\<forall>k \<in> set ks. length k = 24" and "j < length ks"
  shows "take 24 (drop (27 * j + 2) (render_keys ks)) = ks ! j" and "27 * j + 26 \<le> length (render_keys ks)"
proof -
  have "drop (27 * j + 2) (render_keys ks) = drop 2 (drop (27 * j) (render_keys ks))" by (simp add: add.commute)
  also have "\<dots> = drop 2 (render_keys (ks ! j # drop (Suc j) ks))"
    using drop_render_keys [OF assms(1), of j] assms(2) by (simp add: Cons_nth_drop_Suc)
  finally show "take 24 (drop (27 * j + 2) (render_keys ks)) = ks ! j"
    using assms by (simp add: render_keys_def render_record_def)
  show "27 * j + 26 \<le> length (render_keys ks)"
    using length_render_keys [OF assms(1)] assms(2) by simp
qed

text \<open>The state after the files \<open>0 .. i-1\<close> and \<open>j\<close> keys of file \<open>i\<close>, when all files have \<open>m\<close> records.\<close>

definition at_key :: "string list list \<Rightarrow> nat \<Rightarrow> nat \<Rightarrow> nat \<Rightarrow> InsertThreadState" where
  "at_key kss m i j = \<lparr>it_workloads = map render_keys kss, it_cur_workload = render_keys (kss ! i),
     it_workload_i = i, it_len = 27 * m, it_offset = 27 * j\<rparr>"

lemma GetNextKey_at:
  assumes keys: "\<forall>ks \<in> set kss. length ks = m \<and> (\<forall>k \<in> set ks. length k = 24)" and i: "i < length kss"
  shows "j < m \<Longrightarrow> GetNextKey (at_key kss m i j) = Inr (kss ! i ! j, at_key kss m i (Suc j))"
    and "0 < m \<Longrightarrow> Suc i < length kss \<Longrightarrow> GetNextKey (at_key kss m i m) = Inr (kss ! Suc i ! 0, at_key kss m (Suc i) 1)"
proof -
  have k: "length (kss ! l) = m" "\<forall>k \<in> set (kss ! l). length k = 24" if "l < length kss" for l
    using keys that by auto
  show "GetNextKey (at_key kss m i j) = Inr (kss ! i ! j, at_key kss m i (Suc j))" if "j < m"
    using key_at [OF k(2) [OF i], of j] k(1) [OF i] that
    by (simp add: GetNextKey_def HasNextKey_def at_key_def RECORD_LENGTH_def KEY_OFFSET_def KEY_LENGTH_def)
  show "GetNextKey (at_key kss m i m) = Inr (kss ! Suc i ! 0, at_key kss m (Suc i) 1)" if "0 < m" "Suc i < length kss"
    using key_at [OF k(2) [OF that(2)], of 0] k(1) [OF that(2)] that
    by (simp add: GetNextKey_def HasNextKey_def at_key_def RECORD_LENGTH_def KEY_OFFSET_def KEY_LENGTH_def)
qed

lemma next_keys_at:
  assumes keys: "\<forall>ks \<in> set kss. length ks = m \<and> (\<forall>k \<in> set ks. length k = 24)" and "0 < m"
    and "i < length kss" and "j \<le> m" and "n = (m - j) + m * (length kss - Suc i)"
  shows "\<exists>st. next_keys n (at_key kss m i j) = Inr (drop j (kss ! i) @ concat (drop (Suc i) kss), st)"
  using assms(3-5)
proof (induction n arbitrary: i j)
  case 0
  have z: "m - j = 0" "m * (length kss - Suc i) = 0"
    using "0.prems"(3) by (metis add_is_0)+
  then have "length kss \<le> Suc i" using assms(2) by simp
  then show ?case using "0.prems"(1,2) z(1) keys by auto
next
  case (Suc n)
  have len: "length (kss ! l) = m" if "l < length kss" for l using keys that by auto
  show ?case
  proof (cases "j < m")
    case True
    have "\<exists>st. next_keys n (at_key kss m i (Suc j)) = Inr (drop (Suc j) (kss ! i) @ concat (drop (Suc i) kss), st)"
      using Suc.prems True by (intro Suc.IH) auto
    then show ?thesis
      using GetNextKey_at(1) [OF keys Suc.prems(1) True] True len [OF Suc.prems(1)]
      by (auto simp: Cons_nth_drop_Suc [symmetric])
  next
    case False
    then have j: "j = m" using Suc.prems by simp
    then have "m * (length kss - Suc i) \<noteq> 0" using Suc.prems(3) by (metis add_0 diff_self_eq_0 nat.distinct(1))
    then have i: "Suc i < length kss" by simp
    have "\<exists>st. next_keys n (at_key kss m (Suc i) 1) = Inr (drop 1 (kss ! Suc i) @ concat (drop (Suc (Suc i)) kss), st)"
    proof (rule Suc.IH)
      have "length kss - Suc i = Suc (length kss - Suc (Suc i))" using i by simp
      then show "n = m - 1 + m * (length kss - Suc (Suc i))" using Suc.prems(3) j assms(2) by (simp add: algebra_simps)
    qed (use i assms(2) in auto)
    moreover have "concat (drop (Suc i) kss) = kss ! Suc i ! 0 # drop 1 (kss ! Suc i) @ concat (drop (Suc (Suc i)) kss)"
    proof -
      have "kss ! Suc i = kss ! Suc i ! 0 # drop 1 (kss ! Suc i)"
        using len [OF i] assms(2) Cons_nth_drop_Suc [of 0 "kss ! Suc i"] by simp
      then show ?thesis using Cons_nth_drop_Suc [OF i] by (metis append_Cons concat.simps(2))
    qed
    ultimately show ?thesis
      using GetNextKey_at(2) [OF keys Suc.prems(1) assms(2) i] j len [OF Suc.prems(1)] by auto
  qed
qed

section \<open>Trace workload (tracepeek.h, tracepeek.cc)\<close>

text \<open>The file that a thread writes its trace to: its name and its content.\<close>

record PeekThreadState =
  pk_name :: string
  pk_trace :: string

definition new_PeekThreadState :: "nat \<Rightarrow> PeekThreadState" where
  "new_PeekThreadState mythreadid = \<lparr>pk_name = ''th'' @ to_string mythreadid @ ''.keys'', pk_trace = []\<rparr>"

definition Peek_DoTransaction :: "'e env \<Rightarrow> PeekThreadState \<Rightarrow> (('e, 'd) ctx, bool \<times> PeekThreadState) eff" where
  "Peek_DoTransaction env state =
     bind (NextTransactionKeyNum env) (\<lambda>key_num.
     bind (next_op env) (\<lambda>op.
     ret (True, state\<lparr>pk_trace := pk_trace state @ kOperationString op @ '' '' @ to_string (unat key_num) @ [CHR 0x0A]\<rparr>)))"

definition PeekOps :: "'e env \<Rightarrow> 'd DB \<Rightarrow> (('e, 'd) ctx, PeekThreadState) WorkloadOps" where
  "PeekOps env db =
     \<lparr>w_InitThread = (\<lambda>p mythreadid threadcount num_ops. ret (new_PeekThreadState (nat mythreadid))),
      w_DoInsert = (\<lambda>state. bind (DoInsert env db) (\<lambda>b. ret (b, state))),
      w_DoTransaction = Peek_DoTransaction env\<rparr>"

text \<open>The transactions of a thread, and the lines they write.\<close>

fun peek_run :: "'e env \<Rightarrow> nat \<Rightarrow> PeekThreadState \<Rightarrow> (('e, 'd) ctx, PeekThreadState) eff" where
  "peek_run env 0 state = ret state"
| "peek_run env (Suc m) state = bind (Peek_DoTransaction env state) (\<lambda>(ok, state). peek_run env m state)"

definition trace_line :: "Operation \<times> nat \<Rightarrow> string" where
  "trace_line l = kOperationString (fst l) @ '' '' @ to_string (snd l) @ [CHR 0x0A]"

lemma peek_step:
  assumes "env_ok env" and "cx_ok k n s"
  obtains m op s' where "Peek_DoTransaction env st s = Some (Inr ((True, st\<lparr>pk_trace := pk_trace st @ trace_line (op, m)\<rparr>), s'))"
    "quiet k n s s'" "m < n \<or> m = 0"
proof -
  obtain m s1 where m: "NextTransactionKeyNum env s = Some (Inr (m, s1))" "quiet k n s s1" "m \<le> of_nat (n - 1)" by (rule key_step [OF assms])
  from next_op_ok [OF assms(1) quiet_ok [OF m(2)]] obtain op s2 where op: "next_op env s1 = Some (Inr (op, s2))" "quiet k n s1 s2"
    by (auto simp: yields_def)
  have "n < unat kMaxNumItems" using assms(2) by (simp add: cx_ok_def wl_ok_def)
  then have "n - 1 < 2 ^ 64" using unat_u64_bound [of kMaxNumItems] by linarith
  then have "unat m \<le> n - 1" using m(3) by (simp add: word_le_nat_alt unat_of_nat)
  then have "unat m < n \<or> unat m = 0" by linarith
  moreover have "Peek_DoTransaction env st s = Some (Inr ((True, st\<lparr>pk_trace := pk_trace st @ trace_line (op, unat m)\<rparr>), s2))"
    using m(1) op(1) by (simp add: Peek_DoTransaction_def trace_line_def)
  ultimately show thesis using that quiet_trans [OF m(2) op(2)] by blast
qed

lemma peek_run_lines:
  assumes "env_ok env" and "cx_ok k n s"
  shows "\<exists>ls s'. peek_run env m st s = Some (Inr (st\<lparr>pk_trace := pk_trace st @ concat (map trace_line ls)\<rparr>, s'))
     \<and> length ls = m \<and> (\<forall>l \<in> set ls. snd l < n \<or> snd l = 0) \<and> cx_db s' = cx_db s"
  using assms(2)
proof (induction m arbitrary: st s)
  case 0
  then show ?case by (intro exI [of _ "[]"]) simp
next
  case (Suc m)
  obtain k' op s1 where s1: "Peek_DoTransaction env st s = Some (Inr ((True, st\<lparr>pk_trace := pk_trace st @ trace_line (op, k')\<rparr>), s1))"
    "quiet k n s s1" "k' < n \<or> k' = 0" by (rule peek_step [OF assms(1) Suc.prems])
  from Suc.IH [OF quiet_ok [OF s1(2)], of "st\<lparr>pk_trace := pk_trace st @ trace_line (op, k')\<rparr>"] obtain ls s' where
    ls: "peek_run env m (st\<lparr>pk_trace := pk_trace st @ trace_line (op, k')\<rparr>) s1 =
      Some (Inr (st\<lparr>pk_trace := pk_trace st @ trace_line (op, k') @ concat (map trace_line ls)\<rparr>, s'))"
    "length ls = m" "\<forall>l \<in> set ls. snd l < n \<or> snd l = 0" "cx_db s' = cx_db s1" by auto
  then show ?case using s1 quietD(2) [OF s1(2)] by (intro exI [of _ "(op, k') # ls"] exI [of _ s']) simp
qed

section \<open>Properties\<close>

text \<open>The pure-insert workload inserts the keys of its trace files, in order and without loss: when all files of a thread hold
  the same number of records, reading as many keys as they hold returns the keys of the first file, then those of the second,
  and so on.\<close>

theorem pure_insert_reads_all_keys:
  assumes "\<forall>ks \<in> set kss. length ks = m \<and> (\<forall>k \<in> set ks. length k = KEY_LENGTH)" and "0 < m" and "kss \<noteq> []"
  shows "\<exists>st. next_keys (m * length kss) \<lparr>it_workloads = map render_keys kss, it_cur_workload = render_keys (hd kss),
       it_workload_i = 0, it_len = RECORD_LENGTH * m, it_offset = 0\<rparr> = Inr (concat kss, st)"
proof -
  obtain ks kss' where k: "kss = ks # kss'" using assms(3) by (cases kss) auto
  have keys: "\<forall>ks \<in> set kss. length ks = m \<and> (\<forall>k \<in> set ks. length k = 24)" using assms(1) by (simp add: KEY_LENGTH_def)
  have "\<exists>st. next_keys (m * length kss) (at_key kss m 0 0) = Inr (drop 0 (kss ! 0) @ concat (drop (Suc 0) kss), st)"
    by (rule next_keys_at [OF keys assms(2)]) (simp_all add: k algebra_simps)
  then show ?thesis by (simp add: k at_key_def RECORD_LENGTH_def)
qed

theorem pure_insert_reads_all_keys_witness:
  "\<exists>st. next_keys (1 * length [[replicate 24 (CHR ''a'')], [replicate 24 (CHR ''b'')]])
       \<lparr>it_workloads = map render_keys [[replicate 24 (CHR ''a'')], [replicate 24 (CHR ''b'')]],
        it_cur_workload = render_keys (hd [[replicate 24 (CHR ''a'')], [replicate 24 (CHR ''b'')]]),
        it_workload_i = 0, it_len = RECORD_LENGTH * 1, it_offset = 0\<rparr>
     = Inr (concat [[replicate 24 (CHR ''a'')], [replicate 24 (CHR ''b'')]], st)"
  by (rule pure_insert_reads_all_keys) (simp_all add: KEY_LENGTH_def)

text \<open>\<^verbatim>\<open>len\<close> is one number for all files, and each file that is opened overwrites it: when the first of two files holds two
  records and the second one, the thread skips the second record of the first file.\<close>

theorem pure_insert_skips_keys:
  assumes "length a = 24" and "length b = 24" and "length c = 24"
  shows "load_workloads (\<lambda>f. if f = ''./run.w.1'' then Some (render_keys [a, b])
                             else if f = ''./run.w.2'' then Some (render_keys [c]) else None)
           ''.'' 0 1 2 0 0 3 [] 0 = Some (Inr ([render_keys [a, b], render_keys [c]], RECORD_LENGTH))
    \<and> (\<exists>st. next_keys 2 \<lparr>it_workloads = [render_keys [a, b], render_keys [c]], it_cur_workload = render_keys [a, b],
         it_workload_i = 0, it_len = RECORD_LENGTH, it_offset = 0\<rparr> = Inr ([a, c], st))"
proof -
  have len: "length (render_keys [a, b]) = 54" "length (render_keys [c]) = 27"
    using assms by (simp_all add: length_render_keys)
  have ts: "to_string (Suc 0) = ''1''" "to_string 2 = ''2''"
    by (simp_all add: to_string.simps digit_def numeral_eq_Suc) code_simp+
  have k: "take 24 (drop 2 (render_keys [a, b])) = a" "take 24 (drop 2 (render_keys [c])) = c"
    using assms by (simp_all add: render_keys_def render_record_def)
  show ?thesis
    using ts k
    by (simp add: load_workloads.simps len RECORD_LENGTH_def numeral_2_eq_2 GetNextKey_def HasNextKey_def KEY_OFFSET_def
        KEY_LENGTH_def)
qed

theorem pure_insert_skips_keys_witness:
  "\<exists>st. next_keys 2 \<lparr>it_workloads = [render_keys [replicate 24 (CHR ''a''), replicate 24 (CHR ''b'')], render_keys [replicate 24 (CHR ''c'')]],
       it_cur_workload = render_keys [replicate 24 (CHR ''a''), replicate 24 (CHR ''b'')],
       it_workload_i = 0, it_len = RECORD_LENGTH, it_offset = 0\<rparr> = Inr ([replicate 24 (CHR ''a''), replicate 24 (CHR ''c'')], st)"
  using pure_insert_skips_keys [of "replicate 24 (CHR ''a'')" "replicate 24 (CHR ''b'')" "replicate 24 (CHR ''c'')"] by simp

text \<open>The trace workload writes one line per transaction and calls no database: on an initialised workload any number of its transactions
  return, leave the database as it is, and append to the thread's file, for each of them, a line with an operation and the number of a
  key that exists (or 0 before any).\<close>

theorem tracepeek_writes_existing_keys:
  assumes "env_ok env" and "cx_ok k n s"
  shows "\<exists>ls st s'. peek_run env m (new_PeekThreadState i) s = Some (Inr (st, s')) \<and> cx_db s' = cx_db s
     \<and> pk_name st = ''th'' @ to_string i @ ''.keys''
     \<and> pk_trace st = concat (map (\<lambda>(op, key). kOperationString op @ '' '' @ to_string key @ [CHR 0x0A]) ls)
     \<and> length ls = m \<and> (\<forall>(op, key) \<in> set ls. key < n \<or> key = 0)"
proof -
  have l: "trace_line = (\<lambda>(op, key). kOperationString op @ '' '' @ to_string key @ [CHR 0x0A])"
    by (auto simp: trace_line_def fun_eq_iff)
  from peek_run_lines [OF assms, of m "new_PeekThreadState i"] obtain ls s' where
    "peek_run env m (new_PeekThreadState i) s = Some (Inr ((new_PeekThreadState i)\<lparr>pk_trace := concat (map trace_line ls)\<rparr>, s'))"
    "length ls = m" "\<forall>l \<in> set ls. snd l < n \<or> snd l = 0" "cx_db s' = cx_db s" by (auto simp: new_PeekThreadState_def)
  then show ?thesis unfolding l
    by (intro exI [of _ ls] exI [of _ "(new_PeekThreadState i)\<lparr>pk_trace := concat (map trace_line ls)\<rparr>"] exI [of _ s'])
      (auto simp: new_PeekThreadState_def l)
qed

theorem tracepeek_writes_existing_keys_witness:
  "\<exists>wl t' ls st s'. CoreWorkload_Init demo_env (basic_config 1000 100 ''uniform'') demo_tls (new_CoreWorkload READ 0) = Inr (wl, t')
     \<and> peek_run demo_env 7 (new_PeekThreadState 2) \<lparr>cx_wl = wl, cx_tls = t', cx_db = ()\<rparr> = Some (Inr (st, s'))
     \<and> pk_trace st = concat (map (\<lambda>(op, key). kOperationString op @ '' '' @ to_string key @ [CHR 0x0A]) ls) \<and> length ls = 7"
proof -
  have "\<exists>wl t'. CoreWorkload_Init demo_env (basic_config 1000 100 ''uniform'') demo_tls (new_CoreWorkload READ 0) = Inr (wl, t')
     \<and> wl_ok (Suc 5) 1000 wl \<and> tls_ok t' \<and> settled 1000 (wl_transaction_insert_key_sequence wl)"
    by (rule Init_ok [OF demo_env_ok demo_tls_ok]) (simp_all add: key_dist_def kMaxNumItems_def drop_bit_eq_div)
  then obtain wl t' where i: "CoreWorkload_Init demo_env (basic_config 1000 100 ''uniform'') demo_tls (new_CoreWorkload READ 0) = Inr (wl, t')"
    and ok: "cx_ok (Suc 5) 1000 \<lparr>cx_wl = wl, cx_tls = t', cx_db = ()\<rparr>" by (auto simp: cx_ok_def)
  from tracepeek_writes_existing_keys [OF demo_env_ok ok, of 7 2] i show ?thesis by blast
qed

end
