(* ===== verification/Measure.thy ===== *)
theory Measure
  imports DB_Layer "HOL-Library.Multiset"
begin

text \<open>
  The latency statistics of \<^verbatim>\<open>src/core/measurements.h\<close> and \<^verbatim>\<open>measurements.cc\<close>: \<^verbatim>\<open>BasicMeasurements\<close> with its
  counters at their machine widths, \<^verbatim>\<open>HdrHistogramMeasurements\<close> over the external histogram library
  (a record of its functions), and \<^verbatim>\<open>CreateMeasurements\<close>. The clock value read by a call is its argument
  \<open>now\<close>, in nanoseconds. A printed double is the real number it shows, and a status message is the list
  of the values it prints; the text layout is not modelled.
\<close>

section \<open>The base class\<close>

record Measurements =
  ms_start :: int
  ms_sec_skip :: int
  ms_report_on :: bool

text \<open>The constructor's \<^verbatim>\<open>int64_t\<close> argument is narrowed to the member of type \<^verbatim>\<open>int\<close>.\<close>

definition narrow32 :: "int \<Rightarrow> int" where
  "narrow32 x = (x + 2 ^ 31) mod 2 ^ 32 - 2 ^ 31"

definition new_Measurements :: "int \<Rightarrow> Measurements" where
  "new_Measurements sec_skip =
     \<lparr>ms_start = 0, ms_sec_skip = narrow32 sec_skip, ms_report_on = (sec_skip = 0)\<rparr>"

definition Measurements_Start :: "int \<Rightarrow> 'a Measurements_scheme \<Rightarrow> 'a Measurements_scheme" where
  "Measurements_Start now m = m\<lparr>ms_start := now\<rparr>"

text \<open>The guard that \<^verbatim>\<open>Report\<close> of both classes evaluates while reporting is off.\<close>

definition report_window :: "int \<Rightarrow> 'a Measurements_scheme \<Rightarrow> bool" where
  "report_window now m \<longleftrightarrow>
     (let elapse = cdiv (now - ms_start m) 1000000000
      in elapse > ms_sec_skip m \<and> elapse < ms_sec_skip m + 10)"

section \<open>Basic measurements\<close>

record BasicMeasurements = Measurements +
  bm_count :: "Operation \<Rightarrow> u32"
  bm_last_count :: "Operation \<Rightarrow> u32"
  bm_latency_sum :: "Operation \<Rightarrow> u64"
  bm_last_latency_sum :: "Operation \<Rightarrow> u64"
  bm_latency_min :: "Operation \<Rightarrow> u64"
  bm_latency_max :: "Operation \<Rightarrow> u64"

definition new_BasicMeasurements :: "int \<Rightarrow> BasicMeasurements" where
  "new_BasicMeasurements sec_skip =
     Measurements.extend (new_Measurements sec_skip)
       (BasicMeasurements.fields (\<lambda>_. 0) (\<lambda>_. 0) (\<lambda>_. 0) (\<lambda>_. 0) (\<lambda>_. - 1) (\<lambda>_. 0))"

definition Basic_Report :: "int \<Rightarrow> Operation \<Rightarrow> u64 \<Rightarrow> BasicMeasurements \<Rightarrow> BasicMeasurements" where
  "Basic_Report now op latency m =
     (if \<not> ms_report_on m then m\<lparr>ms_report_on := report_window now m\<rparr>
      else
        (let m = m\<lparr>bm_count := (bm_count m)(op := bm_count m op + 1)\<rparr>;
             m = m\<lparr>bm_latency_sum := (bm_latency_sum m)(op := bm_latency_sum m op + latency)\<rparr>;
             m = (if bm_latency_min m op > latency
                  then m\<lparr>bm_latency_min := (bm_latency_min m)(op := latency)\<rparr> else m);
             m = (if bm_latency_max m op < latency
                  then m\<lparr>bm_latency_max := (bm_latency_max m)(op := latency)\<rparr> else m)
         in m))"

text \<open>
  One entry of the status message. The averages are \<open>None\<close> where the code divides by zero (and
  prints an infinity or not-a-number).
\<close>

record StatusEntry =
  se_op :: Operation
  se_count :: u64
  se_max :: real
  se_min :: real
  se_avg :: "real option"
  se_period_count :: u64
  se_period_avg :: "real option"

definition ratio :: "u64 \<Rightarrow> u64 \<Rightarrow> real option" where
  "ratio a b = (if b = 0 then None else Some (real (unat a) / real (unat b) / 1000))"

definition status_step ::
    "Operation \<Rightarrow> u64 \<times> StatusEntry list \<times> BasicMeasurements \<Rightarrow> u64 \<times> StatusEntry list \<times> BasicMeasurements" where
  "status_step op acc =
     (let (total_cnt, msg, m) = acc;
          cnt = (ucast (bm_count m op) :: u64);
          period_cnt = cnt - ucast (bm_last_count m op);
          latency_sum = bm_latency_sum m op
      in if cnt = 0 then (total_cnt, msg, m)
         else
           (total_cnt + cnt,
            msg @ [\<lparr>se_op = op, se_count = cnt,
                    se_max = real (unat (bm_latency_max m op)) / 1000,
                    se_min = real (unat (bm_latency_min m op)) / 1000,
                    se_avg = ratio latency_sum cnt,
                    se_period_count = period_cnt,
                    se_period_avg = ratio (latency_sum - bm_last_latency_sum m op) period_cnt\<rparr>],
            m\<lparr>bm_last_latency_sum := (bm_last_latency_sum m)(op := latency_sum),
              bm_last_count := (bm_last_count m)(op := ucast cnt)\<rparr>))"

text \<open>\<^verbatim>\<open>GetStatusMsg\<close>: the total count, the entries in the order of the operations, and the new state.\<close>

definition Basic_GetStatusMsg :: "BasicMeasurements \<Rightarrow> (u64 \<times> StatusEntry list) \<times> BasicMeasurements" where
  "Basic_GetStatusMsg m =
     (let (total_cnt, msg, m) = fold status_step all_ops (0, [], m) in ((total_cnt, msg), m))"

definition Basic_Reset :: "BasicMeasurements \<Rightarrow> BasicMeasurements" where
  "Basic_Reset m =
     m\<lparr>bm_count := (\<lambda>_. 0), bm_latency_sum := (\<lambda>_. 0), bm_latency_min := (\<lambda>_. - 1),
       bm_latency_max := (\<lambda>_. 0)\<rparr>"

text \<open>\<^verbatim>\<open>Emit\<close>: the YAML node as the list of its entries, in the order of the operations.\<close>

record EmitEntry =
  em_count :: u64
  em_max :: real
  em_min :: real
  em_avg :: "real option"

definition Basic_Emit :: "BasicMeasurements \<Rightarrow> (string \<times> EmitEntry) list" where
  "Basic_Emit m =
     map (\<lambda>op. (kOperationString op,
       \<lparr>em_count = ucast (bm_count m op),
        em_max = real (unat (bm_latency_max m op)) / 1000,
        em_min = real (unat (bm_latency_min m op)) / 1000,
        em_avg = ratio (bm_latency_sum m op) (ucast (bm_count m op))\<rparr>))
       (filter (\<lambda>op. (ucast (bm_count m op) :: u64) \<noteq> 0) all_ops)"

section \<open>Histogram measurements\<close>

text \<open>The functions of the external library that the class calls.\<close>

record 'h hdr_lib =
  hdr_init :: "int \<Rightarrow> int \<Rightarrow> int \<Rightarrow> 'h option"
  hdr_record_value_atomic :: "'h \<Rightarrow> u64 \<Rightarrow> 'h"
  hdr_reset :: "'h \<Rightarrow> 'h"
  hdr_total_count :: "'h \<Rightarrow> u64"
  hdr_max :: "'h \<Rightarrow> real"
  hdr_min :: "'h \<Rightarrow> real"
  hdr_mean :: "'h \<Rightarrow> real"
  hdr_value_at_percentile :: "'h \<Rightarrow> real \<Rightarrow> real"

record 'h HdrHistogramMeasurements = Measurements +
  hm_histogram :: "Operation \<Rightarrow> 'h option"

text \<open>
  The constructor builds an exception object when \<^verbatim>\<open>hdr_init\<close> fails, but does not throw it: the pointer
  stays unset.
\<close>

definition new_HdrHistogramMeasurements :: "'h hdr_lib \<Rightarrow> int \<Rightarrow> 'h HdrHistogramMeasurements" where
  "new_HdrHistogramMeasurements hdr sec_skip =
     Measurements.extend (new_Measurements sec_skip)
       (HdrHistogramMeasurements.fields (\<lambda>_. hdr_init hdr 10 (100 * 1000 * 1000 * 1000) 3))"

definition deref_hist :: "'h HdrHistogramMeasurements \<Rightarrow> Operation \<Rightarrow> 'h res" where
  "deref_hist m op = (case hm_histogram m op of
     None \<Rightarrow> Inl (Undefined ''uninitialised histogram'') | Some h \<Rightarrow> Inr h)"

definition Hdr_Report ::
    "'h hdr_lib \<Rightarrow> int \<Rightarrow> Operation \<Rightarrow> u64 \<Rightarrow> 'h HdrHistogramMeasurements \<Rightarrow> 'h HdrHistogramMeasurements res" where
  "Hdr_Report hdr now op latency m =
     (if \<not> ms_report_on m then Inr (m\<lparr>ms_report_on := report_window now m\<rparr>)
      else andThen (deref_hist m op) (\<lambda>h.
        Inr (m\<lparr>hm_histogram := (hm_histogram m)(op := Some (hdr_record_value_atomic hdr h latency))\<rparr>)))"

record HdrEntry =
  he_op :: Operation
  he_count :: u64
  he_max :: real
  he_min :: real
  he_avg :: real
  he_percentiles :: "(real \<times> real) list"

definition hdr_entry :: "'h hdr_lib \<Rightarrow> real list \<Rightarrow> Operation \<Rightarrow> 'h \<Rightarrow> HdrEntry" where
  "hdr_entry hdr ps op h =
     \<lparr>he_op = op, he_count = hdr_total_count hdr h, he_max = hdr_max hdr h / 1000,
      he_min = hdr_min hdr h / 1000, he_avg = hdr_mean hdr h / 1000,
      he_percentiles = map (\<lambda>p. (p, hdr_value_at_percentile hdr h p / 1000)) ps\<rparr>"

fun hdr_entries ::
    "'h hdr_lib \<Rightarrow> real list \<Rightarrow> 'h HdrHistogramMeasurements \<Rightarrow> Operation list \<Rightarrow> HdrEntry list res" where
  "hdr_entries hdr ps m [] = Inr []"
| "hdr_entries hdr ps m (op # ops) =
     andThen (deref_hist m op) (\<lambda>h.
     andThen (hdr_entries hdr ps m ops) (\<lambda>es.
     Inr (if hdr_total_count hdr h = 0 then es else hdr_entry hdr ps op h # es)))"

definition Hdr_GetStatusMsg ::
    "'h hdr_lib \<Rightarrow> 'h HdrHistogramMeasurements \<Rightarrow> (u64 \<times> HdrEntry list) res" where
  "Hdr_GetStatusMsg hdr m =
     andThen (hdr_entries hdr [90, 99, 999 / 10, 9999 / 100] m all_ops) (\<lambda>es.
     Inr (sum_list (map he_count es), es))"

definition Hdr_Reset :: "'h hdr_lib \<Rightarrow> 'h HdrHistogramMeasurements \<Rightarrow> 'h HdrHistogramMeasurements res" where
  "Hdr_Reset hdr m =
     (if list_all (\<lambda>op. hm_histogram m op \<noteq> None) all_ops
      then Inr (m\<lparr>hm_histogram := (\<lambda>op. map_option (hdr_reset hdr) (hm_histogram m op))\<rparr>)
      else Inl (Undefined ''uninitialised histogram''))"

definition Hdr_Emit :: "'h hdr_lib \<Rightarrow> 'h HdrHistogramMeasurements \<Rightarrow> HdrEntry list res" where
  "Hdr_Emit hdr m =
     hdr_entries hdr (map real [1..<100] @ [999 / 10, 9999 / 100]) m all_ops"

section \<open>Choosing the class\<close>

datatype 'h AnyMeasurements = Basic BasicMeasurements | Hdr "'h HdrHistogramMeasurements"

text \<open>\<open>hdr = None\<close> is a build without \<^verbatim>\<open>HDRMEASUREMENT\<close>.\<close>

definition CreateMeasurements :: "'h hdr_lib option \<Rightarrow> Properties \<Rightarrow> 'h AnyMeasurements option res" where
  "CreateMeasurements hdr props =
     (let name = GetProperty props ''measurementtype'' (if Option.is_none hdr then ''basic'' else ''hdrhistogram'') in
      andThen (stol (GetProperty props ''secskip'' ''0'')) (\<lambda>sec_skip.
      if name = ''basic'' then Inr (Some (Basic (new_BasicMeasurements sec_skip)))
      else case hdr of
             Some h \<Rightarrow> Inr (if name = ''hdrhistogram''
                            then Some (Hdr (new_HdrHistogramMeasurements h sec_skip)) else None)
           | None \<Rightarrow> Inr None))"

section \<open>The contract of latency statistics\<close>

text \<open>
  What the users of \<^verbatim>\<open>Measurements\<close> rely on while reporting is on: each report raises the count of its
  operation by one, modulo the range of the counter, and no other count.
\<close>

locale op_counts =
  fixes report :: "Operation \<Rightarrow> u64 \<Rightarrow> 'm \<Rightarrow> 'm"
    and count :: "'m \<Rightarrow> Operation \<Rightarrow> nat"
    and reporting :: "'m \<Rightarrow> bool"
    and lim :: nat
  assumes reporting_report: "reporting m \<Longrightarrow> reporting (report op l m)"
    and count_report: "reporting m \<Longrightarrow> count (report op l m) p = (count m p + (if p = op then 1 else 0)) mod lim"
    and count_lim: "count m p < lim"
begin

definition report_all :: "(Operation \<times> u64) list \<Rightarrow> 'm \<Rightarrow> 'm" where
  "report_all rs m = fold (\<lambda>(op, l). report op l) rs m"

lemma report_all_simps [simp]:
  "report_all [] m = m"
  "report_all ((op, l) # rs) m = report_all rs (report op l m)"
  by (simp_all add: report_all_def)

lemma count_report_all:
  "reporting m \<Longrightarrow> count (report_all rs m) p = (count m p + count_list (map fst rs) p) mod lim"
proof (induction rs arbitrary: m)
  case (Cons r rs)
  obtain op l where r: "r = (op, l)" by (cases r)
  have "count (report_all rs (report op l m)) p = (count (report op l m) p + count_list (map fst rs) p) mod lim"
    using Cons.prems by (intro Cons.IH reporting_report)
  then show ?case using count_report [OF Cons.prems] by (simp add: r mod_add_left_eq)
qed (use count_lim in simp)

lemma reporting_report_all: "reporting m \<Longrightarrow> reporting (report_all rs m)"
  by (induction rs arbitrary: m) (auto simp: reporting_report)

end

text \<open>What \<open>Basic_Report\<close> does while reporting is on.\<close>

definition record_latency :: "Operation \<Rightarrow> u64 \<Rightarrow> BasicMeasurements \<Rightarrow> BasicMeasurements" where
  "record_latency op l m =
     m\<lparr>bm_count := (bm_count m)(op := bm_count m op + 1),
       bm_latency_sum := (bm_latency_sum m)(op := bm_latency_sum m op + l),
       bm_latency_min := (bm_latency_min m)(op := min (bm_latency_min m op) l),
       bm_latency_max := (bm_latency_max m)(op := max (bm_latency_max m op) l)\<rparr>"

lemma Basic_Report_on: "ms_report_on m \<Longrightarrow> Basic_Report now op l m = record_latency op l m"
  by (auto simp: Basic_Report_def record_latency_def Let_def min_def max_def fun_upd_idem)

lemma record_latency_on [simp]: "ms_report_on (record_latency op l m) = ms_report_on m"
  by (simp add: record_latency_def)

lemma record_latency_commute:
  "record_latency o1 l1 (record_latency o2 l2 m) = record_latency o2 l2 (record_latency o1 l1 m)"
  by (cases "o1 = o2") (auto simp: record_latency_def fun_upd_twist ac_simps)

interpretation basic_counts: op_counts "Basic_Report now" "\<lambda>m op. unat (bm_count m op)" ms_report_on "2 ^ 32"
proof unfold_locales
  fix m :: BasicMeasurements and op p :: Operation and l
  assume "ms_report_on m"
  then show "ms_report_on (Basic_Report now op l m)"
    and "unat (bm_count (Basic_Report now op l m) p) = (unat (bm_count m p) + (if p = op then 1 else 0)) mod 2 ^ 32"
    using unat_u32_bound [of "bm_count m p"]
    by (auto simp: Basic_Report_on record_latency_def unat_word_ariths)
qed (rule unat_u32_bound)

lemma report_all_on:
  "ms_report_on m \<Longrightarrow> basic_counts.report_all now rs m = fold (\<lambda>(op, l). record_latency op l) rs m"
  by (induction rs arbitrary: m) (auto simp: Basic_Report_on)

text \<open>The four statistics of an operation, as folds over the latencies reported for it.\<close>

definition latencies :: "Operation \<Rightarrow> (Operation \<times> u64) list \<Rightarrow> u64 list" where
  "latencies op rs = map snd (filter (\<lambda>r. fst r = op) rs)"

lemma record_all_stats:
  "bm_count (fold (\<lambda>(op, l). record_latency op l) rs m) op = bm_count m op + of_nat (length (latencies op rs))
   \<and> bm_latency_sum (fold (\<lambda>(op, l). record_latency op l) rs m) op = bm_latency_sum m op + sum_list (latencies op rs)
   \<and> bm_latency_min (fold (\<lambda>(op, l). record_latency op l) rs m) op = fold min (latencies op rs) (bm_latency_min m op)
   \<and> bm_latency_max (fold (\<lambda>(op, l). record_latency op l) rs m) op = fold max (latencies op rs) (bm_latency_max m op)"
proof (induction rs arbitrary: m)
  case (Cons r rs)
  obtain p l where r: "r = (p, l)" by (cases r)
  show ?case using Cons.IH [of "record_latency p l m"]
    by (simp add: r latencies_def record_latency_def add.assoc min.commute max.commute)
qed (simp add: latencies_def)

text \<open>The status message is the list of the entries of the operations that were counted.\<close>

definition status_entry :: "BasicMeasurements \<Rightarrow> Operation \<Rightarrow> StatusEntry" where
  "status_entry m op =
     (let cnt = (ucast (bm_count m op) :: u64); period = cnt - ucast (bm_last_count m op) in
      \<lparr>se_op = op, se_count = cnt, se_max = real (unat (bm_latency_max m op)) / 1000,
       se_min = real (unat (bm_latency_min m op)) / 1000, se_avg = ratio (bm_latency_sum m op) cnt,
       se_period_count = period, se_period_avg = ratio (bm_latency_sum m op - bm_last_latency_sum m op) period\<rparr>)"

definition shown :: "Operation set \<Rightarrow> BasicMeasurements \<Rightarrow> BasicMeasurements" where
  "shown S m =
     m\<lparr>bm_last_latency_sum := (\<lambda>p. if p \<in> S \<and> bm_count m p \<noteq> 0 then bm_latency_sum m p else bm_last_latency_sum m p),
       bm_last_count := (\<lambda>p. if p \<in> S \<and> bm_count m p \<noteq> 0 then bm_count m p else bm_last_count m p)\<rparr>"

lemma unat_ucast_u32: "unat (ucast (x :: u32) :: u64) = unat x"
  using unat_u32_bound [of x] by (simp add: unsigned_ucast_eq take_bit_nat_eq_self)

lemma ucast_u32_eq_0 [simp]: "(ucast (x :: u32) :: u64) = 0 \<longleftrightarrow> x = 0"
  by (metis unat_ucast_u32 unat_eq_zero)

lemma ucast_ucast_u32 [simp]: "(ucast (ucast (x :: u32) :: u64) :: u32) = x"
  by (metis of_nat_unat ucast_id unat_ucast_u32)

lemma status_step_eq:
  "status_step op (t, msg, m) =
     (t + ucast (bm_count m op), msg @ (if bm_count m op = 0 then [] else [status_entry m op]), shown {op} m)"
proof (cases "bm_count m op = 0")
  case True
  then have "shown {op} m = m" by (auto simp: shown_def fun_eq_iff intro!: BasicMeasurements.equality)
  with True show ?thesis by (simp add: status_step_def)
next
  case False
  then have "shown {op} m = m\<lparr>bm_last_latency_sum := (bm_last_latency_sum m)(op := bm_latency_sum m op),
      bm_last_count := (bm_last_count m)(op := bm_count m op)\<rparr>"
    by (auto simp: shown_def fun_eq_iff intro!: BasicMeasurements.equality)
  with False show ?thesis by (simp add: status_step_def status_entry_def Let_def)
qed

lemma fold_status_step:
  "distinct ops \<Longrightarrow> fold status_step ops (t, msg, m) =
     (t + sum_list (map (\<lambda>op. ucast (bm_count m op)) ops),
      msg @ map (status_entry m) (filter (\<lambda>op. bm_count m op \<noteq> 0) ops), shown (set ops) m)"
proof (induction ops arbitrary: t msg m)
  case (Cons op ops)
  have same: "bm_count (shown {op} m) = bm_count m" by (simp add: shown_def)
  have ent: "map (status_entry (shown {op} m)) (filter (\<lambda>op. bm_count m op \<noteq> 0) ops) =
      map (status_entry m) (filter (\<lambda>op. bm_count m op \<noteq> 0) ops)"
    using Cons.prems by (auto simp: status_entry_def shown_def Let_def)
  have upd: "shown (set ops) (shown {op} m) = shown (insert op (set ops)) m"
    by (auto simp: shown_def fun_eq_iff)
  show ?case
    using Cons.IH [of _ _ "shown {op} m"] Cons.prems by (simp add: status_step_eq same ent upd add.assoc)
qed (simp add: shown_def)

lemma Basic_GetStatusMsg_eq:
  "Basic_GetStatusMsg m =
     ((sum_list (map (\<lambda>op. ucast (bm_count m op)) all_ops),
       map (status_entry m) (filter (\<lambda>op. bm_count m op \<noteq> 0) all_ops)), shown UNIV m)"
  by (simp add: Basic_GetStatusMsg_def fold_status_step all_ops_sorted)

lemma shown_fields [simp]:
  "ms_report_on (shown S m) = ms_report_on m"
  "bm_count (shown S m) = bm_count m"
  "bm_last_count (shown S m) p = (if p \<in> S \<and> bm_count m p \<noteq> 0 then bm_count m p else bm_last_count m p)"
  by (simp_all add: shown_def)

section \<open>Properties\<close>

text \<open>The statistics do not depend on how the client threads interleave: any two orders of the same reports leave the
  measurements in the same state, counters, sums, minima and maxima included.\<close>

theorem reports_order_irrelevant:
  assumes "ms_report_on m" and "mset rs = mset rs'"
  shows "fold (\<lambda>(op, l). Basic_Report now op l) rs m = fold (\<lambda>(op, l). Basic_Report now op l) rs' m"
proof -
  have "fold (\<lambda>(op, l). record_latency op l) rs = fold (\<lambda>(op, l). record_latency op l) rs'"
    by (rule fold_multiset_equiv) (auto simp: fun_eq_iff record_latency_commute assms(2))
  then show ?thesis
    using report_all_on [OF assms(1), of now] by (simp add: basic_counts.report_all_def)
qed

theorem reports_order_irrelevant_witness:
  "fold (\<lambda>(op, l). Basic_Report 0 op l) [(READ, 5), (INSERT, 7), (READ, 2)] (new_BasicMeasurements 0)
   = fold (\<lambda>(op, l). Basic_Report 0 op l) [(READ, 2), (READ, 5), (INSERT, 7)] (new_BasicMeasurements 0)"
  by (rule reports_order_irrelevant) (simp_all add: new_BasicMeasurements_def new_Measurements_def Measurements.extend_def)

text \<open>What a run without warm-up measures: from a fresh object, after any sequence of reports, the count of an operation is the
  number of its reports modulo \<open>2\<^sup>3\<^sup>2\<close>, its sum the sum of its latencies modulo \<open>2\<^sup>6\<^sup>4\<close>, and its minimum and maximum are those
  of its latencies.\<close>

theorem basic_measurements_correct:
  assumes "m = fold (\<lambda>(op, l). Basic_Report now op l) rs (new_BasicMeasurements 0)"
  shows "unat (bm_count m op) = length (latencies op rs) mod 2 ^ 32
   \<and> bm_latency_sum m op = sum_list (latencies op rs)
   \<and> (latencies op rs \<noteq> [] \<longrightarrow> bm_latency_min m op = Min (set (latencies op rs))
        \<and> bm_latency_max m op = Max (set (latencies op rs)))"
proof (intro conjI impI)
  let ?n = "new_BasicMeasurements 0"
  have n: "ms_report_on ?n" "bm_count ?n op = 0" "bm_latency_sum ?n op = 0" "bm_latency_min ?n op = - 1"
    "bm_latency_max ?n op = 0"
    by (simp_all add: new_BasicMeasurements_def new_Measurements_def Measurements.extend_def BasicMeasurements.fields_def)
  have m: "m = fold (\<lambda>(op, l). record_latency op l) rs ?n"
    using report_all_on [OF n(1), of now rs] by (simp add: assms basic_counts.report_all_def)
  note s = record_all_stats [of rs ?n op, folded m, unfolded n]
  show "unat (bm_count m op) = length (latencies op rs) mod 2 ^ 32"
    using s by (simp add: unat_of_nat)
  show "bm_latency_sum m op = sum_list (latencies op rs)" using s by simp
  have "fold min (x # xs) (- 1 :: u64) = Min (set (x # xs))" and "fold max (x # xs) (0 :: u64) = Max (set (x # xs))"
    for x and xs :: "u64 list"
    using Min.set_eq_fold [of x xs] Max.set_eq_fold [of x xs] by (simp_all add: min_absorb1 max_absorb1)
  then show "bm_latency_min m op = Min (set (latencies op rs))" "bm_latency_max m op = Max (set (latencies op rs))"
    if "latencies op rs \<noteq> []"
    using s that by (metis neq_Nil_conv)+
qed

theorem basic_measurements_correct_witness:
  "bm_latency_min (fold (\<lambda>(op, l). Basic_Report 0 op l) [(READ, 5), (INSERT, 7), (READ, 2)] (new_BasicMeasurements 0)) READ = 2
   \<and> unat (bm_count (fold (\<lambda>(op, l). Basic_Report 0 op l) [(READ, 5), (INSERT, 7), (READ, 2)] (new_BasicMeasurements 0)) READ) = 2"
  using basic_measurements_correct [OF refl, where now = 0 and rs = "[(READ, 5), (INSERT, 7), (READ, 2)]" and op = READ]
  by (simp add: latencies_def)

text \<open>\<^verbatim>\<open>Reset\<close> clears the counters but not the counters of the last status message, so the first status message of the run phase
  subtracts a count of the load phase: when an operation had been reported \<open>c\<close> times before the message and the reset, and
  once after, the period count that is printed is \<open>1 - c\<close> modulo \<open>2\<^sup>6\<^sup>4\<close> and not 1.\<close>

theorem reset_leaves_period_base:
  assumes "ms_report_on m" and "bm_count m op \<noteq> 0"
  shows "\<exists>e \<in> set (snd (fst (Basic_GetStatusMsg (Basic_Report now op l (Basic_Reset (snd (Basic_GetStatusMsg m))))))).
     se_op e = op \<and> se_count e = 1 \<and> se_period_count e = 1 - ucast (bm_count m op)"
proof -
  let ?r = "Basic_Reset (snd (Basic_GetStatusMsg m))"
  have r: "ms_report_on ?r" "bm_count ?r op = 0" "bm_last_count ?r op = bm_count m op"
    using assms by (simp_all add: Basic_Reset_def Basic_GetStatusMsg_eq)
  have n: "bm_count (Basic_Report now op l ?r) op = 1" "bm_last_count (Basic_Report now op l ?r) op = bm_count m op"
    using r by (simp_all add: Basic_Report_on record_latency_def)
  have "status_entry (Basic_Report now op l ?r) op \<in> set (snd (fst (Basic_GetStatusMsg (Basic_Report now op l ?r))))"
    using n(1) all_ops_sorted(3) by (auto simp: Basic_GetStatusMsg_eq)
  moreover have "se_op (status_entry m' op) = op" "se_count (status_entry m' op) = ucast (bm_count m' op)"
    "se_period_count (status_entry m' op) = ucast (bm_count m' op) - ucast (bm_last_count m' op)" for m'
    by (simp_all add: status_entry_def Let_def)
  ultimately show ?thesis using n by (metis unsigned_1)
qed

theorem reset_leaves_period_base_witness:
  "\<exists>e \<in> set (snd (fst (Basic_GetStatusMsg (Basic_Report 0 INSERT 9 (Basic_Reset (snd (Basic_GetStatusMsg
       ((new_BasicMeasurements 0)\<lparr>bm_count := (\<lambda>_. 3)\<rparr>)))))))).
     se_op e = INSERT \<and> se_count e = 1 \<and> se_period_count e = - 2"
proof -
  let ?m = "(new_BasicMeasurements 0)\<lparr>bm_count := (\<lambda>_. 3)\<rparr>"
  have "ms_report_on ?m" "bm_count ?m INSERT \<noteq> 0"
    by (simp_all add: new_BasicMeasurements_def new_Measurements_def Measurements.extend_def)
  from reset_leaves_period_base [OF this, of 0 9] show ?thesis by simp
qed

end
