(* ===== verification/DB_Impl.thy ===== *)
theory DB_Impl
  imports Measure
begin

text \<open>
  The databases of \<^verbatim>\<open>src/core\<close> itself: \<^verbatim>\<open>BasicDB\<close> (basic\_db.cc), which prints the operations;
  \<^verbatim>\<open>DBWrapper\<close> (db\_wrapper.h), which measures the latency of every call of another database; and the
  registry \<^verbatim>\<open>DBFactory\<close> (db\_factory.cc).
\<close>

section \<open>BasicDB\<close>

datatype out_stream = NullStream | SilentStream | CoutStream

record BasicDB =
  bd_props :: Properties
  bd_out :: out_stream
  bd_cout :: string

definition new_BasicDB :: "Properties \<Rightarrow> BasicDB" where
  "new_BasicDB garbage = \<lparr>bd_props = garbage, bd_out = NullStream, bd_cout = []\<rparr>"

text \<open>\<^verbatim>\<open>*out_ << s\<close>: before \<^verbatim>\<open>Init\<close> the pointer is null; the silent stream drops its input.\<close>

definition put :: "string \<Rightarrow> BasicDB \<Rightarrow> BasicDB res" where
  "put s d = (case bd_out d of
       NullStream \<Rightarrow> Inl (Undefined ''null stream'')
     | SilentStream \<Rightarrow> Inr d
     | CoutStream \<Rightarrow> Inr (d\<lparr>bd_cout := bd_cout d @ s\<rparr>))"

definition show_int :: "int \<Rightarrow> string" where
  "show_int i = (if i < 0 then CHR ''-'' # to_string (nat (- i)) else to_string (nat i))"

definition endl :: string where
  "endl = [CHR 0x0A]"

definition show_fields :: "string list option \<Rightarrow> string" where
  "show_fields flds = (case flds of
       Some fs \<Rightarrow> '' [ '' @ concat (map (\<lambda>f. f @ '' '') fs) @ '']'' @ endl
     | None \<Rightarrow> '' < all fields >'' @ endl)"

definition show_values :: "Field list \<Rightarrow> string" where
  "show_values values = '' [ '' @ concat (map (\<lambda>v. fst v @ ''='' @ snd v @ '' '') values) @ '']'' @ endl"

definition BasicDB_Init :: "BasicDB \<Rightarrow> (unit \<times> BasicDB) res" where
  "BasicDB_Init d =
     Inr ((), d\<lparr>bd_out := (if GetProperty (bd_props d) ''basic.silent'' ''false'' = ''true''
                          then SilentStream else CoutStream)\<rparr>)"

definition BasicDB_Read ::
    "string \<Rightarrow> string \<Rightarrow> string list option \<Rightarrow> BasicDB \<Rightarrow> ((Status \<times> Field list) \<times> BasicDB) res" where
  "BasicDB_Read table key flds d =
     andThen (put (''READ '' @ table @ '' '' @ key @ show_fields flds) d) (\<lambda>d. Inr ((kOK, []), d))"

definition BasicDB_Scan ::
    "string \<Rightarrow> string \<Rightarrow> int \<Rightarrow> string list option \<Rightarrow> BasicDB \<Rightarrow> ((Status \<times> Field list list) \<times> BasicDB) res" where
  "BasicDB_Scan table key len flds d =
     andThen (put (''SCAN '' @ table @ '' '' @ key @ '' '' @ show_int len @ show_fields flds) d)
       (\<lambda>d. Inr ((kOK, []), d))"

definition BasicDB_Update :: "string \<Rightarrow> string \<Rightarrow> Field list \<Rightarrow> BasicDB \<Rightarrow> (Status \<times> BasicDB) res" where
  "BasicDB_Update table key values d =
     andThen (put (''UPDATE '' @ table @ '' '' @ key @ show_values values) d) (\<lambda>d. Inr (kOK, d))"

definition BasicDB_Insert :: "string \<Rightarrow> string \<Rightarrow> Field list \<Rightarrow> BasicDB \<Rightarrow> (Status \<times> BasicDB) res" where
  "BasicDB_Insert table key values d =
     andThen (put (''INSERT '' @ table @ '' '' @ key @ show_values values) d) (\<lambda>d. Inr (kOK, d))"

definition BasicDB_Delete :: "string \<Rightarrow> string \<Rightarrow> BasicDB \<Rightarrow> (Status \<times> BasicDB) res" where
  "BasicDB_Delete table key d =
     andThen (put (''DELETE '' @ table @ '' '' @ key @ endl) d) (\<lambda>d. Inr (kOK, d))"

text \<open>\<^verbatim>\<open>return Status()\<close>: the value-initialised enumerator, 0.\<close>

definition BasicDB_ReadIdx :: "u64 \<Rightarrow> BasicDB \<Rightarrow> ((Status \<times> string) \<times> BasicDB) res" where
  "BasicDB_ReadIdx idx d = Inr ((kOK, []), d)"

definition BasicDB_ops :: "BasicDB DB" where
  "BasicDB_ops = \<lparr>db_Init = BasicDB_Init, db_Cleanup = (\<lambda>d. Inr ((), d)), db_Read = BasicDB_Read,
     db_Scan = BasicDB_Scan, db_Update = BasicDB_Update, db_Insert = BasicDB_Insert,
     db_Delete = BasicDB_Delete, db_ReadIdx = BasicDB_ReadIdx, db_ReInitBeforeTransaction = False,
     db_SetProps = (\<lambda>p d. d\<lparr>bd_props := p\<rparr>)\<rparr>"

section \<open>DBWrapper\<close>

text \<open>
  The \<open>i\<close>-th reading of the timer's clock is \<open>clock i\<close> and the \<open>i\<close>-th reading of the system clock by
  \<^verbatim>\<open>Report\<close> is \<open>wall i\<close>; \<open>dw_tick\<close> counts the calls. \<open>report\<close> is the virtual \<^verbatim>\<open>Measurements::Report\<close>.
\<close>

record ('d, 'm) DBWrapper =
  dw_db :: 'd
  dw_measurements :: 'm
  dw_timer :: Timer
  dw_tick :: nat

definition measured ::
    "(nat \<Rightarrow> int) \<Rightarrow> (nat \<Rightarrow> int) \<Rightarrow> (int \<Rightarrow> Operation \<Rightarrow> u64 \<Rightarrow> 'm \<Rightarrow> 'm res) \<Rightarrow> Operation \<Rightarrow> Operation
     \<Rightarrow> ('a \<Rightarrow> Status) \<Rightarrow> ('d \<Rightarrow> ('a \<times> 'd) res) \<Rightarrow> ('d, 'm) DBWrapper \<Rightarrow> ('a \<times> ('d, 'm) DBWrapper) res" where
  "measured clock wall report op op_failed status call w =
     (let w = w\<lparr>dw_timer := Timer_Start (clock (2 * dw_tick w))\<rparr> in
      andThen (call (dw_db w)) (\<lambda>(s, d).
      let w = w\<lparr>dw_db := d\<rparr>;
          elapsed = Timer_End (clock (2 * dw_tick w + 1)) (dw_timer w)
      in andThen (if status s = kOK then report (wall (dw_tick w)) op elapsed (dw_measurements w)
                  else report (wall (dw_tick w)) op_failed elapsed (dw_measurements w)) (\<lambda>m.
         Inr (s, w\<lparr>dw_measurements := m, dw_tick := dw_tick w + 1\<rparr>))))"

text \<open>A call that is passed on without being measured.\<close>

definition passed :: "('d \<Rightarrow> ('a \<times> 'd) res) \<Rightarrow> ('d, 'm) DBWrapper \<Rightarrow> ('a \<times> ('d, 'm) DBWrapper) res" where
  "passed call w = andThen (call (dw_db w)) (\<lambda>(x, d). Inr (x, w\<lparr>dw_db := d\<rparr>))"

definition DBWrapper_ops ::
    "(nat \<Rightarrow> int) \<Rightarrow> (nat \<Rightarrow> int) \<Rightarrow> (int \<Rightarrow> Operation \<Rightarrow> u64 \<Rightarrow> 'm \<Rightarrow> 'm res) \<Rightarrow> 'd DB \<Rightarrow> ('d, 'm) DBWrapper DB" where
  "DBWrapper_ops clock wall report db =
     \<lparr>db_Init = passed (db_Init db),
      db_Cleanup = passed (db_Cleanup db),
      db_Read = (\<lambda>table key flds. measured clock wall report READ READ_FAILED fst (db_Read db table key flds)),
      db_Scan = (\<lambda>table key n flds. measured clock wall report SCAN SCAN_FAILED fst (db_Scan db table key n flds)),
      db_Update = (\<lambda>table key values. measured clock wall report UPDATE UPDATE_FAILED id (db_Update db table key values)),
      db_Insert = (\<lambda>table key values. measured clock wall report INSERT INSERT_FAILED id (db_Insert db table key values)),
      db_Delete = (\<lambda>table key. measured clock wall report DELETE DELETE_FAILED id (db_Delete db table key)),
      db_ReadIdx = (\<lambda>idx. measured clock wall report RDIDX RDIDX_FAILED fst (db_ReadIdx db idx)),
      db_ReInitBeforeTransaction = db_ReInitBeforeTransaction db,
      db_SetProps = (\<lambda>p w. w)\<rparr>"

definition new_DBWrapper :: "'d \<Rightarrow> 'm \<Rightarrow> ('d, 'm) DBWrapper" where
  "new_DBWrapper d m = \<lparr>dw_db = d, dw_measurements = m, dw_timer = Timer_Start 0, dw_tick = 0\<rparr>"

section \<open>DBFactory\<close>

text \<open>
  The registry maps a name to a creator: here the class's functions and the object it constructs.
\<close>

type_synonym 'd db_registry = "string \<rightharpoonup> 'd DB \<times> 'd"

definition RegisterDB :: "'d db_registry \<Rightarrow> string \<Rightarrow> 'd DB \<times> 'd \<Rightarrow> 'd db_registry" where
  "RegisterDB registry db_name creator = registry(db_name \<mapsto> creator)"

definition CreateDB ::
    "(nat \<Rightarrow> int) \<Rightarrow> (nat \<Rightarrow> int) \<Rightarrow> (int \<Rightarrow> Operation \<Rightarrow> u64 \<Rightarrow> 'm \<Rightarrow> 'm res) \<Rightarrow> 'd db_registry \<Rightarrow> Properties \<Rightarrow> 'm
     \<Rightarrow> (('d, 'm) DBWrapper DB \<times> ('d, 'm) DBWrapper) option" where
  "CreateDB clock wall report registry props m =
     (let db_name = GetProperty props ''dbname'' ''basic'' in
      case registry db_name of
        None \<Rightarrow> None
      | Some (db, d) \<Rightarrow> Some (DBWrapper_ops clock wall report db, new_DBWrapper (db_SetProps db props d) m))"

interpretation db_registry: keyed_table "Map.empty :: 'd db_registry" RegisterDB "\<lambda>r. r"
  by unfold_locales (simp_all add: RegisterDB_def)

section \<open>The wrapper is transparent\<close>

abbreviation basic_report :: "int \<Rightarrow> Operation \<Rightarrow> u64 \<Rightarrow> BasicMeasurements \<Rightarrow> BasicMeasurements res" where
  "basic_report now op l m \<equiv> Inr (Basic_Report now op l m)"

lemma measured_basic:
  "measured clock wall basic_report op opf st call w =
     andThen (call (dw_db w)) (\<lambda>(s, d). Inr (s, w\<lparr>dw_db := d,
       dw_timer := Timer_Start (clock (2 * dw_tick w)),
       dw_measurements := Basic_Report (wall (dw_tick w)) (if st s = kOK then op else opf)
         (Timer_End (clock (2 * dw_tick w + 1)) (Timer_Start (clock (2 * dw_tick w)))) (dw_measurements w),
       dw_tick := dw_tick w + 1\<rparr>))"
  by (cases "call (dw_db w)") (auto simp: measured_def Let_def)

lemma measured_sim:
  "map_sum id (apsnd dw_db) (measured clock wall basic_report op opf st call w) = call (dw_db w)"
  by (cases "call (dw_db w)") (auto simp: measured_basic)

lemma map_sum_apfst_apsnd:
  "map_sum id (apsnd g) (map_sum id (apfst f) r) = map_sum id (apfst f) (map_sum id (apsnd g) r)"
  by (cases r) auto

interpretation wrapper: db_simulation "DBWrapper_ops clock wall basic_report db" db dw_db for clock wall db
proof unfold_locales
  fix c and s :: "('a, BasicMeasurements) DBWrapper"
  show "map_sum id (apsnd dw_db) (db_call (DBWrapper_ops clock wall basic_report db) c s) = db_call db c (dw_db s)"
    by (cases c) (simp_all add: DBWrapper_ops_def map_sum_apfst_apsnd measured_sim)
qed

text \<open>The operation under which a call is counted.\<close>

fun counted_as :: "dbcall \<Rightarrow> Status \<Rightarrow> Operation" where
  "counted_as (CRead _ _ _) s = (if s = kOK then READ else READ_FAILED)"
| "counted_as (CScan _ _ _ _) s = (if s = kOK then SCAN else SCAN_FAILED)"
| "counted_as (CUpdate _ _ _) s = (if s = kOK then UPDATE else UPDATE_FAILED)"
| "counted_as (CInsert _ _ _) s = (if s = kOK then INSERT else INSERT_FAILED)"
| "counted_as (CDelete _ _) s = (if s = kOK then DELETE else DELETE_FAILED)"
| "counted_as (CReadIdx _) s = (if s = kOK then RDIDX else RDIDX_FAILED)"

lemma wrapper_call_counts:
  assumes "db_call (DBWrapper_ops clock wall basic_report db) c w = Inr (r, w')" and "ms_report_on (dw_measurements w)"
  shows "ms_report_on (dw_measurements w')
     \<and> unat (bm_count (dw_measurements w') p) =
         (unat (bm_count (dw_measurements w) p) + (if p = counted_as c (result_status r) then 1 else 0)) mod 2 ^ 32"
  using assms basic_counts.count_report [OF assms(2)] basic_counts.reporting_report [OF assms(2)]
  by (cases c) (auto simp: DBWrapper_ops_def measured_basic map_sum_def andThen_def split: sum.splits)

lemma wrapper_calls_count:
  assumes "db_calls (DBWrapper_ops clock wall basic_report db) cs w = Inr (rs, w')" and "ms_report_on (dw_measurements w)"
  shows "length rs = length cs
     \<and> unat (bm_count (dw_measurements w') p) =
         (unat (bm_count (dw_measurements w) p)
          + count_list (map2 (\<lambda>c r. counted_as c (result_status r)) cs rs) p) mod 2 ^ 32"
  using assms
proof (induction cs arbitrary: w rs)
  case Nil
  then show ?case using unat_u32_bound [of "bm_count (dw_measurements w) p"] by simp
next
  case (Cons c cs)
  from Cons.prems(1) obtain r w1 rs1 where c: "db_call (DBWrapper_ops clock wall basic_report db) c w = Inr (r, w1)"
    and cs: "db_calls (DBWrapper_ops clock wall basic_report db) cs w1 = Inr (rs1, w')" and rs: "rs = r # rs1"
    by (auto simp: res_simps)
  note one = wrapper_call_counts [OF c Cons.prems(2)]
  from Cons.IH [OF cs] one show ?case
    by (simp add: rs mod_add_left_eq)
qed

section \<open>Properties\<close>

text \<open>C27: Measuring does not change what is measured: any sequence of calls through \<^verbatim>\<open>DBWrapper\<close> returns the same statuses, the same
  records and the same failure, and leaves the wrapped database in the same state, as the calls made directly.\<close>

theorem wrapper_transparent:
  "map_sum id (apsnd dw_db) (db_calls (DBWrapper_ops clock wall basic_report db) cs w) = db_calls db cs (dw_db w)"
  by (rule wrapper.calls_sim)

text \<open>C28: Every call through \<^verbatim>\<open>DBWrapper\<close> is counted once, under its operation when its status is \<^verbatim>\<open>kOK\<close> and under the failed
  operation otherwise: after any sequence of calls that returned, the count of each of the fourteen operations has grown by
  the number of calls that ended that way, modulo \<open>2\<^sup>3\<^sup>2\<close>.\<close>

theorem wrapper_counts_every_call:
  assumes "db_calls (DBWrapper_ops clock wall basic_report db) cs (new_DBWrapper d (new_BasicMeasurements 0)) = Inr (rs, w)"
  shows "length rs = length cs
     \<and> unat (bm_count (dw_measurements w) op) =
         count_list (map2 (\<lambda>c r. counted_as c (result_status r)) cs rs) op mod 2 ^ 32"
proof -
  have "ms_report_on (dw_measurements (new_DBWrapper d (new_BasicMeasurements 0)))"
    "bm_count (dw_measurements (new_DBWrapper d (new_BasicMeasurements 0))) op = 0"
    by (simp_all add: new_DBWrapper_def new_BasicMeasurements_def new_Measurements_def Measurements.extend_def
        BasicMeasurements.fields_def)
  with wrapper_calls_count [OF assms, of op] show ?thesis by simp
qed

theorem wrapper_counts_every_call_witness:
  "\<exists>rs w. db_calls (DBWrapper_ops (\<lambda>i. int i) (\<lambda>i. int i) basic_report BasicDB_ops)
       [CInsert ''t'' ''k'' [], CRead ''t'' ''k'' None, CInsert ''t'' ''j'' []]
       (new_DBWrapper (\<lparr>bd_props = no_properties, bd_out = SilentStream, bd_cout = []\<rparr>) (new_BasicMeasurements 0)) = Inr (rs, w)
     \<and> unat (bm_count (dw_measurements w) INSERT) = 2"
proof -
  let ?w = "new_DBWrapper (\<lparr>bd_props = no_properties, bd_out = SilentStream, bd_cout = []\<rparr>) (new_BasicMeasurements 0)"
  let ?cs = "[CInsert ''t'' ''k'' [], CRead ''t'' ''k'' None, CInsert ''t'' ''j'' []]"
  have run: "\<exists>w. db_calls (DBWrapper_ops (\<lambda>i. int i) (\<lambda>i. int i) basic_report BasicDB_ops) ?cs ?w =
      Inr ([RStatus kOK, RFields kOK [], RStatus kOK], w)"
    by (simp add: DBWrapper_ops_def BasicDB_ops_def measured_basic BasicDB_Insert_def BasicDB_Read_def put_def new_DBWrapper_def)
  then obtain w where w: "db_calls (DBWrapper_ops (\<lambda>i. int i) (\<lambda>i. int i) basic_report BasicDB_ops) ?cs ?w =
      Inr ([RStatus kOK, RFields kOK [], RStatus kOK], w)" by blast
  from wrapper_counts_every_call [OF w, of INSERT] w show ?thesis by auto
qed

end
