(* ===== verification/Client.thy ===== *)
theory Client
  imports Workload_Variants DB_Impl
begin

text \<open>
  The client side: \<^verbatim>\<open>ClientThread\<close> of \<^verbatim>\<open>src/core/client.h\<close>, and the phases, the status thread and the
  rate-limit thread of \<^verbatim>\<open>src/core/ycsbc.cc\<close>. A clock reading is given by a function of the number of
  readings made so far; times are nanoseconds. The threads of a phase together are in \<open>Threads\<close> and
  \<^verbatim>\<open>main\<close> as a whole in \<open>Main_Program\<close>; output to the console is not modelled.
\<close>

section \<open>A client thread\<close>

record 's client =
  cl_state :: 's
  cl_latch :: CountDownLatch
  cl_init_latch :: CountDownLatch
  cl_rlim :: "RateLimiter option"
  cl_tick :: nat

definition in_state :: "('s, 'a) eff \<Rightarrow> ('s client, 'a) eff" where
  "in_state m c =
     (case m (cl_state c) of
        None \<Rightarrow> None
      | Some (Inl e) \<Rightarrow> Some (Inl e)
      | Some (Inr (x, s)) \<Rightarrow> Some (Inr (x, c\<lparr>cl_state := s\<rparr>)))"

text \<open>\<open>rlim->Consume(1)\<close> at the steady clock; the sleep it asks for passes before the next reading.\<close>

definition consume_one :: "(nat \<Rightarrow> int) \<Rightarrow> ('s client, unit) eff" where
  "consume_one steady = lift (\<lambda>c.
     case cl_rlim c of
       None \<Rightarrow> Inr ((), c)
     | Some l \<Rightarrow> andThen (Consume 1 (steady (cl_tick c)) l) (\<lambda>(l, wait). Inr ((), c\<lparr>cl_rlim := Some l\<rparr>)))"

text \<open>The loop over the operations: \<open>n\<close> more of them.\<close>

fun client_loop ::
    "(nat \<Rightarrow> int) \<Rightarrow> (nat \<Rightarrow> int) \<Rightarrow> ('s, 't) WorkloadOps \<Rightarrow> bool \<Rightarrow> int \<Rightarrow> int \<Rightarrow> nat \<Rightarrow> 't \<Rightarrow> bool \<Rightarrow> int \<Rightarrow> int
     \<Rightarrow> ('s client, int \<times> int) eff" where
  "client_loop sys steady wl is_loading sec_skip start 0 ts count_on skipped_ok oks = ret (oks, skipped_ok)"
| "client_loop sys steady wl is_loading sec_skip start (Suc n) ts count_on skipped_ok oks =
     bind (lift (\<lambda>c. Inr (cl_tick c, c\<lparr>cl_tick := cl_tick c + 1\<rparr>))) (\<lambda>i.
     let (count_on, skipped_ok) =
           (if \<not> count_on
            then (cdiv (sys i - start) 1000000000 > sec_skip, oks)
            else (count_on, skipped_ok))
     in bind (consume_one steady) (\<lambda>_.
        bind (in_state (if is_loading then w_DoInsert wl ts else w_DoTransaction wl ts)) (\<lambda>(ok, ts).
        client_loop sys steady wl is_loading sec_skip start n ts count_on skipped_ok (oks + (if ok then 1 else 0)))))"

definition count_down_init :: "('s client, unit) eff" where
  "count_down_init = lift (\<lambda>c. Inr ((), c\<lparr>cl_init_latch := fst (CountDown (cl_init_latch c))\<rparr>))"

definition count_down_done :: "('s client, unit) eff" where
  "count_down_done = lift (\<lambda>c. Inr ((), c\<lparr>cl_latch := fst (CountDown (cl_latch c))\<rparr>))"

text \<open>The handler around the body: \<^verbatim>\<open>utils::Exception\<close> ends the process, other exceptions leave the thread.\<close>

definition catch_Exception :: "('s, 'a) eff \<Rightarrow> ('s, 'a) eff" where
  "catch_Exception m s =
     (case m s of
        Some (Inl (Exception msg)) \<Rightarrow> Some (Inl (Exit 1))
      | r \<Rightarrow> r)"

definition ClientThread ::
    "(nat \<Rightarrow> int) \<Rightarrow> (nat \<Rightarrow> int) \<Rightarrow> ('s, unit) eff \<Rightarrow> ('s, unit) eff \<Rightarrow> ('s, 't) WorkloadOps \<Rightarrow> Properties
     \<Rightarrow> int \<Rightarrow> int \<Rightarrow> int \<Rightarrow> bool \<Rightarrow> bool \<Rightarrow> bool \<Rightarrow> int \<Rightarrow> ('s client, int) eff" where
  "ClientThread sys steady dbInit dbCleanup wl p num_ops thread_id thread_count is_loading init_db cleanup_db sec_skip =
     catch_Exception (
       bind (if init_db then in_state dbInit else ret ()) (\<lambda>_.
       bind (in_state (w_InitThread wl p thread_id thread_count num_ops)) (\<lambda>thread_state.
       bind count_down_init (\<lambda>_.
       bind (lift (\<lambda>c. Inr (sys (cl_tick c), c\<lparr>cl_tick := cl_tick c + 1\<rparr>))) (\<lambda>start.
       bind (client_loop sys steady wl is_loading sec_skip start (nat num_ops) thread_state (sec_skip = 0) 0 0) (\<lambda>(oks, skipped_ok).
       bind (if cleanup_db then in_state dbCleanup else ret ()) (\<lambda>_.
       bind count_down_done (\<lambda>_.
       ret (oks - skipped_ok)))))))))"

section \<open>The phases of the main program\<close>

text \<open>\<^verbatim>\<open>thread_ops\<close> of thread \<open>i\<close>.\<close>

definition thread_ops :: "int \<Rightarrow> int \<Rightarrow> int \<Rightarrow> int" where
  "thread_ops total_ops num_threads i =
     (let n = cdiv total_ops num_threads in if i < cmod total_ops num_threads then n + 1 else n)"

text \<open>The arguments that \<^verbatim>\<open>main\<close> passes to each \<^verbatim>\<open>ClientThread\<close>.\<close>

record thread_args =
  ta_num_ops :: int
  ta_thread_id :: int
  ta_thread_count :: int
  ta_is_loading :: bool
  ta_init_db :: bool
  ta_cleanup_db :: bool
  ta_rate :: "int option"

definition load_threads :: "int \<Rightarrow> int \<Rightarrow> int \<Rightarrow> bool \<Rightarrow> (nat \<Rightarrow> bool) \<Rightarrow> thread_args list" where
  "load_threads num_threads total_ops ops_limit do_transaction reinit =
     map (\<lambda>i. \<lparr>ta_num_ops = thread_ops total_ops num_threads (int i), ta_thread_id = int i,
               ta_thread_count = num_threads, ta_is_loading = True, ta_init_db = True,
               ta_cleanup_db = (\<not> do_transaction \<or> reinit i),
               ta_rate = (if ops_limit > 0 then Some (cdiv ops_limit num_threads) else None)\<rparr>) [0..<nat num_threads]"

definition run_threads :: "int \<Rightarrow> int \<Rightarrow> int \<Rightarrow> string \<Rightarrow> bool \<Rightarrow> (nat \<Rightarrow> bool) \<Rightarrow> thread_args list" where
  "run_threads num_threads total_ops ops_limit rate_file do_load reinit =
     map (\<lambda>i. \<lparr>ta_num_ops = thread_ops total_ops num_threads (int i), ta_thread_id = int i,
               ta_thread_count = num_threads, ta_is_loading = False, ta_init_db = (\<not> do_load \<or> reinit i),
               ta_cleanup_db = True,
               ta_rate = (if ops_limit > 0 \<or> rate_file \<noteq> [] then Some (cdiv ops_limit num_threads) else None)\<rparr>)
       [0..<nat num_threads]"

text \<open>
  What \<^verbatim>\<open>main\<close> decides before and between the phases: whether it stops, and the threads of the two
  phases. \<open>meas\<close>, \<open>db_known\<close> and \<open>wl_known\<close> say whether \<^verbatim>\<open>CreateMeasurements\<close>, \<^verbatim>\<open>CreateDB\<close> and \<^verbatim>\<open>CreateWorkload\<close> returned
  an object. The result of \<^verbatim>\<open>CreateWorkload\<close> is used without a check.
\<close>

record main_plan =
  mp_load :: "thread_args list option"
  mp_run :: "thread_args list option"

definition plan_main :: "bool \<Rightarrow> bool \<Rightarrow> bool \<Rightarrow> (nat \<Rightarrow> bool) \<Rightarrow> Properties \<Rightarrow> main_plan res" where
  "plan_main meas db_known wl_known reinit props =
     (let do_load = (GetProperty props ''doload'' ''false'' = ''true'');
          do_transaction = (GetProperty props ''dotransaction'' ''false'' = ''true'')
      in if \<not> do_load \<and> \<not> do_transaction then Inl (Exit 1)
         else
         andThen (stoi (GetProperty props ''threadcount'' ''1'')) (\<lambda>num_threads.
         if \<not> meas then Inl (Exit 1)
         else if 0 < num_threads \<and> \<not> db_known then Inl (Exit 1)
         else if \<not> wl_known then Inl (Undefined ''null workload'')
         else
         andThen (stoi (GetProperty props ''status.interval'' ''10'')) (\<lambda>_.
         andThen (stoi (GetProperty props ''status.intervalus'' ''1000'')) (\<lambda>_.
         andThen (stol (GetProperty props ''secskip'' ''0'')) (\<lambda>_.
         andThen (if do_load then
                    andThen (stoi (GetProperty props ''limit.ops'' ''0'')) (\<lambda>ops_limit.
                    andThen (property_at props ''recordcount'') (\<lambda>rc.
                    andThen (stoi rc) (\<lambda>total_ops.
                    Inr (Some (load_threads num_threads total_ops ops_limit do_transaction reinit)))))
                  else Inr None) (\<lambda>load.
         andThen (stoi (GetProperty props ''sleepafterload'' ''0'')) (\<lambda>_.
         andThen (if do_transaction then
                    andThen (stoi (GetProperty props ''limit.ops'' ''0'')) (\<lambda>ops_limit.
                    andThen (property_at props ''operationcount'') (\<lambda>oc.
                    andThen (stoi oc) (\<lambda>total_ops.
                    Inr (Some (run_threads num_threads total_ops ops_limit (GetProperty props ''limit.file'' '''')
                                 do_load reinit)))))
                  else Inr None) (\<lambda>run.
         Inr \<lparr>mp_load = load, mp_run = run\<rparr>)))))))) "

section \<open>The status thread\<close>

text \<open>
  The loop of \<^verbatim>\<open>StatusThread\<close> after \<^verbatim>\<open>Start\<close>: \<open>answer j\<close> is what the \<open>j\<close>-th wait on the latch returns. With both
  intervals zero or negative the code waits for nothing and \<^verbatim>\<open>done\<close> stays false. The result is the messages.
\<close>

partial_function (option) status_loop ::
    "int \<Rightarrow> int \<Rightarrow> (nat \<Rightarrow> bool) \<Rightarrow> nat \<Rightarrow> bool \<Rightarrow> (u64 \<times> StatusEntry list) list \<Rightarrow> BasicMeasurements
     \<Rightarrow> ((u64 \<times> StatusEntry list) list \<times> BasicMeasurements) option" where
  "status_loop interval interval_us answer j fin msgs m =
     (let (msg, m) = Basic_GetStatusMsg m; msgs = msgs @ [msg] in
      if fin then Some (msgs, m)
      else if interval > 0 then status_loop interval interval_us answer (Suc j) (answer j) msgs m
      else if interval_us > 0 then status_loop interval interval_us answer (Suc j) (answer j) msgs m
      else status_loop interval interval_us answer j fin msgs m)"

definition StatusThread ::
    "int \<Rightarrow> int \<Rightarrow> (nat \<Rightarrow> bool) \<Rightarrow> int \<Rightarrow> BasicMeasurements
     \<Rightarrow> ((u64 \<times> StatusEntry list) list \<times> BasicMeasurements) option" where
  "StatusThread interval interval_us answer now m =
     status_loop interval interval_us answer 0 False [] (Measurements_Start now m)"

section \<open>The rate-limit thread\<close>

text \<open>
  The loop of \<^verbatim>\<open>RateLimitThread\<close> over the numbers of the rate file. \<open>rest\<close> says whether anything follows the
  last number (a newline), in which case \<^verbatim>\<open>eof()\<close> is still false and the next extraction leaves the
  two uninitialised variables as they are. \<open>answer j\<close> is what the \<open>j\<close>-th \<^verbatim>\<open>AwaitFor\<close> returns and \<open>steady j\<close> the
  clock that the following \<^verbatim>\<open>SetRate\<close> calls read. The exception object for a time that does not
  increase is built but not thrown.
\<close>

fun set_all :: "int \<Rightarrow> int \<Rightarrow> RateLimiter list \<Rightarrow> RateLimiter list res" where
  "set_all r now [] = Inr []"
| "set_all r now (l # ls) = andThen (SetRate r now l) (\<lambda>l. andThen (set_all r now ls) (\<lambda>ls. Inr (l # ls)))"

fun rate_loop ::
    "bool \<Rightarrow> (nat \<Rightarrow> bool) \<Rightarrow> (nat \<Rightarrow> int) \<Rightarrow> nat \<Rightarrow> int list \<Rightarrow> int \<Rightarrow> RateLimiter list \<Rightarrow> RateLimiter list res" where
  "rate_loop rest answer steady j (next_time # next_rate # ns) last_time ls =
     (if answer j then Inr ls
      else andThen (set_all (cdiv next_rate (int (length ls))) (steady j) ls) (\<lambda>ls.
        if ns = [] \<and> \<not> rest then Inr ls
        else rate_loop rest answer steady (Suc j) ns next_time ls))"
| "rate_loop rest answer steady j _ last_time ls = Inl (Undefined ''uninitialised time or rate'')"

text \<open>A file that is not open is at its end from the start only after a read: the first extraction fails.\<close>

definition RateLimitThread ::
    "(int list \<times> bool) option \<Rightarrow> (nat \<Rightarrow> bool) \<Rightarrow> (nat \<Rightarrow> int) \<Rightarrow> RateLimiter list \<Rightarrow> RateLimiter list res" where
  "RateLimitThread file answer steady ls =
     (case file of
        None \<Rightarrow> Inl (Undefined ''uninitialised time or rate'')
      | Some (ns, rest) \<Rightarrow> rate_loop rest answer steady 0 ns 0 ls)"

section \<open>Loading\<close>

lemma DoInsert_ok:
  assumes env: "env_ok env" and db: "db_serves db I (wl_call (cx_wl s))" and inv: "I (cx_db s)" and ok: "cx_ok k n s"
    and c: "wl_insert_key_sequence (cx_wl s) = Some c"
  shows "\<exists>st s' vs. DoInsert env db s = Some (Inr (st = kOK, s')) \<and> write_shape (cx_wl s) vs
     \<and> db_Insert db (wl_table_name (cx_wl s)) (BuildKeyName (cx_wl s) (cnt_counter c)) vs (cx_db s) = Inr (st, cx_db s')
     \<and> cx_ok k n s' \<and> wl_insert_key_sequence (cx_wl s') = Some (snd (CounterGenerator_Next c))
     \<and> wl_transaction_insert_key_sequence (cx_wl s') = wl_transaction_insert_key_sequence (cx_wl s)
     \<and> I (cx_db s') \<and> wl_stable (cx_wl s) (cx_wl s')"
proof -
  define s1 where "s1 = s\<lparr>cx_wl := (cx_wl s)\<lparr>wl_insert_key_sequence := Some (snd (CounterGenerator_Next c))\<rparr>\<rparr>"
  have one: "next_insert_key s = Some (Inr (cnt_counter c, s1))"
    using c by (simp add: next_insert_key_def s1_def CounterGenerator_Next_def)
  have ok1: "quiet k n s1 s1" using ok by (intro quiet_refl) (simp add: cx_ok_def wl_ok_def s1_def)
  obtain vs s2 where v: "build_write env s1 = Some (Inr (vs, s2))" "quiet k n s1 s2" "write_shape (cx_wl s1) vs"
    by (rule write_step [OF env ok1])
  have cfg: "wl_table_name (cx_wl s1) = wl_table_name (cx_wl s)" "BuildKeyName (cx_wl s1) = BuildKeyName (cx_wl s)"
    "write_shape (cx_wl s1) = write_shape (cx_wl s)" "cx_db s1 = cx_db s" "read_shape (cx_wl s1) = read_shape (cx_wl s)"
    by (simp_all add: s1_def BuildKeyName_def write_shape_def read_shape_def fun_eq_iff)
  let ?t = "wl_table_name (cx_wl s)" and ?key = "BuildKeyName (cx_wl s) (cnt_counter c)"
  obtain st d' where i: "db_Insert db ?t ?key vs (cx_db s) = Inr (st, d')" "I d'"
    using db_servesE(4) [OF db inv v(3) [unfolded cfg(3)]] by blast
  have "DoInsert env db s = Some (Inr (st = kOK, s2\<lparr>cx_db := d'\<rparr>))"
    unfolding DoInsert_def using one v(1) i quietD [OF v(2)] cfg by (simp add: tx_simps)
  moreover have "wl_insert_key_sequence (cx_wl s2) = Some (snd (CounterGenerator_Next c))"
    "wl_transaction_insert_key_sequence (cx_wl s2) = wl_transaction_insert_key_sequence (cx_wl s)"
    using v(2) by (simp_all add: quiet_def same_cfg_def s1_def)
  moreover have "wl_stable (cx_wl s1) (cx_wl s2)" by (rule quiet_stable [OF v(2)])
  then have "wl_stable (cx_wl s) (cx_wl s2)" using cfg wl_call_shapes [of "cx_wl s1" "cx_wl s"] by (simp add: wl_stable_def)
  ultimately show ?thesis
    using v(3) i cfg quietD(1) [OF v(2)] by (intro exI [of _ st] exI [of _ "s2\<lparr>cx_db := d'\<rparr>"] exI [of _ vs]) auto
qed

fun do_inserts :: "'e env \<Rightarrow> 'd DB \<Rightarrow> nat \<Rightarrow> (('e, 'd) ctx, bool list) eff" where
  "do_inserts env db 0 = ret []"
| "do_inserts env db (Suc m) = bind (DoInsert env db) (\<lambda>b. bind (do_inserts env db m) (\<lambda>bs. ret (b # bs)))"

text \<open>The calls of a load of \<open>m\<close> records, from key number \<open>b\<close> on.\<close>

definition load_trace :: "'e CoreWorkload \<Rightarrow> u64 \<Rightarrow> nat \<Rightarrow> dbcall list \<Rightarrow> bool" where
  "load_trace w b m cs \<longleftrightarrow> list_all2 (\<lambda>i call. \<exists>vs. write_shape w vs
     \<and> call = CInsert (wl_table_name w) (BuildKeyName w (b + of_nat i)) vs) [0..<m] cs"

lemma write_shape_stable: "wl_stable w w' \<Longrightarrow> write_shape w' = write_shape w"
proof
  fix vs assume "wl_stable w w'"
  then have "wl_call w' (CInsert [] [] vs) = wl_call w (CInsert [] [] vs)" by (simp add: wl_stable_def)
  then show "write_shape w' vs = write_shape w vs" by simp
qed

lemma load_trace_Suc:
  assumes "load_trace w' (b + 1) m cs" and "wl_stable w w'" and "write_shape w vs"
  shows "load_trace w b (Suc m) (CInsert (wl_table_name w) (BuildKeyName w b) vs # cs)"
proof -
  have upt: "[0..<Suc m] = 0 # map Suc [0..<m]" by (simp add: upt_conv_Cons map_Suc_upt del: upt_Suc)
  show ?thesis
    unfolding load_trace_def upt using assms write_shape_stable [OF assms(2)]
    by (simp add: load_trace_def wl_stable_def list_all2_map1 add.assoc)
qed

lemma do_inserts_ok:
  assumes env: "env_ok env" and "db_serves db I (wl_call (cx_wl s))" and "I (cx_db s)" and "cx_ok k n s"
    and "wl_insert_key_sequence (cx_wl s) = Some c"
  shows "\<exists>bs s' cs rs. do_inserts env db m s = Some (Inr (bs, s')) \<and> db_calls db cs (cx_db s) = Inr (rs, cx_db s')
     \<and> load_trace (cx_wl s) (cnt_counter c) m cs \<and> bs = map (\<lambda>r. result_status r = kOK) rs
     \<and> cx_ok k n s' \<and> I (cx_db s') \<and> wl_stable (cx_wl s) (cx_wl s')
     \<and> wl_transaction_insert_key_sequence (cx_wl s') = wl_transaction_insert_key_sequence (cx_wl s)"
  using assms(2-5)
proof (induction m arbitrary: s c)
  case 0
  then show ?case by (intro exI [of _ "[]"]) (simp add: load_trace_def wl_stable_def)
next
  case (Suc m)
  obtain st s1 vs where i: "DoInsert env db s = Some (Inr (st = kOK, s1))" "write_shape (cx_wl s) vs"
    "db_Insert db (wl_table_name (cx_wl s)) (BuildKeyName (cx_wl s) (cnt_counter c)) vs (cx_db s) = Inr (st, cx_db s1)"
    and i1: "cx_ok k n s1" "wl_insert_key_sequence (cx_wl s1) = Some (snd (CounterGenerator_Next c))"
    "wl_transaction_insert_key_sequence (cx_wl s1) = wl_transaction_insert_key_sequence (cx_wl s)"
    "I (cx_db s1)" "wl_stable (cx_wl s) (cx_wl s1)"
    using DoInsert_ok [OF env Suc.prems] by blast
  have "db_serves db I (wl_call (cx_wl s1))" using Suc.prems(1) i1(5) by (simp add: wl_stable_def)
  from Suc.IH [OF this i1(4,1,2)] obtain bs s' cs rs where
    r: "do_inserts env db m s1 = Some (Inr (bs, s'))" "db_calls db cs (cx_db s1) = Inr (rs, cx_db s')"
    "load_trace (cx_wl s1) (cnt_counter (snd (CounterGenerator_Next c))) m cs" "bs = map (\<lambda>r. result_status r = kOK) rs"
    "cx_ok k n s'" "I (cx_db s')" "wl_stable (cx_wl s1) (cx_wl s')"
    "wl_transaction_insert_key_sequence (cx_wl s') = wl_transaction_insert_key_sequence (cx_wl s1)" by blast
  let ?c = "CInsert (wl_table_name (cx_wl s)) (BuildKeyName (cx_wl s) (cnt_counter c)) vs"
  have "load_trace (cx_wl s) (cnt_counter c) (Suc m) (?c # cs)"
    using r(3) i1(5) i(2) by (intro load_trace_Suc) (simp_all add: CounterGenerator_Next_def)
  moreover have "do_inserts env db (Suc m) s = Some (Inr ((st = kOK) # bs, s'))" using i(1) r(1) by simp
  moreover have "db_calls db (?c # cs) (cx_db s) = Inr (RStatus st # rs, cx_db s')" using i(3) r(2) by simp
  moreover have "wl_stable (cx_wl s) (cx_wl s')" by (rule wl_stable_trans [OF i1(5) r(7)])
  ultimately show ?case using r(4-6,8) i1(3)
    by (intro exI [of _ "(st = kOK) # bs"] exI [of _ s'] exI [of _ "?c # cs"] exI [of _ "RStatus st # rs"]) simp
qed

section \<open>The contract between a workload and its client\<close>

text \<open>
  What a client thread needs of a workload: while it has \<open>k\<close> operations left, an operation returns and
  leaves the workload ready for \<open>k - 1\<close>.
\<close>

locale workload_client =
  fixes wl :: "('s, 't) WorkloadOps" and ready :: "nat \<Rightarrow> 's \<Rightarrow> 't \<Rightarrow> bool"
  assumes transaction_ready: "ready (Suc k) s ts \<Longrightarrow> yields (w_DoTransaction wl ts) s (\<lambda>(ok, ts') s'. ready k s' ts')"
    and insert_ready: "ready (Suc k) s ts \<Longrightarrow> yields (w_DoInsert wl ts) s (\<lambda>(ok, ts') s'. ready k s' ts')"
begin

lemma operation_ready:
  "ready (Suc k) s ts \<Longrightarrow> yields (if b then w_DoInsert wl ts else w_DoTransaction wl ts) s (\<lambda>(ok, ts') s'. ready k s' ts')"
  using transaction_ready insert_ready by simp

lemma loop_returns:
  assumes "ready n (cl_state c) ts" and "cl_rlim c = None" and "skipped \<le> oks"
  shows "yields (client_loop sys steady wl b sec_skip start n ts on skipped oks) c (\<lambda>(oks', skipped') c'.
     oks \<le> oks' \<and> oks' \<le> oks + int n \<and> skipped \<le> skipped' \<and> skipped' \<le> oks' \<and> (on \<longrightarrow> skipped' = skipped)
     \<and> cl_latch c' = cl_latch c \<and> cl_init_latch c' = cl_init_latch c)"
  using assms
proof (induction n arbitrary: c ts on skipped oks)
  case 0
  then show ?case unfolding client_loop.simps by (intro yields_ret) simp
next
  case (Suc n)
  define c1 where "c1 = c\<lparr>cl_tick := cl_tick c + 1\<rparr>"
  obtain ok ts' s' where o: "(if b then w_DoInsert wl ts else w_DoTransaction wl ts) (cl_state c) = Some (Inr ((ok, ts'), s'))"
    "ready n s' ts'"
    using operation_ready [OF Suc.prems(1), of b] by (auto simp: yields_def)
  define on' where "on' = (if \<not> on then cdiv (sys (cl_tick c) - start) 1000000000 > sec_skip else on)"
  define skipped' where "skipped' = (if \<not> on then oks else skipped)"
  define oks' where "oks' = oks + (if ok then 1 else 0)"
  have st: "consume_one steady c1 = Some (Inr ((), c1))" using Suc.prems(2) by (simp add: consume_one_def c1_def)
  have op: "in_state (if b then w_DoInsert wl ts else w_DoTransaction wl ts) c1 = Some (Inr ((ok, ts'), c1\<lparr>cl_state := s'\<rparr>))"
    using o(1) by (simp add: in_state_def c1_def)
  have unfold: "client_loop sys steady wl b sec_skip start (Suc n) ts on skipped oks c =
      client_loop sys steady wl b sec_skip start n ts' on' skipped' oks' (c1\<lparr>cl_state := s'\<rparr>)"
    using st op by (simp add: c1_def on'_def skipped'_def oks'_def)
  have "yields (client_loop sys steady wl b sec_skip start n ts' on' skipped' oks') (c1\<lparr>cl_state := s'\<rparr>) (\<lambda>(o', k') c'.
     oks' \<le> o' \<and> o' \<le> oks' + int n \<and> skipped' \<le> k' \<and> k' \<le> o' \<and> (on' \<longrightarrow> k' = skipped')
     \<and> cl_latch c' = cl_latch (c1\<lparr>cl_state := s'\<rparr>) \<and> cl_init_latch c' = cl_init_latch (c1\<lparr>cl_state := s'\<rparr>))"
    using o(2) Suc.prems(2,3) by (intro Suc.IH) (auto simp: c1_def skipped'_def oks'_def)
  then show ?case
    unfolding yields_def unfold using Suc.prems(3)
    by (auto simp: c1_def skipped'_def oks'_def on'_def split: if_splits)
qed

end

text \<open>The core workload keeps the contract.\<close>

definition core_ready :: "'e env \<Rightarrow> 'd DB \<Rightarrow> ('d \<Rightarrow> bool) \<Rightarrow> nat \<Rightarrow> ('e, 'd) ctx \<Rightarrow> unit \<Rightarrow> bool" where
  "core_ready env db I k s u \<longleftrightarrow> env_ok env \<and> db_serves db I (wl_call (cx_wl s)) \<and> I (cx_db s)
     \<and> (\<exists>n. cx_ok k n s \<and> settled n (wl_transaction_insert_key_sequence (cx_wl s)))"

interpretation core_client: workload_client "CoreWorkloadOps env db" "core_ready env db I"
  for env :: "'e env" and db :: "'d DB" and I :: "'d \<Rightarrow> bool"
proof unfold_locales
  fix k and s :: "('e, 'd) ctx" and ts
  assume r: "core_ready env db I (Suc k) s ts"
  then obtain n where env: "env_ok env" and db: "db_serves db I (wl_call (cx_wl s))" "I (cx_db s)" and ok: "cx_ok (Suc k) n s"
    and idle: "settled n (wl_transaction_insert_key_sequence (cx_wl s))"
    by (auto simp: core_ready_def)
  have serves: "wl_stable (cx_wl s) w \<Longrightarrow> db_serves db I (wl_call w)" for w using db(1) by (simp add: wl_stable_def)
  have "yields (bind (DoTransaction env db) (\<lambda>b. ret (b, ts))) s (\<lambda>(ok, ts') s'. core_ready env db I k s' ts')"
    by (rule yields_bind [OF DoTransaction_ok [OF env db ok idle]])
      (rule yields_ret, use env serves in \<open>auto simp: core_ready_def Let_def split: if_splits\<close>)
  then show "yields (w_DoTransaction (CoreWorkloadOps env db) ts) s (\<lambda>(ok, ts') s'. core_ready env db I k s' ts')"
    by (simp add: CoreWorkloadOps_def)
  obtain c where c: "wl_insert_key_sequence (cx_wl s) = Some c" using ok by (auto simp: cx_ok_def wl_ok_def)
  from DoInsert_ok [OF env db cx_ok_less [OF ok] c] idle env serves
  have "yields (DoInsert env db) s (\<lambda>b s'. core_ready env db I k s' ())"
    by (fastforce simp: yields_def core_ready_def)
  then have "yields (bind (DoInsert env db) (\<lambda>b. ret (b, ts))) s (\<lambda>(ok, ts') s'. core_ready env db I k s' ts')"
    by (rule yields_bind) (rule yields_ret, simp)
  then show "yields (w_DoInsert (CoreWorkloadOps env db) ts) s (\<lambda>(ok, ts') s'. core_ready env db I k s' ts')"
    by (simp add: CoreWorkloadOps_def)
qed

section \<open>Lemmas on the phases\<close>

lemma sum_thread_ops:
  assumes "0 \<le> ops_total" and "0 < num"
  shows "sum_list (map (\<lambda>i. thread_ops ops_total num (int i)) [0..<nat num]) = ops_total"
proof -
  define r where "r = nat (ops_total mod num)"
  have ops: "thread_ops ops_total num (int i) = ops_total div num + (if i < r then 1 else 0)" for i
    using assms by (auto simp: thread_ops_def Let_def r_def zless_nat_eq_int_zless)
  have rn: "r \<le> nat num" using pos_mod_bound [OF assms(2), of ops_total] by (simp add: r_def nat_mono)
  have "sum_list (map (\<lambda>i. thread_ops ops_total num (int i)) [0..<nat num]) = (\<Sum>i = 0..<nat num. ops_total div num + (if i < r then 1 else 0))"
    by (simp add: ops interv_sum_list_conv_sum_set_nat)
  also have "\<dots> = num * (ops_total div num) + (\<Sum>i = 0..<nat num. if i < r then 1 else 0)"
    using assms by (simp add: sum.distrib)
  also have "(\<Sum>i = 0..<nat num. if i < r then 1 else (0 :: int)) = (\<Sum>i \<in> {0..<nat num} \<inter> {i. i < r}. 1)"
    by (simp add: sum.If_cases)
  also have "{0..<nat num} \<inter> {i. i < r} = {0..<r}" using rn by auto
  finally show ?thesis using assms by (simp add: r_def)
qed

text \<open>The calls of \<^verbatim>\<open>Init\<close> and \<^verbatim>\<open>Cleanup\<close> on the database of thread \<open>i\<close>, and the operations, over both phases.\<close>

datatype db_event = EInit | EOps | ECleanup

definition thread_events :: "thread_args \<Rightarrow> db_event list" where
  "thread_events a = (if ta_init_db a then [EInit] else []) @ [EOps] @ (if ta_cleanup_db a then [ECleanup] else [])"

definition db_events :: "main_plan \<Rightarrow> nat \<Rightarrow> db_event list" where
  "db_events mp i =
     (case mp_load mp of None \<Rightarrow> [] | Some as \<Rightarrow> thread_events (as ! i))
     @ (case mp_run mp of None \<Rightarrow> [] | Some as \<Rightarrow> thread_events (as ! i))"

text \<open>Operations happen only between an \<^verbatim>\<open>Init\<close> and the next \<^verbatim>\<open>Cleanup\<close>, and the two alternate.\<close>

fun bracketed :: "bool \<Rightarrow> db_event list \<Rightarrow> bool" where
  "bracketed opened [] \<longleftrightarrow> \<not> opened"
| "bracketed opened (EInit # es) \<longleftrightarrow> \<not> opened \<and> bracketed True es"
| "bracketed opened (EOps # es) \<longleftrightarrow> opened \<and> bracketed opened es"
| "bracketed opened (ECleanup # es) \<longleftrightarrow> opened \<and> bracketed False es"

lemma status_loop_step:
  assumes "0 < interval \<or> 0 < interval_us"
  shows "status_loop interval interval_us answer j False msgs m =
     status_loop interval interval_us answer (Suc j) (answer j) (msgs @ [fst (Basic_GetStatusMsg m)]) (snd (Basic_GetStatusMsg m))"
    and "status_loop interval interval_us answer j True msgs m =
     Some (msgs @ [fst (Basic_GetStatusMsg m)], snd (Basic_GetStatusMsg m))"
  using assms by (subst status_loop.simps; auto simp: split_beta Let_def)+

lemma status_loop_returns:
  assumes iv: "0 < interval \<or> 0 < interval_us" and "\<forall>i < k. \<not> answer (j + i)" and "answer (j + k)"
  shows "\<exists>new m'. status_loop interval interval_us answer j False msgs m = Some (msgs @ new, m') \<and> length new = k + 2"
  using assms(2,3)
proof (induction k arbitrary: j msgs m)
  case 0
  then show ?case using status_loop_step [OF iv, of answer] by simp
next
  case (Suc k)
  have nj: "\<not> answer j" using Suc.prems(1) by (metis add.right_neutral zero_less_Suc)
  let ?msg = "fst (Basic_GetStatusMsg m)" and ?m = "snd (Basic_GetStatusMsg m)"
  have "\<exists>new m'. status_loop interval interval_us answer (Suc j) False (msgs @ [?msg]) ?m = Some ((msgs @ [?msg]) @ new, m')
      \<and> length new = k + 2"
  proof (rule Suc.IH)
    show "\<forall>i < k. \<not> answer (Suc j + i)" using Suc.prems(1) by (metis Suc_less_eq add_Suc_shift)
    show "answer (Suc j + k)" using Suc.prems(2) by simp
  qed
  then obtain new m' where "status_loop interval interval_us answer (Suc j) False (msgs @ [?msg]) ?m = Some ((msgs @ [?msg]) @ new, m')"
    "length new = k + 2" by blast
  then show ?case using status_loop_step(1) [OF iv, of answer j msgs m] nj
    by (intro exI [of _ "?msg # new"] exI [of _ m']) simp
qed

lemma status_loop_forever:
  assumes "interval \<le> 0" and "interval_us \<le> 0"
  shows "status_loop interval interval_us answer j False msgs m = None"
proof (rule ccontr)
  assume "status_loop interval interval_us answer j False msgs m \<noteq> None"
  then obtain y where y: "status_loop interval interval_us answer j False msgs m = Some y" by auto
  have "\<not> (False = False \<and> interval \<le> 0 \<and> interval_us \<le> 0)"
    by (rule status_loop.raw_induct [where P = "\<lambda>i u _ _ f _ _ _. \<not> (f = False \<and> i \<le> 0 \<and> u \<le> 0)", OF _ y])
      (fastforce simp: split_beta Let_def not_less split: if_splits)
  with assms show False by simp
qed

section \<open>Properties\<close>

text \<open>The main program splits the work exactly: for every number of threads and every total, the operations of the client
  threads of the load phase and of the run phase add up to the configured total, and no two threads differ by more than one.\<close>

theorem work_is_split_exactly:
  assumes "0 \<le> ops_total" and "0 < num"
  shows "sum_list (map ta_num_ops (load_threads num ops_total limit tx reinit)) = ops_total
   \<and> sum_list (map ta_num_ops (run_threads num ops_total limit file ld reinit)) = ops_total
   \<and> \<bar>thread_ops ops_total num i - thread_ops ops_total num j\<bar> \<le> 1"
  using sum_thread_ops [OF assms]
  by (simp_all add: load_threads_def run_threads_def comp_def thread_ops_def Let_def)

theorem work_is_split_exactly_witness:
  "sum_list (map ta_num_ops (load_threads 3 10 0 True (\<lambda>_. False))) = 10
   \<and> map ta_num_ops (run_threads 3 10 0 [] True (\<lambda>_. False)) = [4, 3, 3]"
  using work_is_split_exactly [of 10 3 0 True "\<lambda>_. False"]
  by (simp add: run_threads_def thread_ops_def cmod_def upt_rec)

text \<open>The database of every thread is used as its interface asks: over the load phase and the run phase together, for every
  choice of phases and whether or not the database asks to be initialised again before the run, \<^verbatim>\<open>Init\<close> and \<^verbatim>\<open>Cleanup\<close> alternate,
  the operations happen between the two, and every \<^verbatim>\<open>Init\<close> has its \<^verbatim>\<open>Cleanup\<close>.\<close>

theorem db_lifecycle_bracketed:
  assumes "plan_main True True True reinit props = Inr mp" and "stoi (GetProperty props ''threadcount'' ''1'') = Inr (int t)"
    and "i < t"
  shows "bracketed False (db_events mp i)"
  using assms
  by (auto simp: plan_main_def Let_def res_simps load_threads_def run_threads_def db_events_def thread_events_def split: if_splits)

lemma plan_example:
  "plan_main True True True (\<lambda>_. False)
     (SetProperty (SetProperty (SetProperty (SetProperty no_properties ''doload'' ''true'') ''dotransaction'' ''true'')
        ''recordcount'' ''10'') ''operationcount'' ''100'')
   = Inr \<lparr>mp_load = Some (load_threads 1 10 0 True (\<lambda>_. False)), mp_run = Some (run_threads 1 100 0 [] True (\<lambda>_. False))\<rparr>"
proof -
  have "stol ''0'' = Inr 0"
    by (simp add: stol_def parse_long_def skip_sign_def isspace_def is_digit_def dec_val_def digit_val_def int64_ok_def)
  then show ?thesis
    by (simp add: plan_main_def GetProperty_def SetProperty_def no_properties_def property_at_def default_numbers Let_def)
qed

theorem db_lifecycle_bracketed_witness:
  "bracketed False (db_events \<lparr>mp_load = Some (load_threads 1 10 0 True (\<lambda>_. False)), mp_run = Some (run_threads 1 100 0 [] True (\<lambda>_. False))\<rparr> 0)"
  by (rule db_lifecycle_bracketed [OF plan_example, of 1])
    (simp_all add: GetProperty_def SetProperty_def no_properties_def default_numbers)

text \<open>The load phase writes the records it should: on a database that serves the calls of the workload, \<open>m\<close> calls of \<^verbatim>\<open>DoInsert\<close> by a thread return, and make exactly \<open>m\<close> insert calls on
  the database, with the key names of \<open>m\<close> consecutive numbers from the insert counter on and values of the configured shape;
  each result says whether that insert returned \<^verbatim>\<open>kOK\<close>.\<close>

theorem load_inserts_consecutive_keys:
  assumes "env_ok env" and "db_serves db I (wl_call (cx_wl s))" and "I (cx_db s)" and "cx_ok k n s"
    and "wl_insert_key_sequence (cx_wl s) = Some c"
  shows "\<exists>bs s' cs rs. do_inserts env db m s = Some (Inr (bs, s')) \<and> db_calls db cs (cx_db s) = Inr (rs, cx_db s')
     \<and> list_all2 (\<lambda>i call. \<exists>vs. write_shape (cx_wl s) vs
          \<and> call = CInsert (wl_table_name (cx_wl s)) (BuildKeyName (cx_wl s) (cnt_counter c + of_nat i)) vs) [0..<m] cs
     \<and> bs = map (\<lambda>r. result_status r = kOK) rs"
  using do_inserts_ok [OF assms] unfolding load_trace_def by blast

text \<open>A client thread of the core workload finishes: started in a state fit for \<open>num_ops\<close> operations, without a rate limit, in
  either phase, it returns between 0 and \<open>num_ops\<close> successful operations, whatever the warm-up time, and it counts down each of
  the two latches exactly once.\<close>

theorem client_thread_finishes:
  assumes "core_ready env db I (nat num_ops) (cl_state c) ()" and "cl_rlim c = None" and "0 \<le> num_ops"
  shows "\<exists>r c'. ClientThread sys steady dbInit dbCleanup (CoreWorkloadOps env db) p num_ops i t is_loading False False sec_skip c
        = Some (Inr (r, c'))
     \<and> 0 \<le> r \<and> r \<le> num_ops
     \<and> cl_latch c' = fst (CountDown (cl_latch c)) \<and> cl_init_latch c' = fst (CountDown (cl_init_latch c))"
proof -
  define c1 where "c1 = c\<lparr>cl_init_latch := fst (CountDown (cl_init_latch c)), cl_tick := cl_tick c + 1\<rparr>"
  have init: "in_state (w_InitThread (CoreWorkloadOps env db) p i t num_ops) c = Some (Inr ((), c))"
    by (simp add: in_state_def CoreWorkloadOps_def)
  obtain oks sk c' where l: "client_loop sys steady (CoreWorkloadOps env db) is_loading sec_skip (sys (cl_tick c)) (nat num_ops) ()
      (sec_skip = 0) 0 0 c1 = Some (Inr ((oks, sk), c'))" "0 \<le> oks" "oks \<le> num_ops" "0 \<le> sk" "sk \<le> oks"
    "cl_latch c' = cl_latch c" "cl_init_latch c' = fst (CountDown (cl_init_latch c))"
    using core_client.loop_returns [of env db I "nat num_ops" c1 "()" 0 0 sys steady is_loading sec_skip "sys (cl_tick c)" "sec_skip = 0"] assms
    by (auto simp: yields_def c1_def)
  have "ClientThread sys steady dbInit dbCleanup (CoreWorkloadOps env db) p num_ops i t is_loading False False sec_skip c
      = Some (Inr (oks - sk, c'\<lparr>cl_latch := fst (CountDown (cl_latch c'))\<rparr>))"
    unfolding ClientThread_def catch_Exception_def
    using init l(1) by (simp add: count_down_init_def count_down_done_def c1_def)
  then show ?thesis using l by auto
qed

text \<open>The status thread ends, and reports to the end: with a positive interval it prints one message per wait on the latch and
  one last message after the wait that finds the latch open. With both intervals zero or negative it never ends.\<close>

theorem status_thread_messages:
  "((0 < interval \<or> 0 < interval_us) \<and> (\<forall>i < k. \<not> answer i) \<and> answer k \<longrightarrow>
     (\<exists>msgs m'. StatusThread interval interval_us answer now m = Some (msgs, m') \<and> length msgs = k + 2))
   \<and> (interval \<le> 0 \<and> interval_us \<le> 0 \<longrightarrow> StatusThread interval interval_us answer now m = None)"
  unfolding StatusThread_def
  using status_loop_returns [of interval interval_us k answer 0 "[]" "Measurements_Start now m"] status_loop_forever
  by auto

section \<open>Witnesses\<close>

lemma demo_ready:
  obtains wl t' where "core_ready demo_env key_log (\<lambda>_. True) 7 \<lparr>cx_wl = wl, cx_tls = t', cx_db = []\<rparr> ()"
    and "wl_insert_key_sequence wl \<noteq> None" and "cx_ok 7 1000 \<lparr>cx_wl = wl, cx_tls = t', cx_db = [] :: string list\<rparr>"
proof -
  have "\<exists>wl t'. CoreWorkload_Init demo_env (basic_config 1000 100 ''uniform'') demo_tls (new_CoreWorkload READ 0) = Inr (wl, t')
     \<and> wl_ok 7 1000 wl \<and> tls_ok t' \<and> settled 1000 (wl_transaction_insert_key_sequence wl)"
    by (rule Init_ok [OF demo_env_ok demo_tls_ok]) (simp_all add: key_dist_def kMaxNumItems_def drop_bit_eq_div)
  then show ?thesis using that demo_env_ok db_total_serves [OF key_log_total] by (fastforce simp: core_ready_def cx_ok_def wl_ok_def)
qed

theorem client_thread_finishes_witness:
  "\<exists>(c :: (unit, string list) ctx client) r c'. ClientThread (\<lambda>_. 0) (\<lambda>_. 0) (ret ()) (ret ()) (CoreWorkloadOps demo_env key_log)
       no_properties 7 0 1 False False False 0 c = Some (Inr (r, c')) \<and> 0 \<le> r \<and> r \<le> 7"
proof -
  obtain wl t' where r: "core_ready demo_env key_log (\<lambda>_. True) 7 \<lparr>cx_wl = wl, cx_tls = t', cx_db = []\<rparr> ()" by (rule demo_ready)
  let ?c = "\<lparr>cl_state = \<lparr>cx_wl = wl, cx_tls = t', cx_db = []\<rparr>, cl_latch = new_CountDownLatch 1,
    cl_init_latch = new_CountDownLatch 1, cl_rlim = None, cl_tick = 0\<rparr>"
  have "core_ready demo_env key_log (\<lambda>_. True) (nat 7) (cl_state ?c) ()" "cl_rlim ?c = None" "(0 :: int) \<le> 7" using r by simp_all
  from client_thread_finishes [OF this, of "\<lambda>_. 0" "\<lambda>_. 0" "ret ()" "ret ()" no_properties 0 1 False 0] show ?thesis by blast
qed

theorem load_inserts_consecutive_keys_witness:
  "\<exists>(s :: (unit, string list) ctx) bs s'. do_inserts demo_env key_log 2 s = Some (Inr (bs, s')) \<and> length bs = 2"
proof -
  obtain wl :: "unit CoreWorkload" and t' where w: "wl_insert_key_sequence wl \<noteq> None" "cx_ok 7 1000 \<lparr>cx_wl = wl, cx_tls = t', cx_db = [] :: string list\<rparr>"
    by (rule demo_ready) blast
  let ?s = "\<lparr>cx_wl = wl, cx_tls = t', cx_db = [] :: string list\<rparr>"
  obtain c where c: "wl_insert_key_sequence (cx_wl ?s) = Some c" using w(1) by auto
  obtain bs s' cs rs where r: "do_inserts demo_env key_log 2 ?s = Some (Inr (bs, s'))" "db_calls key_log cs (cx_db ?s) = Inr (rs, cx_db s')"
    "list_all2 (\<lambda>i call. \<exists>vs. write_shape (cx_wl ?s) vs
          \<and> call = CInsert (wl_table_name (cx_wl ?s)) (BuildKeyName (cx_wl ?s) (cnt_counter c + of_nat i)) vs) [0..<2] cs"
    "bs = map (\<lambda>r. result_status r = kOK) rs"
    using load_inserts_consecutive_keys [OF demo_env_ok db_total_serves [OF key_log_total] TrueI w(2) c, of 2] by blast
  have "length rs = length cs" by (rule db_calls_length [OF r(2)])
  moreover have "length cs = 2" using list_all2_lengthD [OF r(3)] by simp
  ultimately have "length bs = 2" by (simp add: r(4))
  with r(1) show ?thesis by blast
qed

theorem status_thread_messages_witness:
  "(\<exists>msgs m'. StatusThread 10 0 (\<lambda>i. i = 3) 0 (new_BasicMeasurements 0) = Some (msgs, m') \<and> length msgs = 3 + 2)
   \<and> StatusThread 0 0 (\<lambda>i. True) 0 (new_BasicMeasurements 0) = None"
  using status_thread_messages [of 10 0 3 "\<lambda>i. i = 3"] status_thread_messages [of 0 0 0 "\<lambda>i. True"] by auto

end
