(* ===== verification/Row_Codec.thy ===== *)
theory Row_Codec
  imports DB_Layer "HOL-Library.Sublist"
begin

text \<open>
  The byte layout of a record that the key-value backends share (\<^verbatim>\<open>SerializeRow\<close>, \<^verbatim>\<open>DeserializeRow\<close> and
  \<^verbatim>\<open>DeserializeRowFilter\<close> of \<^verbatim>\<open>src/rocksdb/rocksdb_db.cc\<close>, repeated in \<^verbatim>\<open>src/leveldb/leveldb_db.cc\<close>): for each
  field its name and its value, each after its length as a 32-bit integer.

  The readers walk over raw memory with the pointers \<open>p\<close> and \<open>end_p\<close> (\<^verbatim>\<open>lim\<close> in the code). Here the memory is the list \<open>mem\<close> of
  the bytes that may be read, the pointers are offsets into it, and an access beyond its end is the
  undefined behaviour it is in C++. Integers are stored as on a little-endian machine that allows
  unaligned access.

  The locale \<open>row_codec\<close> is the interface the backends use: what was serialised is read back. Both
  backends interpret it with their own functions.
\<close>

section \<open>The model\<close>

definition le32 :: "u32 \<Rightarrow> string" where
  "le32 w = map (\<lambda>i. char_of (unat w div 256 ^ i)) [0, 1, 2, 3]"

definition of_le32 :: "string \<Rightarrow> u32" where
  "of_le32 s = of_nat (foldr (\<lambda>c n. of_char c + 256 * n) s 0)"

fun SerializeRow :: "Field list \<Rightarrow> string \<Rightarrow> string" where
  "SerializeRow [] data = data"
| "SerializeRow ((name, val) # values) data =
     (let len = (of_nat (length name) :: u32);
          data = data @ le32 len;
          data = data @ name;
          len = of_nat (length val);
          data = data @ le32 len;
          data = data @ val
      in SerializeRow values data)"

definition read_u32 :: "string \<Rightarrow> nat \<Rightarrow> u32 res" where
  "read_u32 mem p = (if p + 4 \<le> length mem then Inr (of_le32 (take 4 (drop p mem)))
     else Inl (Undefined ''read past the end of the buffer''))"

definition read_bytes :: "string \<Rightarrow> nat \<Rightarrow> nat \<Rightarrow> string res" where
  "read_bytes mem p len = (if p + len \<le> length mem then Inr (take len (drop p mem))
     else Inl (Undefined ''read past the end of the buffer''))"

text \<open>The part of the loop bodies that reads one field, with the pointer after it.\<close>

definition read_field :: "string \<Rightarrow> nat \<Rightarrow> (Field \<times> nat) res" where
  "read_field mem p =
     andThen (read_u32 mem p) (\<lambda>len.
     let p = p + 4 in
     andThen (read_bytes mem p (unat len)) (\<lambda>name.
     let p = p + unat len in
     andThen (read_u32 mem p) (\<lambda>len.
     let p = p + 4 in
     andThen (read_bytes mem p (unat len)) (\<lambda>val.
     Inr ((name, val), p + unat len)))))"

lemma read_field_advances: "read_field mem p = Inr (fv, p') \<Longrightarrow> p < p' \<and> p' \<le> length mem"
  by (auto simp: read_field_def read_u32_def read_bytes_def res_simps Let_def split: if_splits)

function DeserializeRow_loop :: "bool \<Rightarrow> string \<Rightarrow> nat \<Rightarrow> nat \<Rightarrow> Field list \<Rightarrow> Field list res" where
  "DeserializeRow_loop ndebug mem p end_p values =
     (if p = end_p then Inr values
      else case assert_that ndebug (p < end_p) ''p < lim'' of Inl e \<Rightarrow> Inl e | Inr _ \<Rightarrow>
        (case read_field mem p of Inl e \<Rightarrow> Inl e
         | Inr (fv, p') \<Rightarrow> DeserializeRow_loop ndebug mem p' end_p (values @ [fv])))"
  by pat_completeness auto
termination
  by (relation "measure (\<lambda>(_, mem, p, _). length mem - p)") (auto dest: read_field_advances)

function DeserializeRowFilter_loop ::
    "bool \<Rightarrow> string \<Rightarrow> nat \<Rightarrow> nat \<Rightarrow> string list \<Rightarrow> Field list \<Rightarrow> Field list res" where
  "DeserializeRowFilter_loop ndebug mem p end_p flds values =
     (if p = end_p \<or> flds = [] then Inr values
      else case assert_that ndebug (p < end_p) ''p < lim'' of Inl e \<Rightarrow> Inl e | Inr _ \<Rightarrow>
        (case read_field mem p of Inl e \<Rightarrow> Inl e
         | Inr (fv, p') \<Rightarrow>
             if hd flds = fst fv then DeserializeRowFilter_loop ndebug mem p' end_p (tl flds) (values @ [fv])
             else DeserializeRowFilter_loop ndebug mem p' end_p flds values))"
  by pat_completeness auto
termination
  by (relation "measure (\<lambda>(_, mem, p, _). length mem - p)") (auto dest: read_field_advances)

declare DeserializeRow_loop.simps [simp del] DeserializeRowFilter_loop.simps [simp del]

text \<open>A \<^verbatim>\<open>std::string\<close> may be read up to and including its terminating zero byte.\<close>

definition string_mem :: "string \<Rightarrow> string" where
  "string_mem data = data @ [CHR 0x00]"

section \<open>What the rows and the readers mean\<close>

definition small :: "Field \<Rightarrow> bool" where
  "small fv \<longleftrightarrow> length (fst fv) < 2 ^ 32 \<and> length (snd fv) < 2 ^ 32"

text \<open>A record with the field names \<open>names\<close>, in that order, that fits the layout.\<close>

definition row_ok :: "string list \<Rightarrow> Field list \<Rightarrow> bool" where
  "row_ok names r \<longleftrightarrow> map fst r = names \<and> (\<forall>fv \<in> set r. small fv)"

text \<open>The requested fields of a record, in the order of the request.\<close>

definition project :: "string list \<Rightarrow> Field list \<Rightarrow> Field list" where
  "project flds r = map (\<lambda>f. (f, the (map_of r f))) flds"

definition encode_field :: "Field \<Rightarrow> string" where
  "encode_field fv = le32 (of_nat (length (fst fv))) @ fst fv @ le32 (of_nat (length (snd fv))) @ snd fv"

lemma SerializeRow_concat: "SerializeRow vs data = data @ concat (map encode_field vs)"
  by (induction vs data rule: SerializeRow.induct) (simp_all add: Let_def encode_field_def)

lemma length_le32 [simp]: "length (le32 w) = 4"
  by (simp add: le32_def)

lemma of_le32_le32 [simp]: "of_le32 (le32 w) = w"
proof -
  define a b c where "a = unat w div 256" and "b = a div 256" and "c = b div 256"
  have "unat w < 256 * 256 * 256 * 256" using unat_u32_bound [of w] by simp
  then have "c < 256" by (simp add: a_def b_def c_def less_mult_imp_div_less)
  moreover have "unat w mod 256 + 256 * a = unat w" "a mod 256 + 256 * b = a" "b mod 256 + 256 * c = b"
    by (simp_all add: a_def b_def c_def)
  ultimately have "unat w mod 256 + 256 * (a mod 256 + 256 * (b mod 256 + 256 * (c mod 256))) = unat w"
    by simp
  moreover have "b = unat w div 65536" "c = unat w div 16777216"
    by (simp_all add: a_def b_def c_def div_mult2_eq [symmetric])
  ultimately have "foldr (\<lambda>c n. of_char c + 256 * n) (le32 w) 0 = unat w"
    by (simp add: le32_def a_def)
  then show ?thesis by (simp only: of_le32_def) simp
qed

lemma read_u32_append [simp]: "p = length pre \<Longrightarrow> read_u32 (pre @ le32 w @ post) p = Inr w"
  by (simp add: read_u32_def)

lemma read_bytes_append [simp]: "p = length pre \<Longrightarrow> n = length s \<Longrightarrow> read_bytes (pre @ s @ post) p n = Inr s"
  by (simp add: read_bytes_def)

lemma read_field_encode:
  assumes "small fv"
  shows "read_field (pre @ encode_field fv @ post) (length pre) = Inr (fv, length pre + length (encode_field fv))"
proof -
  obtain n v where fv: "fv = (n, v)" by (cases fv)
  let ?n = "le32 (of_nat (length n))" and ?v = "le32 (of_nat (length v))"
  have u: "unat (of_nat (length n) :: u32) = length n" "unat (of_nat (length v) :: u32) = length v"
    using assms by (simp_all add: small_def fv unat_of_nat)
  have "read_u32 (pre @ ?n @ n @ ?v @ v @ post) (length pre) = Inr (of_nat (length n))"
    by (rule read_u32_append) simp
  moreover have "read_bytes ((pre @ ?n) @ n @ ?v @ v @ post) (length pre + 4) (length n) = Inr n"
    by (rule read_bytes_append) simp_all
  moreover have "read_u32 ((pre @ ?n @ n) @ ?v @ v @ post) (length pre + 4 + length n) = Inr (of_nat (length v))"
    by (rule read_u32_append) simp
  moreover have "read_bytes ((pre @ ?n @ n @ ?v) @ v @ post) (length pre + 4 + length n + 4) (length v) = Inr v"
    by (rule read_bytes_append) simp_all
  ultimately show ?thesis by (simp add: read_field_def encode_field_def fv u Let_def)
qed

lemma encode_field_nonempty [simp]: "encode_field fv \<noteq> []"
  by (simp add: encode_field_def le32_def)

lemma DeserializeRow_loop_encode:
  assumes "\<forall>fv \<in> set r. small fv"
  shows "DeserializeRow_loop ndebug (pre @ concat (map encode_field r) @ post) (length pre)
           (length pre + length (concat (map encode_field r))) vs = Inr (vs @ r)"
  using assms
proof (induction r arbitrary: pre vs)
  case Nil
  then show ?case by (simp add: DeserializeRow_loop.simps)
next
  case (Cons fv r)
  let ?mem = "pre @ encode_field fv @ concat (map encode_field r) @ post"
  have "read_field ?mem (length pre) = Inr (fv, length pre + length (encode_field fv))"
    using Cons.prems by (intro read_field_encode) simp
  moreover have "DeserializeRow_loop ndebug ?mem (length pre + length (encode_field fv))
      (length pre + length (encode_field fv) + length (concat (map encode_field r))) (vs @ [fv])
      = Inr (vs @ fv # r)"
    using Cons.IH [of "pre @ encode_field fv" "vs @ [fv]"] Cons.prems by (simp add: add.assoc)
  ultimately show ?case
    by (subst DeserializeRow_loop.simps) (simp add: add.assoc)
qed

fun pick :: "string list \<Rightarrow> Field list \<Rightarrow> Field list" where
  "pick flds [] = []"
| "pick [] r = []"
| "pick (f # flds) (fv # r) = (if f = fst fv then fv # pick flds r else pick (f # flds) r)"

lemma DeserializeRowFilter_loop_encode:
  assumes "\<forall>fv \<in> set r. small fv"
  shows "DeserializeRowFilter_loop ndebug (pre @ concat (map encode_field r) @ post) (length pre)
           (length pre + length (concat (map encode_field r))) flds vs = Inr (vs @ pick flds r)"
  using assms
proof (induction flds r arbitrary: pre vs rule: pick.induct)
  case (3 f flds fv r)
  let ?mem = "pre @ encode_field fv @ concat (map encode_field r) @ post"
  let ?p = "length pre + length (encode_field fv)" and ?end_p = "length pre + length (encode_field fv) + length (concat (map encode_field r))"
  have "read_field ?mem (length pre) = Inr (fv, ?p)"
    using 3(3) by (intro read_field_encode) simp
  moreover have "f = fst fv \<Longrightarrow> DeserializeRowFilter_loop ndebug ?mem ?p ?end_p flds (vs @ [fv]) = Inr (vs @ fv # pick flds r)"
    using 3(1) [of "pre @ encode_field fv" "vs @ [fv]"] 3(3) by (simp add: add.assoc)
  moreover have "f \<noteq> fst fv \<Longrightarrow> DeserializeRowFilter_loop ndebug ?mem ?p ?end_p (f # flds) vs = Inr (vs @ pick (f # flds) r)"
    using 3(2) [of "pre @ encode_field fv" vs] 3(3) by (simp add: add.assoc)
  ultimately show ?case
    by (subst DeserializeRowFilter_loop.simps) (simp add: add.assoc)
qed (simp_all add: DeserializeRowFilter_loop.simps)

lemma subseq_elem: "subseq xs ys \<Longrightarrow> x \<in> set xs \<Longrightarrow> x \<in> set ys"
  by (auto elim: list_emb_set)

lemma pick_project: "subseq flds (map fst r) \<Longrightarrow> distinct (map fst r) \<Longrightarrow> pick flds r = project flds r"
proof (induction flds r rule: pick.induct)
  case (3 f flds fv r)
  show ?case
  proof (cases "f = fst fv")
    case True
    then have s: "subseq flds (map fst r)" using 3(3) by simp
    then have "fst fv \<notin> set flds" using 3(4) by (auto dest: subseq_elem)
    then have "project flds (fv # r) = project flds r" by (auto simp: project_def)
    then show ?thesis using True 3(1) s 3(4) by (simp add: project_def)
  next
    case False
    then have s: "subseq (f # flds) (map fst r)" using 3(3) by simp
    then have "fst fv \<notin> set (f # flds)" using 3(4) by (auto dest: subseq_elem)
    then have "project (f # flds) (fv # r) = project (f # flds) r" by (auto simp: project_def)
    then show ?thesis using False 3(2) s 3(4) by simp
  qed
qed (simp_all add: project_def)

section \<open>Properties\<close>

text \<open>C20: What a backend writes it reads back: a record whose names and values are shorter than \<open>2\<^sup>3\<^sup>2\<close> bytes is restored field by
  field from its bytes, wherever they lie in memory and in debug and release builds, and reading with a list of field names
  that occur in the record in that order returns exactly those fields.\<close>

theorem row_round_trip:
  assumes "\<forall>fv \<in> set r. length (fst fv) < 2 ^ 32 \<and> length (snd fv) < 2 ^ 32"
  shows "DeserializeRow_loop ndebug (SerializeRow r pre @ post) (length pre) (length (SerializeRow r pre)) [] = Inr r
   \<and> (distinct (map fst r) \<and> subseq flds (map fst r) \<longrightarrow>
        DeserializeRowFilter_loop ndebug (SerializeRow r pre @ post) (length pre) (length (SerializeRow r pre)) flds []
        = Inr (map (\<lambda>f. (f, the (map_of r f))) flds))"
proof -
  have s: "\<forall>fv \<in> set r. small fv" using assms by (simp add: small_def)
  show ?thesis
    using DeserializeRow_loop_encode [OF s, of ndebug pre post "[]"] DeserializeRowFilter_loop_encode [OF s, of ndebug pre post flds "[]"]
      pick_project [of flds r] by (simp add: SerializeRow_concat project_def)
qed

theorem row_round_trip_witness:
  "DeserializeRow_loop False (SerializeRow [(''f0'', ''x''), (''f1'', [])] [] @ [CHR 0x00]) 0
     (length (SerializeRow [(''f0'', ''x''), (''f1'', [])] [])) [] = Inr [(''f0'', ''x''), (''f1'', [])]
   \<and> DeserializeRowFilter_loop False (SerializeRow [(''f0'', ''x''), (''f1'', [])] [] @ [CHR 0x00]) 0
     (length (SerializeRow [(''f0'', ''x''), (''f1'', [])] [])) [''f1''] [] = Inr [(''f1'', [])]"
  using row_round_trip [of "[(''f0'', ''x''), (''f1'', [])]" False "[]" "[CHR 0x00]" "[''f1'']"] by simp

end
