(* ===== verification/KV_Store.thy ===== *)
theory KV_Store
  imports Row_Codec
begin

text \<open>
  What the embedded key-value backends have in common. The storage engines (LevelDB, RocksDB) are
  libraries outside the sources: an engine is the record \<open>kv_engine\<close> of the calls the backends make, and
  \<open>kv_ok\<close> states what their documentation promises: a finite map from byte strings to byte strings whose
  iterators visit the keys in byte order. \<open>mem_engine\<close> is a small engine that satisfies it.

  \<open>Table_ops\<close> is the abstract specification of a backend, a map from keys to records; the locale
  \<open>db_refinement\<close> states that a backend implements a specification on the calls it is built for, and the
  locale \<open>row_codec\<close> that a pair of functions stores and restores records.
\<close>

section \<open>Engines\<close>

datatype kv_status = KvOk | KvNotFound | KvFail string

fun kv_ToString :: "kv_status \<Rightarrow> string" where
  "kv_ToString KvOk = ''OK''"
| "kv_ToString KvNotFound = ''NotFound: ''"
| "kv_ToString (KvFail msg) = msg"

datatype batch_op = BPut string string | BDelete string

text \<open>
  \<open>'o\<close> is the type of the options and \<open>'s\<close> the state of the storage. The Boolean of a write is the
  option \<^verbatim>\<open>sync\<close>. An iterator that \<^verbatim>\<open>Seek\<close> has placed is the list of the entries it still visits: it is
  valid when the list is not empty, and \<^verbatim>\<open>Next\<close> drops the first one.
\<close>

record ('o, 's) kv_engine =
  kv_Destroy :: "string \<Rightarrow> 'o \<Rightarrow> 's \<Rightarrow> kv_status \<times> 's"
  kv_Open :: "'o \<Rightarrow> string \<Rightarrow> 's \<Rightarrow> kv_status \<times> 's"
  kv_Get :: "string \<Rightarrow> 's \<Rightarrow> kv_status \<times> string"
  kv_Put :: "bool \<Rightarrow> string \<Rightarrow> string \<Rightarrow> 's \<Rightarrow> kv_status \<times> 's"
  kv_Delete :: "string \<Rightarrow> 's \<Rightarrow> kv_status \<times> 's"
  kv_Write :: "bool \<Rightarrow> batch_op list \<Rightarrow> 's \<Rightarrow> kv_status \<times> 's"
  kv_Merge :: "string \<Rightarrow> string \<Rightarrow> 's \<Rightarrow> kv_status \<times> 's"
  kv_Seek :: "string \<Rightarrow> 's \<Rightarrow> (string \<times> string) list"

fun batch_apply :: "(string \<rightharpoonup> string) \<Rightarrow> batch_op \<Rightarrow> (string \<rightharpoonup> string)" where
  "batch_apply m (BPut k v) = m(k \<mapsto> v)"
| "batch_apply m (BDelete k) = m(k := None)"

definition keys_from :: "string \<Rightarrow> (string \<rightharpoonup> 'v) \<Rightarrow> string list" where
  "keys_from k m = sorted_list_of_set {x \<in> dom m. k \<le> x}"

definition kv_ok :: "('o, 's) kv_engine \<Rightarrow> ('s \<Rightarrow> string \<rightharpoonup> string) \<Rightarrow> bool" where
  "kv_ok kv m \<longleftrightarrow>
     (\<forall>s. finite (dom (m s)))
   \<and> (\<forall>k s. kv_Get kv k s = (case m s k of None \<Rightarrow> (KvNotFound, []) | Some v \<Rightarrow> (KvOk, v)))
   \<and> (\<forall>b k v s. fst (kv_Put kv b k v s) = KvOk \<and> m (snd (kv_Put kv b k v s)) = (m s)(k \<mapsto> v))
   \<and> (\<forall>k s. fst (kv_Delete kv k s) = KvOk \<and> m (snd (kv_Delete kv k s)) = (m s)(k := None))
   \<and> (\<forall>b w s. fst (kv_Write kv b w s) = KvOk \<and> m (snd (kv_Write kv b w s)) = foldl batch_apply (m s) w)
   \<and> (\<forall>k s. kv_Seek kv k s = map (\<lambda>x. (x, the (m s x))) (keys_from k (m s)))"

lemma kv_okD:
  assumes "kv_ok kv m"
  shows "finite (dom (m s))"
    and "kv_Get kv k s = (case m s k of None \<Rightarrow> (KvNotFound, []) | Some v \<Rightarrow> (KvOk, v))"
    and "fst (kv_Put kv b k v s) = KvOk" and "m (snd (kv_Put kv b k v s)) = (m s)(k \<mapsto> v)"
    and "fst (kv_Delete kv k s) = KvOk" and "m (snd (kv_Delete kv k s)) = (m s)(k := None)"
    and "fst (kv_Write kv b w s) = KvOk" and "m (snd (kv_Write kv b w s)) = foldl batch_apply (m s) w"
    and "kv_Seek kv k s = map (\<lambda>x. (x, the (m s x))) (keys_from k (m s))"
  using assms unfolding kv_ok_def by blast+

text \<open>An engine that keeps its entries in a list.\<close>

fun mem_batch :: "(string \<times> string) list \<Rightarrow> batch_op \<Rightarrow> (string \<times> string) list" where
  "mem_batch s (BPut k v) = (k, v) # s"
| "mem_batch s (BDelete k) = filter (\<lambda>kv. fst kv \<noteq> k) s"

definition mem_engine :: "('o, (string \<times> string) list) kv_engine" where
  "mem_engine = \<lparr>kv_Destroy = (\<lambda>_ _ _. (KvOk, [])), kv_Open = (\<lambda>_ _ s. (KvOk, s)),
     kv_Get = (\<lambda>k s. case map_of s k of None \<Rightarrow> (KvNotFound, []) | Some v \<Rightarrow> (KvOk, v)),
     kv_Put = (\<lambda>_ k v s. (KvOk, mem_batch s (BPut k v))),
     kv_Delete = (\<lambda>k s. (KvOk, mem_batch s (BDelete k))),
     kv_Write = (\<lambda>_ w s. (KvOk, foldl mem_batch s w)),
     kv_Merge = (\<lambda>_ _ s. (KvFail ''no merge operator'', s)),
     kv_Seek = (\<lambda>k s. map (\<lambda>x. (x, the (map_of s x))) (sort (remdups (filter (\<lambda>x. k \<le> x) (map fst s)))))\<rparr>"

lemma map_of_mem_batch [simp]: "map_of (mem_batch s w) = batch_apply (map_of s) w"
proof (cases w)
  case (BDelete k)
  have "map_of (filter (\<lambda>kv. fst kv \<noteq> k) s) = (map_of s)(k := None)"
    by (induction s) (auto simp: fun_eq_iff)
  then show ?thesis using BDelete by simp
qed simp

lemma mem_engine_ok: "kv_ok mem_engine map_of"
proof -
  have "map_of (foldl mem_batch s w) = foldl batch_apply (map_of s) w" for s w
    by (induction w arbitrary: s) simp_all
  moreover have "sort (remdups (filter ((\<le>) k) (map fst s))) = keys_from k (map_of s)"
    for k and s :: "(string \<times> string) list"
  proof -
    have "{x \<in> dom (map_of s). k \<le> x} = set (filter ((\<le>) k) (map fst s))" by (auto simp: dom_map_of_conv_image_fst)
    then show ?thesis by (simp only: keys_from_def sorted_list_of_set_sort_remdups)
  qed
  moreover have "map_of ((k, v) # s) = (map_of s)(k \<mapsto> v)" for k v and s :: "(string \<times> string) list" by simp
  moreover have "map_of (filter (\<lambda>kv. fst kv \<noteq> k) s) = (map_of s)(k := None)" for k and s :: "(string \<times> string) list"
    using map_of_mem_batch [of s "BDelete k"] by simp
  ultimately show ?thesis by (simp add: kv_ok_def mem_engine_def finite_dom_map_of)
qed

section \<open>The shared handle\<close>

text \<open>
  The static members of a backend class: the pointer \<^verbatim>\<open>db_\<close>, which may be null, point to an open database
  or dangle after \<^verbatim>\<open>delete\<close>, the reference count, and the storage behind the pointer.
\<close>

datatype handle = NullHandle | LiveHandle | DeletedHandle

record 's kv_static =
  st_db :: handle
  st_ref_cnt :: int
  st_env :: 's

definition deref :: "'s kv_static \<Rightarrow> 's res" where
  "deref st = (if st_db st = LiveHandle then Inr (st_env st) else Inl (Undefined ''db_ does not point to a database''))"

lemma deref_live [simp]: "st_db st = LiveHandle \<Longrightarrow> deref st = Inr (st_env st)"
  by (simp add: deref_def)

text \<open>\<^verbatim>\<open>delete db_\<close>: the pointer is not reset. Deleting a null pointer does nothing.\<close>

definition delete_handle :: "handle \<Rightarrow> handle res" where
  "delete_handle h = (case h of NullHandle \<Rightarrow> Inr NullHandle | LiveHandle \<Rightarrow> Inr DeletedHandle
     | DeletedHandle \<Rightarrow> Inl (Undefined ''double delete of db_''))"

text \<open>\<^verbatim>\<open>if (!s.ok()) throw utils::Exception(what + s.ToString());\<close>\<close>

definition throw_unless_ok :: "string \<Rightarrow> kv_status \<times> 's \<Rightarrow> 's res" where
  "throw_unless_ok what ss = (if fst ss = KvOk then Inr (snd ss) else Inl (Exception (what @ kv_ToString (fst ss))))"

text \<open>The value of \<^verbatim>\<open>errno\<close> when \<^verbatim>\<open>mkdir\<close> finds the directory.\<close>

definition EEXIST :: int where "EEXIST = 17"

lemma throw_unless_ok_ok [simp]: "fst ss = KvOk \<Longrightarrow> throw_unless_ok what ss = Inr (snd ss)"
  by (simp add: throw_unless_ok_def)

section \<open>Loops the backends share\<close>

text \<open>The inner and the outer loop of an update.\<close>

fun assign_field :: "Field \<Rightarrow> Field list \<Rightarrow> bool \<times> Field list" where
  "assign_field new_field [] = (False, [])"
| "assign_field new_field (cur_field # r) =
     (if fst cur_field = fst new_field then (True, (fst cur_field, snd new_field) # r)
      else let (found, r) = assign_field new_field r in (found, cur_field # r))"

fun assign_fields :: "bool \<Rightarrow> Field list \<Rightarrow> Field list \<Rightarrow> Field list res" where
  "assign_fields ndebug [] current_values = Inr current_values"
| "assign_fields ndebug (new_field # values) current_values =
     (let (found, current_values) = assign_field new_field current_values in
      andThen (assert_that ndebug found ''found'') (\<lambda>_. assign_fields ndebug values current_values))"

text \<open>The loop of a scan over an iterator, with the reader of one record.\<close>

fun scan_loop ::
    "(string \<Rightarrow> Field list res) \<Rightarrow> int \<Rightarrow> int \<Rightarrow> (string \<times> string) list \<Rightarrow> Field list list \<Rightarrow> Field list list res" where
  "scan_loop deser i len [] result = Inr result"
| "scan_loop deser i len (entry # it) result =
     (if i < len then andThen (deser (snd entry)) (\<lambda>values. scan_loop deser (i + 1) len it (result @ [values]))
      else Inr result)"

section \<open>The abstract table\<close>

text \<open>A record after its fields named in \<open>vs\<close> have been given their new values (the last one of a name counts).\<close>

definition overwrite :: "Field list \<Rightarrow> Field list \<Rightarrow> Field list" where
  "overwrite vs r = map (\<lambda>(f, v). (f, case map_of (rev vs) f of Some w \<Rightarrow> w | None \<Rightarrow> v)) r"

definition select :: "string list option \<Rightarrow> Field list \<Rightarrow> Field list" where
  "select flds r = (case flds of None \<Rightarrow> r | Some fs \<Rightarrow> project fs r)"

type_synonym table = "string \<rightharpoonup> Field list"

definition Table_ops :: "table DB" where
  "Table_ops =
     \<lparr>db_Init = (\<lambda>m. Inr ((), m)), db_Cleanup = (\<lambda>m. Inr ((), m)),
      db_Read = (\<lambda>_ k flds m. Inr (case m k of None \<Rightarrow> (kNotFound, []) | Some r \<Rightarrow> (kOK, select flds r), m)),
      db_Scan = (\<lambda>_ k n flds m. Inr ((kOK, map (\<lambda>x. select flds (the (m x))) (take (nat n) (keys_from k m))), m)),
      db_Update = (\<lambda>_ k vs m. Inr (case m k of None \<Rightarrow> (kNotFound, m) | Some r \<Rightarrow> (kOK, m(k \<mapsto> overwrite vs r)))),
      db_Insert = (\<lambda>_ k vs m. Inr (kOK, m(k \<mapsto> vs))),
      db_Delete = (\<lambda>_ k m. Inr (kOK, m(k := None))),
      db_ReadIdx = (\<lambda>_ _. Inl (Undefined ''pure virtual ReadIdx'')),
      db_ReInitBeforeTransaction = False, db_SetProps = (\<lambda>_ m. m)\<rparr>"

text \<open>The calls a table with the fields \<open>names\<close> is built for.\<close>

fun row_call :: "string list \<Rightarrow> dbcall \<Rightarrow> bool" where
  "row_call names (CRead _ _ flds) = (case flds of None \<Rightarrow> True | Some fs \<Rightarrow> subseq fs names)"
| "row_call names (CScan _ _ _ flds) = (case flds of None \<Rightarrow> True | Some fs \<Rightarrow> subseq fs names)"
| "row_call names (CUpdate _ _ vs) = (\<forall>fv \<in> set vs. fst fv \<in> set names \<and> small fv)"
| "row_call names (CInsert _ _ vs) = row_ok names vs"
| "row_call names (CDelete _ _) = True"
| "row_call names (CReadIdx _) = False"

text \<open>
  A database \<open>impl\<close> implements \<open>spec\<close> on the calls \<open>adm\<close>: in a state that satisfies \<open>ok\<close> each such call
  returns, with the result of \<open>spec\<close>, in a state that satisfies \<open>ok\<close> and stands for the new state of \<open>spec\<close>.
\<close>

locale db_refinement =
  fixes impl :: "'c DB" and spec :: "'d DB" and absf :: "'c \<Rightarrow> 'd" and ok :: "'c \<Rightarrow> bool" and adm :: "dbcall \<Rightarrow> bool"
  assumes call_refines: "ok s \<Longrightarrow> adm c \<Longrightarrow>
    \<exists>r s'. db_call impl c s = Inr (r, s') \<and> ok s' \<and> db_call spec c (absf s) = Inr (r, absf s')"
begin

lemma calls_refine:
  "ok s \<Longrightarrow> \<forall>c \<in> set cs. adm c \<Longrightarrow>
    \<exists>rs s'. db_calls impl cs s = Inr (rs, s') \<and> ok s' \<and> db_calls spec cs (absf s) = Inr (rs, absf s')"
proof (induction cs arbitrary: s)
  case (Cons c cs)
  from call_refines [OF Cons.prems(1), of c] Cons.prems(2) obtain r s'
    where 1: "db_call impl c s = Inr (r, s')" "ok s'" "db_call spec c (absf s) = Inr (r, absf s')" by auto
  from Cons.IH [OF 1(2)] Cons.prems(2) obtain rs s''
    where 2: "db_calls impl cs s' = Inr (rs, s'')" "ok s''" "db_calls spec cs (absf s') = Inr (rs, absf s'')" by auto
  from 1 2 show ?case by simp
qed simp

end

text \<open>
  The contract of a backend that reports some conditions as exceptions: each call ends as it does in \<open>spec\<close>, with the
  same result and new state or with the same exception. A sequence of calls then ends at the same exception, if any.
\<close>

locale db_exact =
  fixes impl :: "'c DB" and spec :: "'d DB" and absf :: "'c \<Rightarrow> 'd" and ok :: "'c \<Rightarrow> bool" and adm :: "dbcall \<Rightarrow> bool"
  assumes call_exact: "ok s \<Longrightarrow> adm c \<Longrightarrow> map_sum id (apsnd absf) (db_call impl c s) = db_call spec c (absf s)"
    and call_ok: "ok s \<Longrightarrow> adm c \<Longrightarrow> db_call impl c s = Inr (r, s') \<Longrightarrow> ok s'"
begin

lemma calls_exact:
  "ok s \<Longrightarrow> \<forall>c \<in> set cs. adm c \<Longrightarrow> map_sum id (apsnd absf) (db_calls impl cs s) = db_calls spec cs (absf s)
     \<and> (\<forall>rs s'. db_calls impl cs s = Inr (rs, s') \<longrightarrow> ok s')"
proof (induction cs arbitrary: s)
  case (Cons c cs)
  have e: "map_sum id (apsnd absf) (db_call impl c s) = db_call spec c (absf s)" using call_exact Cons.prems by simp
  show ?case
  proof (cases "db_call impl c s")
    case (Inl x)
    then have "db_call spec c (absf s) = Inl x" using e by simp
    with Inl show ?thesis by simp
  next
    case (Inr p)
    obtain r s' where p: "db_call impl c s = Inr (r, s')" using Inr by (cases p) simp
    then have spec: "db_call spec c (absf s) = Inr (r, absf s')" using e by simp
    have "ok s'" by (rule call_ok [OF Cons.prems(1) _ p]) (use Cons.prems(2) in simp)
    then have ih: "db_calls spec cs (absf s') = map_sum id (apsnd absf) (db_calls impl cs s')"
      "\<forall>rs t. db_calls impl cs s' = Inr (rs, t) \<longrightarrow> ok t" using Cons.IH [of s'] Cons.prems(2) by (simp_all add: id_def)
    then show ?thesis using p spec by (cases "db_calls impl cs s'") auto
  qed
qed simp

end

sublocale db_refinement \<subseteq> exact: db_exact impl spec absf ok adm
proof unfold_locales
  fix s c r s' assume s: "ok s" and c: "adm c"
  note 1 = call_refines [OF s c]
  then show "map_sum id (apsnd absf) (db_call impl c s) = db_call spec c (absf s)" by auto
  show "ok s'" if "db_call impl c s = Inr (r, s')" using 1 that by auto
qed

text \<open>
  The contract of a backend that is correct only for calls that fit what is stored: \<open>adm\<close> looks at the state of
  the specification, and \<open>calls_adm\<close> asks it of each call of a sequence at its turn.
\<close>

fun calls_adm :: "('d \<Rightarrow> dbcall \<Rightarrow> bool) \<Rightarrow> 'd DB \<Rightarrow> dbcall list \<Rightarrow> 'd \<Rightarrow> bool" where
  "calls_adm adm spec [] d \<longleftrightarrow> True"
| "calls_adm adm spec (c # cs) d \<longleftrightarrow>
     adm d c \<and> (case db_call spec c d of Inr (r, d') \<Rightarrow> calls_adm adm spec cs d' | Inl x \<Rightarrow> True)"

locale guarded_refinement =
  fixes impl :: "'c DB" and spec :: "'d DB" and absf :: "'c \<Rightarrow> 'd" and ok :: "'c \<Rightarrow> bool" and adm :: "'d \<Rightarrow> dbcall \<Rightarrow> bool"
  assumes call_guarded: "ok s \<Longrightarrow> adm (absf s) c \<Longrightarrow>
    \<exists>r s'. db_call impl c s = Inr (r, s') \<and> ok s' \<and> db_call spec c (absf s) = Inr (r, absf s')"
begin

lemma calls_guarded:
  "ok s \<Longrightarrow> calls_adm adm spec cs (absf s) \<Longrightarrow>
    \<exists>rs s'. db_calls impl cs s = Inr (rs, s') \<and> ok s' \<and> db_calls spec cs (absf s) = Inr (rs, absf s')"
proof (induction cs arbitrary: s)
  case (Cons c cs)
  from call_guarded [OF Cons.prems(1), of c] Cons.prems(2) obtain r s'
    where 1: "db_call impl c s = Inr (r, s')" "ok s'" "db_call spec c (absf s) = Inr (r, absf s')" by auto
  from Cons.IH [OF 1(2)] Cons.prems(2) 1(3) obtain rs s''
    where 2: "db_calls impl cs s' = Inr (rs, s'')" "ok s''" "db_calls spec cs (absf s') = Inr (rs, absf s'')" by auto
  from 1 2 show ?case by simp
qed simp

end

sublocale db_refinement \<subseteq> guarded: guarded_refinement impl spec absf ok "\<lambda>_. adm"
  by unfold_locales (rule call_refines)

section \<open>Records stored as strings\<close>

definition decode_table :: "(string \<Rightarrow> Field list res) \<Rightarrow> (string \<rightharpoonup> string) \<Rightarrow> table" where
  "decode_table deser m k = (case m k of None \<Rightarrow> None | Some s \<Rightarrow> (case deser s of Inr r \<Rightarrow> Some r | Inl _ \<Rightarrow> None))"

definition all_rows :: "(Field list \<Rightarrow> bool) \<Rightarrow> (Field list \<Rightarrow> string) \<Rightarrow> (string \<rightharpoonup> string) \<Rightarrow> bool" where
  "all_rows ok ser m \<longleftrightarrow> (\<forall>s \<in> ran m. \<exists>r. ok r \<and> s = ser r)"

lemma overwrite_names [simp]: "map fst (overwrite vs r) = map fst r"
  by (simp add: overwrite_def comp_def split_beta)

lemma overwrite_Cons: "overwrite vs (overwrite [fv] r) = overwrite (fv # vs) r"
  by (auto simp: overwrite_def map_add_def split: option.splits)

lemma overwrite_Nil [simp]: "overwrite [] r = r"
  by (induction r) (auto simp: overwrite_def)

lemma overwrite_absent: "fst fv \<notin> fst ` set r \<Longrightarrow> overwrite [fv] r = r"
  by (induction r) (auto simp: overwrite_def)

lemma assign_field_overwrite:
  "distinct (map fst r) \<Longrightarrow> assign_field fv r = (fst fv \<in> fst ` set r, overwrite [fv] r)"
proof (induction r)
  case (Cons cf r)
  obtain f v where cf: "cf = (f, v)" by (cases cf)
  have o: "overwrite [fv] (cf # r) = (f, if f = fst fv then snd fv else v) # overwrite [fv] r"
    by (cases fv) (simp add: overwrite_def cf)
  show ?case
  proof (cases "f = fst fv")
    case True
    then have "overwrite [fv] r = r" using Cons.prems overwrite_absent [of fv r] by (auto simp: cf)
    then show ?thesis using True by (simp add: o) (simp add: cf)
  next
    case False
    then show ?thesis using Cons by (simp add: o) (auto simp: cf)
  qed
qed (simp add: overwrite_def)

lemma assign_fields_overwrite:
  assumes "distinct (map fst r)" and "\<forall>fv \<in> set vs. fst fv \<in> fst ` set r"
  shows "assign_fields ndebug vs r = Inr (overwrite vs r)"
  using assms
proof (induction vs arbitrary: r)
  case (Cons fv vs)
  have "fst ` set (overwrite [fv] r) = fst ` set r"
    using arg_cong [OF overwrite_names [of "[fv]" r], of set] by (simp only: set_map)
  with Cons.IH [of "overwrite [fv] r"] Cons.prems show ?case
    by (simp add: assign_field_overwrite overwrite_Cons)
qed simp

lemma row_ok_overwrite:
  assumes "row_ok names r" and "\<forall>fv \<in> set vs. small fv"
  shows "row_ok names (overwrite vs r)"
proof -
  have "small (f, w)" if "(f, v) \<in> set r" "map_of (rev vs) f = Some w" for f v w
  proof -
    have "(f, w) \<in> set vs" using map_of_SomeD [OF that(2)] by simp
    then show ?thesis using assms(2) by blast
  qed
  then show ?thesis using assms(1) by (auto simp: row_ok_def overwrite_def comp_def split_beta split: option.splits)
qed

lemma scan_loop_all:
  assumes "\<forall>e \<in> set it. deser (snd e) = Inr (f e)"
  shows "scan_loop deser i len it result = Inr (result @ map f (take (nat (len - i)) it))"
  using assms
proof (induction it arbitrary: i result)
  case (Cons e it)
  have "i < len \<Longrightarrow> nat (len - i) = Suc (nat (len - (i + 1)))" by linarith
  with Cons show ?case by auto
qed simp

text \<open>A whole value is a serialised record.\<close>

lemma whole_row:
  assumes "row_ok names r"
  shows "DeserializeRow_loop ndebug (SerializeRow r []) 0 (length (SerializeRow r [])) [] = Inr r"
    and "distinct names \<Longrightarrow> subseq flds names \<Longrightarrow>
      DeserializeRowFilter_loop ndebug (SerializeRow r []) 0 (length (SerializeRow r [])) flds [] = Inr (project flds r)"
proof -
  have small: "\<forall>fv \<in> set r. small fv" and n: "map fst r = names" using assms by (auto simp: row_ok_def)
  show "DeserializeRow_loop ndebug (SerializeRow r []) 0 (length (SerializeRow r [])) [] = Inr r"
    using DeserializeRow_loop_encode [OF small, of ndebug "[]" "[]" "[]"] by (simp add: SerializeRow_concat)
  assume "distinct names" "subseq flds names"
  then have "pick flds r = project flds r" using n by (intro pick_project) auto
  then show "DeserializeRowFilter_loop ndebug (SerializeRow r []) 0 (length (SerializeRow r [])) flds [] = Inr (project flds r)"
    using DeserializeRowFilter_loop_encode [OF small, of ndebug "[]" "[]" flds "[]"] by (simp add: SerializeRow_concat)
qed

locale row_coding =
  fixes ser :: "Field list \<Rightarrow> string" and deser :: "string \<Rightarrow> Field list res" and rok :: "Field list \<Rightarrow> bool" and good :: bool
  assumes deser_ser: "good \<Longrightarrow> rok r \<Longrightarrow> deser (ser r) = Inr r"
begin

abbreviation rows :: "(string \<rightharpoonup> string) \<Rightarrow> bool" where
  "rows m \<equiv> all_rows rok ser m"

lemma ser_inject: "good \<Longrightarrow> rok r \<Longrightarrow> rok q \<Longrightarrow> ser r = ser q \<longleftrightarrow> r = q"
  using deser_ser by (metis Inr_inject)

lemma stored_row:
  assumes "good" and "rows m" and "m k = Some s"
  obtains r where "rok r" "s = ser r" "deser s = Inr r" "decode_table deser m k = Some r"
proof -
  obtain r where "rok r" "s = ser r" using assms(2,3) by (auto simp: all_rows_def ran_def)
  with that show thesis using deser_ser [OF assms(1)] assms(3) by (simp add: decode_table_def)
qed

lemma get_row:
  assumes "good" and "rows (m env)" and "kv_ok kv m"
  obtains "decode_table deser (m env) k = None" "kv_Get kv k env = (KvNotFound, [])"
  | r where "rok r" "decode_table deser (m env) k = Some r" "kv_Get kv k env = (KvOk, ser r)" "deser (ser r) = Inr r"
proof (cases "m env k")
  case None
  then show thesis using that(1) kv_okD(2) [OF assms(3), of k env] by (simp add: decode_table_def)
next
  case (Some s)
  show thesis
    by (rule stored_row [OF assms(1,2) Some]) (use that(2) kv_okD(2) [OF assms(3), of k env] Some in simp)
qed

lemma decode_None: "good \<Longrightarrow> rows m \<Longrightarrow> decode_table deser m k = None \<longleftrightarrow> m k = None"
  by (cases "m k") (auto simp: decode_table_def elim: stored_row)

lemma keys_from_decode: "good \<Longrightarrow> rows m \<Longrightarrow> keys_from k (decode_table deser m) = keys_from k m"
  using decode_None by (auto simp: keys_from_def dom_def)

lemma decode_upd: "good \<Longrightarrow> rok r \<Longrightarrow> decode_table deser (m(k \<mapsto> ser r)) = (decode_table deser m)(k \<mapsto> r)"
  using deser_ser by (auto simp: decode_table_def fun_eq_iff)

lemma decode_del: "decode_table deser (m(k := None)) = (decode_table deser m)(k := None)"
  by (auto simp: decode_table_def fun_eq_iff)

lemma rows_upd: "rows m \<Longrightarrow> rok r \<Longrightarrow> rows (m(k \<mapsto> ser r))"
  by (auto simp: all_rows_def ran_def split: if_splits)

lemma rows_del: "rows m \<Longrightarrow> rows (m(k := None))"
  by (auto simp: all_rows_def ran_def split: if_splits)

end

text \<open>A coding that can also read some fields only, for the records with the fields \<open>names\<close>.\<close>

locale row_codec = row_coding ser deser "row_ok names" good
  for ser :: "Field list \<Rightarrow> string" and deser :: "string \<Rightarrow> Field list res" and names :: "string list" and good :: bool +
  fixes deser_filter :: "string list \<Rightarrow> string \<Rightarrow> Field list res"
  assumes filter_ser: "good \<Longrightarrow> row_ok names r \<Longrightarrow> subseq flds names \<Longrightarrow> deser_filter flds (ser r) = Inr (project flds r)"
begin

abbreviation reader :: "string list option \<Rightarrow> string \<Rightarrow> Field list res" where
  "reader flds \<equiv> (case flds of None \<Rightarrow> deser | Some fs \<Rightarrow> deser_filter fs)"

lemma read_selected:
  assumes "good" and "row_ok names r" and "case flds of None \<Rightarrow> True | Some fs \<Rightarrow> subseq fs names"
  shows "reader flds (ser r) = Inr (select flds r)"
  using assms by (auto simp: select_def deser_ser filter_ser split: option.splits)

lemma scan_selected:
  assumes "good" and "rows m" and "finite (dom m)" and "case flds of None \<Rightarrow> True | Some fs \<Rightarrow> subseq fs names"
  shows "scan_loop (reader flds) 0 n (map (\<lambda>x. (x, the (m x))) (keys_from k m)) [] =
     Inr (map (\<lambda>x. select flds (the (decode_table deser m x))) (take (nat n) (keys_from k m)))"
proof -
  let ?it = "map (\<lambda>x. (x, the (m x))) (keys_from k m)"
  have "reader flds (the (m x)) = Inr (select flds (the (decode_table deser m x)))" if "x \<in> set (keys_from k m)" for x
  proof -
    have "x \<in> dom m" using that assms(3) by (auto simp: keys_from_def)
    then obtain s where s: "m x = Some s" by auto
    obtain r where r: "row_ok names r" "s = ser r" "decode_table deser m x = Some r"
      by (rule stored_row [OF assms(1,2) s])
    show ?thesis using read_selected [OF assms(1) r(1) assms(4)] by (simp only: s r option.sel)
  qed
  then have "\<forall>e \<in> set ?it. reader flds (snd e) = Inr (select flds (the (decode_table deser m (fst e))))" by auto
  from scan_loop_all [OF this, of 0 n "[]"] show ?thesis by (simp add: take_map comp_def)
qed

end

lemma update_row:
  assumes "distinct names" and "row_ok names r" and "\<forall>fv \<in> set vs. fst fv \<in> set names \<and> small fv"
  shows "assign_fields ndebug vs r = Inr (overwrite vs r)" and "row_ok names (overwrite vs r)"
proof -
  have "map fst r = names" using assms(2) by (simp add: row_ok_def)
  then show "assign_fields ndebug vs r = Inr (overwrite vs r)"
    using assms(1,3) by (intro assign_fields_overwrite) (auto simp flip: set_map)
  show "row_ok names (overwrite vs r)" using assms(2,3) by (simp add: row_ok_overwrite)
qed

section \<open>Reference counting\<close>

text \<open>
  A history of \<^verbatim>\<open>Init\<close> (\<open>True\<close>) and \<^verbatim>\<open>Cleanup\<close> (\<open>False\<close>) calls, by whichever threads, and their effect \<open>opn\<close>
  and \<open>cls\<close> on the static members. \<open>stays_open\<close> holds of the histories in which the count, from \<open>n\<close> on, never
  reaches 0.
\<close>

fun lifecycle :: "('t \<Rightarrow> 't res) \<Rightarrow> ('t \<Rightarrow> 't res) \<Rightarrow> bool list \<Rightarrow> 't \<Rightarrow> 't res" where
  "lifecycle opn cls [] t = Inr t"
| "lifecycle opn cls (e # es) t = andThen (if e then opn t else cls t) (lifecycle opn cls es)"

fun stays_open :: "bool list \<Rightarrow> int \<Rightarrow> bool" where
  "stays_open [] n = True"
| "stays_open (e # es) n = (let n = (if e then n + 1 else n - 1) in 0 < n \<and> stays_open es n)"

text \<open>
  The contract of \<^verbatim>\<open>Init\<close> and \<^verbatim>\<open>Cleanup\<close> on the shared handle, for the objects of one configuration;
  \<open>refs\<close> is the reference count and \<open>content\<close> the storage behind the handle.
\<close>

locale shared_handle =
  fixes opn :: "'t \<Rightarrow> 't res" and cls :: "'t \<Rightarrow> 't res" and live :: "'t \<Rightarrow> bool" and refs :: "'t \<Rightarrow> int"
    and content :: "'t \<Rightarrow> 's" and valid :: bool
  assumes open_live: "valid \<Longrightarrow> live t \<Longrightarrow> \<exists>t'. opn t = Inr t' \<and> live t' \<and> refs t' = refs t + 1 \<and> content t' = content t"
    and close_live: "live t \<Longrightarrow> refs t \<noteq> 1 \<Longrightarrow> \<exists>t'. cls t = Inr t' \<and> live t' \<and> refs t' = refs t - 1 \<and> content t' = content t"
    and close_last: "live t \<Longrightarrow> refs t = 1 \<Longrightarrow> \<exists>t'. cls t = Inr t' \<and> \<not> live t' \<and> refs t' = 0"
begin

lemma lifecycle_live:
  assumes "valid" and "live t" and "refs t = n" and "stays_open es n"
  shows "\<exists>t'. lifecycle opn cls es t = Inr t' \<and> live t' \<and> content t' = content t
     \<and> refs t' = n + int (count_list es True) - int (count_list es False)"
  using assms(2-)
proof (induction es arbitrary: t n)
  case (Cons e es)
  have "\<exists>t1. (if e then opn t else cls t) = Inr t1 \<and> live t1 \<and> content t1 = content t \<and> refs t1 = (if e then n + 1 else n - 1)"
    using open_live [OF assms(1) Cons.prems(1)] close_live [OF Cons.prems(1)] Cons.prems(2,3) by (cases e) (auto simp: Let_def)
  then obtain t1 where t1: "(if e then opn t else cls t) = Inr t1" "live t1" "content t1 = content t"
    "refs t1 = (if e then n + 1 else n - 1)" by blast
  from Cons.IH [OF t1(2,4)] Cons.prems(3) obtain t' where "lifecycle opn cls es t1 = Inr t'" "live t'" "content t' = content t1"
    "refs t' = (if e then n + 1 else n - 1) + int (count_list es True) - int (count_list es False)"
    by (auto simp: Let_def)
  with t1 show ?case by (cases e) simp_all
qed simp

lemma lifecycle_last:
  assumes "valid" and "live t" and "refs t = 1 + int (count_list es False) - int (count_list es True)" and "stays_open es (refs t)"
  shows "\<exists>t'. andThen (lifecycle opn cls es t) cls = Inr t' \<and> \<not> live t' \<and> refs t' = 0"
proof -
  obtain t1 where t1: "lifecycle opn cls es t = Inr t1" "live t1" "refs t1 = 1"
    using lifecycle_live [OF assms(1,2) refl assms(4)] assms(3) by auto
  then show ?thesis using close_last [OF t1(2,3)] by simp
qed

end

end
