(* ===== verification/Rocksdb.thy ===== *)
theory Rocksdb
  imports KV_Store
begin

text \<open>
  The RocksDB backend: \<^verbatim>\<open>src/rocksdb/rocksdb_db.h\<close> and \<^verbatim>\<open>src/rocksdb/rocksdb_db.cc\<close>. The library is the engine
  \<open>kv\<close> and the record \<open>rocksdb_lib\<close> of the calls that build options. \<open>use_merge\<close> and \<open>major8\<close> stand for the
  preprocessor symbols \<^verbatim>\<open>USE_MERGEUPDATE\<close> and \<^verbatim>\<open>ROCKSDB_MAJOR >= 8\<close>.
\<close>

section \<open>Options\<close>

datatype rocksdb_compression = Rks_kNoCompression | Rks_kSnappyCompression | Rks_kZlibCompression
  | Rks_kBZip2Compression | Rks_kLZ4Compression | Rks_kLZ4HCCompression | Rks_kXpressCompression | Rks_kZSTD

record table_Options =
  to_block_cache :: "u64 option"
  to_block_cache_compressed :: "u64 option"
  to_filter_policy :: "int option"

record 'e rocksdb_Options =
  ro_create_if_missing :: bool
  ro_env :: 'e
  ro_compression :: rocksdb_compression
  ro_max_background_jobs :: int
  ro_target_file_size_base :: u64
  ro_target_file_size_multiplier :: int
  ro_max_bytes_for_level_base :: u64
  ro_write_buffer_size :: u64
  ro_max_write_buffer_number :: int
  ro_compaction_pri :: int
  ro_max_open_files :: int
  ro_level0_file_num_compaction_trigger :: int
  ro_level0_slowdown_writes_trigger :: int
  ro_level0_stop_writes_trigger :: int
  ro_use_direct_io_for_flush_and_compaction :: bool
  ro_use_direct_reads :: bool
  ro_allow_mmap_writes :: bool
  ro_allow_mmap_reads :: bool
  ro_table_factory :: table_Options
  ro_merge_operator :: bool
  ro_stats_dump_period_sec :: nat
  ro_wal_dir :: string

record 'e rocksdb_lib =
  rl_Options :: "'e rocksdb_Options"
  rl_table_Options :: table_Options
  rl_default_env :: 'e
  rl_CreateFromUri :: "string \<Rightarrow> string \<Rightarrow> kv_status \<times> 'e"
  rl_LoadOptionsFromFile :: "'e \<Rightarrow> string \<Rightarrow> 'e rocksdb_Options \<Rightarrow> kv_status \<times> 'e rocksdb_Options \<times> string list"
  rl_IncreaseParallelism :: "'e rocksdb_Options \<Rightarrow> 'e rocksdb_Options"
  rl_OptimizeLevelStyleCompaction :: "'e rocksdb_Options \<Rightarrow> 'e rocksdb_Options"

definition rks_compression_of :: "string \<Rightarrow> rocksdb_compression res" where
  "rks_compression_of compression_type =
     (if compression_type = ''no'' then Inr Rks_kNoCompression
      else if compression_type = ''snappy'' then Inr Rks_kSnappyCompression
      else if compression_type = ''zlib'' then Inr Rks_kZlibCompression
      else if compression_type = ''bzip2'' then Inr Rks_kBZip2Compression
      else if compression_type = ''lz4'' then Inr Rks_kLZ4Compression
      else if compression_type = ''lz4hc'' then Inr Rks_kLZ4HCCompression
      else if compression_type = ''xpress'' then Inr Rks_kXpressCompression
      else if compression_type = ''zstd'' then Inr Rks_kZSTD
      else Inl (Exception ''Unknown compression type''))"

text \<open>\<^verbatim>\<open>val = std::stoi(props.GetProperty(name, dflt)); if (val != skip) opt->... = val;\<close>\<close>

definition int_option ::
    "Properties \<Rightarrow> string \<Rightarrow> string \<Rightarrow> int \<Rightarrow> (int \<Rightarrow> 'o \<Rightarrow> 'o) \<Rightarrow> 'o \<Rightarrow> 'o res" where
  "int_option props name dflt skip upd opt =
     andThen (stoi (GetProperty props name dflt)) (\<lambda>val. Inr (if val \<noteq> skip then upd val opt else opt))"

definition bool_option :: "Properties \<Rightarrow> string \<Rightarrow> ('o \<Rightarrow> 'o) \<Rightarrow> 'o \<Rightarrow> 'o" where
  "bool_option props name upd opt = (if GetProperty props name ''false'' = ''true'' then upd opt else opt)"

definition int_options :: "Properties \<Rightarrow> 'e rocksdb_Options \<Rightarrow> 'e rocksdb_Options res" where
  "int_options props opt =
     andThen (int_option props ''rocksdb.max_background_jobs'' ''0'' 0 (\<lambda>v opt. opt\<lparr>ro_max_background_jobs := v\<rparr>) opt) (\<lambda>opt.
     andThen (int_option props ''rocksdb.target_file_size_base'' ''0'' 0 (\<lambda>v opt. opt\<lparr>ro_target_file_size_base := word_of_int v\<rparr>) opt) (\<lambda>opt.
     andThen (int_option props ''rocksdb.target_file_size_multiplier'' ''0'' 0 (\<lambda>v opt. opt\<lparr>ro_target_file_size_multiplier := v\<rparr>) opt) (\<lambda>opt.
     andThen (int_option props ''rocksdb.max_bytes_for_level_base'' ''0'' 0 (\<lambda>v opt. opt\<lparr>ro_max_bytes_for_level_base := word_of_int v\<rparr>) opt) (\<lambda>opt.
     andThen (int_option props ''rocksdb.write_buffer_size'' ''0'' 0 (\<lambda>v opt. opt\<lparr>ro_write_buffer_size := word_of_int v\<rparr>) opt) (\<lambda>opt.
     andThen (int_option props ''rocksdb.max_write_buffer_number'' ''0'' 0 (\<lambda>v opt. opt\<lparr>ro_max_write_buffer_number := v\<rparr>) opt) (\<lambda>opt.
     andThen (int_option props ''rocksdb.compaction_pri'' ''-1'' (- 1) (\<lambda>v opt. opt\<lparr>ro_compaction_pri := v\<rparr>) opt) (\<lambda>opt.
     andThen (int_option props ''rocksdb.max_open_files'' ''-1'' 0 (\<lambda>v opt. opt\<lparr>ro_max_open_files := v\<rparr>) opt) (\<lambda>opt.
     andThen (int_option props ''rocksdb.level0_file_num_compaction_trigger'' ''0'' 0
       (\<lambda>v opt. opt\<lparr>ro_level0_file_num_compaction_trigger := v\<rparr>) opt) (\<lambda>opt.
     andThen (int_option props ''rocksdb.level0_slowdown_writes_trigger'' ''0'' 0
       (\<lambda>v opt. opt\<lparr>ro_level0_slowdown_writes_trigger := v\<rparr>) opt) (\<lambda>opt.
     int_option props ''rocksdb.level0_stop_writes_trigger'' ''0'' 0
       (\<lambda>v opt. opt\<lparr>ro_level0_stop_writes_trigger := v\<rparr>) opt))))))))))"

text \<open>\<^verbatim>\<open>bloom_bits\<close> is an \<^verbatim>\<open>int\<close> that takes the low 32 bits of what \<^verbatim>\<open>std::stoul\<close> returns.\<close>

definition table_options :: "bool \<Rightarrow> Properties \<Rightarrow> table_Options \<Rightarrow> table_Options res" where
  "table_options major8 props topt =
     andThen (stoul (GetProperty props ''rocksdb.cache_size'' ''0'')) (\<lambda>cache_size.
     let topt = (if cache_size > 0 then topt\<lparr>to_block_cache := Some cache_size\<rparr> else topt) in
     andThen (if major8 then Inr topt
              else andThen (stoul (GetProperty props ''rocksdb.compressed_cache_size'' ''0'')) (\<lambda>compressed_cache_size.
                Inr (if compressed_cache_size > 0 then topt\<lparr>to_block_cache_compressed := Some compressed_cache_size\<rparr> else topt))) (\<lambda>topt.
     andThen (stoul (GetProperty props ''rocksdb.bloom_bits'' ''0'')) (\<lambda>v.
     let bloom_bits = sint (ucast v :: u32) in
     Inr (if bloom_bits > 0 then topt\<lparr>to_filter_policy := Some bloom_bits\<rparr> else topt))))"

definition Rocksdb_GetOptions ::
    "'e rocksdb_lib \<Rightarrow> bool \<Rightarrow> Properties \<Rightarrow> 'e rocksdb_Options \<Rightarrow> ('e rocksdb_Options \<times> string list) res" where
  "Rocksdb_GetOptions lib major8 props opt =
     (let env_uri = GetProperty props ''rocksdb.env_uri'' '''';
          fs_uri = GetProperty props ''rocksdb.fs_uri'' '''' in
      andThen (if env_uri \<noteq> '''' \<or> fs_uri \<noteq> '''' then
                 (let (s, env) = rl_CreateFromUri lib env_uri fs_uri in
                  if s \<noteq> KvOk then Inl (Exception (''RocksDB CreateFromUri: '' @ kv_ToString s))
                  else Inr (env, opt\<lparr>ro_env := env\<rparr>))
               else Inr (rl_default_env lib, opt)) (\<lambda>(env, opt).
      let options_file = GetProperty props ''rocksdb.optionsfile'' '''' in
      if options_file \<noteq> '''' then
        (let (s, opt, cf_descs) = rl_LoadOptionsFromFile lib env options_file opt in
         if s \<noteq> KvOk then Inl (Exception (''RocksDB LoadOptionsFromFile: '' @ kv_ToString s))
         else Inr (opt, cf_descs))
      else
        andThen (rks_compression_of (GetProperty props ''rocksdb.compression'' ''no'')) (\<lambda>compression.
        andThen (int_options props (opt\<lparr>ro_compression := compression\<rparr>)) (\<lambda>opt.
        let opt = bool_option props ''rocksdb.use_direct_io_for_flush_compaction'' (\<lambda>opt. opt\<lparr>ro_use_direct_io_for_flush_and_compaction := True\<rparr>) opt;
            opt = bool_option props ''rocksdb.use_direct_reads'' (\<lambda>opt. opt\<lparr>ro_use_direct_reads := True\<rparr>) opt;
            opt = bool_option props ''rocksdb.allow_mmap_writes'' (\<lambda>opt. opt\<lparr>ro_allow_mmap_writes := True\<rparr>) opt;
            opt = bool_option props ''rocksdb.allow_mmap_reads'' (\<lambda>opt. opt\<lparr>ro_allow_mmap_reads := True\<rparr>) opt in
        andThen (table_options major8 props (rl_table_Options lib)) (\<lambda>topt.
        let opt = opt\<lparr>ro_table_factory := topt\<rparr>;
            opt = bool_option props ''rocksdb.increase_parallelism'' (rl_IncreaseParallelism lib) opt;
            opt = bool_option props ''rocksdb.optimize_level_style_compaction'' (rl_OptimizeLevelStyleCompaction lib) opt
        in Inr (opt, []))))))"

section \<open>The object\<close>

datatype RocksFormat = kSingleRow

text \<open>
  \<open>rd_merge\<close> says whether \<^verbatim>\<open>method_update_\<close> is \<^verbatim>\<open>MergeSingle\<close> instead of \<^verbatim>\<open>UpdateSingle\<close>. A column family handle
  is \<open>True\<close> while it points to an object and \<open>False\<close> when it is null.
\<close>

record 's RocksdbDB =
  rd_props :: Properties
  rd_format :: "RocksFormat option"
  rd_merge :: bool
  rd_fieldcount :: int
  rd_cf_handles :: "bool list"
  rd_static :: "'s kv_static"

type_synonym ('e, 's) rocks_engine = "('e rocksdb_Options \<times> string list, 's) kv_engine"

definition rd_set_env :: "'s \<Rightarrow> 's RocksdbDB \<Rightarrow> 's RocksdbDB" where
  "rd_set_env s d = d\<lparr>rd_static := (rd_static d)\<lparr>st_env := s\<rparr>\<rparr>"

definition Rocksdb_Init ::
    "('e, 's) rocks_engine \<Rightarrow> 'e rocksdb_lib \<Rightarrow> bool \<Rightarrow> bool \<Rightarrow> 's RocksdbDB \<Rightarrow> (unit \<times> 's RocksdbDB) res" where
  "Rocksdb_Init kv lib use_merge major8 d =
     (let props = rd_props d in
      andThen (if GetProperty props ''rocksdb.format'' ''single'' = ''single''
               then Inr (kSingleRow, use_merge \<and> GetProperty props ''rocksdb.mergeupdate'' ''false'' = ''true'')
               else Inl (Exception ''unknown format'')) (\<lambda>(format, merge).
      andThen (stoi (GetProperty props ''fieldcount'' ''10'')) (\<lambda>fieldcount.
      let st = rd_static d;
          st = st\<lparr>st_ref_cnt := st_ref_cnt st + 1\<rparr>;
          d = d\<lparr>rd_format := Some format, rd_merge := merge, rd_fieldcount := fieldcount, rd_static := st\<rparr>
      in if st_db st \<noteq> NullHandle then Inr ((), d)
         else let db_path = GetProperty props ''rocksdb.dbname'' '''' in
           if db_path = '''' then Inl (Exception ''RocksDB db path is missing'')
           else andThen (Rocksdb_GetOptions lib major8 props ((rl_Options lib)\<lparr>ro_create_if_missing := True\<rparr>)) (\<lambda>(opt, cf_descs).
             let opt = (if use_merge then opt\<lparr>ro_merge_operator := True\<rparr> else opt);
                 opt = opt\<lparr>ro_stats_dump_period_sec := 10, ro_wal_dir := db_path @ ''/wal''\<rparr> in
             andThen (if GetProperty props ''rocksdb.destroy'' ''false'' = ''true''
                      then throw_unless_ok ''RocksDB DestroyDB: '' (kv_Destroy kv db_path (opt, []) (st_env st))
                      else Inr (st_env st)) (\<lambda>env.
             andThen (throw_unless_ok ''RocksDB Open: '' (kv_Open kv (opt, cf_descs) db_path env)) (\<lambda>env.
             Inr ((), d\<lparr>rd_static := st\<lparr>st_db := LiveHandle, st_env := env\<rparr>,
               rd_cf_handles := (if cf_descs = [] then rd_cf_handles d else map (\<lambda>_. True) cf_descs)\<rparr>)))))))"

definition Rocksdb_Cleanup :: "'s RocksdbDB \<Rightarrow> (unit \<times> 's RocksdbDB) res" where
  "Rocksdb_Cleanup d =
     (let st = rd_static d;
          st = st\<lparr>st_ref_cnt := st_ref_cnt st - 1\<rparr>;
          d = d\<lparr>rd_static := st\<rparr>
      in if st_ref_cnt st \<noteq> 0 then Inr ((), d)
         else let d = d\<lparr>rd_cf_handles := map (\<lambda>_. False) (rd_cf_handles d)\<rparr> in
           andThen (delete_handle (st_db st)) (\<lambda>h. Inr ((), d\<lparr>rd_static := st\<lparr>st_db := h\<rparr>\<rparr>)))"

section \<open>Rows\<close>

definition Rocksdb_SerializeRow :: "Field list \<Rightarrow> string" where
  "Rocksdb_SerializeRow values = SerializeRow values []"

definition Rocksdb_DeserializeRowFilter :: "bool \<Rightarrow> string list \<Rightarrow> string \<Rightarrow> Field list res" where
  "Rocksdb_DeserializeRowFilter ndebug flds data =
     andThen (DeserializeRowFilter_loop ndebug (string_mem data) 0 (length data) flds []) (\<lambda>values.
     andThen (assert_that ndebug (length values = length flds) ''values.size() == fields.size()'') (\<lambda>_. Inr values))"

definition Rocksdb_DeserializeRow :: "bool \<Rightarrow> string \<Rightarrow> Field list res" where
  "Rocksdb_DeserializeRow ndebug data = DeserializeRow_loop ndebug (string_mem data) 0 (length data) []"

text \<open>A \<^verbatim>\<open>Slice\<close> is read without a terminating byte.\<close>

definition Slice_DeserializeRow :: "bool \<Rightarrow> string \<Rightarrow> Field list res" where
  "Slice_DeserializeRow ndebug bytes = DeserializeRow_loop ndebug bytes 0 (length bytes) []"

text \<open>The reader of the whole record with the assertion that its callers add.\<close>

definition rd_row :: "bool \<Rightarrow> int \<Rightarrow> string \<Rightarrow> Field list res" where
  "rd_row ndebug fieldcount data =
     andThen (Rocksdb_DeserializeRow ndebug data) (\<lambda>values.
     andThen (assert_that ndebug ((of_nat (length values) :: u64) = word_of_int fieldcount)
       ''values.size() == static_cast<size_t>(fieldcount_)'') (\<lambda>_. Inr values))"

definition rd_reader :: "bool \<Rightarrow> int \<Rightarrow> string list option \<Rightarrow> string \<Rightarrow> Field list res" where
  "rd_reader ndebug fieldcount flds = (case flds of
       None \<Rightarrow> rd_row ndebug fieldcount
     | Some fs \<Rightarrow> Rocksdb_DeserializeRowFilter ndebug fs)"

section \<open>The merge operator\<close>

fun merge_fields :: "Field list \<Rightarrow> Field list \<Rightarrow> Field list" where
  "merge_fields [] values = values"
| "merge_fields (new_field # new_values) values =
     (let (found, values) = assign_field new_field values in
      merge_fields new_values (if found then values else values @ [new_field]))"

definition YCSBUpdateMerge_Merge :: "bool \<Rightarrow> string option \<Rightarrow> string \<Rightarrow> string res" where
  "YCSBUpdateMerge_Merge ndebug existing_value second =
     andThen (assert_that ndebug (existing_value \<noteq> None) ''existing_value'') (\<lambda>_.
     case existing_value of
       None \<Rightarrow> Inl (Undefined ''null existing_value'')
     | Some bytes \<Rightarrow>
         andThen (Slice_DeserializeRow ndebug bytes) (\<lambda>values.
         andThen (Slice_DeserializeRow ndebug second) (\<lambda>new_values.
         Inr (Rocksdb_SerializeRow (merge_fields new_values values)))))"

section \<open>Operations\<close>

definition ReadSingle ::
    "('e, 's) rocks_engine \<Rightarrow> bool \<Rightarrow> string \<Rightarrow> string \<Rightarrow> string list option \<Rightarrow> 's RocksdbDB
     \<Rightarrow> ((Status \<times> Field list) \<times> 's RocksdbDB) res" where
  "ReadSingle kv ndebug table key flds d =
     andThen (deref (rd_static d)) (\<lambda>env.
     let (s, data) = kv_Get kv key env in
     if s = KvNotFound then Inr ((kNotFound, []), d)
     else if s \<noteq> KvOk then Inl (Exception (''RocksDB Get: '' @ kv_ToString s))
     else andThen (rd_reader ndebug (rd_fieldcount d) flds data) (\<lambda>result. Inr ((kOK, result), d)))"

definition ScanSingle ::
    "('e, 's) rocks_engine \<Rightarrow> bool \<Rightarrow> string \<Rightarrow> string \<Rightarrow> int \<Rightarrow> string list option \<Rightarrow> 's RocksdbDB
     \<Rightarrow> ((Status \<times> Field list list) \<times> 's RocksdbDB) res" where
  "ScanSingle kv ndebug table key len flds d =
     andThen (deref (rd_static d)) (\<lambda>env.
     andThen (scan_loop (rd_reader ndebug (rd_fieldcount d) flds) 0 len (kv_Seek kv key env) []) (\<lambda>result.
     Inr ((kOK, result), d)))"

definition UpdateSingle ::
    "('e, 's) rocks_engine \<Rightarrow> bool \<Rightarrow> string \<Rightarrow> string \<Rightarrow> Field list \<Rightarrow> 's RocksdbDB \<Rightarrow> (Status \<times> 's RocksdbDB) res" where
  "UpdateSingle kv ndebug table key values d =
     andThen (deref (rd_static d)) (\<lambda>env.
     let (s, data) = kv_Get kv key env in
     if s = KvNotFound then Inr (kNotFound, d)
     else if s \<noteq> KvOk then Inl (Exception (''RocksDB Get: '' @ kv_ToString s))
     else andThen (rd_row ndebug (rd_fieldcount d) data) (\<lambda>current_values.
       andThen (assign_fields ndebug values current_values) (\<lambda>current_values.
       let data = Rocksdb_SerializeRow current_values in
       andThen (throw_unless_ok ''RocksDB Put: '' (kv_Put kv False key data env)) (\<lambda>env.
       Inr (kOK, rd_set_env env d)))))"

definition MergeSingle ::
    "('e, 's) rocks_engine \<Rightarrow> string \<Rightarrow> string \<Rightarrow> Field list \<Rightarrow> 's RocksdbDB \<Rightarrow> (Status \<times> 's RocksdbDB) res" where
  "MergeSingle kv table key values d =
     (let data = Rocksdb_SerializeRow values in
      andThen (deref (rd_static d)) (\<lambda>env.
      andThen (throw_unless_ok ''RocksDB Merge: '' (kv_Merge kv key data env)) (\<lambda>env.
      Inr (kOK, rd_set_env env d))))"

definition InsertSingle ::
    "('e, 's) rocks_engine \<Rightarrow> string \<Rightarrow> string \<Rightarrow> Field list \<Rightarrow> 's RocksdbDB \<Rightarrow> (Status \<times> 's RocksdbDB) res" where
  "InsertSingle kv table key values d =
     (let data = Rocksdb_SerializeRow values in
      andThen (deref (rd_static d)) (\<lambda>env.
      andThen (throw_unless_ok ''RocksDB Put: '' (kv_Put kv False key data env)) (\<lambda>env.
      Inr (kOK, rd_set_env env d))))"

definition DeleteSingle ::
    "('e, 's) rocks_engine \<Rightarrow> string \<Rightarrow> string \<Rightarrow> 's RocksdbDB \<Rightarrow> (Status \<times> 's RocksdbDB) res" where
  "DeleteSingle kv table key d =
     andThen (deref (rd_static d)) (\<lambda>env.
     andThen (throw_unless_ok ''RocksDB Delete: '' (kv_Delete kv key env)) (\<lambda>env.
     Inr (kOK, rd_set_env env d)))"

definition rd_dispatch :: "('s RocksdbDB \<Rightarrow> 'a res) \<Rightarrow> 's RocksdbDB \<Rightarrow> 'a res" where
  "rd_dispatch method d = (case rd_format d of
       None \<Rightarrow> Inl (Undefined ''call through an uninitialised method pointer'')
     | Some kSingleRow \<Rightarrow> method d)"

text \<open>The class inherits \<^verbatim>\<open>ReadIdx\<close> from \<^verbatim>\<open>DB\<close>, where it is pure virtual.\<close>

definition Rocksdb_ops ::
    "('e, 's) rocks_engine \<Rightarrow> 'e rocksdb_lib \<Rightarrow> bool \<Rightarrow> bool \<Rightarrow> bool \<Rightarrow> 's RocksdbDB DB" where
  "Rocksdb_ops kv lib use_merge major8 ndebug =
     \<lparr>db_Init = Rocksdb_Init kv lib use_merge major8, db_Cleanup = Rocksdb_Cleanup,
      db_Read = (\<lambda>table key flds. rd_dispatch (ReadSingle kv ndebug table key flds)),
      db_Scan = (\<lambda>table key len flds. rd_dispatch (ScanSingle kv ndebug table key len flds)),
      db_Update = (\<lambda>table key values. rd_dispatch (\<lambda>d.
        if rd_merge d then MergeSingle kv table key values d else UpdateSingle kv ndebug table key values d)),
      db_Insert = (\<lambda>table key values. rd_dispatch (InsertSingle kv table key values)),
      db_Delete = (\<lambda>table key. rd_dispatch (DeleteSingle kv table key)),
      db_ReadIdx = (\<lambda>_ _. Inl (Undefined ''pure virtual ReadIdx'')),
      db_ReInitBeforeTransaction = False,
      db_SetProps = (\<lambda>p d. d\<lparr>rd_props := p\<rparr>)\<rparr>"

definition NewRocksdbDB :: "Properties \<Rightarrow> bool list \<Rightarrow> 's kv_static \<Rightarrow> 's RocksdbDB" where
  "NewRocksdbDB props handles st = \<lparr>rd_props = props, rd_format = None, rd_merge = False, rd_fieldcount = 0,
     rd_cf_handles = handles, rd_static = st\<rparr>"

section \<open>The backend implements the table\<close>

interpretation rd_codec: row_codec Rocksdb_SerializeRow "rd_row ndebug fieldcount" names
    "distinct names \<and> (of_nat (length names) :: u64) = word_of_int fieldcount" "Rocksdb_DeserializeRowFilter ndebug"
  for ndebug fieldcount names
proof unfold_locales
  fix r assume g: "distinct names \<and> (of_nat (length names) :: u64) = word_of_int fieldcount" and r: "row_ok names r"
  have small: "\<forall>fv \<in> set r. small fv" and n: "length r = length names" "map fst r = names"
    using r by (auto simp: row_ok_def)
  have data: "Rocksdb_SerializeRow r = concat (map encode_field r)"
    by (simp add: Rocksdb_SerializeRow_def SerializeRow_concat)
  show "rd_row ndebug fieldcount (Rocksdb_SerializeRow r) = Inr r"
    using DeserializeRow_loop_encode [OF small, of ndebug "[]" "[CHR 0x00]" "[]"] g
    by (simp add: rd_row_def Rocksdb_DeserializeRow_def data string_mem_def n)
  fix flds assume f: "subseq flds names"
  have "pick flds r = project flds r" using g f n(2) by (intro pick_project) auto
  then show "Rocksdb_DeserializeRowFilter ndebug flds (Rocksdb_SerializeRow r) = Inr (project flds r)"
    using DeserializeRowFilter_loop_encode [OF small, of ndebug "[]" "[CHR 0x00]" flds "[]"]
    by (simp add: Rocksdb_DeserializeRowFilter_def data string_mem_def) (simp add: project_def)
qed

text \<open>What the merge operator's documentation promises: \<^verbatim>\<open>Merge\<close> replaces the value by the operator's result.\<close>

definition merges :: "('e, 's) rocks_engine \<Rightarrow> ('s \<Rightarrow> string \<rightharpoonup> string) \<Rightarrow> (string option \<Rightarrow> string \<Rightarrow> string res) \<Rightarrow> bool" where
  "merges kv m merge_op \<longleftrightarrow> (\<forall>k v s w. merge_op (m s k) v = Inr w \<longrightarrow>
     fst (kv_Merge kv k v s) = KvOk \<and> m (snd (kv_Merge kv k v s)) = (m s)(k \<mapsto> w))"

abbreviation rd_store :: "('s \<Rightarrow> string \<rightharpoonup> string) \<Rightarrow> 's RocksdbDB \<Rightarrow> string \<rightharpoonup> string" where
  "rd_store m d \<equiv> m (st_env (rd_static d))"

definition rd_ok :: "('e, 's) rocks_engine \<Rightarrow> ('s \<Rightarrow> string \<rightharpoonup> string) \<Rightarrow> string list \<Rightarrow> 's RocksdbDB \<Rightarrow> bool" where
  "rd_ok kv m names d \<longleftrightarrow> kv_ok kv m \<and> rd_format d = Some kSingleRow \<and> st_db (rd_static d) = LiveHandle
     \<and> (distinct names \<and> (of_nat (length names) :: u64) = word_of_int (rd_fieldcount d))
     \<and> all_rows (row_ok names) Rocksdb_SerializeRow (rd_store m d)"

definition rd_table :: "('s \<Rightarrow> string \<rightharpoonup> string) \<Rightarrow> bool \<Rightarrow> 's RocksdbDB \<Rightarrow> table" where
  "rd_table m ndebug d = decode_table (rd_row ndebug (rd_fieldcount d)) (rd_store m d)"

lemma rd_set_env_simps [simp]:
  "rd_format (rd_set_env env d) = rd_format d" "rd_fieldcount (rd_set_env env d) = rd_fieldcount d"
  "rd_merge (rd_set_env env d) = rd_merge d" "st_db (rd_static (rd_set_env env d)) = st_db (rd_static d)"
  "st_env (rd_static (rd_set_env env d)) = env"
  by (simp_all add: rd_set_env_def)

lemma rd_okD:
  assumes "rd_ok kv m names d"
  shows "st_db (rd_static d) = LiveHandle" and "kv_ok kv m"
    and "distinct names \<and> (of_nat (length names) :: u64) = word_of_int (rd_fieldcount d)"
    and "all_rows (row_ok names) Rocksdb_SerializeRow (rd_store m d)" and "rd_format d = Some kSingleRow"
  using assms by (simp_all add: rd_ok_def)

lemma rd_write:
  assumes "rd_ok kv m names d" and "row_ok names r" and "m env = (rd_store m d)(k \<mapsto> Rocksdb_SerializeRow r)"
  shows "rd_ok kv m names (rd_set_env env d) \<and> rd_table m ndebug (rd_set_env env d) = (rd_table m ndebug d)(k \<mapsto> r)"
  using assms rd_codec.decode_upd [of names "rd_fieldcount d" r ndebug "rd_store m d" k]
    rd_codec.rows_upd [of names "rd_store m d" r k]
  by (simp add: rd_ok_def rd_table_def)

lemma rd_get:
  assumes ok: "rd_ok kv m names d"
  obtains "rd_table m ndebug d k = None" "kv_Get kv k (st_env (rd_static d)) = (KvNotFound, [])"
  | r where "row_ok names r" "rd_table m ndebug d k = Some r" "kv_Get kv k (st_env (rd_static d)) = (KvOk, Rocksdb_SerializeRow r)"
      "rd_row ndebug (rd_fieldcount d) (Rocksdb_SerializeRow r) = Inr r"
  using rd_codec.get_row [where m = m and env = "st_env (rd_static d)", OF rd_okD(3,4,2) [OF ok], of ndebug k thesis]
  unfolding rd_table_def .

lemma rd_Read:
  assumes ok: "rd_ok kv m names d" and flds: "case flds of None \<Rightarrow> True | Some fs \<Rightarrow> subseq fs names"
  shows "\<exists>s. ReadSingle kv ndebug t k flds d = Inr (s, d)
     \<and> db_Read Table_ops t k flds (rd_table m ndebug d) = Inr (s, rd_table m ndebug d)"
proof (cases rule: rd_get [OF ok, of ndebug k])
  case 1
  then show ?thesis using rd_okD(1) [OF ok] by (simp add: ReadSingle_def Table_ops_def)
next
  case (2 r)
  have "rd_reader ndebug (rd_fieldcount d) flds (Rocksdb_SerializeRow r) = Inr (select flds r)"
    unfolding rd_reader_def by (rule rd_codec.read_selected [OF rd_okD(3) [OF ok] 2(1) flds])
  then show ?thesis using 2 rd_okD(1) [OF ok] by (simp add: ReadSingle_def Table_ops_def)
qed

lemma rd_Scan:
  assumes ok: "rd_ok kv m names d" and flds: "case flds of None \<Rightarrow> True | Some fs \<Rightarrow> subseq fs names"
  shows "\<exists>s. ScanSingle kv ndebug t k n flds d = Inr (s, d)
     \<and> db_Scan Table_ops t k n flds (rd_table m ndebug d) = Inr (s, rd_table m ndebug d)"
  using rd_codec.scan_selected [OF rd_okD(3,4) [OF ok] kv_okD(1) [OF rd_okD(2) [OF ok]] flds, of ndebug n k]
    rd_codec.keys_from_decode [OF rd_okD(3,4) [OF ok], of k ndebug]
  by (simp add: ScanSingle_def rd_okD(1) [OF ok] kv_okD(9) [OF rd_okD(2) [OF ok]] rd_reader_def Table_ops_def rd_table_def)

lemma rd_assign:
  assumes ok: "rd_ok kv m names d" and r: "row_ok names r" and vs: "\<forall>fv \<in> set vs. fst fv \<in> set names \<and> small fv"
  shows "assign_fields ndebug vs r = Inr (overwrite vs r)" and "row_ok names (overwrite vs r)"
proof -
  have "map fst r = names" using r by (simp add: row_ok_def)
  then show "assign_fields ndebug vs r = Inr (overwrite vs r)"
    using rd_okD(3) [OF ok] vs by (intro assign_fields_overwrite) (auto simp flip: set_map)
  show "row_ok names (overwrite vs r)" using r vs by (simp add: row_ok_overwrite)
qed

lemma rd_Update:
  assumes ok: "rd_ok kv m names d" and vs: "\<forall>fv \<in> set vs. fst fv \<in> set names \<and> small fv"
  shows "\<exists>s d'. UpdateSingle kv ndebug t k vs d = Inr (s, d') \<and> rd_ok kv m names d' \<and> rd_merge d' = rd_merge d
     \<and> db_Update Table_ops t k vs (rd_table m ndebug d) = Inr (s, rd_table m ndebug d')"
proof (cases rule: rd_get [OF ok, of ndebug k])
  case 1
  then show ?thesis using rd_okD(1) [OF ok] ok by (intro exI [of _ kNotFound] exI [of _ d]) (simp add: UpdateSingle_def Table_ops_def)
next
  case (2 r)
  note a = rd_assign [OF ok 2(1) vs]
  let ?env = "snd (kv_Put kv False k (Rocksdb_SerializeRow (overwrite vs r)) (st_env (rd_static d)))"
  have "UpdateSingle kv ndebug t k vs d = Inr (kOK, rd_set_env ?env d)"
    using 2 rd_okD(1) [OF ok] kv_okD(3) [OF rd_okD(2) [OF ok]] by (simp add: UpdateSingle_def a(1))
  with rd_write [OF ok a(2) kv_okD(4) [OF rd_okD(2) [OF ok]]] 2(2) show ?thesis
    by (simp add: Table_ops_def)
qed

interpretation rd_single: db_refinement "Rocksdb_ops kv lib use_merge major8 ndebug" Table_ops "rd_table m ndebug"
    "\<lambda>d. rd_ok kv m names d \<and> \<not> rd_merge d" "row_call names" for kv lib use_merge major8 ndebug m names
proof unfold_locales
  fix d c assume "rd_ok kv m names d \<and> \<not> rd_merge d" and c: "row_call names c"
  then have ok: "rd_ok kv m names d" and um: "\<not> rd_merge d" by simp_all
  note f = rd_okD(1,2,5) [OF ok]
  show "\<exists>r d'. db_call (Rocksdb_ops kv lib use_merge major8 ndebug) c d = Inr (r, d') \<and> (rd_ok kv m names d' \<and> \<not> rd_merge d')
      \<and> db_call Table_ops c (rd_table m ndebug d) = Inr (r, rd_table m ndebug d')"
  proof (cases c)
    case (CRead t k flds)
    with rd_Read [OF ok, of flds ndebug t k] c ok f um show ?thesis
      by (auto simp: Rocksdb_ops_def rd_dispatch_def)
  next
    case (CScan t k n flds)
    with rd_Scan [OF ok, of flds ndebug t k n] c ok f um show ?thesis
      by (auto simp: Rocksdb_ops_def rd_dispatch_def)
  next
    case (CUpdate t k vs)
    with rd_Update [OF ok, of vs ndebug t k] c f um show ?thesis
      by (auto simp: Rocksdb_ops_def rd_dispatch_def)
  next
    case (CInsert t k vs)
    with rd_write [OF ok _ kv_okD(4) [OF f(2), where b = False], where ndebug = ndebug] c f um show ?thesis
      by (simp add: Rocksdb_ops_def rd_dispatch_def InsertSingle_def Table_ops_def kv_okD(3) [OF f(2)])
  next
    case (CDelete t k)
    with ok f um rd_codec.rows_del [of names "rd_store m d" k]
      rd_codec.decode_del [of ndebug "rd_fieldcount d" "rd_store m d" k] show ?thesis
      by (simp add: Rocksdb_ops_def rd_dispatch_def DeleteSingle_def Table_ops_def kv_okD(5,6) [OF f(2)] rd_ok_def rd_table_def)
  next
    case (CReadIdx i)
    with c show ?thesis by simp
  qed
qed

section \<open>Merging\<close>

lemma Slice_DeserializeRow_ser: "\<forall>fv \<in> set r. small fv \<Longrightarrow> Slice_DeserializeRow ndebug (Rocksdb_SerializeRow r) = Inr r"
  using DeserializeRow_loop_encode [of r ndebug "[]" "[]" "[]"]
  by (simp add: Slice_DeserializeRow_def Rocksdb_SerializeRow_def SerializeRow_concat)

lemma merge_fields_overwrite:
  assumes "distinct (map fst r)" and "\<forall>fv \<in> set vs. fst fv \<in> fst ` set r"
  shows "merge_fields vs r = overwrite vs r"
  using assms
proof (induction vs arbitrary: r)
  case (Cons fv vs)
  have "fst ` set (overwrite [fv] r) = fst ` set r"
    using arg_cong [OF overwrite_names [of "[fv]" r], of set] by (simp only: set_map)
  with Cons.IH [of "overwrite [fv] r"] Cons.prems show ?case
    by (simp add: assign_field_overwrite overwrite_Cons)
qed simp

lemma rd_Merge:
  assumes ok: "rd_ok kv m names d" and vs: "\<forall>fv \<in> set vs. fst fv \<in> set names \<and> small fv"
    and merge: "merges kv m (YCSBUpdateMerge_Merge ndebug)" and k: "rd_table m ndebug d k = Some r"
  shows "\<exists>env. MergeSingle kv t k vs d = Inr (kOK, rd_set_env env d)
     \<and> m env = (rd_store m d)(k \<mapsto> Rocksdb_SerializeRow (overwrite vs r))"
proof -
  have "row_ok names r \<and> rd_store m d k = Some (Rocksdb_SerializeRow r)"
  proof (cases rule: rd_get [OF ok, of ndebug k])
    case 1
    then show ?thesis using k by simp
  next
    case (2 q)
    then show ?thesis using k kv_okD(2) [OF rd_okD(2) [OF ok], of k "st_env (rd_static d)"]
      by (cases "rd_store m d k") simp_all
  qed
  then have r: "row_ok names r" "rd_store m d k = Some (Rocksdb_SerializeRow r)" by simp_all
  have names: "map fst r = names" and small: "\<forall>fv \<in> set r. small fv" using r(1) by (auto simp: row_ok_def)
  have "merge_fields vs r = overwrite vs r"
    using rd_okD(3) [OF ok] vs names by (intro merge_fields_overwrite) (auto simp flip: set_map)
  then have "YCSBUpdateMerge_Merge ndebug (rd_store m d k) (Rocksdb_SerializeRow vs) = Inr (Rocksdb_SerializeRow (overwrite vs r))"
    using small vs by (simp add: YCSBUpdateMerge_Merge_def r(2) Slice_DeserializeRow_ser)
  then have "fst (kv_Merge kv k (Rocksdb_SerializeRow vs) (st_env (rd_static d))) = KvOk"
    "m (snd (kv_Merge kv k (Rocksdb_SerializeRow vs) (st_env (rd_static d)))) = (rd_store m d)(k \<mapsto> Rocksdb_SerializeRow (overwrite vs r))"
    using merge unfolding merges_def by blast+
  then show ?thesis using rd_okD(1) [OF ok] by (auto simp: MergeSingle_def)
qed

section \<open>The shared handle\<close>

definition rd_open :: "('e, 's) rocks_engine \<Rightarrow> 'e rocksdb_lib \<Rightarrow> bool \<Rightarrow> bool \<Rightarrow> Properties \<Rightarrow> bool list \<times> 's kv_static \<Rightarrow> (bool list \<times> 's kv_static) res" where
  "rd_open kv lib use_merge major8 props t =
     map_sum id (\<lambda>(_, d). (rd_cf_handles d, rd_static d)) (Rocksdb_Init kv lib use_merge major8 (NewRocksdbDB props (fst t) (snd t)))"

definition rd_close :: "bool list \<times> 's kv_static \<Rightarrow> (bool list \<times> 's kv_static) res" where
  "rd_close t = map_sum id (\<lambda>(_, d). (rd_cf_handles d, rd_static d)) (Rocksdb_Cleanup (NewRocksdbDB no_properties (fst t) (snd t)))"

definition rd_props_valid :: "Properties \<Rightarrow> bool" where
  "rd_props_valid props \<longleftrightarrow> GetProperty props ''rocksdb.format'' ''single'' = ''single''
     \<and> stoi (GetProperty props ''fieldcount'' ''10'') \<in> range Inr"

interpretation rd_handle: shared_handle "rd_open kv lib use_merge major8 props" rd_close
    "\<lambda>t. st_db (snd t) = LiveHandle" "\<lambda>t. st_ref_cnt (snd t)" "\<lambda>t. st_env (snd t)" "rd_props_valid props"
  for kv lib use_merge major8 props
  by unfold_locales
    (auto simp: rd_open_def rd_close_def rd_props_valid_def Rocksdb_Init_def Rocksdb_Cleanup_def NewRocksdbDB_def
      delete_handle_def Let_def)

section \<open>Properties\<close>

text \<open>C7: The RocksDB backend implements the abstract table, for every engine that keeps its documented promises: any sequence of
  inserts, reads, scans, updates and deletes of records with the configured fields returns, in a debug build and in a release
  build, and every status, record and scan result is the one of the table, whose content the stored bytes encode.\<close>

theorem rocksdb_refines_table:
  assumes "rd_ok kv m names d" and "\<not> rd_merge d" and "\<forall>c \<in> set cs. row_call names c"
  shows "\<exists>rs d'. db_calls (Rocksdb_ops kv lib use_merge major8 ndebug) cs d = Inr (rs, d') \<and> rd_ok kv m names d'
     \<and> db_calls Table_ops cs (rd_table m ndebug d) = Inr (rs, rd_table m ndebug d')"
  using rd_single.calls_refine [of kv m names d cs lib use_merge major8 ndebug] assms by blast

definition demo_lib :: "unit rocksdb_lib" where
  "demo_lib = \<lparr>rl_Options = \<lparr>ro_create_if_missing = False, ro_env = (), ro_compression = Rks_kSnappyCompression,
       ro_max_background_jobs = 2, ro_target_file_size_base = 67108864, ro_target_file_size_multiplier = 1,
       ro_max_bytes_for_level_base = 268435456, ro_write_buffer_size = 67108864, ro_max_write_buffer_number = 2,
       ro_compaction_pri = 3, ro_max_open_files = - 1, ro_level0_file_num_compaction_trigger = 4,
       ro_level0_slowdown_writes_trigger = 20, ro_level0_stop_writes_trigger = 36,
       ro_use_direct_io_for_flush_and_compaction = False, ro_use_direct_reads = False, ro_allow_mmap_writes = False,
       ro_allow_mmap_reads = False, ro_table_factory = \<lparr>to_block_cache = None, to_block_cache_compressed = None, to_filter_policy = None\<rparr>,
       ro_merge_operator = False, ro_stats_dump_period_sec = 600, ro_wal_dir = []\<rparr>,
     rl_table_Options = \<lparr>to_block_cache = None, to_block_cache_compressed = None, to_filter_policy = None\<rparr>,
     rl_default_env = (), rl_CreateFromUri = (\<lambda>_ _. (KvOk, ())), rl_LoadOptionsFromFile = (\<lambda>_ _ opt. (KvOk, opt, [])),
     rl_IncreaseParallelism = (\<lambda>opt. opt), rl_OptimizeLevelStyleCompaction = (\<lambda>opt. opt)\<rparr>"

definition demo_rocks :: "(string \<times> string) list RocksdbDB" where
  "demo_rocks = \<lparr>rd_props = no_properties, rd_format = Some kSingleRow, rd_merge = False, rd_fieldcount = 2,
     rd_cf_handles = [], rd_static = \<lparr>st_db = LiveHandle, st_ref_cnt = 1, st_env = []\<rparr>\<rparr>"

lemma demo_rocks_ok: "rd_ok (mem_engine\<lparr>kv_Merge := f\<rparr>) map_of [''field0'', ''field1''] demo_rocks"
proof -
  have "kv_ok (mem_engine\<lparr>kv_Merge := f\<rparr>) map_of" using mem_engine_ok by (simp add: kv_ok_def)
  then show ?thesis by (simp add: rd_ok_def demo_rocks_def all_rows_def)
qed

theorem rocksdb_refines_table_witness:
  "\<exists>d'. db_calls (Rocksdb_ops (mem_engine\<lparr>kv_Merge := \<lambda>_ _ s. (KvOk, s)\<rparr>) demo_lib False True False)
     [CInsert ''t'' ''k'' [(''field0'', ''a''), (''field1'', ''b'')], CUpdate ''t'' ''k'' [(''field1'', ''c'')],
      CRead ''t'' ''k'' (Some [''field1'']), CDelete ''t'' ''k'', CRead ''t'' ''k'' None] demo_rocks
     = Inr ([RStatus kOK, RStatus kOK, RFields kOK [(''field1'', ''c'')], RStatus kOK, RFields kNotFound []], d')"
proof -
  let ?cs = "[CInsert ''t'' ''k'' [(''field0'', ''a''), (''field1'', ''b'')], CUpdate ''t'' ''k'' [(''field1'', ''c'')],
      CRead ''t'' ''k'' (Some [''field1'']), CDelete ''t'' ''k'', CRead ''t'' ''k'' None]"
  have "\<forall>c \<in> set ?cs. row_call [''field0'', ''field1''] c" by (simp add: row_ok_def small_def)
  from rocksdb_refines_table [OF demo_rocks_ok _ this] obtain rs d'
    where 1: "db_calls (Rocksdb_ops (mem_engine\<lparr>kv_Merge := \<lambda>_ _ s. (KvOk, s)\<rparr>) demo_lib False True False) ?cs demo_rocks = Inr (rs, d')"
      "db_calls Table_ops ?cs (rd_table map_of False demo_rocks) = Inr (rs, rd_table map_of False d')"
    by (fastforce simp: demo_rocks_def)
  from 1(2) have "rs = [RStatus kOK, RStatus kOK, RFields kOK [(''field1'', ''c'')], RStatus kOK, RFields kNotFound []]"
    by (simp add: Table_ops_def overwrite_def select_def project_def)
  with 1(1) show ?thesis by simp
qed

text \<open>C30: The merge update is equivalent to the read-modify-write update: on a stored record both return \<^verbatim>\<open>kOK\<close> and leave the same
  bytes in the store, although one of them never reads the record.\<close>

theorem merge_update_equivalent:
  assumes "rd_ok kv m names d" and "\<forall>fv \<in> set vs. fst fv \<in> set names \<and> small fv"
    and "merges kv m (YCSBUpdateMerge_Merge ndebug)" and "rd_table m ndebug d k \<noteq> None"
  shows "\<exists>d1 d2. MergeSingle kv t k vs d = Inr (kOK, d1) \<and> UpdateSingle kv ndebug t k vs d = Inr (kOK, d2)
     \<and> m (st_env (rd_static d1)) = m (st_env (rd_static d2)) \<and> rd_ok kv m names d1"
proof -
  obtain r where r: "rd_table m ndebug d k = Some r" using assms(4) by auto
  obtain env where 1: "MergeSingle kv t k vs d = Inr (kOK, rd_set_env env d)"
    "m env = (rd_store m d)(k \<mapsto> Rocksdb_SerializeRow (overwrite vs r))" using rd_Merge [OF assms(1-3) r] by blast
  have q: "row_ok names r" "kv_Get kv k (st_env (rd_static d)) = (KvOk, Rocksdb_SerializeRow r)"
    "rd_row ndebug (rd_fieldcount d) (Rocksdb_SerializeRow r) = Inr r"
    by (cases rule: rd_get [OF assms(1), of ndebug k]; simp add: r)+
  note a = rd_assign [OF assms(1) q(1) assms(2)]
  note kv = kv_okD(3,4) [OF rd_okD(2) [OF assms(1)]]
  let ?env = "snd (kv_Put kv False k (Rocksdb_SerializeRow (overwrite vs r)) (st_env (rd_static d)))"
  have "UpdateSingle kv ndebug t k vs d = Inr (kOK, rd_set_env ?env d)"
    using q rd_okD(1) [OF assms(1)] by (simp add: UpdateSingle_def a(1) kv(1))
  with 1 rd_write [OF assms(1) a(2) 1(2)] show ?thesis by (simp add: kv(2))
qed

text \<open>A write of a field that the records do not have is lost: in a release build \<^verbatim>\<open>UpdateSingle\<close> returns \<^verbatim>\<open>kOK\<close> for it and the
  table is what it was. This is what an update of the core workload does with \<^verbatim>\<open>writeallfields=false\<close>, whose single field
  has the empty name.\<close>

theorem update_of_unknown_field_lost:
  assumes "rd_ok kv m names d" and "rd_table m True d k \<noteq> None" and "\<forall>fv \<in> set vs. fst fv \<notin> set names"
  shows "\<exists>d'. UpdateSingle kv True t k vs d = Inr (kOK, d') \<and> rd_table m True d' = rd_table m True d"
proof -
  obtain r where r: "rd_table m True d k = Some r" using assms(2) by auto
  have q: "row_ok names r" "kv_Get kv k (st_env (rd_static d)) = (KvOk, Rocksdb_SerializeRow r)"
    "rd_row True (rd_fieldcount d) (Rocksdb_SerializeRow r) = Inr r"
    by (cases rule: rd_get [OF assms(1), of True k]; simp add: r)+
  have names: "map fst r = names" using q(1) by (simp add: row_ok_def)
  have "assign_fields True vs r = Inr r" using assms(3)
  proof (induction vs)
    case (Cons fv vs)
    have "fst fv \<notin> fst ` set r" using Cons.prems names by (auto simp flip: set_map)
    then show ?case
      using Cons names rd_okD(3) [OF assms(1)] by (simp add: assign_field_overwrite overwrite_absent)
  qed simp
  then have "UpdateSingle kv True t k vs d = Inr (kOK, rd_set_env (snd (kv_Put kv False k (Rocksdb_SerializeRow r) (st_env (rd_static d)))) d)"
    using q rd_okD(1) [OF assms(1)] kv_okD(3) [OF rd_okD(2) [OF assms(1)]] by (simp add: UpdateSingle_def)
  with rd_write [OF assms(1) q(1) kv_okD(4) [OF rd_okD(2) [OF assms(1)]], where ndebug = True] r show ?thesis
    by (auto simp: map_upd_triv)
qed

section \<open>Witnesses\<close>

definition merge_engine :: "(unit, (string \<times> string) list) rocks_engine" where
  "merge_engine = mem_engine\<lparr>kv_Merge := \<lambda>k v s. case YCSBUpdateMerge_Merge True (map_of s k) v of
     Inr w \<Rightarrow> (KvOk, (k, w) # s) | Inl _ \<Rightarrow> (KvFail ''merge'', s)\<rparr>"

lemma merge_engine_merges: "merges merge_engine map_of (YCSBUpdateMerge_Merge True)"
  by (simp add: merges_def merge_engine_def)

text \<open>A state with one record, reached by an insert.\<close>

lemma demo_rocks_one:
  assumes "kv = mem_engine\<lparr>kv_Merge := f\<rparr>"
  obtains d where "rd_ok kv map_of [''field0'', ''field1''] d" "rd_table map_of True d ''k'' \<noteq> None"
proof -
  let ?r = "[(''field0'', ''a''), (''field1'', ''b'')]"
  have r: "row_ok [''field0'', ''field1''] ?r" by (simp add: row_ok_def small_def)
  have ok: "rd_ok kv map_of [''field0'', ''field1''] demo_rocks" unfolding assms by (rule demo_rocks_ok)
  have "map_of [(''k'', Rocksdb_SerializeRow ?r)] = (rd_store map_of demo_rocks)(''k'' \<mapsto> Rocksdb_SerializeRow ?r)"
    by (simp add: demo_rocks_def)
  from rd_write [OF ok r this, of True] show thesis by (intro that [of "rd_set_env _ demo_rocks"]) auto
qed

theorem merge_update_equivalent_witness:
  "\<exists>(d :: (string \<times> string) list RocksdbDB) d1 d2. MergeSingle merge_engine ''t'' ''k'' [(''field1'', ''c'')] d = Inr (kOK, d1)
     \<and> UpdateSingle merge_engine True ''t'' ''k'' [(''field1'', ''c'')] d = Inr (kOK, d2)
     \<and> map_of (st_env (rd_static d1)) = map_of (st_env (rd_static d2))"
proof -
  obtain d where d: "rd_ok merge_engine map_of [''field0'', ''field1''] d" "rd_table map_of True d ''k'' \<noteq> None"
    by (rule demo_rocks_one [OF merge_engine_def])
  have vs: "\<forall>fv \<in> set [(''field1'', ''c'')]. fst fv \<in> set [''field0'', ''field1''] \<and> small fv" by (simp add: small_def)
  from merge_update_equivalent [OF d(1) vs merge_engine_merges d(2), of "''t''"] show ?thesis by blast
qed

theorem update_of_unknown_field_lost_witness:
  "\<exists>(d :: (string \<times> string) list RocksdbDB) d'. UpdateSingle merge_engine True ''t'' ''k'' [('''', ''c'')] d = Inr (kOK, d')
     \<and> rd_table map_of True d' = rd_table map_of True d"
proof -
  obtain d where d: "rd_ok merge_engine map_of [''field0'', ''field1''] d" "rd_table map_of True d ''k'' \<noteq> None"
    by (rule demo_rocks_one [OF merge_engine_def])
  have vs: "\<forall>fv \<in> set [('''', ''c'')]. fst fv \<notin> set [''field0'', ''field1'']" by simp
  from update_of_unknown_field_lost [OF d vs, of "''t''"] show ?thesis by blast
qed

end
