(* ===== verification/Leveldb.thy ===== *)
theory Leveldb
  imports KV_Store
begin

text \<open>
  The LevelDB backend: \<^verbatim>\<open>src/leveldb/leveldb_db.h\<close> and \<^verbatim>\<open>src/leveldb/leveldb_db.cc\<close>, with its three record layouts.
  The members \<^verbatim>\<open>method_read_\<close> to \<^verbatim>\<open>method_delete_\<close> are set together with \<^verbatim>\<open>format_\<close> by \<^verbatim>\<open>Init\<close>, so the format
  stands for them; before \<^verbatim>\<open>Init\<close> they are not initialised. The LevelDB library is the engine \<open>kv\<close>, and \<open>opt0\<close>
  are the options its default constructor sets.
\<close>

section \<open>Options\<close>

datatype ldb_compression = Ldb_kNoCompression | Ldb_kSnappyCompression

record leveldb_Options =
  lo_create_if_missing :: bool
  lo_write_buffer_size :: u64
  lo_max_file_size :: u64
  lo_block_cache :: "u64 option"
  lo_max_open_files :: int
  lo_compression :: ldb_compression
  lo_filter_policy :: "int option"
  lo_block_size :: u64
  lo_block_restart_interval :: int

definition Leveldb_GetOptions :: "Properties \<Rightarrow> leveldb_Options \<Rightarrow> leveldb_Options res" where
  "Leveldb_GetOptions props opt =
     andThen (stol (GetProperty props ''leveldb.write_buffer_size'' ''0'')) (\<lambda>v.
     let writer_buffer_size = (word_of_int v :: u64);
         opt = (if writer_buffer_size > 0 then opt\<lparr>lo_write_buffer_size := writer_buffer_size\<rparr> else opt) in
     andThen (stol (GetProperty props ''leveldb.max_file_size'' ''0'')) (\<lambda>v.
     let max_file_size = (word_of_int v :: u64);
         opt = (if max_file_size > 0 then opt\<lparr>lo_max_file_size := max_file_size\<rparr> else opt) in
     andThen (stol (GetProperty props ''leveldb.cache_size'' ''0'')) (\<lambda>v.
     let cache_size = (word_of_int v :: u64);
         opt = (if cache_size > 0 then opt\<lparr>lo_block_cache := Some cache_size\<rparr> else opt) in
     andThen (stoi (GetProperty props ''leveldb.max_open_files'' ''0'')) (\<lambda>max_open_files.
     let opt = (if max_open_files > 0 then opt\<lparr>lo_max_open_files := max_open_files\<rparr> else opt);
         compression = GetProperty props ''leveldb.compression'' ''no'';
         opt = (if compression = ''snappy'' then opt\<lparr>lo_compression := Ldb_kSnappyCompression\<rparr>
                else opt\<lparr>lo_compression := Ldb_kNoCompression\<rparr>) in
     andThen (stoi (GetProperty props ''leveldb.filter_bits'' ''0'')) (\<lambda>filter_bits.
     let opt = (if filter_bits > 0 then opt\<lparr>lo_filter_policy := Some filter_bits\<rparr> else opt) in
     andThen (stoi (GetProperty props ''leveldb.block_size'' ''0'')) (\<lambda>block_size.
     let opt = (if block_size > 0 then opt\<lparr>lo_block_size := word_of_int block_size\<rparr> else opt) in
     andThen (stoi (GetProperty props ''leveldb.block_restart_interval'' ''0'')) (\<lambda>block_restart_interval.
     Inr (if block_restart_interval > 0 then opt\<lparr>lo_block_restart_interval := block_restart_interval\<rparr> else opt))))))))"

section \<open>The object\<close>

datatype LdbFormat = kSingleEntry | kRowMajor | kColumnMajor

record 's LeveldbDB =
  ld_props :: Properties
  ld_format :: "LdbFormat option"
  ld_fieldcount :: int
  ld_field_prefix :: string
  ld_static :: "'s kv_static"

definition ld_set_env :: "'s \<Rightarrow> 's LeveldbDB \<Rightarrow> 's LeveldbDB" where
  "ld_set_env s d = d\<lparr>ld_static := (ld_static d)\<lparr>st_env := s\<rparr>\<rparr>"

definition ldb_format_of :: "string \<Rightarrow> LdbFormat res" where
  "ldb_format_of format = (if format = ''single'' then Inr kSingleEntry
     else if format = ''row'' then Inr kRowMajor
     else if format = ''column'' then Inr kColumnMajor
     else Inl (Exception ''unknown format''))"

definition Leveldb_Init ::
    "(leveldb_Options, 's) kv_engine \<Rightarrow> leveldb_Options \<Rightarrow> 's LeveldbDB \<Rightarrow> (unit \<times> 's LeveldbDB) res" where
  "Leveldb_Init kv opt0 d =
     (let props = ld_props d in
      andThen (ldb_format_of (GetProperty props ''leveldb.format'' ''single'')) (\<lambda>format.
      andThen (stoi (GetProperty props ''fieldcount'' ''10'')) (\<lambda>fieldcount.
      let st = ld_static d;
          st = st\<lparr>st_ref_cnt := st_ref_cnt st + 1\<rparr>;
          d = d\<lparr>ld_format := Some format, ld_fieldcount := fieldcount,
                ld_field_prefix := GetProperty props ''fieldnameprefix'' ''field'', ld_static := st\<rparr>
      in if st_db st \<noteq> NullHandle then Inr ((), d)
         else let db_path = GetProperty props ''leveldb.dbname'' '''' in
           if db_path = '''' then Inl (Exception ''LevelDB db path is missing'')
           else andThen (Leveldb_GetOptions props (opt0\<lparr>lo_create_if_missing := True\<rparr>)) (\<lambda>opt.
             andThen (if GetProperty props ''leveldb.destroy'' ''false'' = ''true''
                      then throw_unless_ok ''LevelDB DestroyDB: '' (kv_Destroy kv db_path opt (st_env st))
                      else Inr (st_env st)) (\<lambda>env.
             andThen (throw_unless_ok ''LevelDB Open: '' (kv_Open kv opt db_path env)) (\<lambda>env.
             Inr ((), d\<lparr>ld_static := st\<lparr>st_db := LiveHandle, st_env := env\<rparr>\<rparr>)))))))"

definition Leveldb_Cleanup :: "'s LeveldbDB \<Rightarrow> (unit \<times> 's LeveldbDB) res" where
  "Leveldb_Cleanup d =
     (let st = ld_static d;
          st = st\<lparr>st_ref_cnt := st_ref_cnt st - 1\<rparr>;
          d = d\<lparr>ld_static := st\<rparr>
      in if st_ref_cnt st \<noteq> 0 then Inr ((), d)
         else andThen (delete_handle (st_db st)) (\<lambda>h. Inr ((), d\<lparr>ld_static := st\<lparr>st_db := h\<rparr>\<rparr>)))"

section \<open>Rows and composite keys\<close>

definition Leveldb_SerializeRow :: "Field list \<Rightarrow> string" where
  "Leveldb_SerializeRow values = SerializeRow values []"

definition Leveldb_DeserializeRowFilter :: "bool \<Rightarrow> string list \<Rightarrow> string \<Rightarrow> Field list res" where
  "Leveldb_DeserializeRowFilter ndebug flds data =
     andThen (DeserializeRowFilter_loop ndebug (string_mem data) 0 (length data) flds []) (\<lambda>values.
     andThen (assert_that ndebug (length values = length flds) ''values->size() == fields.size()'') (\<lambda>_. Inr values))"

definition Leveldb_DeserializeRow :: "bool \<Rightarrow> int \<Rightarrow> string \<Rightarrow> Field list res" where
  "Leveldb_DeserializeRow ndebug fieldcount data =
     andThen (DeserializeRow_loop ndebug (string_mem data) 0 (length data) []) (\<lambda>values.
     andThen (assert_that ndebug ((of_nat (length values) :: u64) = word_of_int fieldcount)
        ''values->size() == fieldcount_'') (\<lambda>_. Inr values))"

definition BuildCompKey :: "LdbFormat option \<Rightarrow> string \<Rightarrow> string \<Rightarrow> string res" where
  "BuildCompKey format key field_name =
     (case format of
        Some kRowMajor \<Rightarrow> Inr (key @ '':'' @ field_name)
      | Some kColumnMajor \<Rightarrow> Inr (field_name @ '':'' @ key)
      | _ \<Rightarrow> Inl (Exception ''wrong format''))"

definition KeyFromCompKey :: "bool \<Rightarrow> string \<Rightarrow> string res" where
  "KeyFromCompKey ndebug comp_key =
     andThen (assert_that ndebug (CHR '':'' \<in> set comp_key) ''idx != std::string::npos'') (\<lambda>_.
     Inr (takeWhile (\<lambda>c. c \<noteq> CHR '':'') comp_key))"

text \<open>Without a colon \<^verbatim>\<open>idx + 1\<close> wraps to 0, and the whole string is returned.\<close>

definition FieldFromCompKey :: "bool \<Rightarrow> string \<Rightarrow> string res" where
  "FieldFromCompKey ndebug comp_key =
     andThen (assert_that ndebug (CHR '':'' \<in> set comp_key) ''idx != std::string::npos'') (\<lambda>_.
     Inr (if CHR '':'' \<in> set comp_key then tl (dropWhile (\<lambda>c. c \<noteq> CHR '':'') comp_key) else comp_key))"

section \<open>Single entries\<close>

definition ld_reader :: "bool \<Rightarrow> int \<Rightarrow> string list option \<Rightarrow> string \<Rightarrow> Field list res" where
  "ld_reader ndebug fieldcount flds = (case flds of
       None \<Rightarrow> Leveldb_DeserializeRow ndebug fieldcount
     | Some fs \<Rightarrow> Leveldb_DeserializeRowFilter ndebug fs)"

definition ReadSingleEntry ::
    "(leveldb_Options, 's) kv_engine \<Rightarrow> bool \<Rightarrow> string \<Rightarrow> string \<Rightarrow> string list option \<Rightarrow> 's LeveldbDB
     \<Rightarrow> ((Status \<times> Field list) \<times> 's LeveldbDB) res" where
  "ReadSingleEntry kv ndebug table key flds d =
     andThen (deref (ld_static d)) (\<lambda>env.
     let (s, data) = kv_Get kv key env in
     if s = KvNotFound then Inr ((kNotFound, []), d)
     else if s \<noteq> KvOk then Inl (Exception (''LevelDB Get: '' @ kv_ToString s))
     else andThen (ld_reader ndebug (ld_fieldcount d) flds data) (\<lambda>result. Inr ((kOK, result), d)))"

definition ScanSingleEntry ::
    "(leveldb_Options, 's) kv_engine \<Rightarrow> bool \<Rightarrow> string \<Rightarrow> string \<Rightarrow> int \<Rightarrow> string list option \<Rightarrow> 's LeveldbDB
     \<Rightarrow> ((Status \<times> Field list list) \<times> 's LeveldbDB) res" where
  "ScanSingleEntry kv ndebug table key len flds d =
     andThen (deref (ld_static d)) (\<lambda>env.
     andThen (scan_loop (ld_reader ndebug (ld_fieldcount d) flds) 0 len (kv_Seek kv key env) []) (\<lambda>result.
     Inr ((kOK, result), d)))"

definition UpdateSingleEntry ::
    "(leveldb_Options, 's) kv_engine \<Rightarrow> bool \<Rightarrow> string \<Rightarrow> string \<Rightarrow> Field list \<Rightarrow> 's LeveldbDB
     \<Rightarrow> (Status \<times> 's LeveldbDB) res" where
  "UpdateSingleEntry kv ndebug table key values d =
     andThen (deref (ld_static d)) (\<lambda>env.
     let (s, data) = kv_Get kv key env in
     if s = KvNotFound then Inr (kNotFound, d)
     else if s \<noteq> KvOk then Inl (Exception (''LevelDB Get: '' @ kv_ToString s))
     else andThen (Leveldb_DeserializeRow ndebug (ld_fieldcount d) data) (\<lambda>current_values.
       andThen (assign_fields ndebug values current_values) (\<lambda>current_values.
       let data = Leveldb_SerializeRow current_values in
       andThen (throw_unless_ok ''LevelDB Put: '' (kv_Put kv False key data env)) (\<lambda>env.
       Inr (kOK, ld_set_env env d)))))"

definition InsertSingleEntry ::
    "(leveldb_Options, 's) kv_engine \<Rightarrow> string \<Rightarrow> string \<Rightarrow> Field list \<Rightarrow> 's LeveldbDB \<Rightarrow> (Status \<times> 's LeveldbDB) res" where
  "InsertSingleEntry kv table key values d =
     (let data = Leveldb_SerializeRow values in
      andThen (deref (ld_static d)) (\<lambda>env.
      andThen (throw_unless_ok ''LevelDB Put: '' (kv_Put kv True key data env)) (\<lambda>env.
      Inr (kOK, ld_set_env env d))))"

definition DeleteSingleEntry ::
    "(leveldb_Options, 's) kv_engine \<Rightarrow> string \<Rightarrow> string \<Rightarrow> 's LeveldbDB \<Rightarrow> (Status \<times> 's LeveldbDB) res" where
  "DeleteSingleEntry kv table key d =
     andThen (deref (ld_static d)) (\<lambda>env.
     andThen (throw_unless_ok ''LevelDB Delete: '' (kv_Delete kv key env)) (\<lambda>env.
     Inr (kOK, ld_set_env env d)))"

section \<open>Composite keys\<close>

text \<open>
  The loops over the fields of one record. They return what they have collected and where the
  iterator stands; \<open>key\<close> is the key the record must have, when the code asserts it.
\<close>

fun rm_filter_loop ::
    "bool \<Rightarrow> string option \<Rightarrow> string \<Rightarrow> int \<Rightarrow> int \<Rightarrow> string list \<Rightarrow> (string \<times> string) list \<Rightarrow> Field list
     \<Rightarrow> (Field list \<times> (string \<times> string) list) res" where
  "rm_filter_loop ndebug key field_prefix fieldcount i flds [] result = Inr (result, [])"
| "rm_filter_loop ndebug key field_prefix fieldcount i flds ((comp_key, cur_val) # it) result =
     (if i < fieldcount \<and> flds \<noteq> [] then
        andThen (KeyFromCompKey ndebug comp_key) (\<lambda>cur_key.
        andThen (FieldFromCompKey ndebug comp_key) (\<lambda>cur_field.
        andThen (assert_that ndebug (case key of None \<Rightarrow> True | Some k \<Rightarrow> cur_key = k) ''cur_key == key'') (\<lambda>_.
        andThen (assert_that ndebug (cur_field = field_prefix @ to_string (nat i))
          ''cur_field == field_prefix_ + std::to_string(i)'') (\<lambda>_.
        if cur_field = hd flds
        then rm_filter_loop ndebug key field_prefix fieldcount (i + 1) (tl flds) it (result @ [(cur_field, cur_val)])
        else rm_filter_loop ndebug key field_prefix fieldcount (i + 1) flds it result))))
      else Inr (result, (comp_key, cur_val) # it))"

fun rm_all_loop ::
    "bool \<Rightarrow> string option \<Rightarrow> string \<Rightarrow> int \<Rightarrow> int \<Rightarrow> (string \<times> string) list \<Rightarrow> Field list
     \<Rightarrow> (Field list \<times> (string \<times> string) list) res" where
  "rm_all_loop ndebug key field_prefix fieldcount i [] result = Inr (result, [])"
| "rm_all_loop ndebug key field_prefix fieldcount i ((comp_key, cur_val) # it) result =
     (if i < fieldcount then
        andThen (KeyFromCompKey ndebug comp_key) (\<lambda>cur_key.
        andThen (FieldFromCompKey ndebug comp_key) (\<lambda>cur_field.
        andThen (assert_that ndebug (case key of None \<Rightarrow> True | Some k \<Rightarrow> cur_key = k) ''cur_key == key'') (\<lambda>_.
        andThen (assert_that ndebug (cur_field = field_prefix @ to_string (nat i))
          ''cur_field == field_prefix_ + std::to_string(i)'') (\<lambda>_.
        rm_all_loop ndebug key field_prefix fieldcount (i + 1) it (result @ [(cur_field, cur_val)])))))
      else Inr (result, (comp_key, cur_val) # it))"

definition rm_row ::
    "bool \<Rightarrow> string option \<Rightarrow> string \<Rightarrow> int \<Rightarrow> string list option \<Rightarrow> (string \<times> string) list
     \<Rightarrow> (Field list \<times> (string \<times> string) list) res" where
  "rm_row ndebug key field_prefix fieldcount flds it =
     (case flds of
        Some fs \<Rightarrow>
          andThen (rm_filter_loop ndebug key field_prefix fieldcount 0 fs it []) (\<lambda>(values, it).
          andThen (assert_that ndebug (length values = length fs) ''values.size() == fields->size()'') (\<lambda>_.
          Inr (values, it)))
      | None \<Rightarrow>
          andThen (rm_all_loop ndebug key field_prefix fieldcount 0 it []) (\<lambda>(values, it).
          andThen (assert_that ndebug ((of_nat (length values) :: u64) = word_of_int fieldcount)
            ''values.size() == fieldcount_'') (\<lambda>_.
          Inr (values, it))))"

definition ReadCompKeyRM ::
    "(leveldb_Options, 's) kv_engine \<Rightarrow> bool \<Rightarrow> string \<Rightarrow> string \<Rightarrow> string list option \<Rightarrow> 's LeveldbDB
     \<Rightarrow> ((Status \<times> Field list) \<times> 's LeveldbDB) res" where
  "ReadCompKeyRM kv ndebug table key flds d =
     andThen (deref (ld_static d)) (\<lambda>env.
     case kv_Seek kv key env of
       [] \<Rightarrow> Inr ((kNotFound, []), d)
     | (comp_key, v) # it \<Rightarrow>
         andThen (KeyFromCompKey ndebug comp_key) (\<lambda>cur_key.
         if cur_key \<noteq> key then Inr ((kNotFound, []), d)
         else andThen (rm_row ndebug (Some key) (ld_field_prefix d) (ld_fieldcount d) flds ((comp_key, v) # it)) (\<lambda>(result, _).
           Inr ((kOK, result), d))))"

text \<open>The loop over \<open>n\<close> more records.\<close>

fun rm_scan_loop ::
    "bool \<Rightarrow> string \<Rightarrow> int \<Rightarrow> string list option \<Rightarrow> nat \<Rightarrow> (string \<times> string) list \<Rightarrow> Field list list \<Rightarrow> Field list list res" where
  "rm_scan_loop ndebug field_prefix fieldcount flds 0 it result = Inr result"
| "rm_scan_loop ndebug field_prefix fieldcount flds (Suc n) it result =
     (if it = [] then Inr result
      else andThen (rm_row ndebug None field_prefix fieldcount flds it) (\<lambda>(values, it).
        rm_scan_loop ndebug field_prefix fieldcount flds n it (result @ [values])))"

definition ScanCompKeyRM ::
    "(leveldb_Options, 's) kv_engine \<Rightarrow> bool \<Rightarrow> string \<Rightarrow> string \<Rightarrow> int \<Rightarrow> string list option \<Rightarrow> 's LeveldbDB
     \<Rightarrow> ((Status \<times> Field list list) \<times> 's LeveldbDB) res" where
  "ScanCompKeyRM kv ndebug table key len flds d =
     andThen (deref (ld_static d)) (\<lambda>env.
     let it = kv_Seek kv key env in
     andThen (assert_that ndebug (it \<noteq> [] \<and> KeyFromCompKey ndebug (fst (hd it)) = Inr key)
        ''db_iter->Valid() && KeyFromCompKey(db_iter->key().ToString()) == key'') (\<lambda>_.
     andThen (rm_scan_loop ndebug (ld_field_prefix d) (ld_fieldcount d) flds (nat len) it []) (\<lambda>result.
     Inr ((kOK, result), d))))"

definition ReadCompKeyCM :: "string \<Rightarrow> string \<Rightarrow> string list option \<Rightarrow> 's LeveldbDB \<Rightarrow> ((Status \<times> Field list) \<times> 's LeveldbDB) res" where
  "ReadCompKeyCM table key flds d = Inr ((kNotImplemented, []), d)"

definition ScanCompKeyCM ::
    "string \<Rightarrow> string \<Rightarrow> int \<Rightarrow> string list option \<Rightarrow> 's LeveldbDB \<Rightarrow> ((Status \<times> Field list list) \<times> 's LeveldbDB) res" where
  "ScanCompKeyCM table key len flds d = Inr ((kNotImplemented, []), d)"

fun put_batch :: "LdbFormat option \<Rightarrow> string \<Rightarrow> Field list \<Rightarrow> batch_op list \<Rightarrow> batch_op list res" where
  "put_batch format key [] batch = Inr batch"
| "put_batch format key (field # values) batch =
     andThen (BuildCompKey format key (fst field)) (\<lambda>comp_key.
     put_batch format key values (batch @ [BPut comp_key (snd field)]))"

definition InsertCompKey ::
    "(leveldb_Options, 's) kv_engine \<Rightarrow> string \<Rightarrow> string \<Rightarrow> Field list \<Rightarrow> 's LeveldbDB \<Rightarrow> (Status \<times> 's LeveldbDB) res" where
  "InsertCompKey kv table key values d =
     andThen (put_batch (ld_format d) key values []) (\<lambda>batch.
     andThen (deref (ld_static d)) (\<lambda>env.
     andThen (throw_unless_ok ''LevelDB Write: '' (kv_Write kv True batch env)) (\<lambda>env.
     Inr (kOK, ld_set_env env d))))"

text \<open>The loop over the fields from \<open>i\<close> on, \<open>n\<close> of them.\<close>

fun delete_batch :: "LdbFormat option \<Rightarrow> string \<Rightarrow> string \<Rightarrow> nat \<Rightarrow> nat \<Rightarrow> batch_op list \<Rightarrow> batch_op list res" where
  "delete_batch format key field_prefix i 0 batch = Inr batch"
| "delete_batch format key field_prefix i (Suc n) batch =
     andThen (BuildCompKey format key (field_prefix @ to_string i)) (\<lambda>comp_key.
     delete_batch format key field_prefix (i + 1) n (batch @ [BDelete comp_key]))"

definition DeleteCompKey ::
    "(leveldb_Options, 's) kv_engine \<Rightarrow> string \<Rightarrow> string \<Rightarrow> 's LeveldbDB \<Rightarrow> (Status \<times> 's LeveldbDB) res" where
  "DeleteCompKey kv table key d =
     andThen (delete_batch (ld_format d) key (ld_field_prefix d) 0 (nat (ld_fieldcount d)) []) (\<lambda>batch.
     andThen (deref (ld_static d)) (\<lambda>env.
     andThen (throw_unless_ok ''LevelDB Write: '' (kv_Write kv False batch env)) (\<lambda>env.
     Inr (kOK, ld_set_env env d))))"

section \<open>The class\<close>

definition ld_dispatch :: "(LdbFormat \<Rightarrow> 's LeveldbDB \<Rightarrow> 'a res) \<Rightarrow> 's LeveldbDB \<Rightarrow> 'a res" where
  "ld_dispatch method d = (case ld_format d of
       None \<Rightarrow> Inl (Undefined ''call through an uninitialised method pointer'')
     | Some f \<Rightarrow> method f d)"

text \<open>The class inherits \<^verbatim>\<open>ReadIdx\<close> from \<^verbatim>\<open>DB\<close>, where it is pure virtual.\<close>

definition Leveldb_ops ::
    "(leveldb_Options, 's) kv_engine \<Rightarrow> leveldb_Options \<Rightarrow> bool \<Rightarrow> 's LeveldbDB DB" where
  "Leveldb_ops kv opt0 ndebug =
     \<lparr>db_Init = Leveldb_Init kv opt0, db_Cleanup = Leveldb_Cleanup,
      db_Read = (\<lambda>table key flds. ld_dispatch (\<lambda>f. case f of
          kSingleEntry \<Rightarrow> ReadSingleEntry kv ndebug table key flds
        | kRowMajor \<Rightarrow> ReadCompKeyRM kv ndebug table key flds
        | kColumnMajor \<Rightarrow> ReadCompKeyCM table key flds)),
      db_Scan = (\<lambda>table key len flds. ld_dispatch (\<lambda>f. case f of
          kSingleEntry \<Rightarrow> ScanSingleEntry kv ndebug table key len flds
        | kRowMajor \<Rightarrow> ScanCompKeyRM kv ndebug table key len flds
        | kColumnMajor \<Rightarrow> ScanCompKeyCM table key len flds)),
      db_Update = (\<lambda>table key values. ld_dispatch (\<lambda>f. case f of
          kSingleEntry \<Rightarrow> UpdateSingleEntry kv ndebug table key values
        | _ \<Rightarrow> InsertCompKey kv table key values)),
      db_Insert = (\<lambda>table key values. ld_dispatch (\<lambda>f. case f of
          kSingleEntry \<Rightarrow> InsertSingleEntry kv table key values
        | _ \<Rightarrow> InsertCompKey kv table key values)),
      db_Delete = (\<lambda>table key. ld_dispatch (\<lambda>f. case f of
          kSingleEntry \<Rightarrow> DeleteSingleEntry kv table key
        | _ \<Rightarrow> DeleteCompKey kv table key)),
      db_ReadIdx = (\<lambda>_ _. Inl (Undefined ''pure virtual ReadIdx'')),
      db_ReInitBeforeTransaction = False,
      db_SetProps = (\<lambda>p d. d\<lparr>ld_props := p\<rparr>)\<rparr>"

text \<open>A new object: its own members are not initialised, the static ones are those of the class.\<close>

definition NewLeveldbDB :: "Properties \<Rightarrow> 's kv_static \<Rightarrow> 's LeveldbDB" where
  "NewLeveldbDB props st = \<lparr>ld_props = props, ld_format = None, ld_fieldcount = 0, ld_field_prefix = [], ld_static = st\<rparr>"

section \<open>Single entries implement the table\<close>

interpretation ld_codec: row_codec Leveldb_SerializeRow "Leveldb_DeserializeRow ndebug fieldcount" names
    "distinct names \<and> (of_nat (length names) :: u64) = word_of_int fieldcount" "Leveldb_DeserializeRowFilter ndebug"
  for ndebug fieldcount names
proof unfold_locales
  fix r assume g: "distinct names \<and> (of_nat (length names) :: u64) = word_of_int fieldcount" and r: "row_ok names r"
  have small: "\<forall>fv \<in> set r. small fv" and n: "length r = length names" "map fst r = names"
    using r by (auto simp: row_ok_def)
  have data: "Leveldb_SerializeRow r = concat (map encode_field r)"
    by (simp add: Leveldb_SerializeRow_def SerializeRow_concat)
  show "Leveldb_DeserializeRow ndebug fieldcount (Leveldb_SerializeRow r) = Inr r"
    using DeserializeRow_loop_encode [OF small, of ndebug "[]" "[CHR 0x00]" "[]"] g
    by (simp add: Leveldb_DeserializeRow_def data string_mem_def n)
  fix flds assume f: "subseq flds names"
  have "pick flds r = project flds r" using g f n(2) by (intro pick_project) auto
  then show "Leveldb_DeserializeRowFilter ndebug flds (Leveldb_SerializeRow r) = Inr (project flds r)"
    using DeserializeRowFilter_loop_encode [OF small, of ndebug "[]" "[CHR 0x00]" flds "[]"]
    by (simp add: Leveldb_DeserializeRowFilter_def data string_mem_def) (simp add: project_def)
qed

abbreviation ld_store :: "('s \<Rightarrow> string \<rightharpoonup> string) \<Rightarrow> 's LeveldbDB \<Rightarrow> string \<rightharpoonup> string" where
  "ld_store m d \<equiv> m (st_env (ld_static d))"

definition ld_single_ok ::
    "(leveldb_Options, 's) kv_engine \<Rightarrow> ('s \<Rightarrow> string \<rightharpoonup> string) \<Rightarrow> string list \<Rightarrow> 's LeveldbDB \<Rightarrow> bool" where
  "ld_single_ok kv m names d \<longleftrightarrow> kv_ok kv m \<and> ld_format d = Some kSingleEntry \<and> st_db (ld_static d) = LiveHandle
     \<and> distinct names \<and> (of_nat (length names) :: u64) = word_of_int (ld_fieldcount d)
     \<and> all_rows (row_ok names) Leveldb_SerializeRow (ld_store m d)"

definition ld_table :: "('s \<Rightarrow> string \<rightharpoonup> string) \<Rightarrow> bool \<Rightarrow> 's LeveldbDB \<Rightarrow> table" where
  "ld_table m ndebug d = decode_table (Leveldb_DeserializeRow ndebug (ld_fieldcount d)) (ld_store m d)"

lemma ld_set_env_simps [simp]:
  "ld_format (ld_set_env env d) = ld_format d" "ld_fieldcount (ld_set_env env d) = ld_fieldcount d"
  "ld_field_prefix (ld_set_env env d) = ld_field_prefix d" "st_db (ld_static (ld_set_env env d)) = st_db (ld_static d)"
  "st_env (ld_static (ld_set_env env d)) = env" "st_ref_cnt (ld_static (ld_set_env env d)) = st_ref_cnt (ld_static d)"
  by (simp_all add: ld_set_env_def)

lemma ld_reader_eq: "ld_reader ndebug fieldcount flds =
    (case flds of None \<Rightarrow> Leveldb_DeserializeRow ndebug fieldcount | Some fs \<Rightarrow> Leveldb_DeserializeRowFilter ndebug fs)"
  by (simp add: ld_reader_def)

lemma ld_single_write:
  assumes "ld_single_ok kv m names d" and "row_ok names r" and "m env = (ld_store m d)(k \<mapsto> Leveldb_SerializeRow r)"
  shows "ld_single_ok kv m names (ld_set_env env d) \<and> ld_table m ndebug (ld_set_env env d) = (ld_table m ndebug d)(k \<mapsto> r)"
  using assms ld_codec.decode_upd [of names "ld_fieldcount d" r ndebug "ld_store m d" k]
    ld_codec.rows_upd [of names "ld_store m d" r k]
  by (simp add: ld_single_ok_def ld_table_def)

lemma ld_single_okD:
  assumes "ld_single_ok kv m names d"
  shows "st_db (ld_static d) = LiveHandle" and "kv_ok kv m"
    and "distinct names \<and> (of_nat (length names) :: u64) = word_of_int (ld_fieldcount d)"
    and "all_rows (row_ok names) Leveldb_SerializeRow (ld_store m d)"
  using assms by (simp_all add: ld_single_ok_def)

lemma ld_single_get:
  assumes ok: "ld_single_ok kv m names d"
  obtains "ld_table m ndebug d k = None" "kv_Get kv k (st_env (ld_static d)) = (KvNotFound, [])"
  | r where "row_ok names r" "ld_table m ndebug d k = Some r" "kv_Get kv k (st_env (ld_static d)) = (KvOk, Leveldb_SerializeRow r)"
      "Leveldb_DeserializeRow ndebug (ld_fieldcount d) (Leveldb_SerializeRow r) = Inr r"
  using ld_codec.get_row [where m = m and env = "st_env (ld_static d)", OF ld_single_okD(3,4,2) [OF ok], of ndebug k thesis]
  unfolding ld_table_def .

lemma ld_single_Update:
  assumes ok: "ld_single_ok kv m names d" and vs: "\<forall>fv \<in> set vs. fst fv \<in> set names \<and> small fv"
  shows "\<exists>s d'. UpdateSingleEntry kv ndebug t k vs d = Inr (s, d') \<and> ld_single_ok kv m names d'
     \<and> db_Update Table_ops t k vs (ld_table m ndebug d) = Inr (s, ld_table m ndebug d')"
proof (cases rule: ld_single_get [OF ok, of ndebug k])
  case 1
  then show ?thesis using ld_single_okD(1) [OF ok] ok
    by (intro exI [of _ kNotFound] exI [of _ d]) (simp add: UpdateSingleEntry_def Table_ops_def)
next
  case (2 r)
  have names: "map fst r = names" using 2(1) by (simp add: row_ok_def)
  then have upd: "assign_fields ndebug vs r = Inr (overwrite vs r)"
    using ld_single_okD(3) [OF ok] vs by (intro assign_fields_overwrite) (auto simp flip: set_map)
  have r': "row_ok names (overwrite vs r)" using 2(1) vs by (simp add: row_ok_overwrite)
  let ?env = "snd (kv_Put kv False k (Leveldb_SerializeRow (overwrite vs r)) (st_env (ld_static d)))"
  have "UpdateSingleEntry kv ndebug t k vs d = Inr (kOK, ld_set_env ?env d)"
    using 2 ld_single_okD(1) [OF ok] kv_okD(3) [OF ld_single_okD(2) [OF ok]] by (simp add: UpdateSingleEntry_def upd)
  with ld_single_write [OF ok r' kv_okD(4) [OF ld_single_okD(2) [OF ok]]] 2(2) show ?thesis
    by (simp add: Table_ops_def)
qed

lemma ld_single_Read:
  assumes ok: "ld_single_ok kv m names d" and flds: "case flds of None \<Rightarrow> True | Some fs \<Rightarrow> subseq fs names"
  shows "\<exists>s. ReadSingleEntry kv ndebug t k flds d = Inr (s, d)
     \<and> db_Read Table_ops t k flds (ld_table m ndebug d) = Inr (s, ld_table m ndebug d)"
proof (cases rule: ld_single_get [OF ok, of ndebug k])
  case 1
  then show ?thesis using ld_single_okD(1) [OF ok] by (simp add: ReadSingleEntry_def Table_ops_def)
next
  case (2 r)
  have "ld_reader ndebug (ld_fieldcount d) flds (Leveldb_SerializeRow r) = Inr (select flds r)"
    unfolding ld_reader_eq by (rule ld_codec.read_selected [OF ld_single_okD(3) [OF ok] 2(1) flds])
  then show ?thesis using 2 ld_single_okD(1) [OF ok] by (simp add: ReadSingleEntry_def Table_ops_def)
qed

lemma ld_single_Scan:
  assumes ok: "ld_single_ok kv m names d" and flds: "case flds of None \<Rightarrow> True | Some fs \<Rightarrow> subseq fs names"
  shows "\<exists>s. ScanSingleEntry kv ndebug t k n flds d = Inr (s, d)
     \<and> db_Scan Table_ops t k n flds (ld_table m ndebug d) = Inr (s, ld_table m ndebug d)"
proof -
  note live = ld_single_okD(1) [OF ok] and kv = ld_single_okD(2) [OF ok] and g = ld_single_okD(3) [OF ok] and rows = ld_single_okD(4) [OF ok]
  show ?thesis
    using ld_codec.scan_selected [OF g rows kv_okD(1) [OF kv] flds, of ndebug n k]
      ld_codec.keys_from_decode [OF g rows, of k ndebug]
    by (simp add: ScanSingleEntry_def live kv_okD(9) [OF kv] ld_reader_eq Table_ops_def ld_table_def)
qed

interpretation ld_single: db_refinement "Leveldb_ops kv opt0 ndebug" Table_ops "ld_table m ndebug"
    "ld_single_ok kv m names" "row_call names" for kv opt0 ndebug m names
proof unfold_locales
  fix d c assume ok: "ld_single_ok kv m names d" and c: "row_call names c"
  have f: "ld_format d = Some kSingleEntry" "kv_ok kv m" "st_db (ld_static d) = LiveHandle"
    using ok by (simp_all add: ld_single_ok_def)
  show "\<exists>r d'. db_call (Leveldb_ops kv opt0 ndebug) c d = Inr (r, d') \<and> ld_single_ok kv m names d'
      \<and> db_call Table_ops c (ld_table m ndebug d) = Inr (r, ld_table m ndebug d')"
  proof (cases c)
    case (CRead t k flds)
    with ld_single_Read [OF ok, of flds ndebug t k] c ok f show ?thesis
      by (auto simp: Leveldb_ops_def ld_dispatch_def)
  next
    case (CScan t k n flds)
    with ld_single_Scan [OF ok, of flds ndebug t k n] c ok f show ?thesis
      by (auto simp: Leveldb_ops_def ld_dispatch_def)
  next
    case (CUpdate t k vs)
    with ld_single_Update [OF ok, of vs ndebug t k] c f show ?thesis
      by (auto simp: Leveldb_ops_def ld_dispatch_def)
  next
    case (CInsert t k vs)
    with ld_single_write [OF ok _ kv_okD(4) [OF f(2), where b = True], where ndebug = ndebug] c f show ?thesis
      by (simp add: Leveldb_ops_def ld_dispatch_def InsertSingleEntry_def Table_ops_def kv_okD(3) [OF f(2)])
  next
    case (CDelete t k)
    with ok f ld_codec.rows_del [of names "ld_store m d" k]
      ld_codec.decode_del [of ndebug "ld_fieldcount d" "ld_store m d" k] show ?thesis
      by (simp add: Leveldb_ops_def ld_dispatch_def DeleteSingleEntry_def Table_ops_def kv_okD(5,6) [OF f(2)] ld_single_ok_def ld_table_def)
  next
    case (CReadIdx i)
    with c show ?thesis by simp
  qed
qed

section \<open>The shared handle\<close>

definition ld_open ::
    "(leveldb_Options, 's) kv_engine \<Rightarrow> leveldb_Options \<Rightarrow> Properties \<Rightarrow> 's kv_static \<Rightarrow> 's kv_static res" where
  "ld_open kv opt0 props st = map_sum id (\<lambda>(_, d). ld_static d) (Leveldb_Init kv opt0 (NewLeveldbDB props st))"

definition ld_close :: "'s kv_static \<Rightarrow> 's kv_static res" where
  "ld_close st = map_sum id (\<lambda>(_, d). ld_static d) (Leveldb_Cleanup (NewLeveldbDB no_properties st))"

definition ld_props_valid :: "Properties \<Rightarrow> bool" where
  "ld_props_valid props \<longleftrightarrow> GetProperty props ''leveldb.format'' ''single'' \<in> {''single'', ''row'', ''column''}
     \<and> stoi (GetProperty props ''fieldcount'' ''10'') \<in> range Inr"

lemma ldb_format_valid:
  "format \<in> {''single'', ''row'', ''column''} \<Longrightarrow> \<exists>f. ldb_format_of format = Inr f"
  by (auto simp: ldb_format_of_def)

lemma Leveldb_Init_open:
  assumes "ld_props_valid props" and "st_db st \<noteq> NullHandle"
  obtains d where "Leveldb_Init kv opt0 (NewLeveldbDB props st) = Inr ((), d)" "ld_format d \<noteq> None"
    "ld_static d = st\<lparr>st_ref_cnt := st_ref_cnt st + 1\<rparr>"
  using assms ldb_format_valid [of "GetProperty props ''leveldb.format'' ''single''"]
  by (auto simp: ld_props_valid_def Leveldb_Init_def NewLeveldbDB_def Let_def)

interpretation ld_handle: shared_handle "ld_open kv opt0 props" ld_close
    "\<lambda>st. st_db st = LiveHandle" st_ref_cnt st_env "ld_props_valid props" for kv opt0 props
proof unfold_locales
  fix st :: "'a kv_static" assume v: "ld_props_valid props" and l: "st_db st = LiveHandle"
  then have "st_db st \<noteq> NullHandle" by simp
  from Leveldb_Init_open [OF v this, of kv opt0]
  show "\<exists>t'. ld_open kv opt0 props st = Inr t' \<and> st_db t' = LiveHandle \<and> st_ref_cnt t' = st_ref_cnt st + 1 \<and> st_env t' = st_env st"
    by (metis (no_types, lifting) ld_open_def map_sum.simps(2) case_prod_conv kv_static.select_convs
        kv_static.surjective kv_static.update_convs l)
qed (auto simp: ld_close_def Leveldb_Cleanup_def NewLeveldbDB_def delete_handle_def Let_def)

section \<open>Properties\<close>

text \<open>C8: The LevelDB backend with single entries implements the abstract table, for every engine that keeps its documented
  promises: any sequence of inserts, reads, scans, updates and deletes of records with the configured fields returns, in a debug
  build and in a release build, and every status, record and scan result is the one of the table, whose content the stored
  bytes encode.\<close>

theorem leveldb_refines_table:
  assumes "ld_single_ok kv m names d" and "\<forall>c \<in> set cs. row_call names c"
  shows "\<exists>rs d'. db_calls (Leveldb_ops kv opt0 ndebug) cs d = Inr (rs, d') \<and> ld_single_ok kv m names d'
     \<and> db_calls Table_ops cs (ld_table m ndebug d) = Inr (rs, ld_table m ndebug d')"
  using ld_single.calls_refine [of kv m names d cs opt0 ndebug] assms by blast

definition demo_options :: leveldb_Options where
  "demo_options = \<lparr>lo_create_if_missing = False, lo_write_buffer_size = 4194304, lo_max_file_size = 2097152, lo_block_cache = None,
     lo_max_open_files = 1000, lo_compression = Ldb_kSnappyCompression, lo_filter_policy = None, lo_block_size = 4096,
     lo_block_restart_interval = 16\<rparr>"

definition demo_level :: "LdbFormat \<Rightarrow> (string \<times> string) list LeveldbDB" where
  "demo_level f = \<lparr>ld_props = no_properties, ld_format = Some f, ld_fieldcount = 2, ld_field_prefix = ''field'',
     ld_static = \<lparr>st_db = LiveHandle, st_ref_cnt = 1, st_env = []\<rparr>\<rparr>"

theorem leveldb_refines_table_witness:
  "\<exists>d'. db_calls (Leveldb_ops mem_engine demo_options False)
     [CInsert ''t'' ''k'' [(''field0'', ''a''), (''field1'', ''b'')], CInsert ''t'' ''j'' [(''field0'', ''c''), (''field1'', ''d'')],
      CScan ''t'' ''j'' 2 (Some [''field0'']), CUpdate ''t'' ''i'' []] (demo_level kSingleEntry)
     = Inr ([RStatus kOK, RStatus kOK, RRows kOK [[(''field0'', ''c'')], [(''field0'', ''a'')]], RStatus kNotFound], d')"
proof -
  let ?cs = "[CInsert ''t'' ''k'' [(''field0'', ''a''), (''field1'', ''b'')], CInsert ''t'' ''j'' [(''field0'', ''c''), (''field1'', ''d'')],
      CScan ''t'' ''j'' 2 (Some [''field0'']), CUpdate ''t'' ''i'' []]"
  have c: "\<forall>c \<in> set ?cs. row_call [''field0'', ''field1''] c" by (simp add: row_ok_def small_def)
  have "ld_single_ok mem_engine map_of [''field0'', ''field1''] (demo_level kSingleEntry)"
    by (simp add: ld_single_ok_def demo_level_def all_rows_def mem_engine_ok)
  from leveldb_refines_table [OF this c, of demo_options False] obtain rs d'
    where 1: "db_calls (Leveldb_ops mem_engine demo_options False) ?cs (demo_level kSingleEntry) = Inr (rs, d')"
      "db_calls Table_ops ?cs (ld_table map_of False (demo_level kSingleEntry)) = Inr (rs, ld_table map_of False d')" by blast
  have t: "ld_table map_of False (demo_level kSingleEntry) = Map.empty"
    by (auto simp: ld_table_def decode_table_def demo_level_def)
  have "{x \<in> {''k'', ''j''}. ''j'' \<le> x} = set [''j'', ''k'']" by auto
  then have "keys_from ''j'' [''k'' \<mapsto> r, ''j'' \<mapsto> q] = [''j'', ''k'']" for r q :: "Field list"
    by (simp add: keys_from_def insert_commute) 
  with 1(2) have "rs = [RStatus kOK, RStatus kOK, RRows kOK [[(''field0'', ''c'')], [(''field0'', ''a'')]], RStatus kNotFound]"
    by (simp add: t Table_ops_def select_def project_def)
  with 1(1) show ?thesis by simp
qed

text \<open>C31: The shared database stays open while an object uses it: in every history of \<^verbatim>\<open>Init\<close> and \<^verbatim>\<open>Cleanup\<close> calls in which the
  reference count does not reach 0, no call fails, the handle stays valid with the storage it was opened on, and the count is
  the number of objects in use; the \<^verbatim>\<open>Cleanup\<close> of the last one closes it.\<close>

theorem leveldb_handle_shared:
  assumes "ld_props_valid props" and "st_db st = LiveHandle" and "stays_open es (st_ref_cnt st)"
  shows "\<exists>st'. lifecycle (ld_open kv opt0 props) ld_close es st = Inr st' \<and> st_db st' = LiveHandle \<and> st_env st' = st_env st
     \<and> st_ref_cnt st' = st_ref_cnt st + int (count_list es True) - int (count_list es False)
     \<and> (st_ref_cnt st' = 1 \<longrightarrow> (\<exists>st''. ld_close st' = Inr st'' \<and> st_db st'' \<noteq> LiveHandle \<and> st_ref_cnt st'' = 0))"
proof -
  obtain st' where "lifecycle (ld_open kv opt0 props) ld_close es st = Inr st'" "st_db st' = LiveHandle" "st_env st' = st_env st"
    "st_ref_cnt st' = st_ref_cnt st + int (count_list es True) - int (count_list es False)"
    using ld_handle.lifecycle_live [OF assms(1,2) refl assms(3)] by blast
  then show ?thesis using ld_handle.close_last [of st'] by blast
qed

lemma default_props_valid: "ld_props_valid no_properties"
  by (simp add: ld_props_valid_def GetProperty_def no_properties_def stoi_def parse_long_def skip_sign_def isspace_def
      is_digit_def dec_val_def digit_val_def int32_ok_def)

theorem leveldb_handle_shared_witness:
  "\<exists>st'. lifecycle (ld_open mem_engine demo_options no_properties) ld_close [True, True, False] \<lparr>st_db = LiveHandle, st_ref_cnt = 1, st_env = []\<rparr>
     = Inr st' \<and> st_db st' = LiveHandle \<and> st_ref_cnt st' = 2"
  using leveldb_handle_shared [OF default_props_valid, of "\<lparr>st_db = LiveHandle, st_ref_cnt = 1, st_env = []\<rparr>" "[True, True, False]" mem_engine demo_options]
  by auto

text \<open>A database that is initialised again after the last \<^verbatim>\<open>Cleanup\<close> is used after it was deleted: \<^verbatim>\<open>Cleanup\<close> leaves \<^verbatim>\<open>db_\<close> as it is,
  so the next \<^verbatim>\<open>Init\<close> succeeds without opening anything, and every insert through that object is undefined behaviour.\<close>

theorem leveldb_reinit_uses_deleted_handle:
  assumes "ld_props_valid props" and "st_db st = LiveHandle" and "st_ref_cnt st = 1"
  shows "\<exists>st' d. ld_close st = Inr st' \<and> Leveldb_Init kv opt0 (NewLeveldbDB props st') = Inr ((), d)
     \<and> (\<forall>t k vs. \<exists>msg. db_Insert (Leveldb_ops kv opt0 ndebug) t k vs d = Inl (Undefined msg))"
proof -
  let ?st = "st\<lparr>st_ref_cnt := 0, st_db := DeletedHandle\<rparr>"
  have c: "ld_close st = Inr ?st"
    using assms(2,3) by (simp add: ld_close_def Leveldb_Cleanup_def NewLeveldbDB_def delete_handle_def Let_def)
  have "st_db ?st \<noteq> NullHandle" by simp
  from Leveldb_Init_open [OF assms(1) this, of kv opt0] obtain d where d: "Leveldb_Init kv opt0 (NewLeveldbDB props ?st) = Inr ((), d)"
    "ld_format d \<noteq> None" "ld_static d = ?st\<lparr>st_ref_cnt := st_ref_cnt ?st + 1\<rparr>" by blast
  then have no: "deref (ld_static d) = Inl (Undefined ''db_ does not point to a database'')" by (simp add: deref_def)
  have b: "\<exists>batch'. put_batch f k vs batch = Inr batch'" if "f = Some kRowMajor \<or> f = Some kColumnMajor" for f k vs batch
    using that by (induction vs arbitrary: batch) (auto simp: BuildCompKey_def)
  have "\<exists>msg. db_Insert (Leveldb_ops kv opt0 ndebug) t k vs d = Inl (Undefined msg)" for t k vs
  proof -
    obtain f where f: "ld_format d = Some f" using d(2) by auto
    then show ?thesis using b [of "Some f" k vs "[]"] no
      by (cases f) (auto simp: Leveldb_ops_def ld_dispatch_def InsertSingleEntry_def InsertCompKey_def)
  qed
  with c d(1) show ?thesis by blast
qed

theorem leveldb_reinit_uses_deleted_handle_witness:
  "\<exists>st' d. ld_close \<lparr>st_db = LiveHandle, st_ref_cnt = 1, st_env = []\<rparr> = Inr st' \<and> Leveldb_Init mem_engine demo_options (NewLeveldbDB no_properties st') = Inr ((), d)
     \<and> (\<exists>msg. db_Insert (Leveldb_ops mem_engine demo_options True) ''t'' ''k'' [] d = Inl (Undefined msg))"
  using leveldb_reinit_uses_deleted_handle [OF default_props_valid, of "\<lparr>st_db = LiveHandle, st_ref_cnt = 1, st_env = []\<rparr>" mem_engine demo_options True] by auto

end
