(* ===== verification/Leveldb_Rows.thy ===== *)
theory Leveldb_Rows
  imports Leveldb
begin

text \<open>
  The row-major layout of the LevelDB backend, in which every field is an entry of its own under the key
  \<^verbatim>\<open>key:field\<close>. It implements a table in which inserts and updates merge into the stored record, when all keys
  have one length (as zero padding gives them) and no colon, there are at most ten fields, and each call fits
  what is stored (\<open>rm_call\<close>). The last section shows what happens when one key is a prefix of another.
\<close>

section \<open>Composite keys\<close>

definition comp_key :: "string \<Rightarrow> string \<Rightarrow> string" where
  "comp_key k f = k @ '':'' @ f"

definition rm_key :: "nat \<Rightarrow> string \<Rightarrow> bool" where
  "rm_key L k \<longleftrightarrow> length k = L \<and> CHR '':'' \<notin> set k"

definition field_names :: "string \<Rightarrow> nat \<Rightarrow> string list" where
  "field_names pre n = map (\<lambda>i. pre @ to_string i) [0..<n]"

lemma BuildCompKey_row [simp]: "BuildCompKey (Some kRowMajor) k f = Inr (comp_key k f)"
  by (simp add: BuildCompKey_def comp_key_def)

lemma split_colon:
  "CHR '':'' \<notin> set k \<Longrightarrow> takeWhile (\<lambda>c. c \<noteq> CHR '':'') (k @ CHR '':'' # f) = k"
  "CHR '':'' \<notin> set k \<Longrightarrow> dropWhile (\<lambda>c. c \<noteq> CHR '':'') (k @ CHR '':'' # f) = CHR '':'' # f"
  by (induction k) auto

lemma KeyFromCompKey_comp [simp]: "CHR '':'' \<notin> set k \<Longrightarrow> KeyFromCompKey ndebug (comp_key k f) = Inr k"
  by (simp add: KeyFromCompKey_def comp_key_def split_colon)

lemma FieldFromCompKey_comp [simp]: "CHR '':'' \<notin> set k \<Longrightarrow> FieldFromCompKey ndebug (comp_key k f) = Inr f"
  by (simp add: FieldFromCompKey_def comp_key_def split_colon)

lemma comp_inject: "length k = length k' \<Longrightarrow> comp_key k f = comp_key k' f' \<longleftrightarrow> k = k' \<and> f = f'"
  by (simp add: comp_key_def)

lemma append_less_append: "length k = length k' \<Longrightarrow> k < k' \<Longrightarrow> k @ x < k' @ (y :: string)"
  by (induction k k' rule: list_induct2) auto

lemma append_less_cancel [simp]: "k @ x < k @ y \<longleftrightarrow> x < (y :: string)"
  by (induction k) simp_all

lemma append_ge: "k \<le> k @ (x :: string)"
  by (induction k) simp_all

lemma comp_less: "length k = length k' \<Longrightarrow> k < k' \<Longrightarrow> comp_key k f < comp_key k' f'"
  unfolding comp_key_def by (rule append_less_append)

lemma comp_less_same: "f < f' \<Longrightarrow> comp_key k f < comp_key k f'"
  by (simp add: comp_key_def)

lemma le_comp_iff: "length k = length key \<Longrightarrow> key \<le> comp_key k f \<longleftrightarrow> key \<le> k"
proof (cases k key rule: linorder_cases)
  case less
  assume "length k = length key"
  then have "comp_key k f < key" using append_less_append [of k key "'':'' @ f" "[]"] less by (simp add: comp_key_def)
  with less show ?thesis by (meson leD)
next
  case greater
  assume "length k = length key"
  then have "key < comp_key k f" using append_less_append [of key k "[]" "'':'' @ f"] greater by (simp add: comp_key_def)
  with greater show ?thesis by (meson less_imp_le)
qed (simp add: comp_key_def append_ge)

lemma digit_less: "i < j \<Longrightarrow> j < 10 \<Longrightarrow> digit i < digit j"
  by (simp add: less_char_def of_char_digit)

lemma field_names_sorted: "n \<le> 10 \<Longrightarrow> sorted_wrt (<) (field_names pre n)"
  by (simp add: field_names_def sorted_wrt_iff_nth_less to_string.simps digit_less)

lemma field_names_distinct: "distinct (field_names pre n)"
  by (simp add: field_names_def distinct_map inj_on_def)

lemma field_names_in: "f \<in> set (field_names pre n) \<longleftrightarrow> (\<exists>i < n. f = pre @ to_string i)"
  by (auto simp: field_names_def)

lemma length_field_names [simp]: "length (field_names pre n) = n"
  by (simp add: field_names_def)

lemma comp_keys_sorted:
  assumes "sorted_wrt (<) ks" and "\<forall>k \<in> set ks. length k = L" and "sorted_wrt (<) names"
  shows "sorted_wrt (<) (concat (map (\<lambda>k. map (comp_key k) names) ks))"
  using assms(1,2)
proof (induction ks)
  case (Cons k ks)
  have "sorted_wrt (<) (map (comp_key k) names)"
    using assms(3) by (auto simp: sorted_wrt_map intro: sorted_wrt_mono_rel comp_less_same)
  then show ?case using Cons by (auto simp: sorted_wrt_append intro: comp_less)
qed simp

section \<open>The store as a table\<close>

definition rm_rows :: "nat \<Rightarrow> string list \<Rightarrow> (string \<rightharpoonup> string) \<Rightarrow> bool" where
  "rm_rows L names m \<longleftrightarrow> finite (dom m)
     \<and> (\<forall>x \<in> dom m. \<exists>k f. x = comp_key k f \<and> rm_key L k \<and> f \<in> set names)
     \<and> (\<forall>k. rm_key L k \<longrightarrow> (\<forall>f \<in> set names. comp_key k f \<in> dom m) \<or> (\<forall>f \<in> set names. comp_key k f \<notin> dom m))"

definition rm_table :: "nat \<Rightarrow> string list \<Rightarrow> (string \<rightharpoonup> string) \<Rightarrow> table" where
  "rm_table L names m k = (if rm_key L k \<and> comp_key k (hd names) \<in> dom m
     then Some (map (\<lambda>f. (f, the (m (comp_key k f)))) names) else None)"

lemma rm_table_dom:
  assumes "rm_rows L names m" and "f \<in> set names"
  shows "k \<in> dom (rm_table L names m) \<longleftrightarrow> rm_key L k \<and> comp_key k f \<in> dom m"
proof -
  have "hd names \<in> set names" using assms(2) by (cases names) auto
  then have "rm_key L k \<Longrightarrow> comp_key k (hd names) \<in> dom m \<longleftrightarrow> comp_key k f \<in> dom m" using assms unfolding rm_rows_def by blast
  then show ?thesis by (auto simp: rm_table_def split: if_splits)
qed

lemma finite_rm_table: "rm_rows L names m \<Longrightarrow> names \<noteq> [] \<Longrightarrow> finite (dom (rm_table L names m))"
proof -
  assume r: "rm_rows L names m" and "names \<noteq> []"
  then have "(\<lambda>k. comp_key k (hd names)) ` dom (rm_table L names m) \<subseteq> dom m"
    by (auto simp: rm_table_def split: if_splits)
  then have "finite ((\<lambda>k. comp_key k (hd names)) ` dom (rm_table L names m))"
    using r by (auto simp: rm_rows_def intro: finite_subset)
  moreover have "inj_on (\<lambda>k. comp_key k (hd names)) (dom (rm_table L names m))"
    by (auto simp: inj_on_def comp_key_def)
  ultimately show ?thesis by (rule finite_imageD)
qed

lemma keys_from_comp:
  assumes r: "rm_rows L names m" and ne: "names \<noteq> []" and s: "sorted_wrt (<) names" and key: "rm_key L key"
  shows "keys_from key m = concat (map (\<lambda>k. map (comp_key k) names) (keys_from key (rm_table L names m)))" (is "_ = ?xs")
proof -
  let ?ks = "keys_from key (rm_table L names m)"
  have fin: "finite (dom (rm_table L names m))" by (rule finite_rm_table [OF r ne])
  have ks: "set ?ks = {k \<in> dom (rm_table L names m). key \<le> k}" "sorted_wrt (<) ?ks"
    using fin by (simp_all add: keys_from_def)
  have len: "\<forall>k \<in> set ?ks. length k = L"
    by (auto simp: ks rm_table_def rm_key_def split: if_splits)
  have "sorted_wrt (<) ?xs" by (rule comp_keys_sorted [OF ks(2) len s])
  then have xs: "sorted_list_of_set (set ?xs) = ?xs"
    by (intro sorted_list_of_set.idem_if_sorted_distinct) (auto simp: strict_sorted_iff)
  have "x \<in> set ?xs \<longleftrightarrow> x \<in> dom m \<and> key \<le> x" for x
  proof
    assume "x \<in> set ?xs"
    then obtain k f where k: "k \<in> set ?ks" "f \<in> set names" "x = comp_key k f" by auto
    then have "rm_key L k" "x \<in> dom m" using rm_table_dom [OF r k(2), of k] by (auto simp: ks)
    with k key show "x \<in> dom m \<and> key \<le> x" by (auto simp: ks rm_key_def le_comp_iff)
  next
    assume x: "x \<in> dom m \<and> key \<le> x"
    then obtain k f where k: "x = comp_key k f" "rm_key L k" "f \<in> set names" using r unfolding rm_rows_def by blast
    then have "k \<in> set ?ks" using rm_table_dom [OF r k(3), of k] x key by (auto simp: ks rm_key_def le_comp_iff)
    with k show "x \<in> set ?xs" by auto
  qed
  then have "{x \<in> dom m. key \<le> x} = set ?xs" by blast
  then show ?thesis using xs by (simp only: keys_from_def)
qed

section \<open>The loops\<close>

text \<open>The entries of the fields from \<open>i\<close> on of the record with key \<open>k\<close>.\<close>

abbreviation rm_entries :: "string \<Rightarrow> string \<Rightarrow> (string \<Rightarrow> string) \<Rightarrow> nat list \<Rightarrow> (string \<times> string) list" where
  "rm_entries pre k v is \<equiv> map (\<lambda>i. (comp_key k (pre @ to_string i), v (pre @ to_string i))) is"

abbreviation rm_fields :: "string \<Rightarrow> (string \<Rightarrow> string) \<Rightarrow> nat list \<Rightarrow> Field list" where
  "rm_fields pre v is \<equiv> map (\<lambda>i. (pre @ to_string i, v (pre @ to_string i))) is"

lemma rm_all_loop_row:
  assumes "CHR '':'' \<notin> set k" and "key = None \<or> key = Some k" and "i \<le> n"
  shows "rm_all_loop ndebug key pre (int n) (int i) (rm_entries pre k v [i..<n] @ it) result =
     Inr (result @ rm_fields pre v [i..<n], it)"
  using assms(3)
proof (induction "n - i" arbitrary: i result)
  case 0
  then show ?case by (cases it) auto
next
  case (Suc j)
  then have "i < n" "j = n - Suc i" "Suc i \<le> n" by simp_all
  with Suc.hyps(1) [of "Suc i" "result @ [(pre @ to_string i, v (pre @ to_string i))]"] assms(1,2) show ?case
    by (auto simp: upt_conv_Cons add.commute)
qed

lemma rm_filter_loop_row:
  assumes "CHR '':'' \<notin> set k" and "key = None \<or> key = Some k" and "i \<le> n"
  shows "\<exists>it'. rm_filter_loop ndebug key pre (int n) (int i) flds (rm_entries pre k v [i..<n] @ it) result =
     Inr (result @ pick flds (rm_fields pre v [i..<n]), it')"
  using assms(3)
proof (induction "n - i" arbitrary: i flds result)
  case 0
  then show ?case by (cases it) auto
next
  case (Suc j)
  then have i: "i < n" "j = n - Suc i" "Suc i \<le> n" by simp_all
  show ?case
  proof (cases flds)
    case Nil
    then show ?thesis using i by (cases "rm_fields pre v [i..<n]") (auto simp: upt_conv_Cons)
  next
    case (Cons f fs)
    with Suc.hyps(1) [of "Suc i" fs "result @ [(pre @ to_string i, v (pre @ to_string i))]"]
      Suc.hyps(1) [of "Suc i" flds result] assms(1,2) i show ?thesis
      by (auto simp: upt_conv_Cons add.commute)
  qed
qed

text \<open>When the last name asked for is the last field, the filter loop ends at the end of the record.\<close>

lemma rm_filter_loop_last:
  assumes "CHR '':'' \<notin> set k" and "i \<le> n" and "flds \<noteq> []" and "last flds = pre @ to_string (n - 1)"
    and "subseq flds (map (\<lambda>i. pre @ to_string i) [i..<n])"
  shows "\<exists>r. rm_filter_loop ndebug None pre (int n) (int i) flds (rm_entries pre k v [i..<n] @ it) result = Inr (r, it)"
  using assms(2-5)
proof (induction "n - i" arbitrary: i flds result)
  case (Suc j)
  then have i: "i < n" "j = n - Suc i" "Suc i \<le> n" by simp_all
  obtain f fs where flds: "flds = f # fs" using Suc.prems(2) by (cases flds) auto
  have upt: "[i..<n] = i # [Suc i..<n]" using i by (simp add: upt_conv_Cons)
  note st = assms(1) i flds
  show ?case
  proof (cases "f = pre @ to_string i")
    case False
    then have "subseq flds (map (\<lambda>i. pre @ to_string i) [Suc i..<n])" using Suc.prems(4) flds by (simp add: upt)
    from Suc.hyps(1) [OF i(2,3) Suc.prems(2,3) this, of result] False st show ?thesis
      by (auto simp: upt add.commute)
  next
    case True
    show ?thesis
    proof (cases "fs = []")
      case one: True
      have "to_string i = to_string (n - 1)" using Suc.prems(3) \<open>f = pre @ to_string i\<close> flds one by simp
      then have "Suc i = n" using i by simp
      then show ?thesis using one \<open>f = pre @ to_string i\<close> st by (cases it) (auto simp: upt add.commute)
    next
      case False
      then have "last fs = pre @ to_string (n - 1)" using Suc.prems(3) flds by simp
      moreover have "subseq fs (map (\<lambda>i. pre @ to_string i) [Suc i..<n])" using Suc.prems(4) flds True by (simp add: upt)
      ultimately show ?thesis
        using Suc.hyps(1) [OF i(2,3) False, of "result @ [(pre @ to_string i, v (pre @ to_string i))]"] True st
        by (auto simp: upt add.commute)
    qed
  qed
qed simp

lemma rm_row_all:
  assumes "CHR '':'' \<notin> set k" and "key = None \<or> key = Some k"
  shows "rm_row ndebug key pre (int n) None (rm_entries pre k v [0..<n] @ it) = Inr (rm_fields pre v [0..<n], it)"
  using rm_all_loop_row [OF assms, of 0 n ndebug pre v it "[]"] by (simp add: rm_row_def)

lemma rm_row_filter:
  assumes "CHR '':'' \<notin> set k" and "key = None \<or> key = Some k" and "subseq fs (field_names pre n)"
  shows "\<exists>it'. rm_row ndebug key pre (int n) (Some fs) (rm_entries pre k v [0..<n] @ it) =
     Inr (project fs (rm_fields pre v [0..<n]), it')"
proof -
  have n: "map fst (rm_fields pre v [0..<n]) = field_names pre n" by (simp add: field_names_def)
  have "pick fs (rm_fields pre v [0..<n]) = project fs (rm_fields pre v [0..<n])"
    using assms(3) field_names_distinct by (intro pick_project) (simp_all only: n)
  with rm_filter_loop_row [OF assms(1,2), of 0 n ndebug pre fs v it "[]"] show ?thesis
    by (auto simp: rm_row_def) (auto simp: project_def)
qed

lemma rm_row_filter_last:
  assumes "CHR '':'' \<notin> set k" and "subseq fs (field_names pre n)" and "fs \<noteq> []" and "last fs = last (field_names pre n)" and "0 < n"
  shows "rm_row ndebug None pre (int n) (Some fs) (rm_entries pre k v [0..<n] @ it) =
     Inr (project fs (rm_fields pre v [0..<n]), it)"
proof -
  have "last (field_names pre n) = pre @ to_string (n - 1)" using assms(5) by (simp add: field_names_def last_map last_upt)
  then obtain r where "rm_filter_loop ndebug None pre (int n) (int 0) fs (rm_entries pre k v [0..<n] @ it) [] = Inr (r, it)"
    using rm_filter_loop_last [OF assms(1), of 0 n fs pre ndebug v it "[]"] assms(2-4) by (auto simp: field_names_def)
  with rm_row_filter [OF assms(1) _ assms(2), of None ndebug v it] show ?thesis
    by (cases "length r = length fs") (auto simp: rm_row_def assert_that_def split: if_splits)
qed

text \<open>The scans that read each record to its end, and those of one record.\<close>

definition rm_fits :: "string list \<Rightarrow> int \<Rightarrow> string list option \<Rightarrow> bool" where
  "rm_fits names len flds \<longleftrightarrow>
     (case flds of None \<Rightarrow> True
      | Some fs \<Rightarrow> subseq fs names \<and> (len \<le> 1 \<or> fs \<noteq> [] \<and> last fs = last names))"

lemma rm_scan_loop_rows:
  assumes "\<forall>k \<in> set ks. CHR '':'' \<notin> set k" and "0 < n"
    and "case flds of None \<Rightarrow> True | Some fs \<Rightarrow> subseq fs (field_names pre n) \<and> fs \<noteq> [] \<and> last fs = last (field_names pre n)"
  shows "rm_scan_loop ndebug pre (int n) flds c (concat (map (\<lambda>k. rm_entries pre k (v k) [0..<n]) ks)) result =
     Inr (result @ map (\<lambda>k. select flds (rm_fields pre (v k) [0..<n])) (take c ks))"
  using assms(1)
proof (induction c arbitrary: ks result)
  case (Suc c)
  show ?case
  proof (cases ks)
    case (Cons k ks')
    then have k: "CHR '':'' \<notin> set k" using Suc.prems by simp
    have "rm_row ndebug None pre (int n) flds (rm_entries pre k (v k) [0..<n] @ it) = Inr (select flds (rm_fields pre (v k) [0..<n]), it)" for it
      using rm_row_all [OF k, of None ndebug pre n "v k" it] rm_row_filter_last [OF k, of _ pre n ndebug "v k" it] assms(2,3)
      by (cases flds) (simp_all add: select_def)
    with Suc Cons assms(2) show ?thesis by simp
  qed simp
qed simp

lemma rm_scan_loop_fits:
  assumes ks: "\<forall>k \<in> set ks. CHR '':'' \<notin> set k" and n: "0 < n" and fits: "rm_fits (field_names pre n) len flds"
  shows "rm_scan_loop ndebug pre (int n) flds (nat len) (concat (map (\<lambda>k. rm_entries pre k (v k) [0..<n]) ks)) [] =
     Inr (map (\<lambda>k. select flds (rm_fields pre (v k) [0..<n])) (take (nat len) ks))"
proof (cases "len \<le> 1 \<and> flds \<noteq> None \<and> ks \<noteq> []")
  case True
  then obtain fs k ks' where f: "flds = Some fs" "ks = k # ks'" by (cases ks) auto
  then have "CHR '':'' \<notin> set k" "subseq fs (field_names pre n)" using ks fits by (simp_all add: rm_fits_def)
  from rm_row_filter [OF this(1) _ this(2), of None ndebug "v k"] True f n show ?thesis
    by (cases "len = 1") (auto simp: select_def dest!: meta_spec [of _ "concat (map (\<lambda>k. rm_entries pre k (v k) [0..<n]) ks')"])
next
  case False
  show ?thesis
  proof (cases "ks = []")
    case True
    then show ?thesis by (cases "nat len") simp_all
  next
    case ne: False
    have "case flds of None \<Rightarrow> True | Some fs \<Rightarrow> subseq fs (field_names pre n) \<and> fs \<noteq> [] \<and> last fs = last (field_names pre n)"
      using False ne fits by (auto simp: rm_fits_def split: option.splits)
    from rm_scan_loop_rows [OF ks n this, of ndebug "nat len" v "[]"] show ?thesis by simp
  qed
qed

section \<open>The layout implements a table\<close>

lemma put_batch_row:
  "put_batch (Some kRowMajor) k vs batch = Inr (batch @ map (\<lambda>fv. BPut (comp_key k (fst fv)) (snd fv)) vs)"
  by (induction vs arbitrary: batch) simp_all

lemma delete_batch_row:
  "delete_batch (Some kRowMajor) k pre i n batch = Inr (batch @ map (\<lambda>j. BDelete (comp_key k (pre @ to_string j))) [i..<i + n])"
  by (induction n arbitrary: i batch) (simp_all add: upt_conv_Cons del: upt_Suc)

lemma apply_puts:
  "foldl batch_apply m (map (\<lambda>fv. BPut (comp_key k (fst fv)) (snd fv)) vs) (comp_key k f) =
     (case map_of (rev vs) f of Some v \<Rightarrow> Some v | None \<Rightarrow> m (comp_key k f))"
proof (induction vs arbitrary: m)
  case (Cons fv vs)
  then show ?case by (cases fv) (auto simp: map_add_def comp_inject split: option.splits)
qed simp

lemma apply_puts_other:
  "\<forall>f \<in> fst ` set vs. x \<noteq> comp_key k f \<Longrightarrow> foldl batch_apply m (map (\<lambda>fv. BPut (comp_key k (fst fv)) (snd fv)) vs) x = m x"
  by (induction vs arbitrary: m) auto

lemma apply_deletes:
  "foldl batch_apply m (map (\<lambda>f. BDelete (comp_key k f)) fs) x = (if \<exists>f \<in> set fs. x = comp_key k f then None else m x)"
  by (induction fs arbitrary: m) auto

lemma map_of_rev_distinct: "distinct (map fst vs) \<Longrightarrow> map_of (rev vs) = map_of vs"
  by (subst map_of_inject_set) (simp_all add: rev_map [symmetric])

lemma rows_by_name: "distinct (map fst vs) \<Longrightarrow> map (\<lambda>f. (f, the (map_of vs f))) (map fst vs) = vs"
  by (simp add: comp_def) (rule map_idI, auto)

lemma rm_key_comp: "rm_key L k \<Longrightarrow> rm_key L k' \<Longrightarrow> comp_key k f = comp_key k' f' \<longleftrightarrow> k = k' \<and> f = f'"
  by (simp add: rm_key_def comp_inject)

lemma rm_rows_change:
  assumes r: "rm_rows L names m" and k: "rm_key L k" and fin: "finite (dom m')"
    and same: "\<And>x. \<forall>f \<in> set names. x \<noteq> comp_key k f \<Longrightarrow> m' x = m x"
    and all: "(\<forall>f \<in> set names. comp_key k f \<in> dom m') \<or> (\<forall>f \<in> set names. comp_key k f \<notin> dom m')"
  shows "rm_rows L names m'"
    and "k' \<noteq> k \<Longrightarrow> names \<noteq> [] \<Longrightarrow> rm_table L names m' k' = rm_table L names m k'"
proof -
  have other: "m' (comp_key k' f) = m (comp_key k' f)" if "rm_key L k'" "k' \<noteq> k" for k' f
    using that k by (intro same) (auto simp: rm_key_comp)
  have "\<exists>k f. x = comp_key k f \<and> rm_key L k \<and> f \<in> set names" if "x \<in> dom m'" for x
  proof (cases "\<exists>f \<in> set names. x = comp_key k f")
    case False
    then have "x \<in> dom m" using same [of x] that by (simp add: domIff)
    then show ?thesis using r unfolding rm_rows_def by blast
  qed (use k in blast)
  moreover have "(\<forall>f \<in> set names. comp_key k' f \<in> dom m') \<or> (\<forall>f \<in> set names. comp_key k' f \<notin> dom m')" if "rm_key L k'" for k'
  proof (cases "k' = k")
    case False
    then show ?thesis using r that other [OF that False] unfolding rm_rows_def dom_def by simp
  qed (use all in simp)
  ultimately show "rm_rows L names m'" using fin by (simp add: rm_rows_def)
  show "rm_table L names m' k' = rm_table L names m k'" if "k' \<noteq> k" "names \<noteq> []"
    using other [OF _ that(1)] by (auto simp: rm_table_def dom_def)
qed

text \<open>The records a write of \<open>vs\<close> may go to: a whole record, or some fields of a stored one.\<close>

definition rm_writable :: "string list \<Rightarrow> Field list option \<Rightarrow> Field list \<Rightarrow> bool" where
  "rm_writable names old vs \<longleftrightarrow> map fst vs = names \<or> old \<noteq> None \<and> fst ` set vs \<subseteq> set names"

definition merged :: "Field list option \<Rightarrow> Field list \<Rightarrow> Field list" where
  "merged old vs = (case old of None \<Rightarrow> vs | Some r \<Rightarrow> overwrite vs r)"

lemma rm_insert:
  assumes r: "rm_rows L names m" and k: "rm_key L k" and vs: "rm_writable names (rm_table L names m k) vs"
    and names: "distinct names" "names \<noteq> []"
    and m': "m' = foldl batch_apply m (map (\<lambda>fv. BPut (comp_key k (fst fv)) (snd fv)) vs)"
  shows "rm_rows L names m' \<and> rm_table L names m' = (rm_table L names m)(k \<mapsto> merged (rm_table L names m k) vs)"
proof -
  have here: "m' (comp_key k f) = (case map_of (rev vs) f of Some v \<Rightarrow> Some v | None \<Rightarrow> m (comp_key k f))" for f
    unfolding m' by (rule apply_puts)
  have new: "f \<in> fst ` set vs \<Longrightarrow> map_of (rev vs) f \<noteq> None" for f by (simp add: map_of_eq_None_iff)
  have sub: "fst ` set vs \<subseteq> set names" using vs unfolding rm_writable_def by (metis set_map subset_refl)
  have dom: "comp_key k f \<in> dom m'" if f: "f \<in> set names" for f
  proof (cases "f \<in> fst ` set vs")
    case True
    then show ?thesis using new [OF True] by (auto simp: domIff here)
  next
    case False
    have "f \<in> fst ` set vs" if "map fst vs = names" using f that by (metis set_map)
    then have "rm_table L names m k \<noteq> None" using vs False unfolding rm_writable_def by blast
    then have "comp_key k f \<in> dom m" using rm_table_dom [OF r f, of k] by auto
    then show ?thesis by (simp add: domIff here split: option.splits)
  qed
  have same: "m' x = m x" if "\<forall>f \<in> set names. x \<noteq> comp_key k f" for x
    unfolding m' using that sub by (intro apply_puts_other) auto
  have "dom m' \<subseteq> dom m \<union> comp_key k ` set names"
  proof
    fix x assume "x \<in> dom m'"
    then show "x \<in> dom m \<union> comp_key k ` set names" using same [of x] unfolding domIff image_iff Un_iff by metis
  qed
  then have fin: "finite (dom m')" using r by (auto simp: rm_rows_def intro: finite_subset)
  note c = rm_rows_change [OF r k fin same]
  have "map (\<lambda>f. (f, the (m' (comp_key k f)))) names = merged (rm_table L names m k) vs"
  proof (cases "rm_table L names m k")
    case None
    then have w: "map fst vs = names" using vs by (simp add: rm_writable_def)
    then have "map_of (rev vs) = map_of vs" using names(1) by (intro map_of_rev_distinct) simp
    moreover have "map_of vs f \<noteq> None" if "f \<in> set names" for f
      using that w by (metis map_of_eq_None_iff set_map)
    ultimately have e: "map (\<lambda>f. (f, the (m' (comp_key k f)))) names = map (\<lambda>f. (f, the (map_of vs f))) names"
      by (intro map_cong refl) (fastforce simp: here split: option.splits)
    show ?thesis unfolding e using rows_by_name [of vs] w names(1) None by (simp add: merged_def)
  next
    case (Some row)
    then have "row = map (\<lambda>f. (f, the (m (comp_key k f)))) names" by (simp add: rm_table_def split: if_splits)
    then show ?thesis using Some by (auto simp: merged_def overwrite_def here split: option.splits)
  qed
  then have "rm_table L names m' k = Some (merged (rm_table L names m k) vs)"
    using dom [of "hd names"] names(2) k by (simp add: rm_table_def)
  moreover have "\<forall>f \<in> set names. comp_key k f \<in> dom m'" using dom by blast
  ultimately show ?thesis using c names(2) by (auto simp: fun_eq_iff)
qed

lemma rm_delete:
  assumes r: "rm_rows L names m" and k: "rm_key L k" and ne: "names \<noteq> []"
    and m': "m' = foldl batch_apply m (map (\<lambda>f. BDelete (comp_key k f)) names)"
  shows "rm_rows L names m' \<and> rm_table L names m' = (rm_table L names m)(k := None)"
proof -
  have m'_eq: "m' x = (if \<exists>f \<in> set names. x = comp_key k f then None else m x)" for x
    unfolding m' by (rule apply_deletes)
  have none: "\<forall>f \<in> set names. comp_key k f \<notin> dom m'" by (auto simp: m'_eq domIff)
  have "dom m' \<subseteq> dom m" by (auto simp: m'_eq split: if_splits)
  then have fin: "finite (dom m')" using r by (auto simp: rm_rows_def intro: finite_subset)
  have same: "m' x = m x" if "\<forall>f \<in> set names. x \<noteq> comp_key k f" for x using that by (simp add: m'_eq)
  note c = rm_rows_change [OF r k fin same]
  have "rm_table L names m' k = None" using none ne by (simp add: rm_table_def)
  then show ?thesis using c none ne by (auto simp: fun_eq_iff)
qed

lemma keys_from_head:
  assumes "finite (dom T)" and "key \<in> dom T"
  shows "\<exists>ks. keys_from key T = key # ks"
proof -
  let ?A = "{x \<in> dom T. key \<le> x}"
  have "Min ?A = key" using assms by (intro Min_eqI) auto
  moreover have "finite ?A" "?A \<noteq> {}" using assms by auto
  ultimately show ?thesis using sorted_list_of_set_nonempty [of ?A] by (simp add: keys_from_def)
qed

definition rm_ok ::
    "(leveldb_Options, 's) kv_engine \<Rightarrow> ('s \<Rightarrow> string \<rightharpoonup> string) \<Rightarrow> nat \<Rightarrow> string \<Rightarrow> nat \<Rightarrow> 's LeveldbDB \<Rightarrow> bool" where
  "rm_ok kv m L pre n d \<longleftrightarrow> kv_ok kv m \<and> ld_format d = Some kRowMajor \<and> st_db (ld_static d) = LiveHandle
     \<and> ld_fieldcount d = int n \<and> 0 < n \<and> n \<le> 10 \<and> ld_field_prefix d = pre
     \<and> rm_rows L (field_names pre n) (ld_store m d)"

abbreviation ld_rm_table :: "('s \<Rightarrow> string \<rightharpoonup> string) \<Rightarrow> nat \<Rightarrow> string \<Rightarrow> nat \<Rightarrow> 's LeveldbDB \<Rightarrow> table" where
  "ld_rm_table m L pre n d \<equiv> rm_table L (field_names pre n) (ld_store m d)"

text \<open>
  The table in which an insert and an update are one operation, which stores the record of a new key and merges the
  fields into the record of a stored one.
\<close>

definition Merge_ops :: "table DB" where
  "Merge_ops = Table_ops
     \<lparr>db_Insert := (\<lambda>_ k vs T. Inr (kOK, T(k \<mapsto> merged (T k) vs))),
      db_Update := (\<lambda>_ k vs T. Inr (kOK, T(k \<mapsto> merged (T k) vs)))\<rparr>"

text \<open>
  The calls that fit a table \<open>T\<close>. A read may name some fields in their order. A scan that names fields reads one record or asks
  for the last field, since the code moves on to the next record from wherever the filter loop has stopped; a debug build
  asserts that the key it starts from is stored. A write gives a whole record or some fields of a stored one.
\<close>

fun rm_call :: "bool \<Rightarrow> nat \<Rightarrow> string list \<Rightarrow> table \<Rightarrow> dbcall \<Rightarrow> bool" where
  "rm_call ndebug L names T (CRead _ k flds) \<longleftrightarrow> rm_key L k \<and> (case flds of None \<Rightarrow> True | Some fs \<Rightarrow> subseq fs names)"
| "rm_call ndebug L names T (CScan _ k len flds) \<longleftrightarrow> rm_key L k \<and> (ndebug \<or> T k \<noteq> None) \<and> rm_fits names len flds"
| "rm_call ndebug L names T (CUpdate _ k vs) \<longleftrightarrow> rm_key L k \<and> rm_writable names (T k) vs"
| "rm_call ndebug L names T (CInsert _ k vs) \<longleftrightarrow> rm_key L k \<and> rm_writable names (T k) vs"
| "rm_call ndebug L names T (CDelete _ k) \<longleftrightarrow> rm_key L k"
| "rm_call ndebug L names T (CReadIdx _) \<longleftrightarrow> False"

lemma rm_okD:
  assumes "rm_ok kv m L pre n d"
  shows "kv_ok kv m" "ld_format d = Some kRowMajor" "st_db (ld_static d) = LiveHandle" "ld_fieldcount d = int n" "0 < n"
    "ld_field_prefix d = pre" "rm_rows L (field_names pre n) (ld_store m d)" "field_names pre n \<noteq> []"
    "sorted_wrt (<) (field_names pre n)"
  using assms by (auto simp: rm_ok_def field_names_sorted) (simp add: field_names_def)

lemma rm_seek:
  assumes ok: "rm_ok kv m L pre n d" and key: "rm_key L key"
  shows "kv_Seek kv key (st_env (ld_static d)) =
    concat (map (\<lambda>k. rm_entries pre k (\<lambda>f. the (ld_store m d (comp_key k f))) [0..<n]) (keys_from key (ld_rm_table m L pre n d)))"
  unfolding kv_okD(9) [OF rm_okD(1) [OF ok]] keys_from_comp [OF rm_okD(7-9) [OF ok] key]
  by (simp add: map_concat comp_def field_names_def)

lemma rm_table_Some:
  "rm_table L (field_names pre n) m k = Some r \<Longrightarrow> r = rm_fields pre (\<lambda>f. the (m (comp_key k f))) [0..<n] \<and> rm_key L k"
  by (auto simp: rm_table_def field_names_def split: if_splits)

lemma rm_keys:
  assumes "rm_ok kv m L pre n d" and "k \<in> set (keys_from key (ld_rm_table m L pre n d))"
  shows "CHR '':'' \<notin> set k" and "ld_rm_table m L pre n d k \<noteq> None"
proof -
  have "k \<in> dom (ld_rm_table m L pre n d)"
    using assms finite_rm_table [OF rm_okD(7,8) [OF assms(1)]] by (simp add: keys_from_def)
  then show "CHR '':'' \<notin> set k" "ld_rm_table m L pre n d k \<noteq> None"
    by (auto simp: rm_table_def rm_key_def split: if_splits)
qed

lemma rm_Read:
  assumes ok: "rm_ok kv m L pre n d" and key: "rm_key L k"
    and flds: "case flds of None \<Rightarrow> True | Some fs \<Rightarrow> subseq fs (field_names pre n)"
  shows "\<exists>s. ReadCompKeyRM kv ndebug t k flds d = Inr (s, d)
     \<and> db_Read Merge_ops t k flds (ld_rm_table m L pre n d) = Inr (s, ld_rm_table m L pre n d)"
proof -
  let ?T = "ld_rm_table m L pre n d" and ?v = "\<lambda>k f. the (ld_store m d (comp_key k f))"
  let ?it = "kv_Seek kv k (st_env (ld_static d))"
  have n: "[0..<n] = 0 # [1..<n]" using rm_okD(5) [OF ok] by (simp add: upt_conv_Cons)
  have colon: "CHR '':'' \<notin> set k" using key by (simp add: rm_key_def)
  show ?thesis
  proof (cases "?T k")
    case (Some r)
    then have r: "r = rm_fields pre (?v k) [0..<n]" by (auto dest: rm_table_Some)
    obtain ks where ks: "keys_from k ?T = k # ks"
      using keys_from_head [OF finite_rm_table [OF rm_okD(7,8) [OF ok]], of k] Some by blast
    obtain rest where it: "?it = rm_entries pre k (?v k) [0..<n] @ rest" using rm_seek [OF ok key] ks by simp
    have "\<exists>it'. rm_row ndebug (Some k) pre (int n) flds ?it = Inr (select flds r, it')"
      unfolding it r using rm_row_all [OF colon, of "Some k" ndebug pre n "?v k" rest]
        rm_row_filter [OF colon, of "Some k" _ pre n ndebug "?v k" rest] flds
      by (cases flds) (simp_all add: select_def)
    then show ?thesis using Some rm_okD [OF ok] colon
      by (auto simp: ReadCompKeyRM_def it n Merge_ops_def Table_ops_def)
  next
    case None
    show ?thesis
    proof (cases "keys_from k ?T")
      case Nil
      then show ?thesis using rm_seek [OF ok key] None rm_okD [OF ok]
        by (simp add: ReadCompKeyRM_def Merge_ops_def Table_ops_def)
    next
      case (Cons k' ks)
      then have "CHR '':'' \<notin> set k'" "k' \<noteq> k" using rm_keys [OF ok, of k' k] None by auto
      then show ?thesis using rm_seek [OF ok key] Cons None rm_okD [OF ok]
        by (simp add: ReadCompKeyRM_def Merge_ops_def Table_ops_def n)
    qed
  qed
qed

lemma rm_Scan:
  assumes ok: "rm_ok kv m L pre n d" and key: "rm_key L k" and fits: "rm_fits (field_names pre n) len flds"
    and here: "ndebug \<or> ld_rm_table m L pre n d k \<noteq> None"
  shows "\<exists>s. ScanCompKeyRM kv ndebug t k len flds d = Inr (s, d)
     \<and> db_Scan Merge_ops t k len flds (ld_rm_table m L pre n d) = Inr (s, ld_rm_table m L pre n d)"
proof -
  let ?T = "ld_rm_table m L pre n d" and ?v = "\<lambda>k f. the (ld_store m d (comp_key k f))"
  let ?ks = "keys_from k ?T"
  have n: "0 < n" using rm_okD(5) [OF ok] .
  have loop: "rm_scan_loop ndebug pre (int n) flds (nat len) (concat (map (\<lambda>k. rm_entries pre k (?v k) [0..<n]) ?ks)) [] =
      Inr (map (\<lambda>k. select flds (rm_fields pre (?v k) [0..<n])) (take (nat len) ?ks))"
    using rm_keys(1) [OF ok] by (intro rm_scan_loop_fits [OF _ n fits]) blast
  have row: "the (?T x) = rm_fields pre (?v x) [0..<n]" if "x \<in> set ?ks" for x
    using rm_keys(2) [OF ok that] by (auto dest: rm_table_Some)
  have rows: "map (\<lambda>x. select flds (the (?T x))) (take (nat len) ?ks)
      = map (\<lambda>k. select flds (rm_fields pre (?v k) [0..<n])) (take (nat len) ?ks)"
    by (rule map_cong [OF refl], subst row) (rule in_set_takeD, assumption, rule refl)
  have "ndebug \<or> kv_Seek kv k (st_env (ld_static d)) \<noteq> []
      \<and> KeyFromCompKey ndebug (fst (hd (kv_Seek kv k (st_env (ld_static d))))) = Inr k"
  proof (cases ndebug)
    case False
    then have "k \<in> dom ?T" using here by auto
    then obtain ks where "?ks = k # ks" using keys_from_head [OF finite_rm_table [OF rm_okD(7,8) [OF ok]], of k] by blast
    moreover have "CHR '':'' \<notin> set k" using key by (simp add: rm_key_def)
    ultimately show ?thesis using n by (simp add: rm_seek [OF ok key] upt_conv_Cons)
  qed simp
  then have start: "assert_that ndebug (kv_Seek kv k (st_env (ld_static d)) \<noteq> []
      \<and> KeyFromCompKey ndebug (fst (hd (kv_Seek kv k (st_env (ld_static d))))) = Inr k) msg = Inr ()" for msg
    by (simp add: assert_that_def)
  have "rm_scan_loop ndebug pre (int n) flds (nat len) (kv_Seek kv k (st_env (ld_static d))) [] =
      Inr (map (\<lambda>k. select flds (rm_fields pre (?v k) [0..<n])) (take (nat len) ?ks))"
    unfolding rm_seek [OF ok key] by (rule loop)
  then have "ScanCompKeyRM kv ndebug t k len flds d
      = Inr ((kOK, map (\<lambda>k. select flds (rm_fields pre (?v k) [0..<n])) (take (nat len) ?ks)), d)"
    by (simp only: ScanCompKeyRM_def deref_live [OF rm_okD(3) [OF ok]] Let_def rm_okD(4,6) [OF ok] start andThen_simps)
  moreover have "db_Scan Merge_ops t k len flds ?T = Inr ((kOK, map (\<lambda>x. select flds (the (?T x))) (take (nat len) ?ks)), ?T)"
    by (simp add: Merge_ops_def Table_ops_def)
  ultimately show ?thesis unfolding rows by blast
qed

lemma rm_write:
  assumes ok: "rm_ok kv m L pre n d" and w: "rm_rows L (field_names pre n) (m env) \<and> rm_table L (field_names pre n) (m env) = T"
  shows "rm_ok kv m L pre n (ld_set_env env d) \<and> ld_rm_table m L pre n (ld_set_env env d) = T"
  using assms by (simp add: rm_ok_def)

lemma rm_Insert:
  assumes ok: "rm_ok kv m L pre n d" and key: "rm_key L k" and vs: "rm_writable (field_names pre n) (ld_rm_table m L pre n d k) vs"
  shows "\<exists>d'. InsertCompKey kv t k vs d = Inr (kOK, d') \<and> rm_ok kv m L pre n d'
     \<and> ld_rm_table m L pre n d' = (ld_rm_table m L pre n d)(k \<mapsto> merged (ld_rm_table m L pre n d k) vs)"
proof -
  note kv = rm_okD(1) [OF ok]
  let ?b = "map (\<lambda>fv. BPut (comp_key k (fst fv)) (snd fv)) vs"
  let ?env = "snd (kv_Write kv True ?b (st_env (ld_static d)))"
  have "InsertCompKey kv t k vs d = Inr (kOK, ld_set_env ?env d)"
    by (simp add: InsertCompKey_def rm_okD [OF ok] put_batch_row kv_okD(7) [OF kv])
  with rm_write [OF ok rm_insert [OF rm_okD(7) [OF ok] key vs field_names_distinct rm_okD(8) [OF ok] kv_okD(8) [OF kv]]]
  show ?thesis by blast
qed

lemma rm_Delete:
  assumes ok: "rm_ok kv m L pre n d" and key: "rm_key L k"
  shows "\<exists>d'. DeleteCompKey kv t k d = Inr (kOK, d') \<and> rm_ok kv m L pre n d'
     \<and> ld_rm_table m L pre n d' = (ld_rm_table m L pre n d)(k := None)"
proof -
  note kv = rm_okD(1) [OF ok]
  let ?b = "map (\<lambda>f. BDelete (comp_key k f)) (field_names pre n)"
  let ?env = "snd (kv_Write kv False ?b (st_env (ld_static d)))"
  have "DeleteCompKey kv t k d = Inr (kOK, ld_set_env ?env d)"
    by (simp add: DeleteCompKey_def rm_okD [OF ok] delete_batch_row kv_okD(7) [OF kv] field_names_def comp_def)
  with rm_write [OF ok rm_delete [OF rm_okD(7) [OF ok] key rm_okD(8) [OF ok] kv_okD(8) [OF kv]]] show ?thesis by blast
qed

interpretation ld_rows: guarded_refinement "Leveldb_ops kv opt0 ndebug" Merge_ops "ld_rm_table m L pre n"
    "rm_ok kv m L pre n" "rm_call ndebug L (field_names pre n)" for kv opt0 ndebug m L pre n
proof unfold_locales
  fix d c assume ok: "rm_ok kv m L pre n d" and c: "rm_call ndebug L (field_names pre n) (ld_rm_table m L pre n d) c"
  note ops = Leveldb_ops_def ld_dispatch_def rm_okD(2) [OF ok] Merge_ops_def Table_ops_def
  show "\<exists>r d'. db_call (Leveldb_ops kv opt0 ndebug) c d = Inr (r, d') \<and> rm_ok kv m L pre n d'
      \<and> db_call Merge_ops c (ld_rm_table m L pre n d) = Inr (r, ld_rm_table m L pre n d')"
  proof (cases c)
    case (CRead t k flds)
    with rm_Read [OF ok, of k flds ndebug t] c ok rm_okD(2) [OF ok] show ?thesis
      by (auto simp: Leveldb_ops_def ld_dispatch_def)
  next
    case (CScan t k len flds)
    with rm_Scan [OF ok, of k len flds ndebug t] c ok rm_okD(2) [OF ok] show ?thesis
      by (auto simp: Leveldb_ops_def ld_dispatch_def)
  next
    case (CUpdate t k vs)
    with rm_Insert [OF ok, of k vs t] c show ?thesis by (auto simp: ops)
  next
    case (CInsert t k vs)
    with rm_Insert [OF ok, of k vs t] c show ?thesis by (auto simp: ops)
  next
    case (CDelete t k)
    with rm_Delete [OF ok, of k t] c show ?thesis by (auto simp: ops)
  qed (use c in simp)
qed

section \<open>Properties\<close>

text \<open>C9: The row-major layout implements a table in which inserts and updates merge into a stored record, on call sequences that fit
  the table (\<open>rm_call\<close>, asked of each call in the state in which it is made): at most ten fields; keys of one length without a colon;
  reads of all fields or of some in their order; scans of all fields, of a single record, or of fields that include the last
  one, which in a debug build start from a stored key; writes of whole records, or of some fields of a stored record; deletes. Every
  such sequence returns, with the statuses, records and scan results of that table. Outside these conditions the code behaves otherwise: a
  filtered scan that stops before the last field continues inside the same record, a scan from a missing key fails an
  assertion, a partial write of a new key leaves an incomplete record, and keys of different lengths hide each other.\<close>

theorem row_major_refines_table:
  assumes "rm_ok kv m L pre n d"
    and "calls_adm (rm_call ndebug L (field_names pre n)) Merge_ops cs
           (rm_table L (field_names pre n) (m (st_env (ld_static d))))"
  shows "\<exists>rs d'. db_calls (Leveldb_ops kv opt0 ndebug) cs d = Inr (rs, d') \<and> rm_ok kv m L pre n d'
     \<and> db_calls Merge_ops cs (rm_table L (field_names pre n) (m (st_env (ld_static d))))
       = Inr (rs, rm_table L (field_names pre n) (m (st_env (ld_static d'))))"
  using ld_rows.calls_guarded [of kv m L pre n d ndebug cs opt0] assms by blast

lemma keys_from_single: "keys_from k [k \<mapsto> r] = [k]"
proof -
  have "{x \<in> dom [k \<mapsto> r]. k \<le> x} = {k}" by auto
  then show ?thesis by (simp add: keys_from_def)
qed

lemma demo_names: "field_names ''field'' 2 = [''field0'', ''field1'']"
proof -
  have "digit 1 = CHR ''1''" by (simp add: digit_def) code_simp
  then show ?thesis by (simp add: field_names_def upt_rec to_string.simps)
qed

theorem row_major_refines_table_witness:
  "\<exists>d'. db_calls (Leveldb_ops mem_engine demo_options False)
     [CInsert ''t'' ''k1'' [(''field0'', ''a''), (''field1'', ''b'')], CUpdate ''t'' ''k1'' [(''field1'', ''c'')],
      CRead ''t'' ''k1'' (Some [''field1'']), CScan ''t'' ''k1'' 1 (Some [''field0'']), CRead ''t'' ''k0'' None,
      CDelete ''t'' ''k1'', CRead ''t'' ''k1'' None] (demo_level kRowMajor)
     = Inr ([RStatus kOK, RStatus kOK, RFields kOK [(''field1'', ''c'')], RRows kOK [[(''field0'', ''a'')]], RFields kNotFound [],
             RStatus kOK, RFields kNotFound []], d')"
proof -
  let ?cs = "[CInsert ''t'' ''k1'' [(''field0'', ''a''), (''field1'', ''b'')], CUpdate ''t'' ''k1'' [(''field1'', ''c'')],
      CRead ''t'' ''k1'' (Some [''field1'']), CScan ''t'' ''k1'' 1 (Some [''field0'']), CRead ''t'' ''k0'' None,
      CDelete ''t'' ''k1'', CRead ''t'' ''k1'' None]"
  let ?T = "rm_table 2 (field_names ''field'' 2) (map_of (st_env (ld_static (demo_level kRowMajor))))"
  have T: "?T = Map.empty" by (auto simp: rm_table_def demo_level_def)
  note run = Merge_ops_def Table_ops_def merged_def overwrite_def select_def project_def
  have c: "calls_adm (rm_call False 2 (field_names ''field'' 2)) Merge_ops ?cs ?T"
    unfolding T demo_names by (simp add: run rm_key_def rm_writable_def rm_fits_def)
  have ok: "rm_ok mem_engine map_of 2 ''field'' 2 (demo_level kRowMajor)"
    by (simp add: rm_ok_def demo_level_def mem_engine_ok rm_rows_def)
  from row_major_refines_table [OF ok c, of demo_options] obtain rs d'
    where 1: "db_calls (Leveldb_ops mem_engine demo_options False) ?cs (demo_level kRowMajor) = Inr (rs, d')"
      "db_calls Merge_ops ?cs ?T = Inr (rs, rm_table 2 (field_names ''field'' 2) (map_of (st_env (ld_static d'))))" by blast
  have "rs = [RStatus kOK, RStatus kOK, RFields kOK [(''field1'', ''c'')], RRows kOK [[(''field0'', ''a'')]], RFields kNotFound [],
      RStatus kOK, RFields kNotFound []]"
    using 1(2) unfolding T by (simp add: run keys_from_single)
  with 1(1) show ?thesis by simp
qed

text \<open>Without keys of one length the row-major layout loses records: when a stored key continues the key \<open>k\<close> with a character
  below the colon, such as a digit, reading \<open>k\<close> returns \<^verbatim>\<open>kNotFound\<close> although the record is stored, because the entries of the
  longer key come first. With unpadded key numbers, a record of \<^verbatim>\<open>user10\<close> hides \<^verbatim>\<open>user1\<close>.\<close>

theorem row_major_longer_key_hides:
  assumes "kv_ok kv m" and "st_db (ld_static d) = LiveHandle" and "\<forall>x \<in> dom (m (st_env (ld_static d))). CHR '':'' \<in> set x"
    and "CHR '':'' \<notin> set k" and "c < CHR '':''" and "comp_key (k @ c # x) f \<in> dom (m (st_env (ld_static d)))"
  shows "ReadCompKeyRM kv ndebug t k flds d = Inr ((kNotFound, []), d)"
proof -
  let ?m = "m (st_env (ld_static d))" and ?y = "comp_key (k @ c # x) f"
  let ?A = "{x \<in> dom ?m. k \<le> x}"
  have y: "?y \<in> ?A" using assms(6) append_ge [of k] by (simp add: comp_key_def)
  have A: "finite ?A" "?A \<noteq> {}" using kv_okD(1) [OF assms(1)] y by auto
  let ?e = "Min ?A"
  have e: "?e \<in> ?A" "?e \<le> ?y" using Min_in [OF A] Min_le [OF A(1) y] by blast+
  obtain rest where it: "kv_Seek kv k (st_env (ld_static d)) = (?e, the (?m ?e)) # rest"
    using sorted_list_of_set_nonempty [OF A] by (auto simp: kv_okD(9) [OF assms(1)] keys_from_def)
  have colon: "CHR '':'' \<in> set ?e" using e(1) assms(3) by blast
  have "takeWhile (\<lambda>c. c \<noteq> CHR '':'') ?e \<noteq> k"
  proof
    assume "takeWhile (\<lambda>c. c \<noteq> CHR '':'') ?e = k"
    moreover obtain ys g where g: "?e = ys @ CHR '':'' # g" "CHR '':'' \<notin> set ys" using split_list_first [OF colon] by blast
    ultimately have "?e = k @ CHR '':'' # g" by (simp add: split_colon)
    then have "?y < ?e" using assms(5) by (simp add: comp_key_def)
    with e(2) show False by simp
  qed
  then show ?thesis using assms(2) colon by (simp add: ReadCompKeyRM_def it KeyFromCompKey_def)
qed

theorem row_major_longer_key_hides_witness:
  "\<exists>d. fst ` set (st_env (ld_static d)) = {comp_key ''user1'' ''field0'', comp_key ''user10'' ''field0''}
     \<and> ReadCompKeyRM mem_engine True ''t'' ''user1'' None d = Inr ((kNotFound, []), d)"
proof -
  let ?s = "[(comp_key ''user1'' ''field0'', ''a''), (comp_key (''user1'' @ CHR ''0'' # []) ''field0'', ''b'')]"
  let ?d = "ld_set_env ?s (demo_level kRowMajor)"
  have l: "st_db (ld_static ?d) = LiveHandle" "\<forall>x \<in> dom (map_of (st_env (ld_static ?d))). CHR '':'' \<in> set x"
    by (auto simp: demo_level_def dom_def comp_key_def split: if_splits)
  have "CHR ''0'' < CHR '':''" by (simp add: less_char_def)
  from row_major_longer_key_hides [OF mem_engine_ok l _ this, of "''user1''" "[]" "''field0''" True "''t''" None]
  have "ReadCompKeyRM mem_engine True ''t'' ''user1'' None ?d = Inr ((kNotFound, []), ?d)" by (simp add: domIff)
  moreover have "fst ` set (st_env (ld_static ?d)) = {comp_key ''user1'' ''field0'', comp_key ''user10'' ''field0''}" by simp
  ultimately show ?thesis by blast
qed

end
