(* ===== verification/Benchmark.thy ===== *)
theory Benchmark
  imports Client Rocksdb Leveldb_Rows
begin

text \<open>
  The parts together: client threads (\<^verbatim>\<open>client.h\<close>) that drive the core workload (\<^verbatim>\<open>core_workload.cc\<close>) over a measured database
  (\<^verbatim>\<open>db_wrapper.h\<close>, \<^verbatim>\<open>measurements.cc\<close>) on a storage backend. The locale \<open>record_store\<close> is what the workload relies on: calls
  return, and a call on a stored key succeeds. Backends that implement the abstract table give it, and the wrapper hands it on. The locale
  \<open>client_phase\<close> is what a client thread relies on to count only successes.
\<close>

section \<open>What the workload relies on\<close>

text \<open>Calls that succeed when the keys \<open>K\<close> are stored, and the keys stored afterwards.\<close>

fun stored_call :: "string set \<Rightarrow> dbcall \<Rightarrow> bool" where
  "stored_call K (CRead _ k _) \<longleftrightarrow> k \<in> K"
| "stored_call K (CScan _ k _ _) \<longleftrightarrow> k \<in> K"
| "stored_call K (CUpdate _ k _) \<longleftrightarrow> k \<in> K"
| "stored_call K (CInsert _ _ _) \<longleftrightarrow> True"
| "stored_call K _ \<longleftrightarrow> False"

fun keys_after :: "dbcall \<Rightarrow> string set \<Rightarrow> string set" where
  "keys_after (CInsert _ k _) K = insert k K"
| "keys_after _ K = K"

definition loaded :: "('d \<Rightarrow> string set) \<Rightarrow> nat \<Rightarrow> ('e, 'd) ctx \<Rightarrow> bool" where
  "loaded has n s \<longleftrightarrow> (\<forall>i < n. BuildKeyName (cx_wl s) (of_nat i) \<in> has (cx_db s))"

definition bench_ok ::
    "'e env \<Rightarrow> (dbcall \<Rightarrow> bool) \<Rightarrow> ('d \<Rightarrow> bool) \<Rightarrow> ('d \<Rightarrow> bool) \<Rightarrow> nat \<Rightarrow> nat \<Rightarrow> ('e, 'd) ctx \<Rightarrow> bool" where
  "bench_ok env adm I clean k n s \<longleftrightarrow> env_ok env \<and> (\<forall>c. wl_call (cx_wl s) c \<longrightarrow> adm c) \<and> I (cx_db s) \<and> clean (cx_db s)
     \<and> cx_ok k n s \<and> settled n (wl_transaction_insert_key_sequence (cx_wl s))"

text \<open>\<open>k\<close> of \<open>n\<close> records are still to be loaded, and \<open>k\<close> transactions are still to be run.\<close>

definition load_ready ::
    "'e env \<Rightarrow> (dbcall \<Rightarrow> bool) \<Rightarrow> ('d \<Rightarrow> bool) \<Rightarrow> ('d \<Rightarrow> bool) \<Rightarrow> ('d \<Rightarrow> string set) \<Rightarrow> nat \<Rightarrow> nat \<Rightarrow> nat
     \<Rightarrow> ('e, 'd) ctx \<Rightarrow> unit \<Rightarrow> bool" where
  "load_ready env adm I clean has m n k s u \<longleftrightarrow> bench_ok env adm I clean m n s \<and> k \<le> n \<and> loaded has (n - k) s
     \<and> wl_insert_key_sequence (cx_wl s) = Some (new_CounterGenerator (of_nat (n - k)))"

definition run_ready ::
    "'e env \<Rightarrow> (dbcall \<Rightarrow> bool) \<Rightarrow> ('d \<Rightarrow> bool) \<Rightarrow> ('d \<Rightarrow> bool) \<Rightarrow> ('d \<Rightarrow> string set) \<Rightarrow> nat \<Rightarrow> ('e, 'd) ctx \<Rightarrow> unit \<Rightarrow> bool" where
  "run_ready env adm I clean has k s u \<longleftrightarrow> (\<exists>n. bench_ok env adm I clean k n s \<and> loaded has n s)"

lemma tx_trace_stored:
  assumes "tx_trace w n op cs" and "1 \<le> n" and "n < 2 ^ 63" and "\<forall>i < n. BuildKeyName w (of_nat i) \<in> K"
  shows "\<forall>c \<in> set cs. wl_call w c \<and> stored_call K c"
    and "fold keys_after cs K = (if op = INSERT then insert (BuildKeyName w (of_nat n)) K else K)"
proof -
  have "BuildKeyName w m \<in> K" if "m \<le> of_nat (n - 1)" for m :: u64
  proof -
    have "unat m \<le> n - 1" using that assms(3) by (simp add: word_le_nat_alt unat_of_nat_u64)
    then have "unat m < n" using assms(2) by simp
    then show ?thesis using assms(4) [rule_format, of "unat m"] by simp
  qed
  then show "\<forall>c \<in> set cs. wl_call w c \<and> stored_call K c"
    and "fold keys_after cs K = (if op = INSERT then insert (BuildKeyName w (of_nat n)) K else K)"
    using assms(1) by (cases op; auto)+
qed

locale record_store =
  fixes db :: "'d DB" and I :: "'d \<Rightarrow> bool" and adm :: "dbcall \<Rightarrow> bool" and has :: "'d \<Rightarrow> string set" and clean :: "'d \<Rightarrow> bool"
  assumes serves: "I d \<Longrightarrow> adm c \<Longrightarrow> \<exists>r d'. db_call db c d = Inr (r, d') \<and> I d'"
    and succeeds: "I d \<Longrightarrow> adm c \<Longrightarrow> stored_call (has d) c \<Longrightarrow> db_call db c d = Inr (r, d')
      \<Longrightarrow> result_status r = kOK \<and> has d' = keys_after c (has d)"
    and stays_clean: "clean d \<Longrightarrow> db_call db c d = Inr (r, d') \<Longrightarrow> result_status r = kOK \<Longrightarrow> clean d'"
begin

lemma calls_succeed:
  assumes "I d" and "clean d" and "\<forall>c \<in> set cs. adm c \<and> stored_call (has d) c" and "db_calls db cs d = Inr (rs, d')"
  shows "(\<forall>r \<in> set rs. result_status r = kOK) \<and> clean d' \<and> has d' = fold keys_after cs (has d)"
  using assms
proof (induction cs arbitrary: d rs)
  case (Cons c cs)
  from Cons.prems(4) obtain r d1 rs1 where 1: "db_call db c d = Inr (r, d1)" "db_calls db cs d1 = Inr (rs1, d')" "rs = r # rs1"
    by (auto simp: res_simps)
  have c: "adm c" "stored_call (has d) c" using Cons.prems(3) by simp_all
  have s: "result_status r = kOK" "has d1 = keys_after c (has d)" using succeeds [OF Cons.prems(1) c 1(1)] by simp_all
  have "I d1" using serves [OF Cons.prems(1) c(1)] 1(1) by auto
  moreover have "clean d1" by (rule stays_clean [OF Cons.prems(2) 1(1) s(1)])
  moreover have "stored_call (has d) x \<Longrightarrow> stored_call (keys_after c (has d)) x" for x by (cases x; cases c) auto
  then have "\<forall>x \<in> set cs. adm x \<and> stored_call (has d1) x" using Cons.prems(3) s(2) by simp
  ultimately show ?case using Cons.IH [OF _ _ _ 1(2)] 1(3) s by simp
qed simp

lemma workload_served: "bench_ok env adm I clean k n s \<Longrightarrow> db_serves db I (wl_call (cx_wl s))"
  using serves by (auto simp: bench_ok_def db_serves_def)

lemma bench_ok_stable:
  assumes "bench_ok env adm I clean k n s" and "wl_stable (cx_wl s) (cx_wl s')" and "I (cx_db s')" and "clean (cx_db s')"
    and "cx_ok k' n' s'" and "settled n' (wl_transaction_insert_key_sequence (cx_wl s'))"
  shows "bench_ok env adm I clean k' n' s'"
  using assms by (simp add: bench_ok_def wl_stable_def)

lemma insert_step:
  assumes "load_ready env adm I clean has m n (Suc k) s u"
  shows "yields (DoInsert env db) s (\<lambda>b s'. b \<and> load_ready env adm I clean has m n k s' u)"
proof -
  have b: "bench_ok env adm I clean m n s" and k: "Suc k \<le> n" and l: "loaded has (n - Suc k) s"
    and c: "wl_insert_key_sequence (cx_wl s) = Some (new_CounterGenerator (of_nat (n - Suc k)))"
    using assms by (simp_all add: load_ready_def)
  let ?i = "of_nat (n - Suc k) :: u64"
  have env: "env_ok env" and inv: "I (cx_db s)" "clean (cx_db s)" "cx_ok m n s"
    and idle: "settled n (wl_transaction_insert_key_sequence (cx_wl s))" using b by (simp_all add: bench_ok_def)
  obtain st s' vs where i: "DoInsert env db s = Some (Inr (st = kOK, s'))" "write_shape (cx_wl s) vs"
    "db_Insert db (wl_table_name (cx_wl s)) (BuildKeyName (cx_wl s) ?i) vs (cx_db s) = Inr (st, cx_db s')"
    and s': "cx_ok m n s'" "wl_insert_key_sequence (cx_wl s') = Some (new_CounterGenerator (?i + 1))" "I (cx_db s')"
      "wl_transaction_insert_key_sequence (cx_wl s') = wl_transaction_insert_key_sequence (cx_wl s)" "wl_stable (cx_wl s) (cx_wl s')"
    using DoInsert_ok [OF env workload_served [OF b] inv(1,3) c] by (auto simp: CounterGenerator_Next_def new_CounterGenerator_def)
  let ?c = "CInsert (wl_table_name (cx_wl s)) (BuildKeyName (cx_wl s) ?i) vs"
  have call: "db_call db ?c (cx_db s) = Inr (RStatus st, cx_db s')" using i(3) by simp
  have adm: "adm ?c" using b i(2) by (simp add: bench_ok_def)
  note ok = succeeds [OF inv(1) adm _ call, simplified]
  have "clean (cx_db s')" using stays_clean [OF inv(2) call] ok by simp
  then have b': "bench_ok env adm I clean m n s'" using bench_ok_stable [OF b s'(5,3)] s'(1,4) idle by simp
  have n: "n - k = Suc (n - Suc k)" using k by simp
  have "loaded has (n - k) s'"
    unfolding n using l ok s'(5) by (auto simp: loaded_def wl_stable_def less_Suc_eq)
  moreover have "wl_insert_key_sequence (cx_wl s') = Some (new_CounterGenerator (of_nat (n - k)))"
    unfolding n s'(2) by (simp add: add.commute)
  ultimately show ?thesis using i(1) ok b' k unfolding yields_def load_ready_def by (intro exI [of _ True] exI [of _ s']) simp
qed

lemma transaction_step:
  assumes "run_ready env adm I clean has (Suc k) s u"
  shows "yields (DoTransaction env db) s (\<lambda>b s'. b \<and> run_ready env adm I clean has k s' u)"
proof -
  obtain n where b: "bench_ok env adm I clean (Suc k) n s" and l: "loaded has n s" using assms by (auto simp: run_ready_def)
  have env: "env_ok env" and inv: "I (cx_db s)" "clean (cx_db s)" and ok: "cx_ok (Suc k) n s"
    and idle: "settled n (wl_transaction_insert_key_sequence (cx_wl s))" using b by (simp_all add: bench_ok_def)
  have lim: "n + Suc k < unat kMaxNumItems" "1 \<le> n" using ok by (auto simp: cx_ok_def wl_ok_def seq_at_def)
  have n63: "n < 2 ^ 63" using kMax_less [OF lim(1)] by simp
  show ?thesis
  proof (rule yields_mono [OF DoTransaction_ok [OF env workload_served [OF b] inv(1) ok idle]])
    fix ok s' assume "\<exists>op st. op \<in> fst ` set (dg_values (wl_op_chooser (cx_wl s))) \<and> tx_calls db n op s st s' \<and> ok = (st = kOK)
     \<and> (let n' = (if op = INSERT then Suc n else n) in cx_ok k n' s' \<and> I (cx_db s') \<and> wl_stable (cx_wl s) (cx_wl s')
        \<and> settled n' (wl_transaction_insert_key_sequence (cx_wl s')))"
    then obtain op st cs rs where t: "tx_trace (cx_wl s) n op cs" "db_calls db cs (cx_db s) = Inr (rs, cx_db s')" "rs \<noteq> []"
        "ok = (result_status (last rs) = kOK)"
      and s': "cx_ok k (if op = INSERT then Suc n else n) s'" "I (cx_db s')" "wl_stable (cx_wl s) (cx_wl s')"
        "settled (if op = INSERT then Suc n else n) (wl_transaction_insert_key_sequence (cx_wl s'))"
      by (auto simp: tx_calls_def Let_def)
    note st = tx_trace_stored [OF t(1) lim(2) n63 l [unfolded loaded_def]]
    have "\<forall>c \<in> set cs. adm c \<and> stored_call (has (cx_db s)) c" using st(1) b by (simp add: bench_ok_def)
    note r = calls_succeed [OF inv this t(2)]
    have "bench_ok env adm I clean k (if op = INSERT then Suc n else n) s'"
      using r by (intro bench_ok_stable [OF b s'(3,2) _ s'(1,4)]) simp
    moreover have "loaded has (if op = INSERT then Suc n else n) s'"
      using r l s'(3) unfolding st(2) by (auto simp: loaded_def wl_stable_def less_Suc_eq)
    ultimately show "ok \<and> run_ready env adm I clean has k s' u"
      using t(3,4) r by (auto simp: run_ready_def)
  qed
qed

lemma load_then_run: "load_ready env adm I clean has k n 0 s u \<Longrightarrow> run_ready env adm I clean has k s u"
  by (auto simp: load_ready_def run_ready_def)

end

section \<open>What a client thread relies on\<close>

locale client_phase =
  fixes op :: "'t \<Rightarrow> ('s, bool \<times> 't) eff" and ready :: "nat \<Rightarrow> 's \<Rightarrow> 't \<Rightarrow> bool"
  assumes step: "ready (Suc k) s ts \<Longrightarrow> yields (op ts) s (\<lambda>(ok, ts') s'. ok \<and> ready k s' ts')"
begin

lemma loop_succeeds:
  assumes "(if b then w_DoInsert wl else w_DoTransaction wl) = op" and "ready n (cl_state c) ts" and "cl_rlim c = None"
  shows "yields (client_loop sys steady wl b sec_skip start n ts True skipped oks) c (\<lambda>(oks', skipped') c'.
     oks' = oks + int n \<and> skipped' = skipped \<and> cl_rlim c' = None \<and> (\<exists>ts'. ready 0 (cl_state c') ts'))"
  using assms(2,3)
proof (induction n arbitrary: c ts oks)
  case 0
  then show ?case unfolding client_loop.simps by (intro yields_ret) auto
next
  case (Suc n)
  define c1 where "c1 = c\<lparr>cl_tick := cl_tick c + 1\<rparr>"
  obtain ts' s' where o: "op ts (cl_state c) = Some (Inr ((True, ts'), s'))" "ready n s' ts'"
    using step [OF Suc.prems(1)] by (auto simp: yields_def)
  have op: "(if b then w_DoInsert wl ts else w_DoTransaction wl ts) = op ts" using assms(1) by (auto split: if_splits)
  have st: "consume_one steady c1 = Some (Inr ((), c1))" "in_state (op ts) c1 = Some (Inr ((True, ts'), c1\<lparr>cl_state := s'\<rparr>))"
    using Suc.prems(2) o(1) by (simp_all add: consume_one_def in_state_def c1_def)
  have "client_loop sys steady wl b sec_skip start (Suc n) ts True skipped oks c =
      client_loop sys steady wl b sec_skip start n ts' True skipped (oks + 1) (c1\<lparr>cl_state := s'\<rparr>)"
    unfolding client_loop.simps op using st by (simp add: c1_def)
  with Suc.IH [of "c1\<lparr>cl_state := s'\<rparr>" ts' "oks + 1"] o(2) Suc.prems(2) show ?case
    by (auto simp: yields_def c1_def)
qed

text \<open>A thread that skips no warm-up, without a rate limit, on an open database, reports every operation as a success.\<close>

lemma thread_succeeds:
  assumes "(if b then w_DoInsert wl else w_DoTransaction wl) = op" and "ready (nat num_ops) (cl_state c) ts" and "cl_rlim c = None"
    and "w_InitThread wl p i t num_ops (cl_state c) = Some (Inr (ts, cl_state c))" and "0 \<le> num_ops"
  shows "yields (ClientThread sys steady dbInit dbCleanup wl p num_ops i t b False False 0) c (\<lambda>r c'.
     r = num_ops \<and> cl_rlim c' = None \<and> (\<exists>ts'. ready 0 (cl_state c') ts'))"
proof -
  define c1 where "c1 = c\<lparr>cl_init_latch := fst (CountDown (cl_init_latch c)), cl_tick := cl_tick c + 1\<rparr>"
  have init: "in_state (w_InitThread wl p i t num_ops) c = Some (Inr (ts, c))" using assms(4) by (simp add: in_state_def)
  obtain c' ts' where l: "client_loop sys steady wl b 0 (sys (cl_tick c)) (nat num_ops) ts True 0 0 c1 = Some (Inr ((num_ops, 0), c'))"
    "cl_rlim c' = None" "ready 0 (cl_state c') ts'"
    using loop_succeeds [OF assms(1), of "nat num_ops" c1 ts sys steady 0 "sys (cl_tick c)" 0 0] assms(2,3,5) by (auto simp: yields_def c1_def)
  have "ClientThread sys steady dbInit dbCleanup wl p num_ops i t b False False 0 c
      = Some (Inr (num_ops, c'\<lparr>cl_latch := fst (CountDown (cl_latch c'))\<rparr>))"
    unfolding ClientThread_def catch_Exception_def using init l(1) by (simp add: count_down_init_def count_down_done_def c1_def)
  then show ?thesis using l by (auto simp: yields_def)
qed

end

text \<open>The two phases of the benchmark are such phases.\<close>

sublocale record_store \<subseteq> load: client_phase "w_DoInsert (CoreWorkloadOps env db)" "load_ready env adm I clean has m n" for env m n
proof
  fix k s and ts :: unit assume r: "load_ready env adm I clean has m n (Suc k) s ts"
  show "yields (w_DoInsert (CoreWorkloadOps env db) ts) s (\<lambda>(ok, ts') s'. ok \<and> load_ready env adm I clean has m n k s' ts')"
    unfolding CoreWorkloadOps_def by (simp, rule yields_bind [OF insert_step [OF r]], rule yields_ret, simp)
qed

sublocale record_store \<subseteq> run: client_phase "w_DoTransaction (CoreWorkloadOps env db)" "run_ready env adm I clean has" for env
proof
  fix k s and ts :: unit assume r: "run_ready env adm I clean has (Suc k) s ts"
  show "yields (w_DoTransaction (CoreWorkloadOps env db) ts) s (\<lambda>(ok, ts') s'. ok \<and> run_ready env adm I clean has k s' ts')"
    unfolding CoreWorkloadOps_def by (simp, rule yields_bind [OF transaction_step [OF r]], rule yields_ret, simp)
qed

context record_store
begin

lemma benchmark_succeeds:
  assumes "load_ready env adm I clean has k n n (cl_state c) ()" and "cl_rlim c = None"
  shows "\<exists>c1 c2. ClientThread sys steady dbInit dbCleanup (CoreWorkloadOps env db) p (int n) 0 1 True False False 0 c = Some (Inr (int n, c1))
     \<and> ClientThread sys steady dbInit dbCleanup (CoreWorkloadOps env db) p (int k) 0 1 False False False 0 c1 = Some (Inr (int k, c2))
     \<and> clean (cx_db (cl_state c2))"
proof -
  have init: "w_InitThread (CoreWorkloadOps env db) p 0 1 q s = Some (Inr ((), s))" for q s by (simp add: CoreWorkloadOps_def)
  obtain c1 where 1: "ClientThread sys steady dbInit dbCleanup (CoreWorkloadOps env db) p (int n) 0 1 True False False 0 c = Some (Inr (int n, c1))"
    "cl_rlim c1 = None" "load_ready env adm I clean has k n 0 (cl_state c1) ()"
    using load.thread_succeeds [of True "CoreWorkloadOps env db" env k n "int n" c "()" p 0 1 sys steady dbInit dbCleanup]
      assms init by (auto simp: yields_def)
  obtain c2 where 2: "ClientThread sys steady dbInit dbCleanup (CoreWorkloadOps env db) p (int k) 0 1 False False False 0 c1 = Some (Inr (int k, c2))"
    "run_ready env adm I clean has 0 (cl_state c2) ()"
    using run.thread_succeeds [of False "CoreWorkloadOps env db" env "int k" c1 "()" p 0 1 sys steady dbInit dbCleanup]
      load_then_run [OF 1(3)] 1(2) init by (auto simp: yields_def)
  from 1(1) 2 show ?thesis by (auto simp: run_ready_def bench_ok_def)
qed

end

section \<open>Measured tables\<close>

text \<open>A backend that implements the abstract table on records with the fields \<open>names\<close>.\<close>

locale table_store = db_refinement impl Table_ops absf ok "row_call names"
  for impl :: "'c DB" and absf :: "'c \<Rightarrow> table" and ok :: "'c \<Rightarrow> bool" and names :: "string list"

lemma table_call_stored:
  assumes "db_call Table_ops c m = Inr (r, m')" and "stored_call (dom m) c"
  shows "result_status r = kOK \<and> dom m' = keys_after c (dom m)"
  using assms by (cases c) (auto simp: Table_ops_def split: if_splits)

sublocale table_store \<subseteq> store: record_store impl ok "row_call names" "\<lambda>d. dom (absf d)" "\<lambda>_. True"
proof
  fix d c assume "ok d" "row_call names c"
  then show "\<exists>r d'. db_call impl c d = Inr (r, d') \<and> ok d'" using call_refines by blast
next
  fix d c r d' assume "ok d" "row_call names c" "stored_call (dom (absf d)) c" "db_call impl c d = Inr (r, d')"
  then show "result_status r = kOK \<and> dom (absf d') = keys_after c (dom (absf d))"
    using call_refines [of d c] by (auto dest!: table_call_stored)
qed simp

text \<open>The wrapper hands the contract on, and counts no failure while every call succeeds.\<close>

definition failed_ops :: "Operation set" where
  "failed_ops = {INSERT_FAILED, READ_FAILED, UPDATE_FAILED, SCAN_FAILED, READMODIFYWRITE_FAILED, DELETE_FAILED, RDIDX_FAILED}"

definition no_failures :: "BasicMeasurements \<Rightarrow> bool" where
  "no_failures m \<longleftrightarrow> ms_report_on m \<and> (\<forall>op \<in> failed_ops. bm_count m op = 0)"

lemma wrapped_record_store:
  fixes db :: "'d DB"
  assumes "record_store db I adm has clean"
  shows "record_store (DBWrapper_ops clock wall basic_report db) (\<lambda>w. I (dw_db w)) adm (\<lambda>w. has (dw_db w)) (\<lambda>w. no_failures (dw_measurements w))"
proof
  have sim: "map_sum id (apsnd dw_db) (db_call (DBWrapper_ops clock wall basic_report db) c w) = db_call db c (dw_db w)" for c and w :: "('d, BasicMeasurements) DBWrapper"
    by (rule wrapper.call_sim)
  fix w :: "('d, BasicMeasurements) DBWrapper" and c
  {
    assume "I (dw_db w)" "adm c"
    then show "\<exists>r w'. db_call (DBWrapper_ops clock wall basic_report db) c w = Inr (r, w') \<and> I (dw_db w')"
      using record_store.serves [OF assms, of "dw_db w" c] sim [of c w] by (cases "db_call (DBWrapper_ops clock wall basic_report db) c w") auto
  next
    fix r w' assume "I (dw_db w)" "adm c" "stored_call (has (dw_db w)) c" "db_call (DBWrapper_ops clock wall basic_report db) c w = Inr (r, w')"
    then show "result_status r = kOK \<and> has (dw_db w') = keys_after c (has (dw_db w))"
      using record_store.succeeds [OF assms, of "dw_db w" c r "dw_db w'"] sim [of c w] by simp
  next
    fix r w' assume "no_failures (dw_measurements w)" and c: "db_call (DBWrapper_ops clock wall basic_report db) c w = Inr (r, w')" "result_status r = kOK"
    then have on: "ms_report_on (dw_measurements w)" and z: "\<forall>op \<in> failed_ops. bm_count (dw_measurements w) op = 0" by (simp_all add: no_failures_def)
    have "counted_as c (result_status r) \<notin> failed_ops" using c(2) by (cases c) (simp_all add: failed_ops_def)
    then have "bm_count (dw_measurements w') op = 0" if "op \<in> failed_ops" for op
      using wrapper_call_counts [OF c(1) on, of op] z that by (auto simp: unat_eq_0 split: if_splits)
    moreover have "ms_report_on (dw_measurements w')" using wrapper_call_counts [OF c(1) on] by blast
    ultimately show "no_failures (dw_measurements w')" by (simp add: no_failures_def)
  }
qed

locale measured_store = record_store db I adm has clean
  for db :: "'d DB" and I and adm and has and clean +
  fixes clock wall :: "nat \<Rightarrow> int"

sublocale measured_store \<subseteq> wrapped: record_store "DBWrapper_ops clock wall basic_report db" "\<lambda>w. I (dw_db w)" adm "\<lambda>w. has (dw_db w)"
    "\<lambda>w. no_failures (dw_measurements w)"
  by (rule wrapped_record_store) unfold_locales

section \<open>The configured records fit the tables\<close>

text \<open>The configuration that sets the numbers of records and operations and the request distribution, and writes whole records.\<close>

definition table_config :: "nat \<Rightarrow> nat \<Rightarrow> string \<Rightarrow> Properties" where
  "table_config n q d = SetProperty (basic_config n q d) ''writeallfields'' ''true''"

lemma std_rows_calls:
  assumes "std_rows True w" and "wl_call w c"
  shows "row_call (field_names ''field'' 10) c"
proof -
  have names: "map (\<lambda>i. ''field'' @ to_string i) [0..<nat 10] = field_names ''field'' 10" by (simp add: field_names_def)
  have short: "length f < 2 ^ 32" if "f \<in> set (field_names ''field'' 10)" for f
    using that by (auto simp: field_names_def upt_rec to_string.simps)
  have w: "row_ok (field_names ''field'' 10) vs" if "write_shape w vs" for vs
  proof -
    have m: "map fst vs = field_names ''field'' 10" and l: "list_all (plain_value (Some 100)) vs"
      using that assms(1) names by (simp_all add: write_shape_def std_rows_def)
    have "small fv" if "fv \<in> set vs" for fv
      using that l short [of "fst fv"] m [symmetric] by (auto simp: small_def plain_value_def list_all_iff)
    with m show ?thesis by (simp add: row_ok_def)
  qed
  then have u: "\<forall>fv \<in> set vs. fst fv \<in> set (field_names ''field'' 10) \<and> small fv" if "write_shape w vs" for vs
    using w [OF that] imageI [of _ "set vs" fst] by (auto simp: row_ok_def simp flip: set_map)
  show ?thesis using assms w u by (cases c) (auto simp: read_shape_def std_rows_def)
qed

lemma table_config_given: "given_props True n q d (table_config n q d)"
  using basic_config_given [of n q d] by (auto simp: given_props_def default_keys_def table_config_def GetProperty_def SetProperty_def)

lemma table_Init:
  assumes "env_ok env" and "tls_ok t" and "key_dist d" and "3 \<le> n" and "n < 2 ^ 31" and "q < 2 ^ 31" and "n + k < unat kMaxNumItems"
    and "given_props True n q d p"
  shows "\<exists>wl t'. CoreWorkload_Init env p t (new_CoreWorkload x y) = Inr (wl, t')
     \<and> wl_ok k n wl \<and> tls_ok t' \<and> settled n (wl_transaction_insert_key_sequence wl) \<and> wl_insert_key_sequence wl = Some (new_CounterGenerator 0)
     \<and> (\<forall>c. wl_call wl c \<longrightarrow> row_call (field_names ''field'' 10) c)"
  using Init_config [OF assms, of x y] std_rows_calls by (fastforce simp: std_rows_def)

text \<open>A measured table with the records of the configuration.\<close>

locale measured_table = table_store impl absf ok "field_names ''field'' 10"
  for impl :: "'c DB" and absf and ok +
  fixes clock wall :: "nat \<Rightarrow> int"

sublocale measured_table \<subseteq> measured: measured_store impl ok "row_call (field_names ''field'' 10)" "\<lambda>d. dom (absf d)" "\<lambda>_. True" clock wall
  by unfold_locales

context measured_table
begin

lemma load_and_run:
  assumes "env_ok env" and "tls_ok t" and "key_dist d" and "3 \<le> n" and "n < 2 ^ 31" and "k < 2 ^ 31" and "n + k < unat kMaxNumItems"
    and "ok db" and "no_failures ms"
  shows "\<exists>wl t' c1 c2. CoreWorkload_Init env (table_config n k d) t (new_CoreWorkload x y) = Inr (wl, t')
     \<and> ClientThread sys steady dbInit dbCleanup (CoreWorkloadOps env (DBWrapper_ops clock wall basic_report impl)) p (int n) 0 1 True False False 0
         \<lparr>cl_state = \<lparr>cx_wl = wl, cx_tls = t', cx_db = new_DBWrapper db ms\<rparr>, cl_latch = l1, cl_init_latch = l2, cl_rlim = None, cl_tick = j\<rparr>
         = Some (Inr (int n, c1))
     \<and> ClientThread sys steady dbInit dbCleanup (CoreWorkloadOps env (DBWrapper_ops clock wall basic_report impl)) p (int k) 0 1 False False False 0 c1
         = Some (Inr (int k, c2))
     \<and> no_failures (dw_measurements (cx_db (cl_state c2)))"
proof -
  from table_Init [OF assms(1-7) table_config_given, of x y]
  obtain wl t' where i: "CoreWorkload_Init env (table_config n k d) t (new_CoreWorkload x y) = Inr (wl, t')"
    and w: "wl_ok k n wl" "tls_ok t'" "settled n (wl_transaction_insert_key_sequence wl)" "wl_insert_key_sequence wl = Some (new_CounterGenerator 0)"
      "\<forall>c. wl_call wl c \<longrightarrow> row_call (field_names ''field'' 10) c" by blast
  let ?c = "\<lparr>cl_state = \<lparr>cx_wl = wl, cx_tls = t', cx_db = new_DBWrapper db ms\<rparr>, cl_latch = l1, cl_init_latch = l2, cl_rlim = None, cl_tick = j\<rparr>"
  have "load_ready env (row_call (field_names ''field'' 10)) (\<lambda>w. ok (dw_db w)) (\<lambda>w. no_failures (dw_measurements w))
       (\<lambda>w. dom (absf (dw_db w))) k n n (cl_state ?c) ()" "cl_rlim ?c = None"
    using assms(1,8,9) w by (simp_all add: load_ready_def bench_ok_def cx_ok_def loaded_def new_DBWrapper_def)
  from measured.wrapped.benchmark_succeeds [OF this] i show ?thesis by blast
qed

end

interpretation rd_bench: measured_table "Rocksdb_ops kv lib use_merge major8 ndebug" "rd_table m ndebug"
    "\<lambda>d. rd_ok kv m (field_names ''field'' 10) d \<and> \<not> rd_merge d" clock wall
  for kv lib use_merge major8 ndebug m clock wall
  by unfold_locales

interpretation ld_bench: measured_table "Leveldb_ops kv opt0 ndebug" "ld_table m ndebug" "ld_single_ok kv m (field_names ''field'' 10)" clock wall
  for kv opt0 ndebug m clock wall
  by unfold_locales

section \<open>Properties\<close>

text \<open>The benchmark end to end on RocksDB: with a configuration that sets the numbers of records and operations, the request distribution
  (uniform, zipfian or latest) and \<^verbatim>\<open>writeallfields\<close>, on an open database behind \<^verbatim>\<open>DBWrapper\<close>, for every engine that keeps its documented promises:
  \<^verbatim>\<open>CoreWorkload::Init\<close> succeeds, a client thread that loads all \<open>n\<close> records reports \<open>n\<close> successes, a client thread that then runs
  \<open>k\<close> transactions reports \<open>k\<close> successes (every key it draws has been loaded, and every record it reads or overwrites is decoded), and
  the measurements have counted no failed operation.\<close>

theorem rocksdb_benchmark_succeeds:
  assumes "env_ok env" and "tls_ok t" and "key_dist d" and "3 \<le> n" and "n < 2 ^ 31" and "k < 2 ^ 31" and "n + k < unat kMaxNumItems"
    and "rd_ok kv m (field_names ''field'' 10) db" and "\<not> rd_merge db" and "no_failures ms"
  shows "\<exists>wl t' c1 c2. CoreWorkload_Init env (table_config n k d) t (new_CoreWorkload x y) = Inr (wl, t')
     \<and> ClientThread sys steady dbInit dbCleanup
         (CoreWorkloadOps env (DBWrapper_ops clock wall basic_report (Rocksdb_ops kv lib use_merge major8 ndebug)))
         p (int n) 0 1 True False False 0
         \<lparr>cl_state = \<lparr>cx_wl = wl, cx_tls = t', cx_db = new_DBWrapper db ms\<rparr>, cl_latch = l1, cl_init_latch = l2, cl_rlim = None, cl_tick = j\<rparr>
         = Some (Inr (int n, c1))
     \<and> ClientThread sys steady dbInit dbCleanup
         (CoreWorkloadOps env (DBWrapper_ops clock wall basic_report (Rocksdb_ops kv lib use_merge major8 ndebug)))
         p (int k) 0 1 False False False 0 c1 = Some (Inr (int k, c2))
     \<and> no_failures (dw_measurements (cx_db (cl_state c2)))"
  using assms by (intro rd_bench.load_and_run) simp_all

text \<open>The same on LevelDB in its default layout, one entry per record.\<close>

theorem leveldb_benchmark_succeeds:
  assumes "env_ok env" and "tls_ok t" and "key_dist d" and "3 \<le> n" and "n < 2 ^ 31" and "k < 2 ^ 31" and "n + k < unat kMaxNumItems"
    and "ld_single_ok kv m (field_names ''field'' 10) db" and "no_failures ms"
  shows "\<exists>wl t' c1 c2. CoreWorkload_Init env (table_config n k d) t (new_CoreWorkload x y) = Inr (wl, t')
     \<and> ClientThread sys steady dbInit dbCleanup
         (CoreWorkloadOps env (DBWrapper_ops clock wall basic_report (Leveldb_ops kv opt0 ndebug))) p (int n) 0 1 True False False 0
         \<lparr>cl_state = \<lparr>cx_wl = wl, cx_tls = t', cx_db = new_DBWrapper db ms\<rparr>, cl_latch = l1, cl_init_latch = l2, cl_rlim = None, cl_tick = j\<rparr>
         = Some (Inr (int n, c1))
     \<and> ClientThread sys steady dbInit dbCleanup
         (CoreWorkloadOps env (DBWrapper_ops clock wall basic_report (Leveldb_ops kv opt0 ndebug))) p (int k) 0 1 False False False 0 c1
         = Some (Inr (int k, c2))
     \<and> no_failures (dw_measurements (cx_db (cl_state c2)))"
  using assms by (intro ld_bench.load_and_run)

section \<open>Witnesses\<close>

lemma no_failures_new: "no_failures (new_BasicMeasurements 0)"
  by (simp add: no_failures_def new_BasicMeasurements_def new_Measurements_def Measurements.extend_def BasicMeasurements.fields_def)

definition bench_rocks :: "(string \<times> string) list RocksdbDB" where
  "bench_rocks = demo_rocks\<lparr>rd_fieldcount := 10\<rparr>"

theorem rocksdb_benchmark_succeeds_witness:
  "\<exists>(c :: (unit, ((string \<times> string) list RocksdbDB, BasicMeasurements) DBWrapper) ctx client) c1 c2.
     ClientThread (\<lambda>_. 0) (\<lambda>_. 0) (ret ()) (ret ())
       (CoreWorkloadOps demo_env (DBWrapper_ops int int basic_report (Rocksdb_ops (mem_engine\<lparr>kv_Merge := \<lambda>_ _ s. (KvOk, s)\<rparr>) demo_lib False True True)))
       no_properties (int 1000) 0 1 True False False 0 c = Some (Inr (int 1000, c1))
   \<and> ClientThread (\<lambda>_. 0) (\<lambda>_. 0) (ret ()) (ret ())
       (CoreWorkloadOps demo_env (DBWrapper_ops int int basic_report (Rocksdb_ops (mem_engine\<lparr>kv_Merge := \<lambda>_ _ s. (KvOk, s)\<rparr>) demo_lib False True True)))
       no_properties (int 5000) 0 1 False False False 0 c1 = Some (Inr (int 5000, c2))
   \<and> bm_count (dw_measurements (cx_db (cl_state c2))) READ_FAILED = 0"
proof -
  let ?kv = "mem_engine\<lparr>kv_Merge := \<lambda>_ _ s. (KvOk, s)\<rparr> :: (unit, (string \<times> string) list) rocks_engine"
  have "kv_ok ?kv map_of" using mem_engine_ok by (simp add: kv_ok_def)
  then have "rd_ok ?kv map_of (field_names ''field'' 10) bench_rocks"
    by (simp add: rd_ok_def bench_rocks_def demo_rocks_def all_rows_def field_names_distinct)
  moreover have "\<not> rd_merge bench_rocks" by (simp add: bench_rocks_def demo_rocks_def)
  moreover have "1000 + 5000 < unat kMaxNumItems" by (simp add: kMaxNumItems_def drop_bit_eq_div)
  ultimately show ?thesis
    using rocksdb_benchmark_succeeds [OF demo_env_ok demo_tls_ok, of "''zipfian''" 1000 5000 ?kv map_of bench_rocks "new_BasicMeasurements 0"
        READ 0 "\<lambda>_. 0" "\<lambda>_. 0" "ret ()" "ret ()" int int demo_lib False True True no_properties] no_failures_new
    by (fastforce simp: no_failures_def failed_ops_def key_dist_def)
qed

end
