(* ===== verification/Threads.thy ===== *)
theory Threads
  imports Benchmark
begin

text \<open>
  The threads that \<^verbatim>\<open>main\<close> of \<^verbatim>\<open>src/core/ycsbc.cc\<close> starts in a phase, running at the same time. \<open>client_step\<close> cuts
  \<^verbatim>\<open>ClientThread\<close> (\<^verbatim>\<open>src/core/client.h\<close>) into steps: everything before the loop, one turn of the loop, everything after it. A pool holds what the
  threads share (the workload, the static members of the database class, the measurements, the two latches) and what each of them owns
  (the other members of its database object, its thread-local random numbers, its rate limiter, its place in the code). A schedule is the
  list of the threads in the order in which they take their steps. A step runs without interruption; the interleaving inside an insert
  transaction is the subject of \<open>Insert_Protocol\<close>.
\<close>

section \<open>A client thread in steps\<close>

text \<open>A thread that has not started, one in front of the loop with its local variables, and one that has returned.\<close>

datatype 't tstate =
    TReady
  | TLoop (t_left: nat) (t_state: 't) (t_count_on: bool) (t_skipped_ok: int) (t_oks: int) (t_start: int)
  | TDone int

definition client_begin ::
    "(nat \<Rightarrow> int) \<Rightarrow> ('s, unit) eff \<Rightarrow> ('s, 't) WorkloadOps \<Rightarrow> Properties \<Rightarrow> thread_args \<Rightarrow> int \<Rightarrow> ('s client, 't tstate) eff" where
  "client_begin sys dbInit wl p a sec_skip =
     bind (if ta_init_db a then in_state dbInit else ret ()) (\<lambda>_.
     bind (in_state (w_InitThread wl p (ta_thread_id a) (ta_thread_count a) (ta_num_ops a))) (\<lambda>thread_state.
     bind count_down_init (\<lambda>_.
     bind (lift (\<lambda>c. Inr (sys (cl_tick c), c\<lparr>cl_tick := cl_tick c + 1\<rparr>))) (\<lambda>start.
     ret (TLoop (nat (ta_num_ops a)) thread_state (sec_skip = 0) 0 0 start)))))"

definition client_turn ::
    "(nat \<Rightarrow> int) \<Rightarrow> (nat \<Rightarrow> int) \<Rightarrow> ('s, 't) WorkloadOps \<Rightarrow> bool \<Rightarrow> int \<Rightarrow> int \<Rightarrow> 't \<Rightarrow> bool \<Rightarrow> int \<Rightarrow> int
     \<Rightarrow> ('s client, 't \<times> bool \<times> int \<times> int) eff" where
  "client_turn sys steady wl is_loading sec_skip start ts count_on skipped_ok oks =
     bind (lift (\<lambda>c. Inr (cl_tick c, c\<lparr>cl_tick := cl_tick c + 1\<rparr>))) (\<lambda>i.
     let (count_on, skipped_ok) =
           (if \<not> count_on
            then (cdiv (sys i - start) 1000000000 > sec_skip, oks)
            else (count_on, skipped_ok))
     in bind (consume_one steady) (\<lambda>_.
        bind (in_state (if is_loading then w_DoInsert wl ts else w_DoTransaction wl ts)) (\<lambda>(ok, ts).
        ret (ts, count_on, skipped_ok, oks + (if ok then 1 else 0)))))"

definition client_end :: "('s, unit) eff \<Rightarrow> thread_args \<Rightarrow> int \<Rightarrow> int \<Rightarrow> ('s client, 't tstate) eff" where
  "client_end dbCleanup a skipped_ok oks =
     bind (if ta_cleanup_db a then in_state dbCleanup else ret ()) (\<lambda>_.
     bind count_down_done (\<lambda>_.
     ret (TDone (oks - skipped_ok))))"

fun client_step ::
    "(nat \<Rightarrow> int) \<Rightarrow> (nat \<Rightarrow> int) \<Rightarrow> ('s, unit) eff \<Rightarrow> ('s, unit) eff \<Rightarrow> ('s, 't) WorkloadOps \<Rightarrow> Properties
     \<Rightarrow> thread_args \<Rightarrow> int \<Rightarrow> 't tstate \<Rightarrow> ('s client, 't tstate) eff" where
  "client_step sys steady dbInit dbCleanup wl p a sec_skip TReady =
     catch_Exception (client_begin sys dbInit wl p a sec_skip)"
| "client_step sys steady dbInit dbCleanup wl p a sec_skip (TLoop (Suc n) ts count_on skipped_ok oks start) =
     catch_Exception (bind (client_turn sys steady wl (ta_is_loading a) sec_skip start ts count_on skipped_ok oks)
       (\<lambda>(ts, count_on, skipped_ok, oks). ret (TLoop n ts count_on skipped_ok oks start)))"
| "client_step sys steady dbInit dbCleanup wl p a sec_skip (TLoop 0 ts count_on skipped_ok oks start) =
     catch_Exception (client_end dbCleanup a skipped_ok oks)"
| "client_step sys steady dbInit dbCleanup wl p a sec_skip (TDone r) = ret (TDone r)"

fun steps :: "nat \<Rightarrow> ('a \<Rightarrow> ('s, 'a) eff) \<Rightarrow> 'a \<Rightarrow> ('s, 'a) eff" where
  "steps 0 f x = ret x"
| "steps (Suc n) f x = bind (f x) (steps n f)"

subsection \<open>The steps are the thread\<close>

lemma catch_bind: "catch_Exception (bind m f) = bind (catch_Exception m) (\<lambda>x. catch_Exception (f x))"
  by (auto simp: catch_Exception_def bind_def fun_eq_iff split: option.splits sum.splits exn.splits)

lemma catch_ret [simp]: "catch_Exception (ret x) = ret x"
  by (auto simp: catch_Exception_def fun_eq_iff)

lemma steps_0: "steps 0 f = ret"
  by (simp add: fun_eq_iff)

lemma client_loop_turn:
  "client_loop sys steady wl b sec_skip start (Suc n) ts on sk oks =
     bind (client_turn sys steady wl b sec_skip start ts on sk oks)
       (\<lambda>(ts, on, sk, oks). client_loop sys steady wl b sec_skip start n ts on sk oks)"
  by (auto simp: client_turn_def bind_assoc Let_def split_beta fun_eq_iff bind_def split: option.splits sum.splits)

lemma steps_loop:
  "steps (Suc n) (client_step sys steady dbInit dbCleanup wl p a sec_skip) (TLoop n ts on sk oks start) =
     catch_Exception (bind (client_loop sys steady wl (ta_is_loading a) sec_skip start n ts on sk oks)
       (\<lambda>(oks, sk). client_end dbCleanup a sk oks))"
proof (induction n arbitrary: ts on sk oks)
  case (Suc n)
  have "steps (Suc (Suc n)) (client_step sys steady dbInit dbCleanup wl p a sec_skip) (TLoop (Suc n) ts on sk oks start) =
      bind (client_step sys steady dbInit dbCleanup wl p a sec_skip (TLoop (Suc n) ts on sk oks start))
        (steps (Suc n) (client_step sys steady dbInit dbCleanup wl p a sec_skip))"
    by (rule steps.simps(2))
  also have "\<dots> = catch_Exception (bind (bind (client_turn sys steady wl (ta_is_loading a) sec_skip start ts on sk oks)
        (\<lambda>(ts, on, sk, oks). client_loop sys steady wl (ta_is_loading a) sec_skip start n ts on sk oks)) (\<lambda>(oks, sk). client_end dbCleanup a sk oks))"
    by (simp only: client_step.simps catch_bind bind_assoc split_beta catch_ret bind_ret Suc.IH)
  finally show ?case unfolding client_loop_turn .
qed (simp add: steps_0 del: steps.simps(1))

text \<open>The two formulations of a client thread agree. Cutting a client thread into steps changes nothing: a thread that takes its steps one after the other, without the others, returns what
  \<^verbatim>\<open>ClientThread\<close> returns, in the same state and with the same failures, for every workload, database and rate limit.\<close>

lemma client_steps_compose:
  "steps (nat num_ops + 2) (client_step sys steady dbInit dbCleanup wl p
       \<lparr>ta_num_ops = num_ops, ta_thread_id = i, ta_thread_count = t, ta_is_loading = b, ta_init_db = ini, ta_cleanup_db = cln, ta_rate = r\<rparr>
       sec_skip) TReady =
     bind (ClientThread sys steady dbInit dbCleanup wl p num_ops i t b ini cln sec_skip) (\<lambda>r. ret (TDone r))"
  (is "steps _ (client_step _ _ _ _ _ _ ?a _) TReady = _")
proof -
  have "bind (ClientThread sys steady dbInit dbCleanup wl p num_ops i t b ini cln sec_skip) (\<lambda>r. ret (TDone r)) =
      catch_Exception (bind (client_begin sys dbInit wl p ?a sec_skip)
        (\<lambda>l. bind (client_loop sys steady wl b sec_skip (t_start l) (t_left l) (t_state l) (t_count_on l) (t_skipped_ok l) (t_oks l))
          (\<lambda>(oks, sk). client_end dbCleanup ?a sk oks)))"
    by (simp add: ClientThread_def client_begin_def client_end_def catch_bind bind_assoc split_beta del: ret_apply)
  also have "\<dots> = steps (Suc (Suc (nat num_ops))) (client_step sys steady dbInit dbCleanup wl p ?a sec_skip) TReady"
    by (subst steps.simps(2)) (simp add: client_begin_def catch_bind bind_assoc steps_loop del: steps.simps ret_apply)
  finally show ?thesis by simp
qed

section \<open>The threads of a phase\<close>

text \<open>
  How an object of a database class divides into the static members, which all objects share, and its own members.
\<close>

record ('d, 'g, 'l) db_class =
  dc_join :: "'g \<Rightarrow> 'l \<Rightarrow> 'd"
  dc_static :: "'d \<Rightarrow> 'g"
  dc_own :: "'d \<Rightarrow> 'l"

text \<open>
  A client thread: its arguments, its \<^verbatim>\<open>DBWrapper\<close> (the own members of the wrapped object, the timer and the number of calls), its
  thread-local variables, its rate limiter and its place in the code.
\<close>

record ('l, 't) thread =
  th_args :: thread_args
  th_own :: 'l
  th_timer :: Timer
  th_calls :: nat
  th_tls :: tls
  th_rlim :: "RateLimiter option"
  th_state :: "'t tstate"

text \<open>
  The status thread: not started, waiting for the clients to be initialised, in its loop with the variable \<^verbatim>\<open>done\<close>, and ended.
  The rate-limit thread: the numbers left in the file, and whether anything follows the last one.
\<close>

datatype status_thread = StatusOff | StatusWait | StatusLoop bool | StatusEnd

datatype rate_thread = RateOff | RateLoop "int list" bool | RateEnd

record ('e, 'g, 'l, 't) pool =
  po_wl :: "'e CoreWorkload"
  po_static :: 'g
  po_ms :: BasicMeasurements
  po_latch :: CountDownLatch
  po_init_latch :: CountDownLatch
  po_tick :: nat
  po_threads :: "('l, 't) thread list"
  po_status :: status_thread
  po_msgs :: "(u64 \<times> StatusEntry list) list"
  po_rate :: rate_thread

text \<open>What the threads are given: the two clocks, the functions of the database and of the workload for each thread, and the settings of \<^verbatim>\<open>main\<close>.\<close>

record ('e, 'd, 't) phase =
  ph_sys :: "nat \<Rightarrow> int"
  ph_steady :: "nat \<Rightarrow> int"
  ph_db :: "nat \<Rightarrow> ('d, BasicMeasurements) DBWrapper DB"
  ph_wl :: "nat \<Rightarrow> (('e, ('d, BasicMeasurements) DBWrapper) ctx, 't) WorkloadOps"
  ph_props :: Properties
  ph_sec_skip :: int
  ph_interval :: int
  ph_interval_us :: int

definition thread_view ::
    "('d, 'g, 'l) db_class \<Rightarrow> ('e, 'g, 'l, 't) pool \<Rightarrow> ('l, 't) thread \<Rightarrow> ('e, ('d, BasicMeasurements) DBWrapper) ctx client" where
  "thread_view cls p th =
     \<lparr>cl_state = \<lparr>cx_wl = po_wl p, cx_tls = th_tls th,
        cx_db = \<lparr>dw_db = dc_join cls (po_static p) (th_own th), dw_measurements = po_ms p, dw_timer = th_timer th, dw_tick = th_calls th\<rparr>\<rparr>,
      cl_latch = po_latch p, cl_init_latch = po_init_latch p, cl_rlim = th_rlim th, cl_tick = po_tick p\<rparr>"

definition thread_back ::
    "('d, 'g, 'l) db_class \<Rightarrow> nat \<Rightarrow> 't tstate \<Rightarrow> ('e, ('d, BasicMeasurements) DBWrapper) ctx client \<Rightarrow> ('e, 'g, 'l, 't) pool
     \<Rightarrow> ('e, 'g, 'l, 't) pool" where
  "thread_back cls i st c p =
     (let w = cx_db (cl_state c) in
      p\<lparr>po_wl := cx_wl (cl_state c), po_static := dc_static cls (dw_db w), po_ms := dw_measurements w,
        po_latch := cl_latch c, po_init_latch := cl_init_latch c, po_tick := cl_tick c,
        po_threads := (po_threads p)[i := (po_threads p ! i)\<lparr>th_own := dc_own cls (dw_db w), th_timer := dw_timer w, th_calls := dw_tick w,
          th_tls := cx_tls (cl_state c), th_rlim := cl_rlim c, th_state := st\<rparr>]\<rparr>)"

text \<open>A step of a client, of the status thread and of the rate-limit thread. A thread that does not exist, waits or has ended takes no step.\<close>

definition client_act ::
    "('d, 'g, 'l) db_class \<Rightarrow> ('e, 'd, 't) phase \<Rightarrow> nat \<Rightarrow> ('e, 'g, 'l, 't) pool \<Rightarrow> ('e, 'g, 'l, 't) pool res option" where
  "client_act cls ph i p =
     (if i < length (po_threads p) then
        (let th = po_threads p ! i in
         case client_step (ph_sys ph) (ph_steady ph) (on_db (db_Init (ph_db ph i))) (on_db (db_Cleanup (ph_db ph i))) (ph_wl ph i) (ph_props ph)
                (th_args th) (ph_sec_skip ph) (th_state th) (thread_view cls p th) of
           None \<Rightarrow> None
         | Some (Inl e) \<Rightarrow> Some (Inl e)
         | Some (Inr (st, c)) \<Rightarrow> Some (Inr (thread_back cls i st c p)))
      else Some (Inr p))"

definition status_act :: "('e, 'd, 't) phase \<Rightarrow> ('e, 'g, 'l, 't) pool \<Rightarrow> ('e, 'g, 'l, 't) pool" where
  "status_act ph p =
     (case po_status p of
        StatusWait \<Rightarrow>
          if latch_open (po_init_latch p)
          then p\<lparr>po_ms := Measurements_Start (ph_sys ph (po_tick p)) (po_ms p), po_tick := po_tick p + 1, po_status := StatusLoop False\<rparr>
          else p
      | StatusLoop fin \<Rightarrow>
          (let (msg, m) = Basic_GetStatusMsg (po_ms p); p = p\<lparr>po_ms := m, po_msgs := po_msgs p @ [msg]\<rparr> in
           if fin then p\<lparr>po_status := StatusEnd\<rparr>
           else if ph_interval ph > 0 \<or> ph_interval_us ph > 0 then p\<lparr>po_status := StatusLoop (latch_open (po_latch p))\<rparr>
           else p)
      | _ \<Rightarrow> p)"

definition rate_act :: "('e, 'd, 't) phase \<Rightarrow> ('e, 'g, 'l, 't) pool \<Rightarrow> ('e, 'g, 'l, 't) pool res" where
  "rate_act ph p =
     (case po_rate p of
        RateLoop (next_time # next_rate # ns) rest \<Rightarrow>
          if latch_open (po_latch p) then Inr (p\<lparr>po_rate := RateEnd\<rparr>)
          else andThen (set_all (cdiv next_rate (int (length (po_threads p)))) (ph_steady ph (po_tick p))
                          (List.map_filter th_rlim (po_threads p))) (\<lambda>ls.
               Inr (p\<lparr>po_threads := map2 (\<lambda>th l. th\<lparr>th_rlim := Some l\<rparr>) (po_threads p) ls,
                      po_rate := (if ns = [] \<and> \<not> rest then RateEnd else RateLoop ns rest)\<rparr>))
      | RateLoop _ _ \<Rightarrow> Inl (Undefined ''uninitialised time or rate'')
      | _ \<Rightarrow> Inr p)"

datatype actor = Client nat | StatusActor | RateActor

fun act ::
    "('d, 'g, 'l) db_class \<Rightarrow> ('e, 'd, 't) phase \<Rightarrow> actor \<Rightarrow> ('e, 'g, 'l, 't) pool \<Rightarrow> ('e, 'g, 'l, 't) pool res option" where
  "act cls ph (Client i) p = client_act cls ph i p"
| "act cls ph StatusActor p = Some (Inr (status_act ph p))"
| "act cls ph RateActor p = Some (rate_act ph p)"

fun run_schedule ::
    "('d, 'g, 'l) db_class \<Rightarrow> ('e, 'd, 't) phase \<Rightarrow> actor list \<Rightarrow> ('e, 'g, 'l, 't) pool \<Rightarrow> ('e, 'g, 'l, 't) pool res option" where
  "run_schedule cls ph [] p = Some (Inr p)"
| "run_schedule cls ph (a # as) p =
     (case act cls ph a p of
        None \<Rightarrow> None
      | Some (Inl e) \<Rightarrow> Some (Inl e)
      | Some (Inr p) \<Rightarrow> run_schedule cls ph as p)"

text \<open>What \<^verbatim>\<open>main\<close> waits for, and the sum of the results it then has; \<open>None\<close> while a thread has not ended.\<close>

fun thread_result :: "'t tstate \<Rightarrow> int option" where
  "thread_result (TDone r) = Some r"
| "thread_result _ = None"

definition phase_sum :: "('e, 'g, 'l, 't) pool \<Rightarrow> int option" where
  "phase_sum p =
     (let rs = map (\<lambda>th. thread_result (th_state th)) (po_threads p) in
      if None \<notin> set rs \<and> po_status p \<in> {StatusOff, StatusEnd} \<and> po_rate p \<in> {RateOff, RateEnd}
      then Some (sum_list (map the rs)) else None)"

section \<open>A phase in which every operation succeeds\<close>

text \<open>
  What the threads of a phase rely on. \<open>S c k\<close> holds of what they share while \<open>c\<close> of them have the database open and \<open>k\<close> operations are left.
  The clients of the load phase open their database (\<open>b\<close>) and those of the run phase close it.
\<close>

definition shared_ok ::
    "('d, 'g, 'l) db_class \<Rightarrow> ('e CoreWorkload \<Rightarrow> 'g \<Rightarrow> BasicMeasurements \<Rightarrow> bool) \<Rightarrow> ('e, ('d, BasicMeasurements) DBWrapper) ctx \<Rightarrow> bool" where
  "shared_ok cls P s \<longleftrightarrow> P (cx_wl s) (dc_static cls (dw_db (cx_db s))) (dw_measurements (cx_db s))"

definition own_part :: "('d, 'g, 'l) db_class \<Rightarrow> ('e, ('d, BasicMeasurements) DBWrapper) ctx \<Rightarrow> 'l" where
  "own_part cls s = dc_own cls (dw_db (cx_db s))"

fun ops_left :: "thread_args \<Rightarrow> 't tstate \<Rightarrow> nat" where
  "ops_left a TReady = nat (ta_num_ops a)"
| "ops_left a (TLoop n _ _ _ _ _) = n"
| "ops_left a (TDone _) = 0"

fun steps_left :: "thread_args \<Rightarrow> 't tstate \<Rightarrow> nat" where
  "steps_left a TReady = nat (ta_num_ops a) + 2"
| "steps_left a (TLoop n _ _ _ _ _) = n + 1"
| "steps_left a (TDone _) = 0"

fun has_open :: "bool \<Rightarrow> 't tstate \<Rightarrow> nat" where
  "has_open b TReady = (if b then 0 else 1)"
| "has_open b (TLoop _ _ _ _ _ _) = 1"
| "has_open b (TDone _) = (if b then 1 else 0)"

definition phase_args :: "bool \<Rightarrow> thread_args \<Rightarrow> bool" where
  "phase_args b a \<longleftrightarrow> ta_is_loading a = b \<and> ta_init_db a = b \<and> ta_cleanup_db a = (\<not> b) \<and> 0 \<le> ta_num_ops a"

fun place_ok :: "bool \<Rightarrow> ('l \<Rightarrow> bool) \<Rightarrow> ('l \<Rightarrow> bool) \<Rightarrow> thread_args \<Rightarrow> 'l \<Rightarrow> 't tstate \<Rightarrow> bool" where
  "place_ok b fresh_own own_ok a l TReady \<longleftrightarrow> (if b then fresh_own l else own_ok l)"
| "place_ok b fresh_own own_ok a l (TLoop n ts on sk oks start) \<longleftrightarrow> own_ok l \<and> on \<and> sk = 0 \<and> oks + int n = ta_num_ops a"
| "place_ok b fresh_own own_ok a l (TDone r) \<longleftrightarrow> (b \<longrightarrow> own_ok l) \<and> r = ta_num_ops a"

definition thread_ok :: "bool \<Rightarrow> ('l \<Rightarrow> bool) \<Rightarrow> ('l \<Rightarrow> bool) \<Rightarrow> ('l, 't) thread \<Rightarrow> bool" where
  "thread_ok b fresh_own own_ok th \<longleftrightarrow> phase_args b (th_args th) \<and> tls_ok (th_tls th) \<and> th_rlim th = None
     \<and> place_ok b fresh_own own_ok (th_args th) (th_own th) (th_state th)"

definition open_count :: "bool \<Rightarrow> ('l, 't) thread list \<Rightarrow> nat" where
  "open_count b ths = sum_list (map (\<lambda>th. has_open b (th_state th)) ths)"

definition left_count :: "('l, 't) thread list \<Rightarrow> nat" where
  "left_count ths = sum_list (map (\<lambda>th. ops_left (th_args th) (th_state th)) ths)"

definition pool_ok ::
    "bool \<Rightarrow> ('l \<Rightarrow> bool) \<Rightarrow> ('l \<Rightarrow> bool) \<Rightarrow> nat \<Rightarrow> (nat \<Rightarrow> nat \<Rightarrow> 'e CoreWorkload \<Rightarrow> 'g \<Rightarrow> BasicMeasurements \<Rightarrow> bool)
     \<Rightarrow> ('e, 'g, 'l, 't) pool \<Rightarrow> bool" where
  "pool_ok b fresh_own own_ok n S p \<longleftrightarrow> (\<forall>th \<in> set (po_threads p). thread_ok b fresh_own own_ok th)
     \<and> sum_list (map (\<lambda>th. nat (ta_num_ops (th_args th))) (po_threads p)) = n
     \<and> S (open_count b (po_threads p)) (left_count (po_threads p)) (po_wl p) (po_static p) (po_ms p)"

text \<open>The steps a thread has left in a pool.\<close>

definition pool_steps :: "('e, 'g, 'l, 't) pool \<Rightarrow> nat \<Rightarrow> nat" where
  "pool_steps p i = (if i < length (po_threads p) then steps_left (th_args (po_threads p ! i)) (th_state (po_threads p ! i)) else 0)"

lemma map_update_same: "i < length xs \<Longrightarrow> f y = f (xs ! i) \<Longrightarrow> map f (xs[i := y]) = map f xs"
  by (simp add: map_update list_update_same_conv)

lemma sum_list_swap: "i < length xs \<Longrightarrow> sum_list (map f (xs[i := y])) + f (xs ! i) = sum_list (map f xs) + (f y :: nat)"
proof (induction xs arbitrary: i)
  case (Cons x xs)
  then show ?case by (cases i) (auto simp: algebra_simps)
qed simp

lemma sum_list_member: "x \<in> set xs \<Longrightarrow> f x \<le> sum_list (map f xs)" for f :: "'a \<Rightarrow> nat"
  by (induction xs) auto

locale phase_pool =
  fixes cls :: "('d, 'g, 'l) db_class" and ph :: "('e, 'd, 't) phase" and b :: bool and n :: nat
    and S :: "nat \<Rightarrow> nat \<Rightarrow> 'e CoreWorkload \<Rightarrow> 'g \<Rightarrow> BasicMeasurements \<Rightarrow> bool"
    and own_ok fresh_own :: "'l \<Rightarrow> bool"
  assumes parts: "dc_static cls (dc_join cls g l) = g" "dc_own cls (dc_join cls g l) = l"
    and no_skip: "ph_sec_skip ph = 0"
    and init_thread: "\<exists>ts. w_InitThread (ph_wl ph i) (ph_props ph) j t q s = Some (Inr (ts, s))"
    and init_db: "b \<Longrightarrow> shared_ok cls (S c k) s \<Longrightarrow> (c = 0 \<Longrightarrow> k = n) \<Longrightarrow> fresh_own (own_part cls s) \<Longrightarrow>
      yields (on_db (db_Init (ph_db ph i))) s (\<lambda>_ s'. shared_ok cls (S (Suc c) k) s' \<and> own_ok (own_part cls s') \<and> cx_tls s' = cx_tls s)"
    and cleanup_db: "\<not> b \<Longrightarrow> shared_ok cls (S (Suc c) k) s \<Longrightarrow> own_ok (own_part cls s) \<Longrightarrow>
      yields (on_db (db_Cleanup (ph_db ph i))) s (\<lambda>_ s'. shared_ok cls (S c k) s' \<and> cx_tls s' = cx_tls s)"
    and operation: "0 < c \<Longrightarrow> shared_ok cls (S c (Suc k)) s \<Longrightarrow> own_ok (own_part cls s) \<Longrightarrow> tls_ok (cx_tls s) \<Longrightarrow>
      yields (if b then w_DoInsert (ph_wl ph i) ts else w_DoTransaction (ph_wl ph i) ts) s
        (\<lambda>(ok, ts') s'. ok \<and> shared_ok cls (S c k) s' \<and> own_ok (own_part cls s') \<and> tls_ok (cx_tls s'))"
    and status: "S c k w g m \<Longrightarrow> S c k w g (Measurements_Start now m)" "S c k w g m \<Longrightarrow> S c k w g (snd (Basic_GetStatusMsg m))"
begin

text \<open>One step of one thread, seen from the thread: how its place and the shared state change.\<close>

definition thread_step :: "nat \<Rightarrow> thread_args \<Rightarrow> 't tstate \<Rightarrow> (('e, ('d, BasicMeasurements) DBWrapper) ctx client, 't tstate) eff" where
  "thread_step i a st = client_step (ph_sys ph) (ph_steady ph) (on_db (db_Init (ph_db ph i))) (on_db (db_Cleanup (ph_db ph i))) (ph_wl ph i)
     (ph_props ph) a (ph_sec_skip ph) st"

definition stepped ::
    "thread_args \<Rightarrow> nat \<Rightarrow> nat \<Rightarrow> 't tstate \<Rightarrow> 't tstate \<Rightarrow> ('e, ('d, BasicMeasurements) DBWrapper) ctx client \<Rightarrow> bool" where
  "stepped a c k st st' cl \<longleftrightarrow> steps_left a st' = steps_left a st - 1 \<and> place_ok b fresh_own own_ok a (own_part cls (cl_state cl)) st'
     \<and> tls_ok (cx_tls (cl_state cl)) \<and> cl_rlim cl = None
     \<and> shared_ok cls (S (c + has_open b st') (k + ops_left a st')) (cl_state cl)"

lemma begin_ok:
  assumes a: "phase_args b a" and v: "tls_ok (cx_tls (cl_state v))" "cl_rlim v = None" "if b then fresh_own (own_part cls (cl_state v)) else own_ok (own_part cls (cl_state v))"
    and S: "shared_ok cls (S (c + has_open b (TReady :: 't tstate)) (k + nat (ta_num_ops a))) (cl_state v)"
    and first: "b \<longrightarrow> c = 0 \<longrightarrow> k + nat (ta_num_ops a) = n"
  shows "yields (thread_step i a TReady) v (stepped a c k TReady)"
proof -
  have "yields (if b then on_db (db_Init (ph_db ph i)) else ret ()) (cl_state v)
      (\<lambda>_ s'. shared_ok cls (S (c + 1) (k + nat (ta_num_ops a))) s' \<and> own_ok (own_part cls s') \<and> cx_tls s' = cx_tls (cl_state v))"
    using init_db [of c "k + nat (ta_num_ops a)" "cl_state v" i] S first v(3) by (cases b) (simp_all add: yields_def)
  then obtain s1 where s1: "(if b then on_db (db_Init (ph_db ph i)) else ret ()) (cl_state v) = Some (Inr ((), s1))"
    "shared_ok cls (S (c + 1) (k + nat (ta_num_ops a))) s1" "own_ok (own_part cls s1)" "cx_tls s1 = cx_tls (cl_state v)"
    by (auto simp: yields_def)
  obtain ts where ts: "w_InitThread (ph_wl ph i) (ph_props ph) (ta_thread_id a) (ta_thread_count a) (ta_num_ops a) s1 = Some (Inr (ts, s1))"
    using init_thread by blast
  have "(if ta_init_db a then in_state (on_db (db_Init (ph_db ph i))) else ret ()) v = Some (Inr ((), v\<lparr>cl_state := s1\<rparr>))"
    using s1(1) a by (auto simp: phase_args_def in_state_def split: if_splits)
  then show ?thesis
    using ts s1 v a
    by (simp add: yields_def stepped_def thread_step_def catch_Exception_def client_begin_def in_state_def count_down_init_def no_skip phase_args_def)
qed

lemma end_ok:
  assumes a: "phase_args b a" and v: "tls_ok (cx_tls (cl_state v))" "cl_rlim v = None" "own_ok (own_part cls (cl_state v))"
    and S: "shared_ok cls (S (c + 1) k) (cl_state v)" and oks: "oks = ta_num_ops a"
  shows "yields (thread_step i a (TLoop 0 ts on 0 oks start)) v (stepped a c k (TLoop 0 ts on 0 oks start))"
proof -
  have "yields (if b then ret () else on_db (db_Cleanup (ph_db ph i))) (cl_state v) (\<lambda>_ s'. shared_ok cls (S (if b then c + 1 else c) k) s'
      \<and> (b \<longrightarrow> own_ok (own_part cls s')) \<and> cx_tls s' = cx_tls (cl_state v))"
    using S v(3) by (cases b) (auto intro!: yields_mono [OF cleanup_db])
  then obtain s1 where s1: "(if b then ret () else on_db (db_Cleanup (ph_db ph i))) (cl_state v) = Some (Inr ((), s1))"
    "shared_ok cls (S (if b then c + 1 else c) k) s1" "b \<longrightarrow> own_ok (own_part cls s1)" "cx_tls s1 = cx_tls (cl_state v)"
    by (auto simp: yields_def)
  have "(if ta_cleanup_db a then in_state (on_db (db_Cleanup (ph_db ph i))) else ret ()) v = Some (Inr ((), v\<lparr>cl_state := s1\<rparr>))"
    using s1(1) a by (auto simp: phase_args_def in_state_def split: if_splits)
  then show ?thesis
    using s1 v oks by (auto simp: yields_def stepped_def thread_step_def catch_Exception_def client_end_def count_down_done_def)
qed

lemma turn_ok:
  assumes a: "phase_args b a" and v: "tls_ok (cx_tls (cl_state v))" "cl_rlim v = None" "own_ok (own_part cls (cl_state v))"
    and S: "shared_ok cls (S (c + 1) (k + Suc l)) (cl_state v)" and oks: "oks + int (Suc l) = ta_num_ops a"
  shows "yields (thread_step i a (TLoop (Suc l) ts True 0 oks start)) v (stepped a c k (TLoop (Suc l) ts True 0 oks start))"
proof -
  obtain ts' s1 where s1: "(if b then w_DoInsert (ph_wl ph i) ts else w_DoTransaction (ph_wl ph i) ts) (cl_state v) = Some (Inr ((True, ts'), s1))"
    "shared_ok cls (S (c + 1) (k + l)) s1" "own_ok (own_part cls s1)" "tls_ok (cx_tls s1)"
    using operation [of "c + 1" "k + l" "cl_state v" i ts] S v by (auto simp: yields_def)
  let ?v = "v\<lparr>cl_tick := cl_tick v + 1\<rparr>"
  have op: "in_state (if ta_is_loading a then w_DoInsert (ph_wl ph i) ts else w_DoTransaction (ph_wl ph i) ts) ?v
      = Some (Inr ((True, ts'), ?v\<lparr>cl_state := s1\<rparr>))"
    using s1(1) a by (simp add: in_state_def phase_args_def)
  have "consume_one (ph_steady ph) ?v = Some (Inr ((), ?v))" using v(2) by (simp add: consume_one_def)
  then have "client_turn (ph_sys ph) (ph_steady ph) (ph_wl ph i) (ta_is_loading a) (ph_sec_skip ph) start ts True 0 oks v
      = Some (Inr ((ts', True, 0, oks + 1), ?v\<lparr>cl_state := s1\<rparr>))"
    using op unfolding client_turn_def by simp
  then show ?thesis using s1 v oks by (auto simp: yields_def stepped_def thread_step_def catch_Exception_def)
qed

lemma step_ok:
  assumes th: "thread_ok b fresh_own own_ok th" and left: "steps_left (th_args th) (th_state th) \<noteq> 0"
    and S: "shared_ok cls (S (c + has_open b (th_state th)) (k + ops_left (th_args th) (th_state th))) (cl_state (thread_view cls p th))"
    and first: "b \<longrightarrow> c + has_open b (th_state th) = 0 \<longrightarrow> k + ops_left (th_args th) (th_state th) = n"
  shows "yields (thread_step i (th_args th) (th_state th)) (thread_view cls p th) (stepped (th_args th) c k (th_state th))"
proof -
  let ?v = "thread_view cls p th"
  have a: "phase_args b (th_args th)" and t: "tls_ok (cx_tls (cl_state ?v))" "cl_rlim ?v = None"
    and pl: "place_ok b fresh_own own_ok (th_args th) (own_part cls (cl_state ?v)) (th_state th)"
    using th by (simp_all add: thread_ok_def thread_view_def own_part_def parts)
  show ?thesis
  proof (cases "th_state th")
    case TReady
    then show ?thesis using begin_ok [OF a t, of c k i] S first pl by auto
  next
    case (TLoop l ts on sk oks start)
    then show ?thesis using end_ok [OF a t, of c k oks i ts on start] turn_ok [OF a t, of c k "l - 1" oks i ts start] S pl
      by (cases l) auto
  next
    case (TDone r)
    then show ?thesis using left by simp
  qed
qed

end

context phase_pool
begin

lemma thread_back_ok:
  assumes ok: "pool_ok b fresh_own own_ok n S p" and i: "i < length (po_threads p)" and th: "th = po_threads p ! i"
    and c: "c + has_open b (th_state th) = open_count b (po_threads p)"
    and k: "k + ops_left (th_args th) (th_state th) = left_count (po_threads p)"
    and place: "place_ok b fresh_own own_ok (th_args th) (own_part cls (cl_state cl)) st'" "tls_ok (cx_tls (cl_state cl))" "cl_rlim cl = None"
    and S: "shared_ok cls (S (c + has_open b st') (k + ops_left (th_args th) st')) (cl_state cl)"
  shows "pool_ok b fresh_own own_ok n S (thread_back cls i st' cl p)"
proof -
  let ?th' = "th\<lparr>th_own := own_part cls (cl_state cl), th_timer := dw_timer (cx_db (cl_state cl)), th_calls := dw_tick (cx_db (cl_state cl)),
    th_tls := cx_tls (cl_state cl), th_rlim := cl_rlim cl, th_state := st'\<rparr>"
  have ths: "po_threads (thread_back cls i st' cl p) = (po_threads p)[i := ?th']"
    by (simp add: thread_back_def own_part_def th Let_def)
  have all: "thread_ok b fresh_own own_ok x" if "x \<in> set (po_threads p)" for x using ok that by (simp add: pool_ok_def)
  have "phase_args b (th_args th)" using all [of th] i th by (simp add: thread_ok_def)
  then have "thread_ok b fresh_own own_ok ?th'" using place by (simp add: thread_ok_def)
  then have "\<forall>x \<in> set ((po_threads p)[i := ?th']). thread_ok b fresh_own own_ok x" using all set_update_subset_insert by fastforce
  moreover have "sum_list (map (\<lambda>th. nat (ta_num_ops (th_args th))) ((po_threads p)[i := ?th'])) = n"
    using sum_list_swap [OF i, of "\<lambda>th. nat (ta_num_ops (th_args th))" ?th'] ok th by (simp add: pool_ok_def)
  moreover have "open_count b ((po_threads p)[i := ?th']) = c + has_open b st'"
    using sum_list_swap [OF i, of "\<lambda>th. has_open b (th_state th)" ?th'] c th by (simp add: open_count_def)
  moreover have "left_count ((po_threads p)[i := ?th']) = k + ops_left (th_args th) st'"
    using sum_list_swap [OF i, of "\<lambda>th. ops_left (th_args th) (th_state th)" ?th'] k th by (simp add: left_count_def)
  ultimately show ?thesis
    unfolding pool_ok_def ths using S by (simp add: thread_back_def shared_ok_def Let_def)
qed

text \<open>When no thread has the database open, no operation of the load phase has been made.\<close>

lemma all_left:
  assumes "pool_ok b fresh_own own_ok n S p" and "b" and "open_count b (po_threads p) = 0"
  shows "left_count (po_threads p) = n"
proof -
  have "th_state th = TReady" if "th \<in> set (po_threads p)" for th
    using assms(2,3) that by (cases "th_state th") (auto simp: open_count_def)
  then have "map (\<lambda>th. ops_left (th_args th) (th_state th)) (po_threads p) = map (\<lambda>th. nat (ta_num_ops (th_args th))) (po_threads p)" by simp
  then show ?thesis using assms(1) unfolding left_count_def pool_ok_def by metis
qed

lemma act_client_ok:
  assumes ok: "pool_ok b fresh_own own_ok n S p" and i: "i < length (po_threads p)"
  shows "\<exists>st cl. client_act cls ph i p = Some (Inr (thread_back cls i st cl p)) \<and> pool_ok b fresh_own own_ok n S (thread_back cls i st cl p)
     \<and> steps_left (th_args (po_threads p ! i)) st = steps_left (th_args (po_threads p ! i)) (th_state (po_threads p ! i)) - 1"
proof (cases "steps_left (th_args (po_threads p ! i)) (th_state (po_threads p ! i)) = 0")
  case True
  let ?th = "po_threads p ! i"
  obtain r where r: "th_state ?th = TDone r" using True by (cases "th_state ?th") auto
  have "(po_threads p)[i := ?th\<lparr>th_state := TDone r\<rparr>] = po_threads p" by (simp flip: r)
  then have "thread_back cls i (TDone r) (thread_view cls p ?th) p = p"
    by (simp add: thread_back_def thread_view_def parts Let_def)
  then show ?thesis using i r ok by (intro exI [of _ "TDone r"] exI [of _ "thread_view cls p ?th"]) (simp add: client_act_def Let_def)
next
  case False
  let ?th = "po_threads p ! i"
  have th: "thread_ok b fresh_own own_ok ?th" using ok i by (simp add: pool_ok_def)
  obtain c where c: "c + has_open b (th_state ?th) = open_count b (po_threads p)"
    using le_add_diff_inverse2 [OF sum_list_member [OF nth_mem [OF i], of "\<lambda>th. has_open b (th_state th)"]] unfolding open_count_def by blast
  obtain k where k: "k + ops_left (th_args ?th) (th_state ?th) = left_count (po_threads p)"
    using le_add_diff_inverse2 [OF sum_list_member [OF nth_mem [OF i], of "\<lambda>th. ops_left (th_args th) (th_state th)"]]
    unfolding left_count_def by blast
  have sh: "shared_ok cls (S (c + has_open b (th_state ?th)) (k + ops_left (th_args ?th) (th_state ?th))) (cl_state (thread_view cls p ?th))"
    unfolding c k using ok by (auto simp: pool_ok_def shared_ok_def thread_view_def parts)
  have first: "k + ops_left (th_args ?th) (th_state ?th) = n" if "b" "c + has_open b (th_state ?th) = 0"
    using all_left [OF ok that(1)] that(2) c k by simp
  obtain st' cl where st: "thread_step i (th_args ?th) (th_state ?th) (thread_view cls p ?th) = Some (Inr (st', cl))"
    and d: "stepped (th_args ?th) c k (th_state ?th) st' cl"
    using step_ok [OF th False sh, of i] first by (auto simp: yields_def)
  have "pool_ok b fresh_own own_ok n S (thread_back cls i st' cl p)"
    using d unfolding stepped_def by (intro thread_back_ok [OF ok i refl c k]) blast+
  then show ?thesis using st d i by (intro exI [of _ st'] exI [of _ cl]) (simp add: client_act_def thread_step_def stepped_def Let_def)
qed

lemma status_ok: "pool_ok b fresh_own own_ok n S p \<Longrightarrow> pool_ok b fresh_own own_ok n S (status_act ph p)"
  using status by (auto simp: pool_ok_def status_act_def split_beta Let_def split: status_thread.splits)

text \<open>No schedule fails, and each turn of a thread brings it one step closer to its end.\<close>

lemma schedule_ok:
  assumes "pool_ok b fresh_own own_ok n S p" and "po_rate p = RateOff"
  shows "\<exists>p'. run_schedule cls ph as p = Some (Inr p') \<and> pool_ok b fresh_own own_ok n S p' \<and> po_rate p' = RateOff
     \<and> (po_status p = StatusOff \<longrightarrow> po_status p' = StatusOff)
     \<and> map th_args (po_threads p') = map th_args (po_threads p) \<and> (\<forall>i. pool_steps p' i = pool_steps p i - count_list as (Client i))"
  using assms
proof (induction as arbitrary: p)
  case (Cons a as)
  have "\<exists>p1. act cls ph a p = Some (Inr p1) \<and> pool_ok b fresh_own own_ok n S p1 \<and> po_rate p1 = RateOff
     \<and> (po_status p = StatusOff \<longrightarrow> po_status p1 = StatusOff) \<and> map th_args (po_threads p1) = map th_args (po_threads p)
     \<and> (\<forall>i. pool_steps p1 i = pool_steps p i - (if a = Client i then 1 else 0))"
  proof (cases a)
    case (Client i)
    show ?thesis
    proof (cases "i < length (po_threads p)")
      case True
      from act_client_ok [OF Cons.prems(1) True] obtain st cl where
        "client_act cls ph i p = Some (Inr (thread_back cls i st cl p))" "pool_ok b fresh_own own_ok n S (thread_back cls i st cl p)"
        "steps_left (th_args (po_threads p ! i)) st = steps_left (th_args (po_threads p ! i)) (th_state (po_threads p ! i)) - 1" by blast
      then show ?thesis using Client True
        using Cons.prems(2) by (intro exI [of _ "thread_back cls i st cl p"]) (auto simp: thread_back_def Let_def pool_steps_def map_update_same nth_list_update)
    next
      case False
      then show ?thesis using Client Cons.prems by (auto simp: client_act_def pool_steps_def)
    qed
  next
    case StatusActor
    then show ?thesis using status_ok [OF Cons.prems(1)] Cons.prems(2)
      by (auto simp: status_act_def pool_steps_def split_beta Let_def split: status_thread.splits)
  next
    case RateActor
    then show ?thesis using Cons.prems by (simp add: rate_act_def)
  qed
  then obtain p1 where p1: "act cls ph a p = Some (Inr p1)" "pool_ok b fresh_own own_ok n S p1" "po_rate p1 = RateOff"
    "po_status p = StatusOff \<longrightarrow> po_status p1 = StatusOff" "map th_args (po_threads p1) = map th_args (po_threads p)"
    "\<forall>i. pool_steps p1 i = pool_steps p i - (if a = Client i then 1 else 0)" by blast
  from Cons.IH [OF p1(2,3)] p1 show ?case by (auto simp: diff_diff_left)
qed simp

lemma thread_result_None: "thread_result st = None \<longleftrightarrow> (\<forall>r. st \<noteq> TDone r)"
  by (cases st) auto

lemma phase_sum_some:
  "phase_sum p = Some r \<Longrightarrow> (\<forall>th \<in> set (po_threads p). thread_result (th_state th) \<noteq> None)"
  by (force simp: phase_sum_def Let_def split: if_splits)

text \<open>When a phase has a result, all threads have returned, and the result is the number of operations.\<close>

lemma phase_result:
  assumes "pool_ok b fresh_own own_ok n S p" and "phase_sum p = Some r"
  shows "r = int n \<and> (\<forall>th \<in> set (po_threads p). \<exists>r. th_state th = TDone r)"
proof -
  have ended: "\<exists>r. th_state th = TDone r" if "th \<in> set (po_threads p)" for th
    using phase_sum_some [OF assms(2)] that by (auto simp: thread_result_None)
  have ok: "thread_ok b fresh_own own_ok th" if "th \<in> set (po_threads p)" for th using assms(1) that by (simp add: pool_ok_def)
  have "thread_result (th_state th) = Some (ta_num_ops (th_args th)) \<and> 0 \<le> ta_num_ops (th_args th)" if "th \<in> set (po_threads p)" for th
    using ended [OF that] ok [OF that] by (auto simp: thread_ok_def phase_args_def)
  then have "map (\<lambda>th. thread_result (th_state th)) (po_threads p) = map (\<lambda>th. Some (int (nat (ta_num_ops (th_args th))))) (po_threads p)" by simp
  moreover have "sum_list (map (\<lambda>th. int (nat (ta_num_ops (th_args th)))) (po_threads p)) = int n"
    using assms(1) sum_list_of_nat [of "map (\<lambda>th. nat (ta_num_ops (th_args th))) (po_threads p)", where 'a = int]
    by (simp add: pool_ok_def comp_def del: int_nat_eq)
  ultimately have "r = int n"
    using assms(2) unfolding phase_sum_def Let_def by (simp only: map_map comp_def option.sel) (auto simp del: int_nat_eq split: if_splits)
  with ended show ?thesis by blast
qed

text \<open>When each thread has had its turns, there is a result.\<close>

lemma phase_complete:
  assumes "pool_ok b fresh_own own_ok n S p" and "po_rate p = RateOff" and "po_status p = StatusOff"
    and turns: "\<forall>i < length (po_threads p). pool_steps p i \<le> count_list as (Client i)"
  shows "\<exists>p' r. run_schedule cls ph as p = Some (Inr p') \<and> phase_sum p' = Some r"
proof -
  obtain p' where p': "run_schedule cls ph as p = Some (Inr p')" "po_rate p' = RateOff" "po_status p' = StatusOff"
    "map th_args (po_threads p') = map th_args (po_threads p)" "\<forall>i. pool_steps p' i = pool_steps p i - count_list as (Client i)"
    using schedule_ok [OF assms(1,2), of as] assms(3) by auto
  have len: "length (po_threads p') = length (po_threads p)" using arg_cong [OF p'(4), of length] by simp
  have "steps_left (th_args th) (th_state th) = 0" if th: "th \<in> set (po_threads p')" for th
  proof -
    obtain i where i: "i < length (po_threads p')" "th = po_threads p' ! i" using th by (auto simp: in_set_conv_nth)
    then have "pool_steps p' i = 0" using p'(5) turns len by simp
    then show ?thesis using i by (simp add: pool_steps_def)
  qed
  then have "thread_result (th_state th) \<noteq> None" if "th \<in> set (po_threads p')" for th using that by (cases "th_state th") fastforce+
  then have "None \<notin> set (map (\<lambda>th. thread_result (th_state th)) (po_threads p'))" by force
  then show ?thesis using p'(1-3) by (auto simp: phase_sum_def Let_def simp del: set_map)
qed

text \<open>The pool before the first step and after the last one.\<close>

lemma ready_pool:
  assumes "\<forall>th \<in> set (po_threads p). thread_ok b fresh_own own_ok th \<and> th_state th = TReady"
    and "sum_list (map (\<lambda>th. nat (ta_num_ops (th_args th))) (po_threads p)) = n"
    and "S (if b then 0 else length (po_threads p)) n (po_wl p) (po_static p) (po_ms p)"
  shows "pool_ok b fresh_own own_ok n S p"
    and "i < length (po_threads p) \<Longrightarrow> pool_steps p i = nat (ta_num_ops (th_args (po_threads p ! i))) + 2"
proof -
  have "map (\<lambda>th. has_open b (th_state th)) (po_threads p) = replicate (length (po_threads p)) (if b then 0 else 1)"
    using assms(1) by (auto intro!: replicate_eqI)
  then have "open_count b (po_threads p) = (if b then 0 else length (po_threads p))" by (simp add: open_count_def sum_list_replicate)
  moreover have "map (\<lambda>th. ops_left (th_args th) (th_state th)) (po_threads p) = map (\<lambda>th. nat (ta_num_ops (th_args th))) (po_threads p)"
    using assms(1) by simp
  then have "left_count (po_threads p) = n" using assms(2) by (simp only: left_count_def)
  ultimately show "pool_ok b fresh_own own_ok n S p" using assms by (simp add: pool_ok_def)
  show "i < length (po_threads p) \<Longrightarrow> pool_steps p i = nat (ta_num_ops (th_args (po_threads p ! i))) + 2"
    using assms(1) by (simp add: pool_steps_def)
qed

lemma done_pool:
  assumes "pool_ok b fresh_own own_ok n S p" and "\<forall>th \<in> set (po_threads p). \<exists>r. th_state th = TDone r"
  shows "S (if b then length (po_threads p) else 0) 0 (po_wl p) (po_static p) (po_ms p)" and "b \<Longrightarrow> th \<in> set (po_threads p) \<Longrightarrow> own_ok (th_own th)"
proof -
  have "map (\<lambda>th. has_open b (th_state th)) (po_threads p) = replicate (length (po_threads p)) (if b then 1 else 0)"
    "map (\<lambda>th. ops_left (th_args th) (th_state th)) (po_threads p) = replicate (length (po_threads p)) 0"
    using assms(2) by (fastforce intro!: replicate_eqI)+
  then have "open_count b (po_threads p) = (if b then length (po_threads p) else 0)" "left_count (po_threads p) = 0"
    by (simp_all add: open_count_def left_count_def sum_list_replicate)
  then show "S (if b then length (po_threads p) else 0) 0 (po_wl p) (po_static p) (po_ms p)" using assms(1) by (simp add: pool_ok_def)
  show "own_ok (th_own th)" if "b" "th \<in> set (po_threads p)" using assms that by (fastforce simp: pool_ok_def thread_ok_def)
qed

end

section \<open>Client threads of the core workload on a shared backend\<close>

text \<open>
  A backend whose objects share a reference-counted handle. \<open>open_by c\<close> holds of the static members while \<open>c\<close> objects are initialised, \<open>own_ok\<close> of the
  members of an initialised object and \<open>fresh_own\<close> of those of a new one. The first object that is initialised opens the store.
\<close>

locale shared_store =
  fixes db :: "'d DB" and cls :: "('d, 'g, 'l) db_class" and open_by :: "nat \<Rightarrow> 'g \<Rightarrow> bool" and own_ok fresh_own :: "'l \<Rightarrow> bool"
    and adm :: "dbcall \<Rightarrow> bool" and stored :: "'g \<Rightarrow> string set"
  assumes divides: "dc_static cls (dc_join cls g l) = g" "dc_own cls (dc_join cls g l) = l" "dc_join cls (dc_static cls d) (dc_own cls d) = d"
    and store: "0 < c \<Longrightarrow> record_store db (\<lambda>d. open_by c (dc_static cls d) \<and> own_ok (dc_own cls d)) adm (\<lambda>d. stored (dc_static cls d)) (\<lambda>_. True)"
    and opens: "open_by c (dc_static cls d) \<Longrightarrow> fresh_own (dc_own cls d) \<Longrightarrow> \<exists>d'. db_Init db d = Inr ((), d') \<and> open_by (Suc c) (dc_static cls d')
      \<and> own_ok (dc_own cls d') \<and> (0 < c \<longrightarrow> stored (dc_static cls d') = stored (dc_static cls d))"
    and closes: "open_by (Suc c) (dc_static cls d) \<Longrightarrow> own_ok (dc_own cls d) \<Longrightarrow> \<exists>d'. db_Cleanup db d = Inr ((), d')
      \<and> (0 < c \<longrightarrow> open_by c (dc_static cls d') \<and> stored (dc_static cls d') = stored (dc_static cls d))"

text \<open>What the threads share while records are loaded and while transactions run.\<close>

definition load_shared ::
    "'e env \<Rightarrow> (dbcall \<Rightarrow> bool) \<Rightarrow> (nat \<Rightarrow> 'g \<Rightarrow> bool) \<Rightarrow> ('g \<Rightarrow> string set) \<Rightarrow> nat \<Rightarrow> nat \<Rightarrow> nat \<Rightarrow> nat
     \<Rightarrow> 'e CoreWorkload \<Rightarrow> 'g \<Rightarrow> BasicMeasurements \<Rightarrow> bool" where
  "load_shared env adm open_by stored m n c k w g ms \<longleftrightarrow> env_ok env \<and> (\<forall>q. wl_call w q \<longrightarrow> adm q) \<and> open_by c g \<and> no_failures ms
     \<and> wl_ok m n w \<and> settled n (wl_transaction_insert_key_sequence w) \<and> k \<le> n
     \<and> wl_insert_key_sequence w = Some (new_CounterGenerator (of_nat (n - k))) \<and> (\<forall>i < n - k. BuildKeyName w (of_nat i) \<in> stored g)"

definition run_shared ::
    "'e env \<Rightarrow> (dbcall \<Rightarrow> bool) \<Rightarrow> (nat \<Rightarrow> 'g \<Rightarrow> bool) \<Rightarrow> ('g \<Rightarrow> string set) \<Rightarrow> nat \<Rightarrow> nat
     \<Rightarrow> 'e CoreWorkload \<Rightarrow> 'g \<Rightarrow> BasicMeasurements \<Rightarrow> bool" where
  "run_shared env adm open_by stored c k w g ms \<longleftrightarrow> no_failures ms \<and> (0 < c \<longrightarrow> env_ok env \<and> (\<forall>q. wl_call w q \<longrightarrow> adm q) \<and> open_by c g
     \<and> (\<exists>n. wl_ok k n w \<and> settled n (wl_transaction_insert_key_sequence w) \<and> (\<forall>i < n. BuildKeyName w (of_nat i) \<in> stored g)))"

text \<open>The functions that \<^verbatim>\<open>main\<close> passes to the threads when the workload is \<^verbatim>\<open>CoreWorkload\<close> and no warm-up is skipped.\<close>

definition core_phase ::
    "'e env \<Rightarrow> 'd DB \<Rightarrow> (nat \<Rightarrow> nat \<Rightarrow> int) \<Rightarrow> (nat \<Rightarrow> nat \<Rightarrow> int) \<Rightarrow> (nat \<Rightarrow> int) \<Rightarrow> (nat \<Rightarrow> int) \<Rightarrow> Properties \<Rightarrow> int \<Rightarrow> int \<Rightarrow> ('e, 'd, unit) phase" where
  "core_phase env db clock wall sys steady props interval interval_us =
     \<lparr>ph_sys = sys, ph_steady = steady, ph_db = (\<lambda>i. DBWrapper_ops (clock i) (wall i) basic_report db),
      ph_wl = (\<lambda>i. CoreWorkloadOps env (DBWrapper_ops (clock i) (wall i) basic_report db)), ph_props = props,
      ph_sec_skip = 0, ph_interval = interval, ph_interval_us = interval_us\<rparr>"

lemma no_failures_Start: "no_failures m \<Longrightarrow> no_failures (Measurements_Start now m)"
  by (simp add: no_failures_def Measurements_Start_def)

lemma status_fold_counts:
  "bm_count (snd (snd (fold status_step ops (t, msg, m)))) = bm_count m \<and> ms_report_on (snd (snd (fold status_step ops (t, msg, m)))) = ms_report_on m"
proof (induction ops arbitrary: t msg m)
  case (Cons op ops)
  obtain t' msg' m' where s: "status_step op (t, msg, m) = (t', msg', m')" by (cases "status_step op (t, msg, m)")
  have "bm_count m' = bm_count m \<and> ms_report_on m' = ms_report_on m"
    using s by (auto simp: status_step_def Let_def split: if_splits)
  then show ?case using Cons.IH [of t' msg' m'] s by simp
qed simp

lemma no_failures_status: "no_failures m \<Longrightarrow> no_failures (snd (Basic_GetStatusMsg m))"
  using status_fold_counts [of all_ops 0 "[]" m] by (simp add: no_failures_def Basic_GetStatusMsg_def split_beta Let_def)

context shared_store
begin

lemma wrapped_store:
  assumes "0 < c"
  shows "record_store (DBWrapper_ops clock wall basic_report db) (\<lambda>w. open_by c (dc_static cls (dw_db w)) \<and> own_ok (dc_own cls (dw_db w))) adm
     (\<lambda>w. stored (dc_static cls (dw_db w))) (\<lambda>w. no_failures (dw_measurements w))"
  by (rule wrapped_record_store [OF store [OF assms]])

lemma load_view:
  "load_ready env adm (\<lambda>w. open_by c (dc_static cls (dw_db w)) \<and> own_ok (dc_own cls (dw_db w))) (\<lambda>w. no_failures (dw_measurements w))
     (\<lambda>w. stored (dc_static cls (dw_db w))) m n k s u
   \<longleftrightarrow> shared_ok cls (load_shared env adm open_by stored m n c k) s \<and> own_ok (own_part cls s) \<and> tls_ok (cx_tls s)"
  by (auto simp: load_ready_def bench_ok_def cx_ok_def loaded_def shared_ok_def load_shared_def own_part_def)

lemma run_view:
  "0 < c \<Longrightarrow> run_ready env adm (\<lambda>w. open_by c (dc_static cls (dw_db w)) \<and> own_ok (dc_own cls (dw_db w))) (\<lambda>w. no_failures (dw_measurements w))
     (\<lambda>w. stored (dc_static cls (dw_db w))) k s u
   \<longleftrightarrow> shared_ok cls (run_shared env adm open_by stored c k) s \<and> own_ok (own_part cls s) \<and> tls_ok (cx_tls s)"
  by (auto simp: run_ready_def bench_ok_def cx_ok_def loaded_def shared_ok_def run_shared_def own_part_def)

lemma wrapper_opens:
  assumes "open_by c (dc_static cls (dw_db (cx_db s)))" and "fresh_own (own_part cls s)"
  shows "\<exists>d'. on_db (db_Init (DBWrapper_ops clock wall basic_report db)) s = Some (Inr ((), s\<lparr>cx_db := (cx_db s)\<lparr>dw_db := d'\<rparr>\<rparr>))
     \<and> open_by (Suc c) (dc_static cls d') \<and> own_ok (dc_own cls d') \<and> (0 < c \<longrightarrow> stored (dc_static cls d') = stored (dc_static cls (dw_db (cx_db s))))"
  using opens [OF assms(1)] assms(2) by (auto simp: own_part_def on_db_def DBWrapper_ops_def passed_def)

lemma wrapper_closes:
  assumes "open_by (Suc c) (dc_static cls (dw_db (cx_db s)))" and "own_ok (own_part cls s)"
  shows "\<exists>d'. on_db (db_Cleanup (DBWrapper_ops clock wall basic_report db)) s = Some (Inr ((), s\<lparr>cx_db := (cx_db s)\<lparr>dw_db := d'\<rparr>\<rparr>))
     \<and> (0 < c \<longrightarrow> open_by c (dc_static cls d') \<and> stored (dc_static cls d') = stored (dc_static cls (dw_db (cx_db s))))"
  using closes [OF assms(1)] assms(2) by (auto simp: own_part_def on_db_def DBWrapper_ops_def passed_def)

end

sublocale shared_store \<subseteq> load: phase_pool cls "core_phase env db clock wall sys steady props interval interval_us" True n
    "load_shared env adm open_by stored m n" own_ok fresh_own for env clock wall sys steady props interval interval_us m n
proof
  let ?ph = "core_phase env db clock wall sys steady props interval interval_us"
  fix c k i and s assume s: "shared_ok cls (load_shared env adm open_by stored m n c k) s" "c = 0 \<Longrightarrow> k = n" "fresh_own (own_part cls s)"
  have "open_by c (dc_static cls (dw_db (cx_db s)))" using s(1) by (simp add: shared_ok_def load_shared_def)
  from wrapper_opens [OF this s(3), of "clock i" "wall i"] obtain d' where d: "on_db (db_Init (ph_db ?ph i)) s = Some (Inr ((), s\<lparr>cx_db := (cx_db s)\<lparr>dw_db := d'\<rparr>\<rparr>))"
    "open_by (Suc c) (dc_static cls d')" "own_ok (dc_own cls d')" "0 < c \<longrightarrow> stored (dc_static cls d') = stored (dc_static cls (dw_db (cx_db s)))"
    unfolding core_phase_def by auto
  then show "yields (on_db (db_Init (ph_db ?ph i))) s (\<lambda>_ s'. shared_ok cls (load_shared env adm open_by stored m n (Suc c) k) s' \<and> own_ok (own_part cls s')
      \<and> cx_tls s' = cx_tls s)"
    using s by (cases "c = 0") (auto simp: yields_def shared_ok_def load_shared_def own_part_def)
next
  let ?ph = "core_phase env db clock wall sys steady props interval interval_us"
  fix c k i ts and s assume "0 < c" and s: "shared_ok cls (load_shared env adm open_by stored m n c (Suc k)) s" "own_ok (own_part cls s)" "tls_ok (cx_tls s)"
  show "yields (if True then w_DoInsert (ph_wl ?ph i) ts else w_DoTransaction (ph_wl ?ph i) ts) s
        (\<lambda>(ok, ts') s'. ok \<and> shared_ok cls (load_shared env adm open_by stored m n c k) s' \<and> own_ok (own_part cls s') \<and> tls_ok (cx_tls s'))"
    using record_store.insert_step [OF wrapped_store [OF \<open>0 < c\<close>], of env m n k s "()" "clock i" "wall i"] s unfolding load_view
    by (auto simp: core_phase_def CoreWorkloadOps_def intro!: yields_bind elim: yields_mono)
qed (auto simp: divides core_phase_def CoreWorkloadOps_def load_shared_def no_failures_Start no_failures_status)

sublocale shared_store \<subseteq> run: phase_pool cls "core_phase env db clock wall sys steady props interval interval_us" False n
    "run_shared env adm open_by stored" own_ok fresh_own for env clock wall sys steady props interval interval_us n
proof
  let ?ph = "core_phase env db clock wall sys steady props interval interval_us"
  fix c k i and s assume s: "shared_ok cls (run_shared env adm open_by stored (Suc c) k) s" "own_ok (own_part cls s)"
  have "open_by (Suc c) (dc_static cls (dw_db (cx_db s)))" using s(1) by (simp add: shared_ok_def run_shared_def)
  from wrapper_closes [OF this s(2), of "clock i" "wall i"] obtain d' where d: "on_db (db_Cleanup (ph_db ?ph i)) s = Some (Inr ((), s\<lparr>cx_db := (cx_db s)\<lparr>dw_db := d'\<rparr>\<rparr>))"
    "0 < c \<longrightarrow> open_by c (dc_static cls d') \<and> stored (dc_static cls d') = stored (dc_static cls (dw_db (cx_db s)))"
    unfolding core_phase_def by auto
  then show "yields (on_db (db_Cleanup (ph_db ?ph i))) s (\<lambda>_ s'. shared_ok cls (run_shared env adm open_by stored c k) s' \<and> cx_tls s' = cx_tls s)"
    using s by (auto simp: yields_def shared_ok_def run_shared_def)
next
  let ?ph = "core_phase env db clock wall sys steady props interval interval_us"
  fix c k i ts and s assume "0 < c" and s: "shared_ok cls (run_shared env adm open_by stored c (Suc k)) s" "own_ok (own_part cls s)" "tls_ok (cx_tls s)"
  show "yields (if False then w_DoInsert (ph_wl ?ph i) ts else w_DoTransaction (ph_wl ?ph i) ts) s
        (\<lambda>(ok, ts') s'. ok \<and> shared_ok cls (run_shared env adm open_by stored c k) s' \<and> own_ok (own_part cls s') \<and> tls_ok (cx_tls s'))"
    using record_store.transaction_step [OF wrapped_store [OF \<open>0 < c\<close>], of env k s "()" "clock i" "wall i"] s unfolding run_view [OF \<open>0 < c\<close>]
    by (auto simp: core_phase_def CoreWorkloadOps_def intro!: yields_bind elim: yields_mono)
qed (auto simp: divides core_phase_def CoreWorkloadOps_def run_shared_def no_failures_Start no_failures_status)

section \<open>RocksDB objects\<close>

text \<open>\<^verbatim>\<open>db_\<close>, \<^verbatim>\<open>ref_cnt_\<close> and \<^verbatim>\<open>cf_handles_\<close> are static members of \<^verbatim>\<open>RocksdbDB\<close>.\<close>

definition rocks_class :: "('s RocksdbDB, bool list \<times> 's kv_static, Properties \<times> RocksFormat option \<times> bool \<times> int) db_class" where
  "rocks_class =
     \<lparr>dc_join = (\<lambda>(h, st) (props, format, merge, fieldcount). \<lparr>rd_props = props, rd_format = format, rd_merge = merge, rd_fieldcount = fieldcount,
        rd_cf_handles = h, rd_static = st\<rparr>),
      dc_static = (\<lambda>d. (rd_cf_handles d, rd_static d)),
      dc_own = (\<lambda>d. (rd_props d, rd_format d, rd_merge d, rd_fieldcount d))\<rparr>"

definition rd_open_by ::
    "('e, 's) rocks_engine \<Rightarrow> 'e rocksdb_lib \<Rightarrow> bool \<Rightarrow> bool \<Rightarrow> ('s \<Rightarrow> string \<rightharpoonup> string) \<Rightarrow> string list \<Rightarrow> Properties \<Rightarrow> nat
     \<Rightarrow> bool list \<times> 's kv_static \<Rightarrow> bool" where
  "rd_open_by kv lib use_merge major8 m names props c g \<longleftrightarrow> kv_ok kv m \<and> st_ref_cnt (snd g) = int c
     \<and> (if c = 0 then st_db (snd g) = NullHandle \<and> (\<exists>d. Rocksdb_Init kv lib use_merge major8 (NewRocksdbDB props (fst g) (snd g)) = Inr ((), d)
          \<and> all_rows (row_ok names) Rocksdb_SerializeRow (rd_store m d))
        else st_db (snd g) = LiveHandle \<and> all_rows (row_ok names) Rocksdb_SerializeRow (m (st_env (snd g))))"

definition rd_fresh_own :: "bool \<Rightarrow> string list \<Rightarrow> Properties \<Rightarrow> Properties \<times> RocksFormat option \<times> bool \<times> int \<Rightarrow> bool" where
  "rd_fresh_own use_merge names props l \<longleftrightarrow> l = (props, None, False, 0) \<and> distinct names
     \<and> GetProperty props ''rocksdb.format'' ''single'' = ''single'' \<and> (use_merge \<longrightarrow> GetProperty props ''rocksdb.mergeupdate'' ''false'' \<noteq> ''true'')
     \<and> stoi (GetProperty props ''fieldcount'' ''10'') = Inr (int (length names))"

definition rd_own_ok :: "string list \<Rightarrow> Properties \<times> RocksFormat option \<times> bool \<times> int \<Rightarrow> bool" where
  "rd_own_ok names = (\<lambda>(props, format, merge, fieldcount). format = Some kSingleRow \<and> \<not> merge \<and> distinct names \<and> fieldcount = int (length names))"

lemma rocks_class_simps [simp]:
  "dc_static rocks_class d = (rd_cf_handles d, rd_static d)" "dc_own rocks_class d = (rd_props d, rd_format d, rd_merge d, rd_fieldcount d)"
  "dc_join rocks_class (h, st) (props, format, merge, fieldcount) = \<lparr>rd_props = props, rd_format = format, rd_merge = merge,
     rd_fieldcount = fieldcount, rd_cf_handles = h, rd_static = st\<rparr>"
  by (simp_all add: rocks_class_def)

lemma rd_call_env:
  assumes "db_call (Rocksdb_ops kv lib use_merge major8 ndebug) c d = Inr (r, d')"
  shows "\<exists>env. d' = rd_set_env env d"
proof -
  have self: "\<exists>env. d = rd_set_env env d" by (rule exI [of _ "st_env (rd_static d)"]) (simp add: rd_set_env_def)
  show ?thesis
    using assms self
    by (cases c) (auto simp: Rocksdb_ops_def rd_dispatch_def ReadSingle_def ScanSingle_def UpdateSingle_def MergeSingle_def InsertSingle_def
        DeleteSingle_def Let_def split_beta map_sum_def andThen_def split: sum.splits option.splits RocksFormat.splits if_splits kv_status.splits)
qed

lemma rd_stored:
  assumes "rd_ok kv m names d"
  shows "dom (rd_table m ndebug d) = dom (rd_store m d)"
proof (intro set_eqI)
  fix k
  show "k \<in> dom (rd_table m ndebug d) \<longleftrightarrow> k \<in> dom (rd_store m d)"
    by (cases rule: rd_get [OF assms, of ndebug k]) (use kv_okD(2) [OF rd_okD(2) [OF assms]] in \<open>auto simp: dom_def split: option.splits\<close>)
qed

lemma rd_Init_members:
  assumes "Rocksdb_Init kv lib um m8 d = Inr ((), d')" and "st_db (rd_static d) = NullHandle"
  shows "st_db (rd_static d') = LiveHandle \<and> st_ref_cnt (rd_static d') = st_ref_cnt (rd_static d) + 1 \<and> rd_format d' = Some kSingleRow
     \<and> (rd_merge d' \<longleftrightarrow> um \<and> GetProperty (rd_props d) ''rocksdb.mergeupdate'' ''false'' = ''true'')
     \<and> stoi (GetProperty (rd_props d) ''fieldcount'' ''10'') = Inr (rd_fieldcount d')"
  using assms by (auto simp: Rocksdb_Init_def Let_def andThen_def throw_unless_ok_def split: if_splits sum.splits kv_status.splits)

lemma rd_call_keeps:
  assumes "rd_open_by kv lib um m8 m names props c (dc_static rocks_class d) \<and> rd_own_ok names (dc_own rocks_class d)" and "0 < c"
  shows "rd_ok kv m names d \<and> \<not> rd_merge d"
  using assms by (auto simp: rd_open_by_def rd_own_ok_def rd_ok_def)

interpretation rd_shared: shared_store "Rocksdb_ops kv lib um m8 ndebug" rocks_class "rd_open_by kv lib um m8 m names props" "rd_own_ok names"
    "rd_fresh_own um names props" "row_call names" "\<lambda>g. dom (m (st_env (snd g)))" for kv lib um m8 ndebug m names props
proof (rule shared_store.intro)
  fix c :: nat assume c: "0 < c"
  let ?I = "\<lambda>d. rd_open_by kv lib um m8 m names props c (dc_static rocks_class d) \<and> rd_own_ok names (dc_own rocks_class d)"
  let ?db = "Rocksdb_ops kv lib um m8 ndebug"
  have same: "?I d'" if "?I d" "db_call ?db q d = Inr (r, d')" "rd_ok kv m names d'" for d q r d'
    using rd_call_env [OF that(2)] that(1,3) c by (auto simp: rd_open_by_def rd_own_ok_def rd_set_env_def rd_ok_def)
  show "record_store ?db ?I (row_call names) (\<lambda>d. dom (m (st_env (snd (dc_static rocks_class d))))) (\<lambda>_. True)"
  proof
    fix d q assume d: "?I d" and q: "row_call names q"
    then show "\<exists>r d'. db_call ?db q d = Inr (r, d') \<and> ?I d'"
      using rd_single.call_refines [OF rd_call_keeps [OF d c] q] same [OF d] by blast
  next
    fix d q r d' assume d: "?I d" and q: "row_call names q" "stored_call (dom (m (st_env (snd (dc_static rocks_class d))))) q" "db_call ?db q d = Inr (r, d')"
    obtain t where t: "rd_ok kv m names d'" "db_call Table_ops q (rd_table m ndebug d) = Inr (r, rd_table m ndebug d')"
      using rd_single.call_refines [OF rd_call_keeps [OF d c] q(1), of lib um m8 ndebug] q(3) by auto
    have "dom (rd_table m ndebug d) = dom (rd_store m d)" "dom (rd_table m ndebug d') = dom (rd_store m d')"
      using rd_stored [OF t(1)] rd_stored [of kv m names d] rd_call_keeps [OF d c] by blast+
    then show "result_status r = kOK \<and> dom (m (st_env (snd (dc_static rocks_class d')))) = keys_after q (dom (m (st_env (snd (dc_static rocks_class d)))))"
      using table_call_stored [OF t(2)] q(2) by simp
  qed simp
next
  fix c d assume o: "rd_open_by kv lib um m8 m names props c (dc_static rocks_class d)" and f: "rd_fresh_own um names props (dc_own rocks_class d)"
  have new: "NewRocksdbDB props (rd_cf_handles d) (rd_static d) = d" using f by (simp add: rd_fresh_own_def NewRocksdbDB_def)
  show "\<exists>d'. db_Init (Rocksdb_ops kv lib um m8 ndebug) d = Inr ((), d') \<and> rd_open_by kv lib um m8 m names props (Suc c) (dc_static rocks_class d')
      \<and> rd_own_ok names (dc_own rocks_class d')
      \<and> (0 < c \<longrightarrow> dom (m (st_env (snd (dc_static rocks_class d')))) = dom (m (st_env (snd (dc_static rocks_class d)))))"
  proof (cases "c = 0")
    case True
    then obtain d' where i: "Rocksdb_Init kv lib um m8 d = Inr ((), d')" "all_rows (row_ok names) Rocksdb_SerializeRow (rd_store m d')"
      and st: "st_db (rd_static d) = NullHandle" "kv_ok kv m" "st_ref_cnt (rd_static d) = 0"
      using o new by (auto simp: rd_open_by_def)
    show ?thesis
      using i st f True rd_Init_members [OF i(1) st(1)]
      by (intro exI [of _ d']) (auto simp: rd_open_by_def rd_fresh_own_def rd_own_ok_def Rocksdb_ops_def)
  next
    case False
    then show ?thesis using o f
      by (auto simp: rd_open_by_def rd_fresh_own_def rd_own_ok_def Rocksdb_ops_def Rocksdb_Init_def Let_def)
  qed
next
  fix c d assume "rd_open_by kv lib um m8 m names props (Suc c) (dc_static rocks_class d)"
  then show "\<exists>d'. db_Cleanup (Rocksdb_ops kv lib um m8 ndebug) d = Inr ((), d')
      \<and> (0 < c \<longrightarrow> rd_open_by kv lib um m8 m names props c (dc_static rocks_class d')
        \<and> dom (m (st_env (snd (dc_static rocks_class d')))) = dom (m (st_env (snd (dc_static rocks_class d)))))"
    by (cases "c = 0") (auto simp: rd_open_by_def Rocksdb_ops_def Rocksdb_Cleanup_def delete_handle_def Let_def)
qed (auto simp: rocks_class_def)

end
