(* ===== verification/Main_Program.thy ===== *)
theory Main_Program
  imports Threads
begin

text \<open>
  The program as a whole: \<^verbatim>\<open>main\<close> and \<^verbatim>\<open>SaveRunSummary\<close> of \<^verbatim>\<open>src/core/ycsbc.cc\<close>. \<open>ycsbc_main\<close> parses the command line, makes the
  measurements, one database object for each thread and the workload, runs the phases that are asked for with the threads of \<open>Threads\<close>, and
  writes a summary after each of them. The record \<open>machine\<close> is what it finds outside: input files, the registered classes, clocks, the start
  values of thread-local variables, and the order in which the operating system lets the threads of a phase take their steps.
  The measurements are \<^verbatim>\<open>BasicMeasurements\<close>, as in a build without the histogram library. Console output is not modelled.
\<close>

section \<open>What the program finds outside\<close>

text \<open>A workload class whose objects have the members of \<^verbatim>\<open>CoreWorkload\<close>: the new object, \<^verbatim>\<open>Init\<close>, and the functions that the threads call.\<close>

record ('e, 'd, 't) wl_class =
  wc_new :: "'e CoreWorkload"
  wc_Init :: "Properties \<Rightarrow> tls \<Rightarrow> 'e CoreWorkload \<Rightarrow> ('e CoreWorkload \<times> tls) res"
  wc_ops :: "Properties \<Rightarrow> ('d, BasicMeasurements) DBWrapper DB \<Rightarrow> (('e, ('d, BasicMeasurements) DBWrapper) ctx, 't) WorkloadOps"

text \<open>The Boolean arguments are \<open>True\<close> for the load phase and \<open>False\<close> for the transaction phase; numbers of threads select what belongs to a thread.\<close>

record ('e, 'd, 'g, 'l, 't) machine =
  mc_input :: "string \<Rightarrow> string option"
  mc_dbs :: "'d db_registry"
  mc_class :: "('d, 'g, 'l) db_class"
  mc_static :: 'g
  mc_workloads :: "('e, 'd, 't) wl_class wl_registry"
  mc_main_tls :: tls
  mc_tls :: "bool \<Rightarrow> nat \<Rightarrow> tls"
  mc_schedule :: "bool \<Rightarrow> actor list"
  mc_sys :: "bool \<Rightarrow> nat \<Rightarrow> int"
  mc_steady :: "bool \<Rightarrow> nat \<Rightarrow> int"
  mc_clock :: "nat \<Rightarrow> nat \<Rightarrow> int"
  mc_wall :: "nat \<Rightarrow> nat \<Rightarrow> int"
  mc_elapsed :: "bool \<Rightarrow> real"
  mc_now :: "bool \<Rightarrow> int"
  mc_put_time :: "string \<Rightarrow> int \<Rightarrow> string"
  mc_rates :: "string \<Rightarrow> (int list \<times> bool) option"

section \<open>Summaries\<close>

text \<open>The YAML node; the throughput is \<open>None\<close> when the run time is zero. The last member is what \<^verbatim>\<open>Emit\<close> adds.\<close>

record run_summary =
  rs_dbname :: string
  rs_timestamp :: string
  rs_recordcount :: string
  rs_operationcount :: string
  rs_runtime :: real
  rs_operations :: int
  rs_throughput :: "real option"
  rs_workload :: string
  rs_measured :: "(string \<times> EmitEntry) list"

type_synonym summaries = "string \<rightharpoonup> run_summary"

definition make_summary ::
    "('e, 'd, 'g, 'l, 't) machine \<Rightarrow> Properties \<Rightarrow> bool \<Rightarrow> int \<Rightarrow> int \<Rightarrow> BasicMeasurements \<Rightarrow> run_summary res" where
  "make_summary mc props loading sec_skip total_oks ms =
     (let runtime = mc_elapsed mc loading - real_of_int sec_skip in
      andThen (property_at props ''dbname'') (\<lambda>dbname.
      Inr \<lparr>rs_dbname = dbname, rs_timestamp = mc_put_time mc ''%F %T'' (mc_now mc loading),
        rs_recordcount = GetProperty props ''recordcount'' '''', rs_operationcount = GetProperty props ''operationcount'' '''',
        rs_runtime = runtime, rs_operations = total_oks, rs_throughput = (if runtime = 0 then None else Some (real_of_int total_oks / runtime)),
        rs_workload = GetProperty props ''workload'' ''com.yahoo.ycsb.workloads.CoreWorkload'', rs_measured = Basic_Emit ms\<rparr>))"

definition SaveRunSummary ::
    "('e, 'd, 'g, 'l, 't) machine \<Rightarrow> Properties \<Rightarrow> int \<Rightarrow> run_summary \<Rightarrow> summaries \<Rightarrow> summaries" where
  "SaveRunSummary mc props now node files =
     (let yaml_name = GetProperty props ''yamlname'' '''';
          yaml_name = (if yaml_name = '''' then yaml_name @ mc_put_time mc ''%Y%m%d%s'' now else yaml_name)
      in files(yaml_name @ ''.yml'' \<mapsto> node))"

section \<open>The main program\<close>

text \<open>The constants that \<^verbatim>\<open>main\<close> reads from the properties, and its variables: the workload, the database objects, the measurements, and the files written.\<close>

record settings =
  mn_props :: Properties
  mn_do_load :: bool
  mn_do_transaction :: bool
  mn_num_threads :: int
  mn_show_status :: bool
  mn_status_interval :: int
  mn_status_interval_us :: int
  mn_sec_skip :: int

record ('e, 'g, 'l) main_state =
  mn_wl :: "'e CoreWorkload"
  mn_static :: 'g
  mn_ms :: BasicMeasurements
  mn_dbs :: "('l \<times> Timer \<times> nat) list"
  mn_files :: summaries

definition create_db ::
    "('e, 'd, 'g, 'l, 't) machine \<Rightarrow> Properties \<Rightarrow> BasicMeasurements \<Rightarrow> nat
     \<Rightarrow> (('d, BasicMeasurements) DBWrapper DB \<times> ('d, BasicMeasurements) DBWrapper) option" where
  "create_db mc props ms i = CreateDB (mc_clock mc i) (mc_wall mc i) basic_report (mc_dbs mc) props ms"

text \<open>
  The loop that creates the database objects. The name it prints when there is no such class is looked up with \<^verbatim>\<open>at\<close>. The static members are
  shared, so of an object only its own members are kept.
\<close>

fun create_dbs ::
    "('e, 'd, 'g, 'l, 't) machine \<Rightarrow> Properties \<Rightarrow> BasicMeasurements \<Rightarrow> nat list \<Rightarrow> ('l \<times> Timer \<times> nat) list res" where
  "create_dbs mc props ms [] = Inr []"
| "create_dbs mc props ms (i # is) =
     (case create_db mc props ms i of
        None \<Rightarrow> andThen (property_at props ''dbname'') (\<lambda>_. Inl (Exit 1))
      | Some (_, w) \<Rightarrow> andThen (create_dbs mc props ms is) (\<lambda>ds. Inr ((dc_own (mc_class mc) (dw_db w), dw_timer w, dw_tick w) # ds)))"

definition main_setup ::
    "('e, 'd, 'g, 'l, 't) machine \<Rightarrow> summaries \<Rightarrow> string list \<Rightarrow> (settings \<times> ('e, 'd, 't) wl_class \<times> ('e, 'g, 'l) main_state) res" where
  "main_setup mc files args =
     andThen (ParseCommandLine (mc_input mc) args no_properties) (\<lambda>props.
     let do_load = (GetProperty props ''doload'' ''false'' = ''true'');
         do_transaction = (GetProperty props ''dotransaction'' ''false'' = ''true'') in
     if \<not> do_load \<and> \<not> do_transaction then Inl (Exit 1)
     else
     andThen (stoi (GetProperty props ''threadcount'' ''1'')) (\<lambda>num_threads.
     andThen (CreateMeasurements (None :: unit hdr_lib option) props) (\<lambda>measurements.
     case measurements of
       Some (Basic ms) \<Rightarrow>
         andThen (create_dbs mc props ms [0..<nat num_threads]) (\<lambda>dbs.
         case CreateWorkload (mc_workloads mc) props of
           None \<Rightarrow> Inl (Undefined ''null workload'')
         | Some wc \<Rightarrow>
             andThen (wc_Init wc props (mc_main_tls mc) (wc_new wc)) (\<lambda>(wl, tls).
             andThen (stoi (GetProperty props ''status.interval'' ''10'')) (\<lambda>status_interval.
             andThen (stoi (GetProperty props ''status.intervalus'' ''1000'')) (\<lambda>status_interval_us.
             andThen (stol (GetProperty props ''secskip'' ''0'')) (\<lambda>sec_skip.
             Inr (\<lparr>mn_props = props, mn_do_load = do_load, mn_do_transaction = do_transaction, mn_num_threads = num_threads,
                 mn_show_status = (GetProperty props ''status'' ''false'' = ''true''), mn_status_interval = status_interval,
                 mn_status_interval_us = status_interval_us, mn_sec_skip = sec_skip\<rparr>, wc,
               \<lparr>mn_wl = wl, mn_static = mc_static mc, mn_ms = ms, mn_dbs = dbs, mn_files = files\<rparr>))))))
     | _ \<Rightarrow> Inl (Exit 1))))"

text \<open>The loop that creates the rate limiters and starts the clients.\<close>

fun start_threads ::
    "(nat \<Rightarrow> tls) \<Rightarrow> (nat \<Rightarrow> int) \<Rightarrow> thread_args list \<Rightarrow> ('l \<times> Timer \<times> nat) list \<Rightarrow> ('l, 't) thread list res" where
  "start_threads tls steady (a # as) ((l, timer, calls) # ds) =
     andThen (case ta_rate a of
                None \<Rightarrow> Inr None
              | Some r \<Rightarrow> andThen (new_RateLimiter r r (steady 0)) (\<lambda>rlim. Inr (Some rlim))) (\<lambda>rlim.
     andThen (start_threads tls steady as ds) (\<lambda>ths.
     Inr (\<lparr>th_args = a, th_own = l, th_timer = timer, th_calls = calls, th_tls = tls (nat (ta_thread_id a)), th_rlim = rlim, th_state = TReady\<rparr> # ths)))"
| "start_threads tls steady _ _ = Inr []"

definition main_phase ::
    "('e, 'd, 'g, 'l, 't) machine \<Rightarrow> ('e, 'd, 't) wl_class \<Rightarrow> settings \<Rightarrow> BasicMeasurements \<Rightarrow> bool \<Rightarrow> ('e, 'd, 't) phase" where
  "main_phase mc wc mn ms loading =
     (let db = (\<lambda>i. fst (the (create_db mc (mn_props mn) ms i))) in
      \<lparr>ph_sys = mc_sys mc loading, ph_steady = mc_steady mc loading, ph_db = db, ph_wl = (\<lambda>i. wc_ops wc (mn_props mn) (db i)),
       ph_props = mn_props mn, ph_sec_skip = mn_sec_skip mn, ph_interval = mn_status_interval mn, ph_interval_us = mn_status_interval_us mn\<rparr>)"

text \<open>
  What the two phases have in common, from the construction of the latches to the summary. A schedule after which a thread has not ended is one
  during which \<^verbatim>\<open>main\<close> still waits: the result is \<open>None\<close>. A client that ends with an exception ends the run with it.
\<close>

definition start_pool ::
    "settings \<Rightarrow> ('l, 't) thread list \<Rightarrow> rate_thread \<Rightarrow> ('e, 'g, 'l) main_state \<Rightarrow> ('e, 'g, 'l, 't) pool" where
  "start_pool mn ths rate st =
     \<lparr>po_wl = mn_wl st, po_static = mn_static st, po_ms = mn_ms st, po_latch = new_CountDownLatch (mn_num_threads mn),
      po_init_latch = new_CountDownLatch (mn_num_threads mn), po_tick = 0, po_threads = ths,
      po_status = (if mn_show_status mn then StatusWait else StatusOff), po_msgs = [], po_rate = rate\<rparr>"

definition run_phase ::
    "('e, 'd, 'g, 'l, 't) machine \<Rightarrow> ('e, 'd, 't) wl_class \<Rightarrow> settings \<Rightarrow> bool \<Rightarrow> thread_args list \<Rightarrow> rate_thread
     \<Rightarrow> ('e, 'g, 'l) main_state \<Rightarrow> ('e, 'g, 'l) main_state res option" where
  "run_phase mc wc mn loading targs rate st =
     (case start_threads (mc_tls mc loading) (mc_steady mc loading) targs (mn_dbs st) of
        Inl e \<Rightarrow> Some (Inl e)
      | Inr ths \<Rightarrow>
          (case run_schedule (mc_class mc) (main_phase mc wc mn (mn_ms st) loading) (mc_schedule mc loading) (start_pool mn ths rate st) of
             None \<Rightarrow> None
           | Some (Inl e) \<Rightarrow> Some (Inl e)
           | Some (Inr p) \<Rightarrow>
               (case phase_sum p of
                  None \<Rightarrow> None
                | Some total_oks \<Rightarrow>
                    Some (andThen (make_summary mc (mn_props mn) loading (mn_sec_skip mn) total_oks (po_ms p)) (\<lambda>node.
                      Inr \<lparr>mn_wl = po_wl p, mn_static = po_static p, mn_ms = po_ms p,
                        mn_dbs = map (\<lambda>th. (th_own th, th_timer th, th_calls th)) (po_threads p),
                        mn_files = SaveRunSummary mc (mn_props mn) (mc_now mc loading) node (mn_files st)\<rparr>)))))"

definition load_phase ::
    "('e, 'd, 'g, 'l, 't) machine \<Rightarrow> ('e, 'd, 't) wl_class \<Rightarrow> settings \<Rightarrow> ('e, 'g, 'l) main_state \<Rightarrow> ('e, 'g, 'l) main_state res option" where
  "load_phase mc wc mn st =
     (case andThen (stoi (GetProperty (mn_props mn) ''limit.ops'' ''0'')) (\<lambda>ops_limit.
           andThen (property_at (mn_props mn) ''recordcount'') (\<lambda>rc.
           andThen (stoi rc) (\<lambda>total_ops.
           Inr (load_threads (mn_num_threads mn) total_ops ops_limit (mn_do_transaction mn)
             (\<lambda>i. db_ReInitBeforeTransaction (fst (the (create_db mc (mn_props mn) (mn_ms st) i)))))))) of
        Inl e \<Rightarrow> Some (Inl e)
      | Inr targs \<Rightarrow> run_phase mc wc mn True targs RateOff st)"

definition transaction_phase ::
    "('e, 'd, 'g, 'l, 't) machine \<Rightarrow> ('e, 'd, 't) wl_class \<Rightarrow> settings \<Rightarrow> ('e, 'g, 'l) main_state \<Rightarrow> ('e, 'g, 'l) main_state res option" where
  "transaction_phase mc wc mn st =
     (let rate_file = GetProperty (mn_props mn) ''limit.file'' '''' in
      case andThen (stoi (GetProperty (mn_props mn) ''limit.ops'' ''0'')) (\<lambda>ops_limit.
           andThen (property_at (mn_props mn) ''operationcount'') (\<lambda>oc.
           andThen (stoi oc) (\<lambda>total_ops.
           Inr (run_threads (mn_num_threads mn) total_ops ops_limit rate_file (mn_do_load mn)
             (\<lambda>i. db_ReInitBeforeTransaction (fst (the (create_db mc (mn_props mn) (mn_ms st) i)))))))) of
        Inl e \<Rightarrow> Some (Inl e)
      | Inr targs \<Rightarrow>
          run_phase mc wc mn False targs
            (if rate_file = '''' then RateOff else case mc_rates mc rate_file of None \<Rightarrow> RateLoop [] True | Some (ns, rest) \<Rightarrow> RateLoop ns rest) st)"

text \<open>
  The files at the end and how the program ended, \<open>None\<close> for a return from \<^verbatim>\<open>main\<close>. The outer \<open>None\<close>: the program is still waiting for a thread
  when the schedule ends.
\<close>

definition ycsbc_main ::
    "('e, 'd, 'g, 'l, 't) machine \<Rightarrow> summaries \<Rightarrow> string list \<Rightarrow> (summaries \<times> exn option) option" where
  "ycsbc_main mc files args =
     (case main_setup mc files args of
        Inl e \<Rightarrow> Some (files, Some e)
      | Inr (mn, wc, st) \<Rightarrow>
          (case (if mn_do_load mn then load_phase mc wc mn st else Some (Inr st)) of
             None \<Rightarrow> None
           | Some (Inl e) \<Rightarrow> Some (files, Some e)
           | Some (Inr st) \<Rightarrow>
               (let st = st\<lparr>mn_ms := Basic_Reset (mn_ms st)\<rparr> in
                case stoi (GetProperty (mn_props mn) ''sleepafterload'' ''0'') of
                  Inl e \<Rightarrow> Some (mn_files st, Some e)
                | Inr _ \<Rightarrow>
                    (case (if mn_do_transaction mn then transaction_phase mc wc mn st else Some (Inr st)) of
                       None \<Rightarrow> None
                     | Some (Inl e) \<Rightarrow> Some (mn_files st, Some e)
                     | Some (Inr st') \<Rightarrow> Some (mn_files st', None)))))"

section \<open>A phase that succeeds\<close>

lemma start_threads_unlimited:
  assumes "length targs = length ds" and "\<forall>a \<in> set targs. ta_rate a = None"
  shows "start_threads tls steady targs ds = Inr (map2 (\<lambda>a (l, timer, calls). \<lparr>th_args = a, th_own = l, th_timer = timer, th_calls = calls,
     th_tls = tls (nat (ta_thread_id a)), th_rlim = None, th_state = TReady\<rparr>) targs ds)"
  using assms by (induction tls steady targs ds rule: start_threads.induct) auto

context phase_pool
begin

lemma start_pool_ok:
  assumes targs: "length (mn_dbs st) = length targs" "\<forall>a \<in> set targs. phase_args b a \<and> ta_rate a = None" "sum_list (map (\<lambda>a. nat (ta_num_ops a)) targs) = n"
    and tls: "\<forall>i. tls_ok (tls i)" and dbs: "\<forall>d \<in> set (mn_dbs st). if b then fresh_own (fst d) else own_ok (fst d)"
    and S: "S (if b then 0 else length targs) n (mn_wl st) (mn_static st) (mn_ms st)"
  shows "\<exists>ths :: ('l, 't) thread list. start_threads tls steady targs (mn_dbs st) = Inr ths \<and> pool_ok b fresh_own own_ok n S (start_pool mn ths RateOff st)
     \<and> map th_args ths = targs \<and> (\<forall>i < length targs. pool_steps (start_pool mn ths RateOff st) i = nat (ta_num_ops (targs ! i)) + 2)"
proof -
  let ?new = "\<lambda>a (l, timer, calls). \<lparr>th_args = a, th_own = l, th_timer = timer, th_calls = calls, th_tls = tls (nat (ta_thread_id a)),
     th_rlim = None, th_state = TReady :: 't tstate\<rparr>"
  define ths where "ths = map2 ?new targs (mn_dbs st)"
  let ?p = "start_pool mn ths RateOff st"
  have start: "start_threads tls steady targs (mn_dbs st) = Inr ths"
    unfolding ths_def using targs by (intro start_threads_unlimited) auto
  have p: "po_threads ?p = ths" "po_wl ?p = mn_wl st" "po_static ?p = mn_static st" "po_ms ?p = mn_ms st" by (simp_all add: start_pool_def)
  have args: "map th_args ths = targs" unfolding ths_def using targs(1) by (intro nth_equalityI) (auto simp: split_beta)
  have l: "length ths = length targs" using arg_cong [OF args, of length] by simp
  have all: "\<forall>th \<in> set ths. thread_ok b fresh_own own_ok th \<and> th_state th = TReady"
  proof
    fix th assume th: "th \<in> set ths"
    obtain a d where ad: "(a, d) \<in> set (zip targs (mn_dbs st))" "th = ?new a d" using th unfolding ths_def by auto
    have "phase_args b a" "if b then fresh_own (fst d) else own_ok (fst d)"
      using set_zip_leftD [OF ad(1)] set_zip_rightD [OF ad(1)] targs(2) dbs by blast+
    then show "thread_ok b fresh_own own_ok th \<and> th_state th = TReady" using ad(2) tls by (cases d) (simp add: thread_ok_def split: if_splits)
  qed
  have "sum_list (map (\<lambda>th. nat (ta_num_ops (th_args th))) ths) = n"
    using targs(3) arg_cong [OF args, of "map (\<lambda>a. nat (ta_num_ops a))"] by (simp only: map_map comp_def)
  note ready = ready_pool [of ?p, unfolded p l, OF all this S]
  have "th_args (ths ! i) = targs ! i" if "i < length targs" for i using arg_cong [OF args, of "\<lambda>xs. xs ! i"] that l by simp
  then show ?thesis using start args ready by auto
qed

text \<open>A phase never fails: either a thread has not ended when the schedule does, or the summary reports all operations.\<close>

lemma run_phase_safe:
  fixes mc :: "('e, 'd, 'g, 'l, 't) machine"
  assumes "mc_class mc = cls" and "main_phase mc wc mn (mn_ms st) b = ph" and "property_at (mn_props mn) ''dbname'' = Inr name"
    and targs: "length (mn_dbs st) = length targs" "\<forall>a \<in> set targs. phase_args b a \<and> ta_rate a = None" "sum_list (map (\<lambda>a. nat (ta_num_ops a)) targs) = n"
    and tls: "\<forall>i. tls_ok (mc_tls mc b i)" and dbs: "\<forall>d \<in> set (mn_dbs st). if b then fresh_own (fst d) else own_ok (fst d)"
    and S: "S (if b then 0 else length targs) n (mn_wl st) (mn_static st) (mn_ms st)"
    and some: "run_phase mc wc mn b targs RateOff st = Some r"
  shows "\<exists>st' node. r = Inr st' \<and> rs_operations node = int n \<and> rs_measured node = Basic_Emit (mn_ms st')
     \<and> mn_files st' = SaveRunSummary mc (mn_props mn) (mc_now mc b) node (mn_files st) \<and> length (mn_dbs st') = length targs
     \<and> S (if b then length targs else 0) 0 (mn_wl st') (mn_static st') (mn_ms st') \<and> (b \<longrightarrow> (\<forall>d \<in> set (mn_dbs st'). own_ok (fst d)))"
proof -
  obtain ths :: "('l, 't) thread list" where ths: "start_threads (mc_tls mc b) (mc_steady mc b) targs (mn_dbs st) = Inr ths"
    "pool_ok b fresh_own own_ok n S (start_pool mn ths RateOff st)" "map th_args ths = targs"
    using start_pool_ok [OF targs tls dbs S] by blast
  have p: "po_rate (start_pool mn ths RateOff st) = RateOff" "po_threads (start_pool mn ths RateOff st) = ths" by (simp_all add: start_pool_def)
  obtain p' where p': "run_schedule cls ph (mc_schedule mc b) (start_pool mn ths RateOff st) = Some (Inr p')" "pool_ok b fresh_own own_ok n S p'"
    "map th_args (po_threads p') = targs"
    using schedule_ok [OF ths(2) p(1), of "mc_schedule mc b"] ths(3) p(2) by auto
  obtain k where k: "phase_sum p' = Some k" using some ths(1) p'(1) assms(1,2) by (cases "phase_sum p'") (simp_all add: run_phase_def)
  note e = phase_result [OF p'(2) k]
  have len: "length (po_threads p') = length targs" using arg_cong [OF p'(3), of length] by simp
  have "S (if b then length targs else 0) 0 (po_wl p') (po_static p') (po_ms p')" "b \<Longrightarrow> th \<in> set (po_threads p') \<Longrightarrow> own_ok (th_own th)" for th
    using done_pool [OF p'(2) conjunct2 [OF e]] unfolding len by blast+
  moreover obtain node where "make_summary mc (mn_props mn) b (mn_sec_skip mn) (int n) (po_ms p') = Inr node" "rs_operations node = int n"
    "rs_measured node = Basic_Emit (po_ms p')" using assms(3) by (simp add: make_summary_def Let_def)
  ultimately show ?thesis using some p'(1) k e len unfolding run_phase_def ths(1) assms(1,2) by auto
qed

text \<open>With enough turns for every client it has a summary.\<close>

lemma run_phase_ends:
  fixes mc :: "('e, 'd, 'g, 'l, 't) machine"
  assumes "mc_class mc = cls" and "main_phase mc wc mn (mn_ms st) b = ph" and "\<not> mn_show_status mn"
    and pool: "length (mn_dbs st) = length targs" "\<forall>a \<in> set targs. phase_args b a \<and> ta_rate a = None" "sum_list (map (\<lambda>a. nat (ta_num_ops a)) targs) = n"
      "\<forall>i. tls_ok (mc_tls mc b i)" "\<forall>d \<in> set (mn_dbs st). if b then fresh_own (fst d) else own_ok (fst d)"
      "S (if b then 0 else length targs) n (mn_wl st) (mn_static st) (mn_ms st)"
    and turns: "\<forall>i < length targs. nat (ta_num_ops (targs ! i)) + 2 \<le> count_list (mc_schedule mc b) (Client i)"
  shows "\<exists>r. run_phase mc wc mn b targs RateOff st = Some r"
proof -
  obtain ths :: "('l, 't) thread list" where ths: "start_threads (mc_tls mc b) (mc_steady mc b) targs (mn_dbs st) = Inr ths"
    "pool_ok b fresh_own own_ok n S (start_pool mn ths RateOff st)" "map th_args ths = targs"
    "\<forall>i < length targs. pool_steps (start_pool mn ths RateOff st) i = nat (ta_num_ops (targs ! i)) + 2"
    using start_pool_ok [OF pool] by blast
  have p: "po_rate (start_pool mn ths RateOff st) = RateOff" "po_status (start_pool mn ths RateOff st) = StatusOff"
    "length (po_threads (start_pool mn ths RateOff st)) = length targs"
    using assms(3) arg_cong [OF ths(3), of length] by (simp_all add: start_pool_def)
  have "\<forall>i < length (po_threads (start_pool mn ths RateOff st)). pool_steps (start_pool mn ths RateOff st) i \<le> count_list (mc_schedule mc b) (Client i)"
    using ths(4) turns p(3) by simp
  from phase_complete [OF ths(2) p(1,2) this] show ?thesis unfolding run_phase_def ths(1) assms(1,2) by auto
qed

end

section \<open>The workload and the database that main makes\<close>

definition core_class :: "'e env \<Rightarrow> Operation \<Rightarrow> int \<Rightarrow> ('e, 'd, unit) wl_class" where
  "core_class env x y = \<lparr>wc_new = new_CoreWorkload x y, wc_Init = CoreWorkload_Init env, wc_ops = (\<lambda>_. CoreWorkloadOps env)\<rparr>"

lemma stol_zero: "stol ''0'' = Inr 0"
  by (simp add: stol_def parse_long_def skip_sign_def isspace_def is_digit_def dec_val_def digit_val_def int64_ok_def)

lemma create_db_known:
  assumes "property_map props ''dbname'' = Some name" and "mc_dbs mc name = Some (db, d0)"
  shows "create_db mc props ms i = Some (DBWrapper_ops (mc_clock mc i) (mc_wall mc i) basic_report db, new_DBWrapper (db_SetProps db props d0) ms)"
  using assms by (simp add: create_db_def CreateDB_def GetProperty_def)

lemma create_dbs_known:
  assumes "property_map props ''dbname'' = Some name" and "mc_dbs mc name = Some (db, d0)"
  shows "create_dbs mc props ms is = Inr (map (\<lambda>_. (dc_own (mc_class mc) (db_SetProps db props d0), Timer_Start 0, 0)) is)"
  by (induction "is") (simp_all add: create_db_known [OF assms] new_DBWrapper_def)

lemma main_phase_core:
  assumes "property_map (mn_props mn) ''dbname'' = Some name" and "mc_dbs mc name = Some (db, d0)" and "mn_sec_skip mn = 0"
  shows "main_phase mc (core_class env x y) mn ms b = core_phase env db (mc_clock mc) (mc_wall mc) (mc_sys mc b) (mc_steady mc b) (mn_props mn)
     (mn_status_interval mn) (mn_status_interval_us mn)"
  by (simp add: main_phase_def core_phase_def core_class_def create_db_known [OF assms(1,2)] assms(3))

lemma thread_ops_nonneg: "0 \<le> thread_ops (int q) (int t) i"
  by (auto simp: thread_ops_def Let_def cdiv_def simp flip: zdiv_int)

lemma sum_nat_thread_ops:
  assumes "0 < t"
  shows "sum_list (map (\<lambda>i. nat (thread_ops (int q) (int t) (int i))) [0..<t]) = q"
proof -
  have "map int (map (\<lambda>i. nat (thread_ops (int q) (int t) (int i))) [0..<t]) = map (\<lambda>i. thread_ops (int q) (int t) (int i)) [0..<t]"
    by (simp add: thread_ops_nonneg)
  then have "int (sum_list (map (\<lambda>i. nat (thread_ops (int q) (int t) (int i))) [0..<t])) = int q"
    using sum_thread_ops [of "int q" "int t"] assms by (simp only: flip: sum_list_of_nat) simp
  then show ?thesis by simp
qed

lemma phase_threads:
  assumes "0 < t"
  shows "length (load_threads (int t) (int n) 0 True (\<lambda>_. False)) = t" "length (run_threads (int t) (int n) 0 [] True (\<lambda>_. False)) = t"
    and "\<forall>a \<in> set (load_threads (int t) (int n) 0 True (\<lambda>_. False)). phase_args True a \<and> ta_rate a = None"
    and "\<forall>a \<in> set (run_threads (int t) (int n) 0 [] True (\<lambda>_. False)). phase_args False a \<and> ta_rate a = None"
    and "sum_list (map (\<lambda>a. nat (ta_num_ops a)) (load_threads (int t) (int n) 0 True (\<lambda>_. False))) = n"
    and "sum_list (map (\<lambda>a. nat (ta_num_ops a)) (run_threads (int t) (int n) 0 [] True (\<lambda>_. False))) = n"
    and "i < t \<Longrightarrow> ta_num_ops (load_threads (int t) (int n) 0 True (\<lambda>_. False) ! i) = thread_ops (int n) (int t) (int i)"
    and "i < t \<Longrightarrow> ta_num_ops (run_threads (int t) (int n) 0 [] True (\<lambda>_. False) ! i) = thread_ops (int n) (int t) (int i)"
  using sum_nat_thread_ops [OF assms, of n]
  by (auto simp: load_threads_def run_threads_def phase_args_def thread_ops_nonneg comp_def)

lemma emit_no_failures:
  assumes "no_failures ms" and "op \<in> failed_ops"
  shows "kOperationString op \<notin> fst ` set (Basic_Emit ms)"
  using assms by (auto simp: no_failures_def Basic_Emit_def kOperationString_inject)

lemma no_failures_Reset: "no_failures ms \<Longrightarrow> no_failures (Basic_Reset ms)"
  by (simp add: no_failures_def Basic_Reset_def)

section \<open>The whole program on a shared backend\<close>

text \<open>The configuration: the load phase and, with \<open>tx\<close>, the transaction phase, \<open>t\<close> threads, a known database, the records and operations of \<open>given_props\<close>, and defaults for the rest.\<close>

definition main_props :: "bool \<Rightarrow> nat \<Rightarrow> nat \<Rightarrow> nat \<Rightarrow> string \<Rightarrow> string \<Rightarrow> Properties \<Rightarrow> bool" where
  "main_props tx t n q d name props \<longleftrightarrow> given_props True n q d props \<and> property_map props ''doload'' = Some ''true''
     \<and> property_map props ''dotransaction'' = (if tx then Some ''true'' else None) \<and> stoi (GetProperty props ''threadcount'' ''1'') = Inr (int t)
     \<and> property_map props ''dbname'' = Some name
     \<and> (\<forall>key \<in> {''measurementtype'', ''status'', ''status.interval'', ''status.intervalus'', ''secskip'', ''limit.ops'', ''limit.file'',
          ''sleepafterload'', ''workload'', ''yamlname''}. property_map props key = None)"

definition summary_name :: "('e, 'd, 'g, 'l, 't) machine \<Rightarrow> bool \<Rightarrow> string" where
  "summary_name mc b = mc_put_time mc ''%Y%m%d%s'' (mc_now mc b) @ ''.yml''"

lemma main_propsD:
  assumes "main_props tx t n q d name props"
  shows "given_props True n q d props" "GetProperty props ''doload'' ''false'' = ''true''" "GetProperty props ''dotransaction'' ''false'' = ''true'' \<longleftrightarrow> tx"
    "stoi (GetProperty props ''threadcount'' ''1'') = Inr (int t)" "property_map props ''dbname'' = Some name" "property_at props ''dbname'' = Inr name"
    "GetProperty props ''measurementtype'' v = v" "GetProperty props ''status'' v = v" "GetProperty props ''status.interval'' v = v"
    "GetProperty props ''status.intervalus'' v = v" "GetProperty props ''secskip'' v = v" "GetProperty props ''limit.ops'' v = v"
    "GetProperty props ''limit.file'' v = v" "GetProperty props ''sleepafterload'' v = v" "GetProperty props ''workload'' v = v"
    "GetProperty props ''yamlname'' v = v" "property_at props ''recordcount'' = Inr (to_string n)" "property_at props ''operationcount'' = Inr (to_string q)"
  using assms by (simp_all add: main_props_def given_props_def GetProperty_def property_at_def)

text \<open>A machine on which the core workload and the backend \<open>db\<close> are registered, with fresh thread-local variables.\<close>

definition machine_ok ::
    "'e env \<Rightarrow> Operation \<Rightarrow> int \<Rightarrow> string \<Rightarrow> 'd DB \<Rightarrow> 'd \<Rightarrow> ('e, 'd, 'g, 'l, unit) machine \<Rightarrow> bool" where
  "machine_ok env x y name db d0 mc \<longleftrightarrow> mc_workloads mc ''com.yahoo.ycsb.workloads.CoreWorkload'' = Some (core_class env x y)
     \<and> mc_dbs mc name = Some (db, d0) \<and> tls_ok (mc_main_tls mc) \<and> (\<forall>b i. tls_ok (mc_tls mc b i))"

text \<open>Every client gets its turns in a phase with \<open>n\<close> operations.\<close>

definition fair_phase :: "nat \<Rightarrow> nat \<Rightarrow> actor list \<Rightarrow> bool" where
  "fair_phase t n as \<longleftrightarrow> (\<forall>i < t. nat (thread_ops (int n) (int t) (int i)) + 2 \<le> count_list as (Client i))"

definition bench_settings :: "bool \<Rightarrow> nat \<Rightarrow> Properties \<Rightarrow> settings" where
  "bench_settings tx t props = \<lparr>mn_props = props, mn_do_load = True, mn_do_transaction = tx, mn_num_threads = int t, mn_show_status = False,
         mn_status_interval = 10, mn_status_interval_us = 1000, mn_sec_skip = 0\<rparr>"

lemma main_setup_ok:
  assumes "env_ok env" and "key_dist d" and "3 \<le> n" and "n < 2 ^ 31" and "q < 2 ^ 31" and "n + q < unat kMaxNumItems"
    and m: "machine_ok env x y name db d0 mc" and p: "main_props tx t n q d name props" and "ParseCommandLine (mc_input mc) args no_properties = Inr props"
  shows "\<exists>wl. main_setup mc files args = Inr (bench_settings tx t props, core_class env x y,
       \<lparr>mn_wl = wl, mn_static = mc_static mc, mn_ms = new_BasicMeasurements 0,
         mn_dbs = replicate t (dc_own (mc_class mc) (db_SetProps db props d0), Timer_Start 0, 0), mn_files = files\<rparr>)
     \<and> wl_ok q n wl \<and> settled n (wl_transaction_insert_key_sequence wl) \<and> wl_insert_key_sequence wl = Some (new_CounterGenerator 0)
     \<and> (\<forall>c. wl_call wl c \<longrightarrow> row_call (field_names ''field'' 10) c)"
proof -
  note pd = main_propsD [OF p]
  have mm: "mc_workloads mc ''com.yahoo.ycsb.workloads.CoreWorkload'' = Some (core_class env x y)" "mc_dbs mc name = Some (db, d0)" "tls_ok (mc_main_tls mc)"
    using m by (simp_all add: machine_ok_def)
  obtain wl t' where w: "CoreWorkload_Init env props (mc_main_tls mc) (new_CoreWorkload x y) = Inr (wl, t')" "wl_ok q n wl"
    "settled n (wl_transaction_insert_key_sequence wl)" "wl_insert_key_sequence wl = Some (new_CounterGenerator 0)"
    "\<forall>c. wl_call wl c \<longrightarrow> row_call (field_names ''field'' 10) c"
    using table_Init [OF assms(1) mm(3) assms(2-6) pd(1), of x y] by blast
  have "create_dbs mc props ms [0..<t] = Inr (replicate t (dc_own (mc_class mc) (db_SetProps db props d0), Timer_Start 0, 0))" for ms
    by (simp add: create_dbs_known [OF pd(5) mm(2)] map_replicate_const)
  moreover have "CreateMeasurements (None :: unit hdr_lib option) props = Inr (Some (Basic (new_BasicMeasurements 0)))"
    by (simp add: CreateMeasurements_def pd stol_zero Let_def)
  moreover have "CreateWorkload (mc_workloads mc) props = Some (core_class env x y)" by (simp add: CreateWorkload_def pd mm)
  ultimately show ?thesis using w assms(9)
    by (simp add: main_setup_def pd default_numbers stol_zero core_class_def bench_settings_def)
qed

text \<open>On such a machine the two phases start their clients with these arguments and functions.\<close>

lemma bench_phases:
  assumes p: "main_props tx t n q d name props" and db: "mc_dbs mc name = Some (db, d0)" "\<not> db_ReInitBeforeTransaction db" and "n < 2 ^ 31" and "q < 2 ^ 31"
  shows "main_phase mc (core_class env x y) (bench_settings tx t props) ms b =
      core_phase env db (mc_clock mc) (mc_wall mc) (mc_sys mc b) (mc_steady mc b) props 10 1000"
    and "load_phase mc wc (bench_settings tx t props) st =
      run_phase mc wc (bench_settings tx t props) True (load_threads (int t) (int n) 0 tx (\<lambda>_. False)) RateOff st"
    and "transaction_phase mc wc (bench_settings tx t props) st =
      run_phase mc wc (bench_settings tx t props) False (run_threads (int t) (int q) 0 [] True (\<lambda>_. False)) RateOff st"
proof -
  note pd = main_propsD [OF p]
  show "main_phase mc (core_class env x y) (bench_settings tx t props) ms b =
      core_phase env db (mc_clock mc) (mc_wall mc) (mc_sys mc b) (mc_steady mc b) props 10 1000"
    using main_phase_core [of "bench_settings tx t props" name mc db d0 env x y ms b] pd(5) db(1) by (simp add: bench_settings_def)
  have reinit: "(\<lambda>i. db_ReInitBeforeTransaction (fst (the (create_db mc props ms i)))) = (\<lambda>_. False)" for ms
    using db(2) by (simp add: create_db_known [OF pd(5) db(1)] DBWrapper_ops_def)
  show "load_phase mc wc (bench_settings tx t props) st =
      run_phase mc wc (bench_settings tx t props) True (load_threads (int t) (int n) 0 tx (\<lambda>_. False)) RateOff st"
    "transaction_phase mc wc (bench_settings tx t props) st =
      run_phase mc wc (bench_settings tx t props) False (run_threads (int t) (int q) 0 [] True (\<lambda>_. False)) RateOff st"
    using assms(4,5) by (simp_all add: load_phase_def transaction_phase_def bench_settings_def pd reinit default_numbers stoi_to_string)
qed

lemma bench_settings_simps [simp]:
  "mn_props (bench_settings tx t props) = props" "mn_do_load (bench_settings tx t props)" "mn_do_transaction (bench_settings tx t props) = tx"
  "\<not> mn_show_status (bench_settings tx t props)"
  by (simp_all add: bench_settings_def)

lemma fair_turns:
  assumes "fair_phase t n as" and "0 < t"
  shows "\<forall>i < length (load_threads (int t) (int n) 0 True (\<lambda>_. False)).
      nat (ta_num_ops (load_threads (int t) (int n) 0 True (\<lambda>_. False) ! i)) + 2 \<le> count_list as (Client i)"
    and "\<forall>i < length (run_threads (int t) (int n) 0 [] True (\<lambda>_. False)).
      nat (ta_num_ops (run_threads (int t) (int n) 0 [] True (\<lambda>_. False) ! i)) + 2 \<le> count_list as (Client i)"
  using assms phase_threads(1,2,7,8) [OF assms(2), where n = n] by (simp_all add: fair_phase_def)

context shared_store
begin

text \<open>What the load phase leaves is what the transaction phase needs.\<close>

lemma loaded_then_run:
  "load_shared env adm open_by stored q n c 0 w g ms \<Longrightarrow> run_shared env adm open_by stored c q w g (Basic_Reset ms)"
  by (auto simp: load_shared_def run_shared_def no_failures_Reset)

text \<open>The two phases, when the machine and the properties are as above and every thread starts where it should.\<close>

lemma load_phase_safe:
  fixes mc :: "('e, 'd, 'g, 'l, unit) machine"
  assumes t: "0 < t" and m: "machine_ok env x y name db d0 mc" "mc_class mc = cls" "\<not> db_ReInitBeforeTransaction db"
    and p: "main_props True t n q d name props" "n < 2 ^ 31" "q < 2 ^ 31"
    and st: "length (mn_dbs st) = t" "\<forall>d \<in> set (mn_dbs st). fresh_own (fst d)" "load_shared env adm open_by stored q n 0 n (mn_wl st) (mn_static st) (mn_ms st)"
  shows "load_phase mc (core_class env x y) (bench_settings True t props) st = Some r \<Longrightarrow> \<exists>st' node. r = Inr st' \<and> rs_operations node = int n
     \<and> rs_measured node = Basic_Emit (mn_ms st') \<and> mn_files st' = SaveRunSummary mc props (mc_now mc True) node (mn_files st) \<and> length (mn_dbs st') = t
     \<and> load_shared env adm open_by stored q n t 0 (mn_wl st') (mn_static st') (mn_ms st') \<and> (\<forall>d \<in> set (mn_dbs st'). own_ok (fst d))"
    and "fair_phase t n (mc_schedule mc True) \<Longrightarrow> \<exists>r. load_phase mc (core_class env x y) (bench_settings True t props) st = Some r"
proof -
  have mm: "mc_dbs mc name = Some (db, d0)" "\<forall>i. tls_ok (mc_tls mc True i)" using m by (simp_all add: machine_ok_def)
  note ph = bench_phases [OF p(1) mm(1) m(3) p(2,3)] and ta = phase_threads(1,3,5) [OF t, where n = n]
  have nm: "property_at (mn_props (bench_settings True t props)) ''dbname'' = Inr name" using main_propsD(6) [OF p(1)] by simp
  show "load_phase mc (core_class env x y) (bench_settings True t props) st = Some r \<Longrightarrow> \<exists>st' node. r = Inr st' \<and> rs_operations node = int n
     \<and> rs_measured node = Basic_Emit (mn_ms st') \<and> mn_files st' = SaveRunSummary mc props (mc_now mc True) node (mn_files st) \<and> length (mn_dbs st') = t
     \<and> load_shared env adm open_by stored q n t 0 (mn_wl st') (mn_static st') (mn_ms st') \<and> (\<forall>d \<in> set (mn_dbs st'). own_ok (fst d))"
    using load.run_phase_safe [OF m(2) ph(1) nm _ ta(2,3) mm(2), where st = st and r = r] st unfolding ph(2) by (simp add: ta(1))
  show "\<exists>r. load_phase mc (core_class env x y) (bench_settings True t props) st = Some r" if fair: "fair_phase t n (mc_schedule mc True)"
    using load.run_phase_ends [OF m(2) ph(1) bench_settings_simps(4) _ ta(2,3) mm(2) _ _ fair_turns(1) [OF fair t], where st = st] st unfolding ph(2) by (simp add: ta(1))
qed

lemma transaction_phase_safe:
  fixes mc :: "('e, 'd, 'g, 'l, unit) machine"
  assumes t: "0 < t" and m: "machine_ok env x y name db d0 mc" "mc_class mc = cls" "\<not> db_ReInitBeforeTransaction db"
    and p: "main_props True t n q d name props" "n < 2 ^ 31" "q < 2 ^ 31"
    and st: "length (mn_dbs st) = t" "\<forall>d \<in> set (mn_dbs st). own_ok (fst d)" "run_shared env adm open_by stored t q (mn_wl st) (mn_static st) (mn_ms st)"
  shows "transaction_phase mc (core_class env x y) (bench_settings True t props) st = Some r \<Longrightarrow> \<exists>st' node. r = Inr st' \<and> rs_operations node = int q
     \<and> rs_measured node = Basic_Emit (mn_ms st') \<and> mn_files st' = SaveRunSummary mc props (mc_now mc False) node (mn_files st)
     \<and> run_shared env adm open_by stored 0 0 (mn_wl st') (mn_static st') (mn_ms st')"
    and "fair_phase t q (mc_schedule mc False) \<Longrightarrow> \<exists>r. transaction_phase mc (core_class env x y) (bench_settings True t props) st = Some r"
proof -
  have mm: "mc_dbs mc name = Some (db, d0)" "\<forall>i. tls_ok (mc_tls mc False i)" using m by (simp_all add: machine_ok_def)
  note ph = bench_phases [OF p(1) mm(1) m(3) p(2,3)] and ta = phase_threads(2,4,6) [OF t, where n = q]
  have nm: "property_at (mn_props (bench_settings True t props)) ''dbname'' = Inr name" using main_propsD(6) [OF p(1)] by simp
  show "transaction_phase mc (core_class env x y) (bench_settings True t props) st = Some r \<Longrightarrow> \<exists>st' node. r = Inr st' \<and> rs_operations node = int q
     \<and> rs_measured node = Basic_Emit (mn_ms st') \<and> mn_files st' = SaveRunSummary mc props (mc_now mc False) node (mn_files st)
     \<and> run_shared env adm open_by stored 0 0 (mn_wl st') (mn_static st') (mn_ms st')"
    using run.run_phase_safe [OF m(2) ph(1) nm _ ta(2,3) mm(2), where st = st and r = r] st unfolding ph(3) by (simp add: ta(1)) blast
  show "\<exists>r. transaction_phase mc (core_class env x y) (bench_settings True t props) st = Some r" if fair: "fair_phase t q (mc_schedule mc False)"
    using run.run_phase_ends [OF m(2) ph(1) bench_settings_simps(4) _ ta(2,3) mm(2) _ _ fair_turns(2) [OF fair t], where st = st] st unfolding ph(3) by (simp add: ta(1))
qed

text \<open>The program as a whole: it never fails, and it ends when both schedules give the clients their turns.\<close>

lemma main_run:
  fixes mc :: "('e, 'd, 'g, 'l, unit) machine"
  assumes "env_ok env" and "key_dist d" and "3 \<le> n" and "n < 2 ^ 31" and "q < 2 ^ 31" and "n + q < unat kMaxNumItems" and t: "0 < t"
    and m: "machine_ok env x y name db d0 mc" "mc_class mc = cls" and p: "main_props True t n q d name props"
    and args: "ParseCommandLine (mc_input mc) args no_properties = Inr props"
    and backend: "open_by 0 (mc_static mc)" "fresh_own (dc_own cls (db_SetProps db props d0))" "\<not> db_ReInitBeforeTransaction db"
    and adm: "\<forall>c. row_call (field_names ''field'' 10) c \<longrightarrow> adm c"
  shows "ycsbc_main mc files args = Some r \<Longrightarrow> \<exists>s1 s2. r = (files(summary_name mc True \<mapsto> s1, summary_name mc False \<mapsto> s2), None)
     \<and> rs_operations s1 = int n \<and> rs_operations s2 = int q
     \<and> (\<forall>s \<in> {s1, s2}. \<forall>op \<in> failed_ops. kOperationString op \<notin> fst ` set (rs_measured s))"
    and "fair_phase t n (mc_schedule mc True) \<Longrightarrow> fair_phase t q (mc_schedule mc False) \<Longrightarrow> ycsbc_main mc files args \<noteq> None"
proof -
  let ?mn = "bench_settings True t props" and ?wc = "core_class env x y"
  note ok = t m backend(3) p assms(4,5) and pd = main_propsD(14,16) [OF p]
  obtain st where made: "main_setup mc files args = Inr (?mn, ?wc, st)" and st: "length (mn_dbs st) = t" "\<forall>d \<in> set (mn_dbs st). fresh_own (fst d)"
    "load_shared env adm open_by stored q n 0 n (mn_wl st) (mn_static st) (mn_ms st)" and files: "mn_files st = files"
    using main_setup_ok [OF assms(1-6) m(1) p args, of files] m(2) backend(1,2) assms(1) adm by (auto simp: load_shared_def no_failures_new)
  note load = load_phase_safe [OF ok st]
  have run: "length (mn_dbs (s\<lparr>mn_ms := Basic_Reset (mn_ms s)\<rparr>)) = t" "\<forall>d \<in> set (mn_dbs (s\<lparr>mn_ms := Basic_Reset (mn_ms s)\<rparr>)). own_ok (fst d)"
    "run_shared env adm open_by stored t q (mn_wl (s\<lparr>mn_ms := Basic_Reset (mn_ms s)\<rparr>)) (mn_static (s\<lparr>mn_ms := Basic_Reset (mn_ms s)\<rparr>))
      (mn_ms (s\<lparr>mn_ms := Basic_Reset (mn_ms s)\<rparr>))" if "load_phase mc ?wc ?mn st = Some (Inr s)" for s
    using load(1) [OF that] by (auto dest: loaded_then_run)
  show "\<exists>s1 s2. r = (files(summary_name mc True \<mapsto> s1, summary_name mc False \<mapsto> s2), None) \<and> rs_operations s1 = int n \<and> rs_operations s2 = int q
     \<and> (\<forall>s \<in> {s1, s2}. \<forall>op \<in> failed_ops. kOperationString op \<notin> fst ` set (rs_measured s))" if main: "ycsbc_main mc files args = Some r"
  proof -
    obtain r1 where "load_phase mc ?wc ?mn st = Some r1" using main made by (cases "load_phase mc ?wc ?mn st") (simp_all add: ycsbc_main_def)
    with load(1) obtain st1 s1 where l: "load_phase mc ?wc ?mn st = Some (Inr st1)" "rs_operations s1 = int n" "rs_measured s1 = Basic_Emit (mn_ms st1)"
      "mn_files st1 = SaveRunSummary mc props (mc_now mc True) s1 files" "no_failures (mn_ms st1)" using files by (auto simp: load_shared_def)
    let ?st1 = "st1\<lparr>mn_ms := Basic_Reset (mn_ms st1)\<rparr>"
    obtain r2 where "transaction_phase mc ?wc ?mn ?st1 = Some r2"
      using main made l(1) by (cases "transaction_phase mc ?wc ?mn ?st1") (simp_all add: ycsbc_main_def pd default_numbers)
    with transaction_phase_safe(1) [OF ok run [OF l(1)]] obtain st2 s2 where r: "transaction_phase mc ?wc ?mn ?st1 = Some (Inr st2)"
      "rs_operations s2 = int q" "rs_measured s2 = Basic_Emit (mn_ms st2)" "mn_files st2 = SaveRunSummary mc props (mc_now mc False) s2 (mn_files st1)"
      "no_failures (mn_ms st2)" by (auto simp: run_shared_def)
    have "r = (files(summary_name mc True \<mapsto> s1, summary_name mc False \<mapsto> s2), None)"
      using main made l(1,4) r(1,4) by (simp add: ycsbc_main_def pd default_numbers SaveRunSummary_def summary_name_def)
    then show ?thesis using l(2,3,5) r(2,3,5) emit_no_failures by (intro exI [of _ s1] exI [of _ s2]) auto
  qed
  show "ycsbc_main mc files args \<noteq> None" if fair: "fair_phase t n (mc_schedule mc True)" "fair_phase t q (mc_schedule mc False)"
  proof -
    obtain st1 where l: "load_phase mc ?wc ?mn st = Some (Inr st1)" using load(2) [OF fair(1)] load(1) by blast
    obtain r2 where "transaction_phase mc ?wc ?mn (st1\<lparr>mn_ms := Basic_Reset (mn_ms st1)\<rparr>) = Some r2"
      using transaction_phase_safe(2) [OF ok run [OF l] fair(2)] by blast
    then show ?thesis using made l by (cases r2) (simp_all add: ycsbc_main_def pd default_numbers)
  qed
qed

end

section \<open>The whole program on RocksDB\<close>

text \<open>A command line that asks for both phases, and the properties it gives.\<close>

definition bench_args :: "bool \<Rightarrow> nat \<Rightarrow> nat \<Rightarrow> nat \<Rightarrow> string \<Rightarrow> string list" where
  "bench_args tx t n q d = (if tx then [''-run''] else []) @ [''-load'', ''-db'', ''rocksdb'', ''-threads'', to_string t,
     ''-p'', ''recordcount='' @ to_string n, ''-p'', ''operationcount='' @ to_string q, ''-p'', ''requestdistribution='' @ d,
     ''-p'', ''writeallfields=true'', ''-p'', ''rocksdb.dbname=/tmp/ycsb-rocksdb'']"

definition bench_props :: "bool \<Rightarrow> nat \<Rightarrow> nat \<Rightarrow> nat \<Rightarrow> string \<Rightarrow> Properties" where
  "bench_props tx t n q d = \<lparr>property_map = (if tx then [''dotransaction'' \<mapsto> ''true''] else Map.empty)(''doload'' \<mapsto> ''true'', ''dbname'' \<mapsto> ''rocksdb'',
     ''threadcount'' \<mapsto> to_string t, ''recordcount'' \<mapsto> to_string n, ''operationcount'' \<mapsto> to_string q, ''requestdistribution'' \<mapsto> d,
     ''writeallfields'' \<mapsto> ''true'', ''rocksdb.dbname'' \<mapsto> ''/tmp/ycsb-rocksdb'')\<rparr>"

lemma Trim_to_string: "Trim (to_string n) = to_string n"
proof (rule Trim_id)
  have "\<not> isspace c" if "c \<in> set (to_string n)" for c using to_string_digits [of n] that by (auto simp: is_digit_def isspace_def)
  then show "to_string n = [] \<or> \<not> isspace (hd (to_string n)) \<and> \<not> isspace (last (to_string n))" by (cases "to_string n = []") auto
qed

lemma bench_args_parse:
  assumes "key_dist d"
  shows "ParseCommandLine fs (bench_args tx t n q d) no_properties = Inr (bench_props tx t n q d)"
proof -
  have "Trim d = d" using assms by (auto simp: key_dist_def Trim_def isspace_def)
  moreover have "Trim ''true'' = ''true''" "Trim ''/tmp/ycsb-rocksdb'' = ''/tmp/ycsb-rocksdb''" "Trim ''recordcount'' = ''recordcount''"
    "Trim ''operationcount'' = ''operationcount''" "Trim ''requestdistribution'' = ''requestdistribution''" "Trim ''writeallfields'' = ''writeallfields''"
    "Trim ''rocksdb.dbname'' = ''rocksdb.dbname''"
    by (simp_all add: Trim_def isspace_def)
  ultimately show ?thesis
    by (cases tx) (simp_all add: ParseCommandLine_def bench_args_def bench_props_def StrStartWith_def Trim_to_string SetProperty_def no_properties_def)
qed

lemma bench_props_main: "t < 2 ^ 31 \<Longrightarrow> main_props tx t n q d ''rocksdb'' (bench_props tx t n q d)"
  by (simp add: main_props_def given_props_def default_keys_def bench_props_def GetProperty_def stoi_to_string)

section \<open>Properties\<close>

text \<open>A closed store that can be opened with the properties, and whose records are those of the workload.\<close>

definition rd_openable ::
    "('e, 's) rocks_engine \<Rightarrow> 'e rocksdb_lib \<Rightarrow> bool \<Rightarrow> bool \<Rightarrow> ('s \<Rightarrow> string \<rightharpoonup> string) \<Rightarrow> Properties \<Rightarrow> bool list \<times> 's kv_static \<Rightarrow> bool" where
  "rd_openable kv lib um m8 m props g \<longleftrightarrow> kv_ok kv m \<and> st_db (snd g) = NullHandle \<and> st_ref_cnt (snd g) = 0
     \<and> (\<exists>d. Rocksdb_Init kv lib um m8 (NewRocksdbDB props (fst g) (snd g)) = Inr ((), d)
        \<and> all_rows (row_ok (field_names ''field'' 10)) Rocksdb_SerializeRow (rd_store m d))"

lemma rd_openable_open_by:
  "rd_openable kv lib um m8 m props g \<Longrightarrow> rd_open_by kv lib um m8 m (field_names ''field'' 10) props 0 g"
  by (simp add: rd_openable_def rd_open_by_def)

lemma rd_new_object:
  "rd_fresh_own um (field_names ''field'' 10) (bench_props tx t n q d)
     (dc_own rocks_class (db_SetProps (Rocksdb_ops kv lib um m8 ndebug) (bench_props tx t n q d) (NewRocksdbDB no_properties h0 st0)))"
proof -
  have "length (field_names ''field'' 10) = 10" by (simp add: field_names_def)
  then show ?thesis
    by (simp add: rd_fresh_own_def Rocksdb_ops_def NewRocksdbDB_def bench_props_def GetProperty_def default_numbers field_names_distinct)
qed

lemmas rocks_main = rd_shared.main_run [where names = "field_names ''field'' 10", OF _ _ _ _ _ _ _ _ _ bench_props_main bench_args_parse rd_openable_open_by rd_new_object]

lemma rocks_no_reinit: "\<not> db_ReInitBeforeTransaction (Rocksdb_ops kv lib um m8 ndebug)"
  by (simp add: Rocksdb_ops_def)

text \<open>C3: The program end to end on RocksDB, with any number of client threads and any order of their steps. Started with both phases,
  \<open>t\<close> threads, \<open>n\<close> records, \<open>q\<close> operations, a uniform, zipfian or latest request distribution and whole-record updates, on an engine that
  keeps its documented promises and a database that can be opened: for every pair of schedules in which each client gets its turns,
  \<^verbatim>\<open>main\<close> returns. It has written one summary after each phase, the first reports \<open>n\<close> successful operations and the second \<open>q\<close>, and
  neither contains an entry for a failed operation.\<close>

theorem main_succeeds_on_rocksdb:
  fixes mc :: "('e, 's RocksdbDB, bool list \<times> 's kv_static, Properties \<times> RocksFormat option \<times> bool \<times> int, unit) machine"
  assumes "env_ok env" and "key_dist d" and "3 \<le> n" and "n < 2 ^ 31" and "q < 2 ^ 31" and "n + q < unat kMaxNumItems" and "0 < t" and "t < 2 ^ 31"
    and "machine_ok env x y ''rocksdb'' (Rocksdb_ops kv lib um m8 ndebug) (NewRocksdbDB no_properties h0 st0) mc" and "mc_class mc = rocks_class"
    and "rd_openable kv lib um m8 m (bench_props True t n q d) (mc_static mc)"
    and "fair_phase t n (mc_schedule mc True)" and "fair_phase t q (mc_schedule mc False)"
  shows "\<exists>s1 s2. ycsbc_main mc files (bench_args True t n q d) = Some (files(summary_name mc True \<mapsto> s1, summary_name mc False \<mapsto> s2), None)
     \<and> rs_operations s1 = int n \<and> rs_operations s2 = int q
     \<and> (\<forall>s \<in> {s1, s2}. \<forall>op \<in> failed_ops. kOperationString op \<notin> fst ` set (rs_measured s))"
proof -
  note run = rocks_main [OF assms(1-7,9,10,8,2,11) rocks_no_reinit, of files]
  obtain r where "ycsbc_main mc files (bench_args True t n q d) = Some r" using run(2) assms(12,13) by auto
  with run(1) show ?thesis by auto
qed

text \<open>C4: No order of the steps makes the program fail: on the same machine, but for any two schedules whatsoever, fair or not, when \<^verbatim>\<open>main\<close> ends, it
  ends normally, and the two summaries it has written report all operations and no failure. An unfair schedule can only keep it waiting.\<close>

theorem main_never_fails_on_rocksdb:
  fixes mc :: "('e, 's RocksdbDB, bool list \<times> 's kv_static, Properties \<times> RocksFormat option \<times> bool \<times> int, unit) machine"
  assumes "env_ok env" and "key_dist d" and "3 \<le> n" and "n < 2 ^ 31" and "q < 2 ^ 31" and "n + q < unat kMaxNumItems" and "0 < t" and "t < 2 ^ 31"
    and "machine_ok env x y ''rocksdb'' (Rocksdb_ops kv lib um m8 ndebug) (NewRocksdbDB no_properties h0 st0) mc" and "mc_class mc = rocks_class"
    and "rd_openable kv lib um m8 m (bench_props True t n q d) (mc_static mc)"
    and "ycsbc_main mc files (bench_args True t n q d) = Some (files', r)"
  shows "r = None \<and> (\<exists>s1 s2. files' = files(summary_name mc True \<mapsto> s1, summary_name mc False \<mapsto> s2) \<and> rs_operations s1 = int n \<and> rs_operations s2 = int q
     \<and> (\<forall>s \<in> {s1, s2}. \<forall>op \<in> failed_ops. kOperationString op \<notin> fst ` set (rs_measured s)))"
  using rocks_main(1) [OF assms(1-7,9,10,8,2,11) rocks_no_reinit _ assms(12)] by auto

section \<open>Witnesses\<close>

text \<open>A machine with an empty in-memory engine and two clients that take turns.\<close>

definition turns :: "nat \<Rightarrow> actor list" where
  "turns k = concat (replicate k [Client 0, Client 1])"

lemma count_turns: "i < 2 \<Longrightarrow> count_list (turns k) (Client i) = k"
  by (induction k) (auto simp: turns_def)

definition demo_engine :: "(unit, (string \<times> string) list) rocks_engine" where
  "demo_engine = mem_engine\<lparr>kv_Merge := \<lambda>_ _ s. (KvOk, s)\<rparr>"

definition demo_static :: "(string \<times> string) list kv_static" where
  "demo_static = \<lparr>st_db = NullHandle, st_ref_cnt = 0, st_env = []\<rparr>"

definition demo_machine ::
    "(unit, (string \<times> string) list RocksdbDB, bool list \<times> (string \<times> string) list kv_static, Properties \<times> RocksFormat option \<times> bool \<times> int, unit) machine" where
  "demo_machine = \<lparr>mc_input = (\<lambda>_. None),
     mc_dbs = [''rocksdb'' \<mapsto> (Rocksdb_ops demo_engine demo_lib False True True, NewRocksdbDB no_properties [] demo_static)],
     mc_class = rocks_class, mc_static = ([], demo_static), mc_workloads = [''com.yahoo.ycsb.workloads.CoreWorkload'' \<mapsto> core_class demo_env READ 0],
     mc_main_tls = demo_tls, mc_tls = (\<lambda>_ _. demo_tls), mc_schedule = (\<lambda>b. if b then turns 502 else turns 2502), mc_sys = (\<lambda>_. int), mc_steady = (\<lambda>_. int),
     mc_clock = (\<lambda>_. int), mc_wall = (\<lambda>_. int), mc_elapsed = (\<lambda>_. 1), mc_now = (\<lambda>b. if b then 0 else 1),
     mc_put_time = (\<lambda>f now. if now = 0 then ''1'' else ''2''), mc_rates = (\<lambda>_. None)\<rparr>"

lemma demo_openable: "rd_openable demo_engine demo_lib False True map_of (bench_props tx t n q u) (mc_static demo_machine)"
proof -
  have num: "stoi ''-1'' = Inr (- 1)" "stoul ''0'' = Inr 0"
    by (simp_all add: stoi_def stoul_def parse_long_def skip_sign_def isspace_def is_digit_def dec_val_def digit_val_def int32_ok_def)
  have "\<exists>d. Rocksdb_Init demo_engine demo_lib False True (NewRocksdbDB (bench_props tx t n q u) [] demo_static) = Inr ((), d)
      \<and> rd_store map_of d = Map.empty"
    by (simp add: Rocksdb_Init_def Rocksdb_GetOptions_def rks_compression_of_def int_options_def int_option_def bool_option_def table_options_def
        NewRocksdbDB_def bench_props_def GetProperty_def default_numbers num demo_static_def demo_engine_def mem_engine_def throw_unless_ok_def Let_def)
  moreover have "kv_ok demo_engine map_of" using mem_engine_ok by (simp add: kv_ok_def demo_engine_def)
  moreover have "mc_static demo_machine = ([], demo_static)" by (simp add: demo_machine_def)
  ultimately show ?thesis by (auto simp: rd_openable_def demo_static_def all_rows_def)
qed

lemma demo_machine_facts:
  "machine_ok demo_env READ 0 ''rocksdb'' (Rocksdb_ops demo_engine demo_lib False True True) (NewRocksdbDB no_properties [] demo_static) demo_machine"
  "mc_class demo_machine = rocks_class" "summary_name demo_machine True = ''1.yml''" "summary_name demo_machine False = ''2.yml''"
  "fair_phase 2 1000 (mc_schedule demo_machine True)" "fair_phase 2 5000 (mc_schedule demo_machine False)"
  "key_dist ''zipfian''" "1000 + 5000 < unat kMaxNumItems"
  by (auto simp: machine_ok_def demo_machine_def demo_tls_ok summary_name_def fair_phase_def count_turns thread_ops_def cmod_def key_dist_def
      kMaxNumItems_def drop_bit_eq_div)

theorem main_succeeds_on_rocksdb_witness:
  "\<exists>s1 s2. ycsbc_main demo_machine Map.empty (bench_args True 2 1000 5000 ''zipfian'') = Some ([''1.yml'' \<mapsto> s1, ''2.yml'' \<mapsto> s2], None)
     \<and> rs_operations s1 = 1000 \<and> rs_operations s2 = 5000"
  using main_succeeds_on_rocksdb [OF demo_env_ok demo_machine_facts(7) _ _ _ demo_machine_facts(8) _ _ demo_machine_facts(1,2) demo_openable
      demo_machine_facts(5,6), of Map.empty] unfolding demo_machine_facts(3,4) by auto

text \<open>The run of that machine ends, so its outcome is one to which the second theorem applies.\<close>

lemma demo_run_ends: "\<exists>files r. ycsbc_main demo_machine Map.empty (bench_args True 2 1000 5000 ''zipfian'') = Some (files, r)"
  using rocks_main(2) [OF demo_env_ok demo_machine_facts(7) _ _ _ demo_machine_facts(8) _ demo_machine_facts(1,2) _ demo_machine_facts(7)
      demo_openable rocks_no_reinit _ demo_machine_facts(5,6), of Map.empty] by auto

theorem main_never_fails_on_rocksdb_witness:
  "\<exists>files. ycsbc_main demo_machine Map.empty (bench_args True 2 1000 5000 ''zipfian'') = Some (files, None)"
proof -
  obtain files r where "ycsbc_main demo_machine Map.empty (bench_args True 2 1000 5000 ''zipfian'') = Some (files, r)" using demo_run_ends by blast
  with main_never_fails_on_rocksdb [OF demo_env_ok demo_machine_facts(7) _ _ _ demo_machine_facts(8) _ _ demo_machine_facts(1,2) demo_openable this]
  show ?thesis by simp
qed

end
