(* ===== verification/Main_Errors.thy ===== *)
theory Main_Errors
  imports Main_Program
begin

text \<open>
  How the program fails: command lines on which \<^verbatim>\<open>main\<close> of \<^verbatim>\<open>src/core/ycsbc.cc\<close> cannot end normally, and an order of steps in which client
  threads of the load phase use a database that another client has closed.
\<close>

section \<open>Without a database name\<close>

lemma phase_needs_dbname:
  assumes "property_map (mn_props mn) ''dbname'' = None" and "run_phase mc wc mn b targs rate st = Some r"
  shows "\<exists>e. r = Inl e"
  using assms by (auto simp: run_phase_def make_summary_def property_at_def split: sum.splits option.splits)

lemma setup_props:
  assumes "main_setup mc files args = Inr (mn, wc, st)"
  shows "ParseCommandLine (mc_input mc) args no_properties = Inr (mn_props mn)" "mn_do_load mn \<or> mn_do_transaction mn" "mn_files st = files"
  using assms by (auto simp: main_setup_def Let_def andThen_def split: if_splits option.splits sum.splits AnyMeasurements.splits)

section \<open>Properties\<close>

text \<open>C39: Without \<^verbatim>\<open>-db\<close> the program never ends normally, although the usage message names a default: whatever the machine and the order of steps,
  when \<^verbatim>\<open>main\<close> ends it ends with a failure, and it has written no summary. The phases run, but the summary looks the name up with
  \<^verbatim>\<open>at\<close>.\<close>

theorem main_without_dbname_fails:
  assumes "ParseCommandLine (mc_input mc) args no_properties = Inr props" and "property_map props ''dbname'' = None"
    and "ycsbc_main mc files args = Some (files', r)"
  shows "files' = files \<and> r \<noteq> None"
proof (cases "main_setup mc files args")
  case (Inl e)
  then show ?thesis using assms(3) by (auto simp: ycsbc_main_def)
next
  case (Inr x)
  obtain mn wc st where x: "main_setup mc files args = Inr (mn, wc, st)" using Inr by (cases x) auto
  have p: "mn_props mn = props" using setup_props(1) [OF x] assms(1) by simp
  have "load_phase mc wc mn s \<noteq> Some (Inr s')" "transaction_phase mc wc mn s \<noteq> Some (Inr s')" for s s'
    using phase_needs_dbname [of mn mc wc] assms(2)
    by (fastforce simp: load_phase_def transaction_phase_def p Let_def split: sum.splits)+
  then show ?thesis using assms(3) x setup_props(2,3) [OF x]
    by (auto simp: ycsbc_main_def Let_def split: sum.splits option.splits if_splits)
qed

definition no_db_args :: "string list" where
  "no_db_args = [''-load'', ''-threads'', ''0'', ''-p'', ''recordcount=1000'', ''-p'', ''operationcount=5000'', ''-p'', ''requestdistribution=uniform'']"

definition no_db_props :: Properties where
  "no_db_props = \<lparr>property_map = [''doload'' \<mapsto> ''true'', ''threadcount'' \<mapsto> ''0'', ''recordcount'' \<mapsto> ''1000'', ''operationcount'' \<mapsto> ''5000'',
     ''requestdistribution'' \<mapsto> ''uniform'']\<rparr>"

theorem main_without_dbname_fails_witness:
  "\<exists>r. ycsbc_main (demo_machine\<lparr>mc_schedule := \<lambda>_. []\<rparr>) Map.empty no_db_args = Some (Map.empty, r) \<and> r \<noteq> None"
proof -
  let ?m = "demo_machine\<lparr>mc_schedule := \<lambda>_. []\<rparr>"
  have parse: "ParseCommandLine (mc_input ?m) no_db_args no_properties = Inr no_db_props"
    by (simp add: ParseCommandLine_def no_db_args_def no_db_props_def StrStartWith_def Trim_def isspace_def SetProperty_def no_properties_def)
  have "given_props False 1000 5000 ''uniform'' no_db_props"
    by (simp add: given_props_def default_keys_def no_db_props_def GetProperty_def to_string.simps digit_def) code_simp
  from Init_config [OF demo_env_ok demo_tls_ok _ _ _ _ _ this, of 5000 READ 0]
  obtain wl t' where wl: "CoreWorkload_Init demo_env no_db_props demo_tls (new_CoreWorkload READ 0) = Inr (wl, t')"
    by (auto simp: key_dist_def kMaxNumItems_def drop_bit_eq_div)
  have pd: "GetProperty no_db_props ''doload'' v = ''true''" "GetProperty no_db_props ''dotransaction'' v = v" "GetProperty no_db_props ''threadcount'' v = ''0''"
    "GetProperty no_db_props ''status'' v = v" "GetProperty no_db_props ''status.interval'' v = v" "GetProperty no_db_props ''status.intervalus'' v = v"
    "GetProperty no_db_props ''secskip'' v = v" "GetProperty no_db_props ''limit.ops'' v = v" "GetProperty no_db_props ''workload'' v = v"
    "GetProperty no_db_props ''measurementtype'' v = v" "property_at no_db_props ''recordcount'' = Inr ''1000''"
    "property_at no_db_props ''dbname'' = Inl (OutOfRange ''map::at'')" for v
    by (simp_all add: no_db_props_def GetProperty_def property_at_def)
  have "\<exists>st. main_setup ?m Map.empty no_db_args = Inr (\<lparr>mn_props = no_db_props, mn_do_load = True, mn_do_transaction = False, mn_num_threads = 0,
      mn_show_status = False, mn_status_interval = 10, mn_status_interval_us = 1000, mn_sec_skip = 0\<rparr>, core_class demo_env READ 0, st)
     \<and> mn_dbs st = []"
    unfolding main_setup_def parse
    by (simp add: pd default_numbers stol_zero CreateMeasurements_def CreateWorkload_def demo_machine_def core_class_def wl Let_def)
  then have "\<exists>files r. ycsbc_main ?m Map.empty no_db_args = Some (files, r)"
    unfolding ycsbc_main_def
    by (auto simp: load_phase_def pd default_numbers load_threads_def run_phase_def start_pool_def phase_sum_def make_summary_def demo_machine_def)
  then obtain files r where "ycsbc_main ?m Map.empty no_db_args = Some (files, r)" by blast
  with main_without_dbname_fails [OF parse _ this] show ?thesis by (simp add: no_db_props_def)
qed

section \<open>A client that comes late\<close>

text \<open>Single steps of a client of the core workload: its start, its end, and a turn in which the database refuses the insert.\<close>

lemma start_step:
  assumes "ph = core_phase env db clock wall sys steady props interval interval_us" and "i < length (po_threads p)" and "th = po_threads p ! i"
    and "th_state th = TReady" and "ta_init_db (th_args th)" and "db_Init db (dc_join cls (po_static p) (th_own th)) = Inr ((), d)"
  shows "\<exists>p'. client_act cls ph i p = Some (Inr p') \<and> po_wl p' = po_wl p \<and> po_static p' = dc_static cls d
     \<and> po_threads p' = (po_threads p)[i := th\<lparr>th_own := dc_own cls d, th_state := TLoop (nat (ta_num_ops (th_args th))) () True 0 0 (sys (po_tick p))\<rparr>]"
  using assms(2-6) unfolding assms(1)
  by (simp add: client_act_def core_phase_def client_begin_def CoreWorkloadOps_def catch_Exception_def in_state_def on_db_def DBWrapper_ops_def passed_def
      count_down_init_def thread_view_def thread_back_def Let_def)

lemma end_step:
  assumes "ph = core_phase env db clock wall sys steady props interval interval_us" and "i < length (po_threads p)" and "th = po_threads p ! i"
    and "th_state th = TLoop 0 () on sk oks start" and "ta_cleanup_db (th_args th)" and "db_Cleanup db (dc_join cls (po_static p) (th_own th)) = Inr ((), d)"
  shows "\<exists>p'. client_act cls ph i p = Some (Inr p') \<and> po_wl p' = po_wl p \<and> po_static p' = dc_static cls d
     \<and> po_threads p' = (po_threads p)[i := th\<lparr>th_own := dc_own cls d, th_state := TDone (oks - sk)\<rparr>]"
  using assms(2-6) unfolding assms(1)
  by (simp add: client_act_def core_phase_def client_end_def catch_Exception_def in_state_def on_db_def DBWrapper_ops_def passed_def
      count_down_done_def thread_view_def thread_back_def Let_def)

lemma DoInsert_refused:
  assumes env: "env_ok env" and ok: "cx_ok k n s" and c: "wl_insert_key_sequence (cx_wl s) = Some c"
    and db: "\<And>t key vs. db_Insert db t key vs (cx_db s) = Inl e"
  shows "DoInsert env db s = Some (Inl e)"
proof -
  define s1 where "s1 = s\<lparr>cx_wl := (cx_wl s)\<lparr>wl_insert_key_sequence := Some (snd (CounterGenerator_Next c))\<rparr>\<rparr>"
  have one: "next_insert_key s = Some (Inr (cnt_counter c, s1))"
    using c by (simp add: next_insert_key_def s1_def CounterGenerator_Next_def)
  have ok1: "quiet k n s1 s1" using ok by (intro quiet_refl) (simp add: cx_ok_def wl_ok_def s1_def)
  obtain vs s2 where v: "build_write env s1 = Some (Inr (vs, s2))" "quiet k n s1 s2" by (rule write_step [OF env ok1])
  have "cx_db s2 = cx_db s" using quietD [OF v(2)] by (simp add: s1_def)
  then show ?thesis unfolding DoInsert_def using one v(1) db by (simp add: tx_simps on_db_def)
qed

lemma refused_step:
  assumes "ph = core_phase env db clock wall sys steady props interval interval_us" and "i < length (po_threads p)" and "th = po_threads p ! i"
    and st: "th_state th = TLoop (Suc l) () True 0 oks start" "ta_is_loading (th_args th)" "th_rlim th = None" "tls_ok (th_tls th)"
    and wl: "env_ok env" "wl_ok k n (po_wl p)" "wl_insert_key_sequence (po_wl p) = Some c"
    and db: "\<And>t key vs. db_Insert db t key vs (dc_join cls (po_static p) (th_own th)) = Inl (Undefined e)"
  shows "client_act cls ph i p = Some (Inl (Undefined e))"
proof -
  let ?s = "cl_state (thread_view cls p th)" and ?w = "DBWrapper_ops (clock i) (wall i) basic_report db"
  have "DoInsert env ?w ?s = Some (Inl (Undefined e))"
    using st wl db by (intro DoInsert_refused [OF wl(1), of k n _ c]) (simp_all add: cx_ok_def thread_view_def DBWrapper_ops_def measured_basic)
  then have "in_state (w_DoInsert (CoreWorkloadOps env ?w) ()) (thread_view cls p th\<lparr>cl_tick := cl_tick (thread_view cls p th) + 1\<rparr>) = Some (Inl (Undefined e))"
    by (simp add: in_state_def CoreWorkloadOps_def)
  moreover have "cl_rlim (thread_view cls p th) = None" using st by (simp add: thread_view_def)
  ultimately show ?thesis
    using assms(2,3) st unfolding assms(1)
    by (simp add: client_act_def core_phase_def client_turn_def catch_Exception_def consume_one_def Let_def)
qed

text \<open>The static members after the first client has opened and closed the store: the count is back at zero, and the deleted handle stays.\<close>

lemma rd_Cleanup_last:
  assumes "st_db (rd_static d) = LiveHandle" and "st_ref_cnt (rd_static d) = 1"
  shows "Rocksdb_Cleanup d = Inr ((), d\<lparr>rd_cf_handles := map (\<lambda>_. False) (rd_cf_handles d), rd_static := (rd_static d)\<lparr>st_ref_cnt := 0, st_db := DeletedHandle\<rparr>\<rparr>)"
  using assms by (simp add: Rocksdb_Cleanup_def delete_handle_def Let_def)

lemma rd_Init_stale:
  assumes "Rocksdb_Init kv lib um m8 (NewRocksdbDB props h st) = Inr ((), d1)" and "st_db st' = DeletedHandle"
  shows "\<exists>d. Rocksdb_Init kv lib um m8 (NewRocksdbDB props h' st') = Inr ((), d) \<and> rd_format d = Some kSingleRow \<and> st_db (rd_static d) = DeletedHandle"
  using assms by (auto simp: Rocksdb_Init_def NewRocksdbDB_def Let_def andThen_def split: if_splits sum.splits)

lemma rd_Insert_stale:
  "rd_format d = Some kSingleRow \<Longrightarrow> st_db (rd_static d) = DeletedHandle \<Longrightarrow>
     db_Insert (Rocksdb_ops kv lib um m8 ndebug) t key vs d = Inl (Undefined ''db_ does not point to a database'')"
  by (simp add: Rocksdb_ops_def rd_dispatch_def InsertSingle_def deref_def)

lemma rd_eta: "\<lparr>rd_props = rd_props d, rd_format = rd_format d, rd_merge = rd_merge d, rd_fieldcount = rd_fieldcount d, rd_cf_handles = rd_cf_handles d,
    rd_static = rd_static d\<rparr> = d"
  by simp

lemma late_client:
  assumes ph: "ph = core_phase env (Rocksdb_ops kv lib um m8 ndebug) clock wall sys steady props' interval interval_us"
    and store: "po_static p = (h, st)" "st_db st = NullHandle" "st_ref_cnt st = 0" "Rocksdb_Init kv lib um m8 (NewRocksdbDB props h st) = Inr ((), d1)"
    and ij: "i < length (po_threads p)" "j < length (po_threads p)" "i \<noteq> j"
    and th: "\<forall>x \<in> {i, j}. th_state (po_threads p ! x) = TReady \<and> th_own (po_threads p ! x) = (props, None, False, 0) \<and> ta_init_db (th_args (po_threads p ! x))"
    and j: "ta_num_ops (th_args (po_threads p ! j)) = 0" "ta_cleanup_db (th_args (po_threads p ! j))"
    and i: "ta_num_ops (th_args (po_threads p ! i)) = 1" "ta_is_loading (th_args (po_threads p ! i))" "th_rlim (po_threads p ! i) = None"
      "tls_ok (th_tls (po_threads p ! i))"
    and wl: "env_ok env" "wl_ok k n (po_wl p)" "wl_insert_key_sequence (po_wl p) = Some c"
  shows "run_schedule rocks_class ph ([Client j, Client j, Client i, Client i] @ rest) p = Some (Inl (Undefined ''db_ does not point to a database''))"
proof -
  let ?db = "Rocksdb_ops kv lib um m8 ndebug"
  have init: "db_Init ?db = Rocksdb_Init kv lib um m8" "db_Cleanup ?db = Rocksdb_Cleanup" by (simp_all add: Rocksdb_ops_def)
  have d1: "st_db (rd_static d1) = LiveHandle" "st_ref_cnt (rd_static d1) = 1"
    using rd_Init_members [OF store(4)] store(2,3) by (simp_all add: NewRocksdbDB_def)
  obtain p1 where p1: "client_act rocks_class ph j p = Some (Inr p1)" "po_wl p1 = po_wl p" "po_static p1 = dc_static rocks_class d1"
    "po_threads p1 = (po_threads p)[j := (po_threads p ! j)\<lparr>th_own := dc_own rocks_class d1, th_state := TLoop 0 () True 0 0 (sys (po_tick p))\<rparr>]"
    using start_step [OF ph ij(2) refl, of rocks_class d1] th store(1,4) j(1) by (auto simp: NewRocksdbDB_def init)
  define d2 where "d2 = d1\<lparr>rd_cf_handles := map (\<lambda>_. False) (rd_cf_handles d1), rd_static := (rd_static d1)\<lparr>st_ref_cnt := 0, st_db := DeletedHandle\<rparr>\<rparr>"
  obtain p2 where p2: "client_act rocks_class ph j p1 = Some (Inr p2)" "po_wl p2 = po_wl p" "po_static p2 = dc_static rocks_class d2"
    "po_threads p2 ! i = po_threads p ! i" "length (po_threads p2) = length (po_threads p)"
    using end_step [OF ph, of j p1 "po_threads p1 ! j" True 0 0 "sys (po_tick p)" rocks_class d2] rd_Cleanup_last [OF d1, folded d2_def] p1(2-4) ij j(2)
    by (auto simp: init rd_eta)
  obtain h' st' where g: "po_static p2 = (h', st')" "st_db st' = DeletedHandle" using p2(3) by (auto simp: d2_def)
  obtain d3 where d3: "Rocksdb_Init kv lib um m8 (NewRocksdbDB props h' st') = Inr ((), d3)" "rd_format d3 = Some kSingleRow" "st_db (rd_static d3) = DeletedHandle"
    using rd_Init_stale [OF store(4) g(2)] by blast
  obtain p3 where p3: "client_act rocks_class ph i p2 = Some (Inr p3)" "po_wl p3 = po_wl p" "po_static p3 = dc_static rocks_class d3"
    "po_threads p3 ! i = (po_threads p ! i)\<lparr>th_own := dc_own rocks_class d3, th_state := TLoop 1 () True 0 0 (sys (po_tick p2))\<rparr>" "i < length (po_threads p3)"
    using start_step [OF ph, of i p2 "po_threads p ! i" rocks_class d3] p2 g(1) d3(1) th ij(1) i(1) by (auto simp: NewRocksdbDB_def init)
  have "client_act rocks_class ph i p3 = Some (Inl (Undefined ''db_ does not point to a database''))"
    using p3 i wl rd_Insert_stale [OF d3(2,3)]
    by (intro refused_step [OF ph p3(5) refl, of 0 0 "sys (po_tick p2)" k n c]) (simp_all add: rd_eta)
  then show ?thesis using p1(1) p2(1) p3(1) by simp
qed

text \<open>C38: With the load phase alone, clients that come late use a closed database. When there are more threads than records, and the last client,
  which has nothing to load, runs before the first one starts, its \<^verbatim>\<open>Cleanup\<close> deletes the shared handle; the \<^verbatim>\<open>Init\<close> of the first client
  keeps the deleted handle, and its first insert dereferences it. The program is run with \<^verbatim>\<open>-load\<close> only, on the machine on which it never fails when
  it is run with both phases.\<close>

theorem load_only_late_client_fails:
  fixes mc :: "('e, 's RocksdbDB, bool list \<times> 's kv_static, Properties \<times> RocksFormat option \<times> bool \<times> int, unit) machine"
  assumes "env_ok env" and "key_dist d" and "3 \<le> n" and "n < 2 ^ 31" and "q < 2 ^ 31" and "n + q < unat kMaxNumItems" and "n < t" and "t < 2 ^ 31"
    and m: "machine_ok env x y ''rocksdb'' (Rocksdb_ops kv lib um m8 ndebug) (NewRocksdbDB no_properties h0 st0) mc" "mc_class mc = rocks_class"
    and store: "rd_openable kv lib um m8 m (bench_props False t n q d) (mc_static mc)"
    and "mc_schedule mc True = [Client (t - 1), Client (t - 1), Client 0, Client 0] @ rest"
  shows "ycsbc_main mc files (bench_args False t n q d) = Some (files, Some (Undefined ''db_ does not point to a database''))"
proof -
  let ?props = "bench_props False t n q d" and ?db = "Rocksdb_ops kv lib um m8 ndebug" and ?wc = "core_class env x y"
  let ?mn = "bench_settings False t ?props" and ?own = "(?props, None :: RocksFormat option, False, 0 :: int)"
  note p = bench_props_main [OF assms(8), of False n q d]
  have mm: "mc_dbs mc ''rocksdb'' = Some (?db, NewRocksdbDB no_properties h0 st0)" "\<forall>b i. tls_ok (mc_tls mc b i)" using m(1) by (simp_all add: machine_ok_def)
  obtain wl where made: "main_setup mc files (bench_args False t n q d) = Inr (?mn, ?wc,
      \<lparr>mn_wl = wl, mn_static = mc_static mc, mn_ms = new_BasicMeasurements 0, mn_dbs = replicate t (?own, Timer_Start 0, 0), mn_files = files\<rparr>)"
    and wl: "wl_ok q n wl" "wl_insert_key_sequence wl = Some (new_CounterGenerator 0)"
    using main_setup_ok [OF assms(1-6) m(1) p bench_args_parse [OF assms(2)], of files] m(2) by (auto simp: Rocksdb_ops_def NewRocksdbDB_def)
  let ?st = "\<lparr>mn_wl = wl, mn_static = mc_static mc, mn_ms = new_BasicMeasurements 0, mn_dbs = replicate t (?own, Timer_Start 0, 0), mn_files = files\<rparr>"
  note ph = bench_phases [OF p mm(1) rocks_no_reinit assms(4,5)]
  let ?ta = "load_threads (int t) (int n) 0 False (\<lambda>_. False)"
  let ?ths = "map2 (\<lambda>a (l, timer, calls). \<lparr>th_args = a, th_own = l, th_timer = timer, th_calls = calls, th_tls = mc_tls mc True (nat (ta_thread_id a)),
     th_rlim = None, th_state = TReady :: unit tstate\<rparr>) ?ta (mn_dbs ?st)"
  have len: "length ?ta = t" by (simp add: load_threads_def)
  have start: "start_threads (mc_tls mc True) (mc_steady mc True) ?ta (mn_dbs ?st) = Inr ?ths"
    by (rule start_threads_unlimited) (auto simp: load_threads_def)
  have n0: "thread_ops (int n) (int t) (int (t - 1)) = 0" "thread_ops (int n) (int t) 0 = 1"
    using assms(3,7) by (auto simp: thread_ops_def Let_def cmod_def cdiv_def)
  obtain d1 where d1: "Rocksdb_Init kv lib um m8 (NewRocksdbDB ?props (fst (mc_static mc)) (snd (mc_static mc))) = Inr ((), d1)"
    and g: "st_db (snd (mc_static mc)) = NullHandle" "st_ref_cnt (snd (mc_static mc)) = 0" using store by (auto simp: rd_openable_def)
  have "run_schedule rocks_class (main_phase mc ?wc ?mn (new_BasicMeasurements 0) True) (mc_schedule mc True) (start_pool ?mn ?ths RateOff ?st)
      = Some (Inl (Undefined ''db_ does not point to a database''))"
    unfolding assms(12)
    by (rule late_client [OF ph(1) _ g d1, where k = q and n = n and c = "new_CounterGenerator 0"])
      (use assms(1,3,7) wl mm(2) n0 len in \<open>auto simp: start_pool_def load_threads_def\<close>)
  then have "load_phase mc ?wc ?mn ?st = Some (Inl (Undefined ''db_ does not point to a database''))"
    unfolding ph(2) run_phase_def start m(2) by simp
  then show ?thesis unfolding ycsbc_main_def made by simp
qed

theorem load_only_late_client_fails_witness:
  "ycsbc_main (demo_machine\<lparr>mc_schedule := \<lambda>_. [Client 3, Client 3, Client 0, Client 0]\<rparr>) Map.empty (bench_args False 4 3 5 ''uniform'')
     = Some (Map.empty, Some (Undefined ''db_ does not point to a database''))"
proof -
  let ?mc = "demo_machine\<lparr>mc_schedule := \<lambda>_. [Client 3, Client 3, Client 0, Client 0]\<rparr>"
  have m: "machine_ok demo_env READ 0 ''rocksdb'' (Rocksdb_ops demo_engine demo_lib False True True) (NewRocksdbDB no_properties [] demo_static) ?mc"
    "mc_class ?mc = rocks_class" "rd_openable demo_engine demo_lib False True map_of (bench_props False 4 3 5 ''uniform'') (mc_static ?mc)"
    "3 + 5 < unat kMaxNumItems" "key_dist ''uniform''"
    using demo_machine_facts(1,2) demo_openable by (simp_all add: machine_ok_def key_dist_def kMaxNumItems_def drop_bit_eq_div)
  show ?thesis by (rule load_only_late_client_fails [OF demo_env_ok m(5) _ _ _ m(4) _ _ m(1-3), of "[]"]) simp_all
qed

end
