(* ===== verification/Insert_Protocol.thy ===== *)
theory Insert_Protocol
  imports Acked
begin

text \<open>
  Client threads that run \<^verbatim>\<open>CoreWorkload::TransactionInsert\<close> (\<^verbatim>\<open>src/core/core_workload.cc\<close>) at the same
  time on one shared \<^verbatim>\<open>AcknowledgedCounterGenerator\<close>. A thread takes a key number (one atomic
  \<^verbatim>\<open>fetch_add\<close>), calls \<^verbatim>\<open>db.Insert\<close>, and acknowledges the number (under the generator's mutex); the
  steps of different threads interleave freely. \<open>ins_step\<close> has one rule per atomic step, and nothing in it
  holds a thread back.

  The ring of flags has \<open>W\<close> slots. \<open>ins_within\<close> are the executions in which fewer than \<open>W\<close> numbers
  from the first unacknowledged one on have been handed out at every moment. On them the protocol is
  correct (\<open>concurrent_insert_safety\<close>, \<open>concurrent_ack_progress\<close>). The code does not enforce the bound:
  \<open>overrun_breaks_safety\<close> is an execution that passes it and publishes a record that is not there.
\<close>

text \<open>\<open>Thrown v\<close>: an exception of \<^verbatim>\<open>Insert\<close> or \<^verbatim>\<open>Acknowledge\<close> has left the transaction; \<open>v\<close> is never acknowledged.\<close>

datatype ins_phase = Idle | Took nat | Inserted nat | Thrown nat

record ins_sys =
  is_gen :: AcknowledgedCounterGenerator
  is_db :: "nat set"
  is_failed :: "nat set"
  is_phase :: "nat \<Rightarrow> ins_phase"

definition ins_init :: "nat \<Rightarrow> ins_sys" where
  "ins_init start =
     \<lparr>is_gen = new_AcknowledgedCounterGenerator (of_nat start), is_db = {..<start}, is_failed = {},
      is_phase = (\<lambda>_. Idle)\<rparr>"

text \<open>
  \<open>insert_ok\<close> and \<open>insert_failed\<close> are the two results of \<^verbatim>\<open>db.Insert\<close>; the code acknowledges the
  number in both. \<open>insert_throws\<close> and \<open>ack_throws\<close> are the exceptions.
\<close>

inductive ins_step :: "ins_sys \<Rightarrow> ins_sys \<Rightarrow> bool" where
  take: "is_phase s t = Idle \<Longrightarrow> Acked_Next (is_gen s) = (v, g') \<Longrightarrow>
     ins_step s (s\<lparr>is_gen := g', is_phase := (is_phase s)(t := Took (unat v))\<rparr>)"
| insert_ok: "is_phase s t = Took v \<Longrightarrow>
     ins_step s (s\<lparr>is_db := insert v (is_db s), is_phase := (is_phase s)(t := Inserted v)\<rparr>)"
| insert_failed: "is_phase s t = Took v \<Longrightarrow>
     ins_step s (s\<lparr>is_failed := insert v (is_failed s), is_phase := (is_phase s)(t := Inserted v)\<rparr>)"
| insert_throws: "is_phase s t = Took v \<Longrightarrow>
     ins_step s (s\<lparr>is_phase := (is_phase s)(t := Thrown v)\<rparr>)"
| ack: "is_phase s t = Inserted v \<Longrightarrow> Acknowledge (of_nat v) (is_gen s) = Inr g' \<Longrightarrow>
     ins_step s (s\<lparr>is_gen := g', is_phase := (is_phase s)(t := Idle)\<rparr>)"
| ack_throws: "is_phase s t = Inserted v \<Longrightarrow> Acknowledge (of_nat v) (is_gen s) = Inl e \<Longrightarrow>
     ins_step s (s\<lparr>is_phase := (is_phase s)(t := Thrown v)\<rparr>)"

inductive ins_reach :: "nat \<Rightarrow> ins_sys \<Rightarrow> bool" for start where
  start: "ins_reach start (ins_init start)"
| step: "ins_reach start s \<Longrightarrow> ins_step s s' \<Longrightarrow> ins_reach start s'"

text \<open>
  The number \<^verbatim>\<open>Next()\<close> would return; the numbers handed out stay within the ring; and the states
  reached through such states only.
\<close>

definition next_number :: "ins_sys \<Rightarrow> nat" where
  "next_number s = unat (cnt_counter (ack_counter (is_gen s)))"

definition window_ok :: "ins_sys \<Rightarrow> bool" where
  "window_ok s \<longleftrightarrow> next_number s < ack_next (is_gen s) + W \<and> next_number s < 2 ^ 63"

inductive ins_within :: "nat \<Rightarrow> ins_sys \<Rightarrow> bool" for start where
  start: "window_ok (ins_init start) \<Longrightarrow> ins_within start (ins_init start)"
| step: "ins_within start s \<Longrightarrow> ins_step s s' \<Longrightarrow> window_ok s' \<Longrightarrow> ins_within start s'"

lemma ins_within_reach: "ins_within start s \<Longrightarrow> ins_reach start s"
  by (induction rule: ins_within.induct) (auto intro: ins_reach.intros)

text \<open>The numbers that threads have taken and not acknowledged.\<close>

definition holds :: "ins_sys \<Rightarrow> nat \<Rightarrow> nat \<Rightarrow> bool" where
  "holds s t v \<longleftrightarrow> is_phase s t = Took v \<or> is_phase s t = Inserted v \<or> is_phase s t = Thrown v"

definition held :: "ins_sys \<Rightarrow> nat set" where
  "held s = {v. \<exists>t. holds s t v}"

definition ins_inv :: "nat \<Rightarrow> nat \<Rightarrow> nat set \<Rightarrow> ins_sys \<Rightarrow> bool" where
  "ins_inv start n A s \<longleftrightarrow>
     ack_rel start n A (is_gen s) \<and> n < first_missing start A + W
     \<and> (\<forall>t v. holds s t v \<longrightarrow> start \<le> v \<and> v < n \<and> v \<notin> A)
     \<and> (\<forall>t u v. holds s t v \<and> holds s u v \<longrightarrow> t = u)
     \<and> {start..<n} = A \<union> held s
     \<and> (\<forall>t v. is_phase s t = Inserted v \<longrightarrow> v \<in> is_db s \<union> is_failed s)
     \<and> {..<start} \<subseteq> is_db s \<and> A \<subseteq> is_db s \<union> is_failed s"

lemma ins_invI:
  assumes "ack_rel start n A (is_gen s)" and "n < first_missing start A + W"
    and "\<And>t v. holds s t v \<Longrightarrow> start \<le> v \<and> v < n \<and> v \<notin> A"
    and "\<And>t u v. holds s t v \<Longrightarrow> holds s u v \<Longrightarrow> t = u"
    and "{start..<n} = A \<union> held s"
    and "\<And>t v. is_phase s t = Inserted v \<Longrightarrow> v \<in> is_db s \<union> is_failed s"
    and "{..<start} \<subseteq> is_db s" and "A \<subseteq> is_db s \<union> is_failed s"
  shows "ins_inv start n A s"
  unfolding ins_inv_def using assms by blast

lemma ins_invD:
  assumes "ins_inv start n A s"
  shows "ack_rel start n A (is_gen s)" and "n < first_missing start A + W"
    and "\<And>t v. holds s t v \<Longrightarrow> start \<le> v \<and> v < n \<and> v \<notin> A"
    and "\<And>t u v. holds s t v \<Longrightarrow> holds s u v \<Longrightarrow> t = u"
    and "{start..<n} = A \<union> held s"
    and "\<And>t v. is_phase s t = Inserted v \<Longrightarrow> v \<in> is_db s \<union> is_failed s"
    and "{..<start} \<subseteq> is_db s" and "A \<subseteq> is_db s \<union> is_failed s"
  using assms unfolding ins_inv_def by blast+

lemma first_missing_empty: "first_missing n {} = n"
  by (rule first_missing_eqI) auto

lemma ins_inv_init: "start < 2 ^ 63 \<Longrightarrow> ins_inv start start {} (ins_init start)"
  by (simp add: ins_inv_def ins_init_def holds_def held_def ack_rel_new first_missing_empty)

lemma holds_update:
  "is_phase s' = (is_phase s)(t := p) \<Longrightarrow>
     holds s' u v \<longleftrightarrow> (if u = t then p = Took v \<or> p = Inserted v \<or> p = Thrown v else holds s u v)"
  by (simp add: holds_def)

lemma holds_unique_number: "holds s t v \<Longrightarrow> holds s t w \<Longrightarrow> v = w"
  by (auto simp: holds_def)

lemma ins_inv_take:
  assumes inv: "ins_inv start n A s" and idle: "is_phase s t = Idle"
    and nx: "Acked_Next (is_gen s) = (v, g')"
    and win: "window_ok (s\<lparr>is_gen := g', is_phase := (is_phase s)(t := Took (unat v))\<rparr>)"
  shows "ins_inv start (Suc n) A (s\<lparr>is_gen := g', is_phase := (is_phase s)(t := Took (unat v))\<rparr>)"
    (is "ins_inv _ _ _ ?s")
proof -
  note D = ins_invD [OF inv]
  have n: "n < 2 ^ 63" "A \<subseteq> {start..<n}" and sn: "start \<le> n"
    using D(1) by (auto simp: ack_rel_def)
  have c: "cnt_counter (ack_counter (is_gen s)) = of_nat n" using D(1) by (simp add: ack_rel_def)
  then have "v = of_nat n" and g': "cnt_counter (ack_counter g') = of_nat (Suc n)" "ack_next g' = ack_next (is_gen s)"
    using nx by (auto simp: Acked_Next_def CounterGenerator_Next_def ack_next_def add.commute)
  then have v: "unat v = n" using n by (simp add: unat_of_nat_u64)
  have "unat (of_nat (Suc n) :: u64) = Suc n" using n by (intro unat_of_nat_u64) simp
  then have lim: "Suc n < 2 ^ 63" "Suc n < ack_next (is_gen s) + W"
    using win g' by (simp_all add: window_ok_def next_number_def)
  have h: "holds ?s u w \<longleftrightarrow> (if u = t then w = n else holds s u w)" for u w
    using holds_update [of ?s s t "Took (unat v)" u w] v by auto
  have idle': "\<not> holds s t w" for w using idle by (simp add: holds_def)
  have held: "held ?s = insert n (held s)"
    unfolding held_def h using idle' by auto metis
  show ?thesis
  proof (rule ins_invI)
    show "ack_rel start (Suc n) A (is_gen ?s)"
      using acked.take_rel [OF D(1) lim(1)] nx by simp
    show "Suc n < first_missing start A + W" using lim(2) ack_rel_next [OF D(1)] by simp
    show "start \<le> w \<and> w < Suc n \<and> w \<notin> A" if "holds ?s u w" for u w
      using that D(3) [of u w] n sn unfolding h by (auto split: if_splits)
    show "u = w" if "holds ?s u x" "holds ?s w x" for u w x
      using that D(3) [of u x] D(3) [of w x] D(4) [of u x w] unfolding h by (auto split: if_splits)
    have "{start..<Suc n} = insert n {start..<n}" using sn by auto
    then show "{start..<Suc n} = A \<union> held ?s" unfolding D(5) held by blast
    show "w \<in> is_db ?s \<union> is_failed ?s" if "is_phase ?s u = Inserted w" for u w
      using that D(6) [of u w] by (simp split: if_splits)
  qed (use D(7,8) in simp_all)
qed

lemma ins_inv_same_holds:
  assumes inv: "ins_inv start n A s" and "is_gen s' = is_gen s"
    and h: "\<And>u w. holds s' u w \<longleftrightarrow> holds s u w"
    and "\<And>t v. is_phase s' t = Inserted v \<Longrightarrow> v \<in> is_db s' \<union> is_failed s'"
    and "is_db s \<subseteq> is_db s'" and "is_failed s \<subseteq> is_failed s'"
  shows "ins_inv start n A s'"
proof -
  note D = ins_invD [OF inv]
  have "held s' = held s" by (simp add: held_def h)
  then show ?thesis using assms(2-) D by (intro ins_invI) (auto simp: h)
qed

lemma ins_inv_insert:
  assumes inv: "ins_inv start n A s" and took: "is_phase s t = Took v"
  shows "ins_inv start n A (s\<lparr>is_db := insert v (is_db s), is_phase := (is_phase s)(t := Inserted v)\<rparr>)"
    and "ins_inv start n A (s\<lparr>is_failed := insert v (is_failed s), is_phase := (is_phase s)(t := Inserted v)\<rparr>)"
  by (rule ins_inv_same_holds [OF inv];
      use took ins_invD(6) [OF inv] in \<open>force simp: holds_def split: if_splits\<close>)+

lemma ins_inv_throw:
  assumes inv: "ins_inv start n A s" and ph: "is_phase s t = Took v"
  shows "ins_inv start n A (s\<lparr>is_phase := (is_phase s)(t := Thrown v)\<rparr>)"
  by (rule ins_inv_same_holds [OF inv])
    (use ph ins_invD(6) [OF inv] in \<open>force simp: holds_def split: if_splits\<close>)+

lemma ins_inv_ack:
  assumes inv: "ins_inv start n A s" and ph: "is_phase s t = Inserted v"
  shows "\<exists>g'. Acknowledge (of_nat v) (is_gen s) = Inr g'
     \<and> ins_inv start n (insert v A) (s\<lparr>is_gen := g', is_phase := (is_phase s)(t := Idle)\<rparr>)"
proof -
  note D = ins_invD [OF inv]
  have ht: "holds s t v" using ph by (simp add: holds_def)
  with D(3) have v: "start \<le> v" "v < n" "v \<notin> A" by auto
  obtain g' where g': "Acknowledge (of_nat v) (is_gen s) = Inr g'" "ack_rel start n (insert v A) g'"
    using acked.ack_ok [OF D(1) v D(2)] by blast
  let ?s = "s\<lparr>is_gen := g', is_phase := (is_phase s)(t := Idle)\<rparr>"
  have h: "holds ?s u w \<longleftrightarrow> u \<noteq> t \<and> holds s u w" for u w
    using holds_update [of ?s s t Idle u w] by simp
  have "insert v (held ?s) = held s"
  proof (intro equalityI subsetI)
    fix x assume "x \<in> held s"
    then obtain u where u: "holds s u x" by (auto simp: held_def)
    then show "x \<in> insert v (held ?s)"
      using holds_unique_number [OF ht, of x] by (cases "u = t") (auto simp: held_def h)
  qed (use ht in \<open>auto simp: held_def h\<close>)
  then have part: "{start..<n} = insert v A \<union> held ?s" using D(5) by blast
  have "ins_inv start n (insert v A) ?s"
  proof (rule ins_invI)
    show "n < first_missing start (insert v A) + W"
      using D(2) acked.missing_mono [OF D(1) g'(2)] by (simp add: subset_insertI)
    show "start \<le> w \<and> w < n \<and> w \<notin> insert v A" if "holds ?s u w" for u w
      using that D(3) [of u w] D(4) [of u w t] ht unfolding h by auto
    show "u = w" if "holds ?s u x" "holds ?s w x" for u w x
      using that D(4) unfolding h by blast
    show "w \<in> is_db ?s \<union> is_failed ?s" if "is_phase ?s u = Inserted w" for u w
      using that D(6) [of u w] by (simp split: if_splits)
  qed (use g'(2) part D(6) [OF ph] D(7,8) in simp_all)
  with g'(1) show ?thesis by blast
qed

lemma ins_step_inv:
  assumes "ins_step s s'" and "ins_inv start n A s" and "window_ok s'"
  shows "\<exists>n' A'. ins_inv start n' A' s'"
  using assms(1)
proof (cases rule: ins_step.cases)
  case (take t v g')
  then show ?thesis using ins_inv_take [OF assms(2)] assms(3) by blast
next
  case (insert_ok t v)
  then show ?thesis using ins_inv_insert(1) [OF assms(2)] by blast
next
  case (insert_failed t v)
  then show ?thesis using ins_inv_insert(2) [OF assms(2)] by blast
next
  case (insert_throws t v)
  then show ?thesis using ins_inv_throw [OF assms(2)] by blast
next
  case (ack t v g')
  then show ?thesis using ins_inv_ack [OF assms(2), of t v] by auto
next
  case (ack_throws t v e)
  then show ?thesis using ins_inv_ack [OF assms(2), of t v] by auto
qed

lemma ins_inv_window:
  assumes "ins_inv start n A s"
  shows "window_ok s" and "next_number s = n" and "ack_next (is_gen s) = first_missing start A"
proof -
  note D = ins_invD [OF assms]
  show n: "next_number s = n" using D(1) by (simp add: next_number_def ack_rel_def unat_of_nat_u64)
  show fm: "ack_next (is_gen s) = first_missing start A" by (rule ack_rel_next [OF D(1)])
  show "window_ok s" using D(1,2) n fm by (simp add: window_ok_def ack_rel_def)
qed

lemma ins_within_inv:
  assumes "ins_within start s" and "start < 2 ^ 63"
  shows "\<exists>n A. ins_inv start n A s"
  using assms(1)
proof (induction rule: ins_within.induct)
  case start
  then show ?case using ins_inv_init [OF assms(2)] by blast
next
  case (step s s')
  then show ?case using ins_step_inv by blast
qed

lemma ins_init_within: "start < 2 ^ 63 \<Longrightarrow> ins_within start (ins_init start)"
  by (rule ins_within.start)
    (simp add: window_ok_def next_number_def ins_init_def new_AcknowledgedCounterGenerator_def new_CounterGenerator_def
      ack_next_def unat_of_nat_u64)

section \<open>Properties\<close>

text \<open>C1: Threads that run insert transactions at the same time, in any interleaving, results and exceptions of the inserts
  included, as long as fewer than 65536 numbers from the first unacknowledged one on (and fewer than \<open>2\<^sup>6\<^sup>3\<close> in all) are handed out at every
  moment of the execution: every key number up to \<^verbatim>\<open>Last()\<close> of the shared generator belongs to a record that is in the
  database, or to an insert that the database refused. So a reader that draws key numbers up to \<^verbatim>\<open>Last()\<close> never asks for a
  record whose insert is still under way. The code does not enforce the condition; without it the claim is false
  (\<open>overrun_breaks_safety\<close>).\<close>

theorem concurrent_insert_safety:
  assumes "ins_within start s" and "start < 2 ^ 63" and "k < unat (Acked_Last (is_gen s) + 1)"
  shows "k \<in> is_db s \<union> is_failed s"
proof -
  obtain n A where inv: "ins_inv start n A s" using ins_within_inv [OF assms(1,2)] by blast
  note D = ins_invD [OF inv]
  show ?thesis
  proof (cases "start \<le> k")
    case True
    then have "k \<in> A" using acked.numbers_up_to_last_acked [OF D(1)] assms(3) by blast
    then show ?thesis using D(8) by blast
  next
    case False
    then show ?thesis using D(7) by auto
  qed
qed

text \<open>C21: In every state of the concurrent inserts reached while fewer than 65536 numbers from the first unacknowledged one on are
  handed out, a thread whose insert has returned can acknowledge its number: \<^verbatim>\<open>Acknowledge\<close> does not throw \<^verbatim>\<open>Not enough window size\<close>, the
  thread becomes idle in a state that is again within the window, and \<^verbatim>\<open>Last()\<close> never goes back.\<close>

theorem concurrent_ack_progress:
  assumes "ins_within start s" and "start < 2 ^ 63" and "is_phase s t = Inserted v"
  shows "\<exists>g'. Acknowledge (of_nat v) (is_gen s) = Inr g'
    \<and> ins_step s (s\<lparr>is_gen := g', is_phase := (is_phase s)(t := Idle)\<rparr>)
    \<and> ins_within start (s\<lparr>is_gen := g', is_phase := (is_phase s)(t := Idle)\<rparr>)
    \<and> unat (Acked_Last (is_gen s) + 1) \<le> unat (Acked_Last g' + 1)"
proof -
  obtain n A where inv: "ins_inv start n A s" using ins_within_inv [OF assms(1,2)] by blast
  from ins_inv_ack [OF inv assms(3)] obtain g' where g': "Acknowledge (of_nat v) (is_gen s) = Inr g'"
    "ins_inv start n (insert v A) (s\<lparr>is_gen := g', is_phase := (is_phase s)(t := Idle)\<rparr>)"
    by blast
  have rel: "ack_rel start n A (is_gen s)" "ack_rel start n (insert v A) g'"
    using ins_invD(1) [OF inv] ins_invD(1) [OF g'(2)] by simp_all
  have mono: "first_missing start A \<le> first_missing start (insert v A)"
    by (rule acked.missing_mono [OF rel]) auto
  have "window_ok (s\<lparr>is_gen := g', is_phase := (is_phase s)(t := Idle)\<rparr>)"
    by (rule ins_inv_window(1) [OF g'(2)])
  then show ?thesis
    using g'(1) mono ins_step.ack [OF assms(3) g'(1)] ins_within.step [OF assms(1) ins_step.ack [OF assms(3) g'(1)]]
      acked.last_val [OF rel(1)] acked.last_val [OF rel(2)] by auto
qed

text \<open>In every state reached within the window, no two threads hold the same key number between \<^verbatim>\<open>Next\<close> and \<^verbatim>\<open>Acknowledge\<close>, a held number
  is never below the start of the run and is always above \<^verbatim>\<open>Last()\<close>: every insert transaction writes a key of its own.\<close>

theorem concurrent_keys_distinct:
  assumes "ins_within start s" and "start < 2 ^ 63" and "holds s t v"
  shows "(\<forall>u. u \<noteq> t \<longrightarrow> \<not> holds s u v) \<and> start \<le> v \<and> unat (Acked_Last (is_gen s) + 1) \<le> v"
proof -
  obtain n A where inv: "ins_inv start n A s" using ins_within_inv [OF assms(1,2)] by blast
  note D = ins_invD [OF inv]
  have "v \<notin> A" "start \<le> v" using D(3) [OF assms(3)] by auto
  then have "unat (Acked_Last (is_gen s) + 1) \<le> v"
    using acked.numbers_up_to_last_acked [OF D(1)] not_le by blast
  with \<open>start \<le> v\<close> show ?thesis using D(4) [OF assms(3)] by blast
qed

section \<open>Witnesses\<close>

text \<open>A run of one thread: it takes number 0, inserts it and acknowledges it.\<close>

definition run_took :: ins_sys where
  "run_took = (ins_init 0)\<lparr>is_gen := snd (Acked_Next (is_gen (ins_init 0))), is_phase := (\<lambda>_. Idle)(7 := Took 0)\<rparr>"

definition run_inserted :: ins_sys where
  "run_inserted = run_took\<lparr>is_db := {0}, is_phase := (\<lambda>_. Idle)(7 := Inserted 0)\<rparr>"

definition run_acked :: ins_sys where
  "run_acked = run_inserted\<lparr>is_gen := projr (Acknowledge 0 (is_gen run_inserted)), is_phase := (\<lambda>_. Idle)\<rparr>"

lemma run_window:
  "window_ok run_took" "window_ok run_inserted"
  by (simp_all add: window_ok_def next_number_def run_took_def run_inserted_def ins_init_def Acked_Next_def CounterGenerator_Next_def
      new_AcknowledgedCounterGenerator_def new_CounterGenerator_def ack_next_def W_def)

lemma Acknowledge_counter: "Acknowledge v g = Inr g' \<Longrightarrow> ack_counter g' = ack_counter g"
  by (auto simp: Acknowledge_def Let_def split: if_splits prod.splits)

lemma reach_took: "ins_within 0 run_took"
proof (rule ins_within.step [OF ins_init_within])
  have "ins_step (ins_init 0)
      ((ins_init 0)\<lparr>is_gen := snd (Acked_Next (is_gen (ins_init 0))),
        is_phase := (is_phase (ins_init 0))(7 := Took (unat (0 :: u64)))\<rparr>)"
    by (rule ins_step.take)
      (simp_all add: ins_init_def Acked_Next_def CounterGenerator_Next_def new_AcknowledgedCounterGenerator_def
        new_CounterGenerator_def ack_next_def W_def)
  then show "ins_step (ins_init 0) run_took" by (simp add: run_took_def ins_init_def)
qed (simp_all add: run_window)

lemma reach_inserted: "ins_within 0 run_inserted"
proof (rule ins_within.step [OF reach_took])
  have "ins_step run_took (run_took\<lparr>is_db := insert 0 (is_db run_took), is_phase := (is_phase run_took)(7 := Inserted 0)\<rparr>)"
    by (rule ins_step.insert_ok) (simp add: run_took_def)
  then show "ins_step run_took run_inserted" by (simp add: run_inserted_def run_took_def ins_init_def)
qed (rule run_window)

lemma run_acked_gen:
  "Acknowledge 0 (is_gen run_inserted) = Inr (is_gen run_acked)" "Acked_Last (is_gen run_acked) = 0"
proof -
  have "\<exists>g. Acknowledge 0 (is_gen run_inserted) = Inr g \<and> Acked_Last g = 0"
    by (simp add: Acknowledge_def run_inserted_def run_took_def ins_init_def Acked_Next_def CounterGenerator_Next_def
        new_AcknowledgedCounterGenerator_def new_CounterGenerator_def kWindowSize_eq slot_of_mod W_def Let_def
        ack_advance.simps Acked_Last_def)
  then show "Acknowledge 0 (is_gen run_inserted) = Inr (is_gen run_acked)" "Acked_Last (is_gen run_acked) = 0"
    by (auto simp: run_acked_def)
qed

lemma reach_acked: "ins_within 0 run_acked"
proof (rule ins_within.step [OF reach_inserted])
  have "ins_step run_inserted (run_inserted\<lparr>is_gen := is_gen run_acked, is_phase := (is_phase run_inserted)(7 := Idle)\<rparr>)"
    by (rule ins_step.ack [where v = 0]) (use run_acked_gen(1) in \<open>simp_all add: run_inserted_def\<close>)
  then show "ins_step run_inserted run_acked"
    by (simp add: run_acked_def run_inserted_def) (simp add: fun_upd_idem)
  have "next_number run_acked = next_number run_inserted"
    using Acknowledge_counter [OF run_acked_gen(1)] by (simp add: next_number_def)
  then show "window_ok run_acked"
    using run_window(2) run_acked_gen(2) by (simp add: window_ok_def ack_next_def Acked_Last_def run_inserted_def run_took_def
        ins_init_def next_number_def Acked_Next_def CounterGenerator_Next_def new_AcknowledgedCounterGenerator_def new_CounterGenerator_def W_def)
qed

theorem concurrent_insert_safety_witness:
  "ins_within 0 run_acked \<and> 0 < unat (Acked_Last (is_gen run_acked) + 1) \<and> 0 \<in> is_db run_acked \<union> is_failed run_acked"
  using concurrent_insert_safety [OF reach_acked, of 0] reach_acked by (simp add: run_acked_gen(2))

theorem concurrent_ack_progress_witness:
  "\<exists>g'. Acknowledge (of_nat 0) (is_gen run_inserted) = Inr g' \<and> Acked_Last g' = 0"
  using concurrent_ack_progress [OF reach_inserted, of 7 0] run_acked_gen by (auto simp: run_inserted_def)

theorem concurrent_keys_distinct_witness:
  "holds run_inserted 7 0 \<and> \<not> holds run_inserted 8 0"
proof -
  have "holds run_inserted 7 0" by (simp add: holds_def run_inserted_def)
  then show ?thesis using concurrent_keys_distinct [OF reach_inserted, of 7 0] by simp
qed

section \<open>Passing the window\<close>

text \<open>One undisturbed insert of an idle thread, inside the window.\<close>

lemma ins_cycle:
  assumes reach: "ins_reach start s" and inv: "ins_inv start n A s" and idle: "is_phase s t = Idle"
    and win: "Suc n < first_missing start A + W" "Suc n < 2 ^ 63"
  shows "\<exists>s'. ins_reach start s' \<and> ins_inv start (Suc n) (insert n A) s' \<and> is_phase s' = is_phase s
     \<and> is_db s' = insert n (is_db s) \<and> is_failed s' = is_failed s"
proof -
  obtain v g1 where nx: "Acked_Next (is_gen s) = (v, g1)" by fastforce
  let ?s1 = "s\<lparr>is_gen := g1, is_phase := (is_phase s)(t := Took (unat v))\<rparr>"
  let ?s2 = "?s1\<lparr>is_db := insert n (is_db ?s1), is_phase := (is_phase ?s1)(t := Inserted n)\<rparr>"
  have n: "next_number s = n" by (rule ins_inv_window(2) [OF inv])
  then have v: "unat v = n" using nx by (auto simp: next_number_def Acked_Next_def CounterGenerator_Next_def)
  have "of_nat n = cnt_counter (ack_counter (is_gen s))" using ins_invD(1) [OF inv] by (simp add: ack_rel_def)
  then have c: "unat (cnt_counter (ack_counter g1)) = Suc n" "ack_next g1 = ack_next (is_gen s)"
    using nx unat_of_nat_u64 [of "Suc n"] win(2)
    by (auto simp: Acked_Next_def CounterGenerator_Next_def ack_next_def add.commute)
  then have "window_ok ?s1"
    using win ins_inv_window(3) [OF inv] by (simp add: window_ok_def next_number_def)
  note i1 = ins_inv_take [OF inv idle nx this]
  have took: "is_phase ?s1 t = Took n" by (simp add: v)
  note i2 = ins_inv_insert(1) [OF i1 took]
  from ins_inv_ack [OF i2, of t n] obtain g3 where g3: "Acknowledge (of_nat n) (is_gen ?s2) = Inr g3"
    "ins_inv start (Suc n) (insert n A) (?s2\<lparr>is_gen := g3, is_phase := (is_phase ?s2)(t := Idle)\<rparr>)"
    by auto
  let ?s3 = "?s2\<lparr>is_gen := g3, is_phase := (is_phase ?s2)(t := Idle)\<rparr>"
  have "ins_reach start ?s1" by (rule ins_reach.step [OF reach ins_step.take [OF idle nx]])
  then have "ins_reach start ?s2" by (rule ins_reach.step [OF _ ins_step.insert_ok [OF took]])
  then have "ins_reach start ?s3" by (rule ins_reach.step [OF _ ins_step.ack [OF _ g3(1)]]) simp
  moreover have "is_phase ?s3 = is_phase s" using idle by (simp add: fun_upd_idem)
  ultimately show ?thesis using g3(2) by (intro exI [of _ ?s3]) simp
qed

text \<open>Thread 0 has taken number 0 and waits in \<^verbatim>\<open>Insert\<close>, while thread 1 completes the inserts of the numbers after it.\<close>

lemma overrun_prefix:
  assumes "1 \<le> n" and "n < W"
  shows "\<exists>s. ins_reach 0 s \<and> ins_inv 0 n {1..<n} s \<and> is_phase s = (\<lambda>_. Idle)(0 := Took 0)
     \<and> is_db s = {1..<n} \<and> is_failed s = {}"
  using assms
proof (induction n rule: dec_induct)
  case base
  obtain g1 where nx: "Acked_Next (is_gen (ins_init 0)) = (0, g1)"
    by (simp add: Acked_Next_def CounterGenerator_Next_def ins_init_def new_AcknowledgedCounterGenerator_def new_CounterGenerator_def)
  have idle: "is_phase (ins_init 0) 0 = Idle" by (simp add: ins_init_def)
  let ?s = "(ins_init 0)\<lparr>is_gen := g1, is_phase := (is_phase (ins_init 0))(0 := Took (unat (0 :: u64)))\<rparr>"
  have "window_ok ?s"
    using nx by (auto simp: window_ok_def next_number_def ack_next_def Acked_Next_def CounterGenerator_Next_def ins_init_def
        new_AcknowledgedCounterGenerator_def new_CounterGenerator_def W_def)
  then have "ins_inv 0 1 {} ?s" using ins_inv_take [OF ins_inv_init idle nx] by simp
  moreover have "ins_reach 0 ?s" by (rule ins_reach.step [OF ins_reach.start ins_step.take [OF idle nx]])
  ultimately show ?case by (intro exI [of _ ?s]) (simp add: ins_init_def)
next
  case (step n)
  then obtain s where s: "ins_reach 0 s" "ins_inv 0 n {1..<n} s" "is_phase s = (\<lambda>_. Idle)(0 := Took 0)"
    "is_db s = {1..<n}" "is_failed s = {}" using Suc_lessD by blast
  have "first_missing 0 {1..<n} = 0" by (rule first_missing_eqI) auto
  moreover have "insert n {1..<n} = {1..<Suc n}" using step(1) by auto
  moreover have "is_phase s 1 = Idle" by (simp add: s(3))
  moreover have "Suc n < W" "Suc n < 2 ^ 63" using step.prems by (simp_all add: W_def)
  ultimately obtain s' where "ins_reach 0 s'" "ins_inv 0 (Suc n) {1..<Suc n} s'" "is_phase s' = is_phase s"
    "is_db s' = {1..<Suc n}" "is_failed s' = {}"
    using ins_cycle [OF s(1,2), of 1] unfolding s(4,5) by auto
  then show ?case unfolding s(3) by (intro exI [of _ s'] conjI)
qed

lemma ack_advance_ge:
  "unat i \<le> unat (fst (ack_advance i until window))"
proof (induction i until window rule: ack_advance.induct)
  case (1 i until window)
  show ?case
  proof (cases "i < until \<and> window (slot_of i)")
    case True
    then have "unat (i + 1) = unat i + 1" by (intro unat_plus_one) auto
    then show ?thesis using 1 [of "slot_of i"] True by (subst ack_advance.simps) (auto simp: Let_def fun_upd_def)
  qed (subst ack_advance.simps, auto simp: Let_def)
qed

text \<open>C15: The window is not enforced. There is an execution in which one thread waits inside \<^verbatim>\<open>Insert\<close> with the key number 0
  while others insert the 65536 numbers after it: the acknowledgement of 65536 falls on the flag of number 0 and raises no exception,
  \<^verbatim>\<open>Last()\<close> passes 0, and the record of key 0 is neither in the database nor refused.\<close>

theorem overrun_breaks_safety:
  "\<exists>s. ins_reach 0 s \<and> is_phase s 0 = Took 0 \<and> 0 < unat (Acked_Last (is_gen s) + 1) \<and> 0 \<notin> is_db s \<union> is_failed s"
proof -
  obtain s where s: "ins_reach 0 s" "ins_inv 0 65535 {1..<65535} s" "is_phase s = (\<lambda>_. Idle)(0 := Took 0)"
    "is_db s = {1..<65535}" "is_failed s = {}"
    using overrun_prefix [of 65535] by (auto simp: W_def)
  have fm: "first_missing 0 {1..<65535} = 0" by (rule first_missing_eqI) auto
  have N: "ack_next (is_gen s) = 0" using ins_inv_window(3) [OF s(2)] unfolding fm .
  have rel: "cnt_counter (ack_counter (is_gen s)) = 65535" "window_rel {1..<65535} 0 (ack_window (is_gen s))"
    using ins_invD(1) [OF s(2)] unfolding ack_rel_def N by simp_all
  have lim0: "ack_limit (is_gen s) + 1 = 0" using N by (simp add: ack_next_def unat_eq_zero)
  obtain g1 where g1: "Acked_Next (is_gen s) = (65535, g1)" "ack_window g1 = ack_window (is_gen s)"
    "ack_limit g1 = ack_limit (is_gen s)" "cnt_counter (ack_counter g1) = 65536"
    using rel(1) by (intro that [of "snd (Acked_Next (is_gen s))"]) (simp_all add: Acked_Next_def CounterGenerator_Next_def)
  obtain g2 where g2: "Acked_Next g1 = (65536, g2)" "ack_window g2 = ack_window (is_gen s)"
    "ack_limit g2 = ack_limit (is_gen s)"
    using g1 by (intro that [of "snd (Acked_Next g1)"]) (simp_all add: Acked_Next_def CounterGenerator_Next_def)
  have "\<not> ack_window g2 0" using rel(2) g2(2) by (auto simp: window_rel_def W_def dest!: spec [of _ 0])
  moreover have slot: "slot_of 65536 = 0" "slot_of 0 = 0" by (simp_all add: slot_of_mod W_def)
  moreover have lim: "ack_limit g2 = - 1" using lim0 g2(3) by (simp add: eq_neg_iff_add_eq_0)
  ultimately obtain k w where g3: "Acknowledge 65536 g2 = Inr (g2\<lparr>ack_window := w, ack_limit := k - 1\<rparr>)"
    "ack_advance 0 65535 ((ack_window g2)(0 := True)) = (k, w)"
    by (fastforce simp: Acknowledge_def Let_def kWindowSize_eq split: prod.splits)
  have "ack_advance 1 65535 ((ack_window g2)(0 := False)) = (k, w)"
    using g3(2) slot(2) by (subst (asm) ack_advance.simps) (simp add: Let_def)
  then have k: "1 \<le> unat k" using ack_advance_ge [of 1 65535 "(ack_window g2)(0 := False)"] by simp
  let ?s1 = "s\<lparr>is_gen := g1, is_phase := (is_phase s)(2 := Took (unat (65535 :: u64)))\<rparr>"
  let ?s2 = "?s1\<lparr>is_gen := g2, is_phase := (is_phase ?s1)(1 := Took (unat (65536 :: u64)))\<rparr>"
  let ?s3 = "?s2\<lparr>is_db := insert 65536 (is_db ?s2), is_phase := (is_phase ?s2)(1 := Inserted 65536)\<rparr>"
  let ?s4 = "?s3\<lparr>is_gen := g2\<lparr>ack_window := w, ack_limit := k - 1\<rparr>, is_phase := (is_phase ?s3)(1 := Idle)\<rparr>"
  have "ins_reach 0 ?s1" by (rule ins_reach.step [OF s(1) ins_step.take]) (use s(3) g1(1) in simp_all)
  then have "ins_reach 0 ?s2" by (rule ins_reach.step [OF _ ins_step.take]) (use s(3) g2(1) in simp_all)
  then have "ins_reach 0 ?s3" by (rule ins_reach.step [OF _ ins_step.insert_ok]) simp
  then have "ins_reach 0 ?s4" by (rule ins_reach.step [OF _ ins_step.ack [where v = 65536]]) (use g3(1) in simp_all)
  moreover have "is_phase ?s4 0 = Took 0" "0 \<notin> is_db ?s4 \<union> is_failed ?s4" "0 < unat (Acked_Last (is_gen ?s4) + 1)"
    using s k by (simp_all add: Acked_Last_def)
  ultimately show ?thesis by blast
qed

end
