(* ===== verification/Msg_Buffer.thy ===== *)
theory Msg_Buffer
  imports KV_Store
begin

text \<open>
  The messages of the client-server backends (\<^verbatim>\<open>src/rocksdb-clisvr\<close> and \<^verbatim>\<open>src/sqlite\<close>): how keys, records, vectors of
  records and statuses are laid out in the message buffers of the RPC library. A buffer is its memory, of the
  size it was allocated with, and the size of the data in it. Writing or resizing beyond the memory is
  undefined behaviour. The bytes of a fresh buffer have no particular value; they are zero here.
\<close>

section \<open>Buffers\<close>

record MsgBuffer =
  mb_mem :: string
  mb_size :: nat

definition alloc_msg_buffer :: "nat \<Rightarrow> MsgBuffer" where
  "alloc_msg_buffer n = \<lparr>mb_mem = replicate n (CHR 0x00), mb_size = n\<rparr>"

definition mb_write :: "nat \<Rightarrow> string \<Rightarrow> MsgBuffer \<Rightarrow> MsgBuffer res" where
  "mb_write off bs b =
     (if off + length bs \<le> length (mb_mem b)
      then Inr (b\<lparr>mb_mem := take off (mb_mem b) @ bs @ drop (off + length bs) (mb_mem b)\<rparr>)
      else Inl (Undefined ''write past the end of the message buffer''))"

definition resize_msg_buffer :: "nat \<Rightarrow> MsgBuffer \<Rightarrow> MsgBuffer res" where
  "resize_msg_buffer n b = (if n \<le> length (mb_mem b) then Inr (b\<lparr>mb_size := n\<rparr>)
     else Inl (Undefined ''message buffer resized past its end''))"

definition mb_data :: "MsgBuffer \<Rightarrow> string" where
  "mb_data b = take (mb_size b) (mb_mem b)"

section \<open>Layout\<close>

definition SerializeKey :: "string \<Rightarrow> MsgBuffer \<Rightarrow> (nat \<times> MsgBuffer) res" where
  "SerializeKey key b =
     (let len = (of_nat (length key) :: u32) in
      andThen (mb_write 0 (le32 len) b) (\<lambda>b.
      andThen (mb_write 4 key b) (\<lambda>b.
      Inr (4 + length key, b))))"

text \<open>The loop of \<^verbatim>\<open>SerializeRow\<close>, which writes at \<open>base + offset\<close>; it returns the final offset.\<close>

fun SerializeRow_buf :: "Field list \<Rightarrow> nat \<Rightarrow> nat \<Rightarrow> MsgBuffer \<Rightarrow> (nat \<times> MsgBuffer) res" where
  "SerializeRow_buf [] base offset b = Inr (offset, b)"
| "SerializeRow_buf ((name, val) # values) base offset b =
     (let len = (of_nat (length name) :: u32) in
      andThen (mb_write (base + offset) (le32 len) b) (\<lambda>b.
      let offset = offset + 4 in
      andThen (mb_write (base + offset) name b) (\<lambda>b.
      let offset = offset + length name;
          len = (of_nat (length val) :: u32) in
      andThen (mb_write (base + offset) (le32 len) b) (\<lambda>b.
      let offset = offset + 4 in
      andThen (mb_write (base + offset) val b) (\<lambda>b.
      SerializeRow_buf values base (offset + length val) b)))))"

definition DeserializeKey :: "string \<Rightarrow> string res" where
  "DeserializeKey mem =
     andThen (read_u32 mem 0) (\<lambda>len. read_bytes mem 4 (unat len))"

text \<open>The reader of a vector of records, each after its length.\<close>

function DeserializeRowVector :: "bool \<Rightarrow> string \<Rightarrow> nat \<Rightarrow> nat \<Rightarrow> Field list list \<Rightarrow> Field list list res" where
  "DeserializeRowVector ndebug mem p end_p results =
     (if p = end_p then Inr results
      else case assert_that ndebug (p < end_p) ''p < lim'' of Inl e \<Rightarrow> Inl e | Inr _ \<Rightarrow>
        (case read_u32 mem p of Inl e \<Rightarrow> Inl e
         | Inr len \<Rightarrow>
             (case DeserializeRow_loop ndebug mem (p + 4) (p + 4 + unat len) [] of Inl e \<Rightarrow> Inl e
              | Inr values \<Rightarrow> DeserializeRowVector ndebug mem (p + 4 + unat len) end_p (results @ [values]))))"
  by pat_completeness auto
termination
  by (relation "measure (\<lambda>(_, mem, p, _). length mem - p)") (auto simp: read_u32_def split: if_splits)

declare DeserializeRowVector.simps [simp del]

text \<open>A status is sent as the four bytes of the enumerator.\<close>

fun status_code :: "Status \<Rightarrow> u32" where
  "status_code kOK = 0"
| "status_code kError = 1"
| "status_code kNotFound = 2"
| "status_code kNotImplemented = 3"

definition status_of_code :: "u32 \<Rightarrow> Status res" where
  "status_of_code w = (if w = 0 then Inr kOK else if w = 1 then Inr kError else if w = 2 then Inr kNotFound
     else if w = 3 then Inr kNotImplemented else Inl (Undefined ''not an enumerator of Status''))"

definition put_status :: "Status \<Rightarrow> MsgBuffer \<Rightarrow> MsgBuffer res" where
  "put_status s b = mb_write 0 (le32 (status_code s)) b"

text \<open>A response that is a status only.\<close>

definition status_response :: "Status \<Rightarrow> MsgBuffer \<Rightarrow> MsgBuffer res" where
  "status_response s resp = andThen (resize_msg_buffer 4 resp) (put_status s)"

definition get_status :: "MsgBuffer \<Rightarrow> Status res" where
  "get_status b = andThen (read_u32 (mb_mem b) 0) status_of_code"

section \<open>What the layout contains\<close>

lemma status_of_code_code [simp]: "status_of_code (status_code s) = Inr s"
  by (cases s) (simp_all add: status_of_code_def)

lemma mb_write_mem:
  "off + length bs \<le> length (mb_mem b) \<Longrightarrow>
    mb_write off bs b = Inr (b\<lparr>mb_mem := take off (mb_mem b) @ bs @ drop (off + length bs) (mb_mem b)\<rparr>)"
  by (simp add: mb_write_def)

lemma mb_write_append:
  assumes "mb_mem b = pre @ old" and "length bs \<le> length old" and "off = length pre"
  shows "mb_write off bs b = Inr (b\<lparr>mb_mem := pre @ bs @ drop (length bs) old\<rparr>)"
  using assms by (simp add: mb_write_def)

lemma SerializeKey_fits:
  assumes "4 + length key \<le> length (mb_mem b)"
  shows "SerializeKey key b = Inr (4 + length key,
     b\<lparr>mb_mem := le32 (of_nat (length key)) @ key @ drop (4 + length key) (mb_mem b)\<rparr>)"
proof -
  let ?l = "le32 (of_nat (length key))"
  have "mb_write 0 ?l b = Inr (b\<lparr>mb_mem := ?l @ drop 4 (mb_mem b)\<rparr>)"
    using assms mb_write_append [of b "[]" "mb_mem b" ?l 0] by simp
  moreover have "mb_write 4 key (b\<lparr>mb_mem := ?l @ drop 4 (mb_mem b)\<rparr>) = Inr (b\<lparr>mb_mem := ?l @ key @ drop (4 + length key) (mb_mem b)\<rparr>)"
    using assms by (subst mb_write_append [where pre = ?l and old = "drop 4 (mb_mem b)"]) (simp_all add: add.commute)
  ultimately show ?thesis by (simp add: SerializeKey_def)
qed

lemma SerializeRow_buf_fits:
  assumes "mb_mem b = pre @ old" and "length (concat (map encode_field vs)) \<le> length old" and "length pre = base + offset"
  shows "SerializeRow_buf vs base offset b = Inr (offset + length (concat (map encode_field vs)),
     b\<lparr>mb_mem := pre @ concat (map encode_field vs) @ drop (length (concat (map encode_field vs))) old\<rparr>)"
  using assms
proof (induction vs base offset b arbitrary: pre old rule: SerializeRow_buf.induct)
  case (1 base offset b)
  then show ?case by simp
next
  case (2 name val vs base offset b)
  let ?n = "le32 (of_nat (length name))" and ?v = "le32 (of_nat (length val))"
  let ?e = "encode_field (name, val)"
  have e: "?e = ?n @ name @ ?v @ val" by (simp add: encode_field_def)
  have len: "length ?e + length (concat (map encode_field vs)) \<le> length old" using 2(3) by simp
  then have l: "8 + length name + length val \<le> length old" by (simp add: e)
  have w1: "mb_write (base + offset) ?n b = Inr (b\<lparr>mb_mem := pre @ ?n @ drop 4 old\<rparr>)"
    using 2(2,4) l by (subst mb_write_append [where pre = pre and old = old]) simp_all
  have w2: "mb_write (base + (offset + 4)) name (b\<lparr>mb_mem := pre @ ?n @ drop 4 old\<rparr>) =
      Inr (b\<lparr>mb_mem := pre @ ?n @ name @ drop (4 + length name) old\<rparr>)"
    using 2(4) l by (subst mb_write_append [where pre = "pre @ ?n" and old = "drop 4 old"]) (simp_all add: add.commute)
  have w3: "mb_write (base + (offset + 4 + length name)) ?v (b\<lparr>mb_mem := pre @ ?n @ name @ drop (4 + length name) old\<rparr>) =
      Inr (b\<lparr>mb_mem := pre @ ?n @ name @ ?v @ drop (8 + length name) old\<rparr>)"
    using 2(4) l by (subst mb_write_append [where pre = "pre @ ?n @ name" and old = "drop (4 + length name) old"]) simp_all
  have w4: "mb_write (base + (offset + 4 + length name + 4)) val (b\<lparr>mb_mem := pre @ ?n @ name @ ?v @ drop (8 + length name) old\<rparr>) =
      Inr (b\<lparr>mb_mem := (pre @ ?e) @ drop (length ?e) old\<rparr>)"
    using 2(4) l by (subst mb_write_append [where pre = "pre @ ?n @ name @ ?v" and old = "drop (8 + length name) old"])
      (simp_all add: e ac_simps)
  have "SerializeRow_buf ((name, val) # vs) base offset b =
      SerializeRow_buf vs base (offset + 4 + length name + 4 + length val) (b\<lparr>mb_mem := (pre @ ?e) @ drop (length ?e) old\<rparr>)"
    by (simp only: SerializeRow_buf.simps Let_def w1 w2 w3 w4 andThen_simps)
  also have "\<dots> = Inr (offset + length ?e + length (concat (map encode_field vs)),
      b\<lparr>mb_mem := (pre @ ?e) @ concat (map encode_field vs) @ drop (length (concat (map encode_field vs))) (drop (length ?e) old)\<rparr>)"
    using len 2(4) by (subst 2(1) [OF refl refl refl refl refl, where pre = "pre @ ?e" and old = "drop (length ?e) old"])
      (simp_all add: e)
  finally show ?case by (simp add: ac_simps)
qed

lemma DeserializeKey_key:
  "length key < 2 ^ 32 \<Longrightarrow> DeserializeKey (le32 (of_nat (length key)) @ key @ rest) = Inr key"
  using read_u32_append [of 0 "[]" "of_nat (length key)" "key @ rest"] read_bytes_append [of 4 "le32 (of_nat (length key))" "length key" key rest]
  by (simp add: DeserializeKey_def unat_of_nat)

definition encode_blob :: "string \<Rightarrow> string" where
  "encode_blob v = le32 (of_nat (length v)) @ v"

lemma DeserializeRowVector_encode:
  assumes "\<forall>r \<in> set rs. (\<forall>fv \<in> set r. small fv) \<and> length (concat (map encode_field r)) < 2 ^ 32"
  shows "DeserializeRowVector ndebug (pre @ concat (map (\<lambda>r. encode_blob (concat (map encode_field r))) rs) @ post) (length pre)
     (length pre + length (concat (map (\<lambda>r. encode_blob (concat (map encode_field r))) rs))) results = Inr (results @ rs)"
  using assms
proof (induction rs arbitrary: pre results)
  case Nil
  then show ?case by (simp add: DeserializeRowVector.simps)
next
  case (Cons r rs)
  let ?r = "concat (map encode_field r)"
  let ?rest = "concat (map (\<lambda>r. encode_blob (concat (map encode_field r))) rs)"
  let ?mem = "pre @ encode_blob ?r @ ?rest @ post"
  have s: "\<forall>fv \<in> set r. small fv" and l: "length ?r < 2 ^ 32" using Cons.prems by simp_all
  have u: "unat (of_nat (length ?r) :: u32) = length ?r" using l by (simp add: unat_of_nat)
  have 1: "read_u32 ?mem (length pre) = Inr (of_nat (length ?r))"
    using read_u32_append [of "length pre" pre "of_nat (length ?r)" "?r @ ?rest @ post"] by (simp add: encode_blob_def)
  have 2: "DeserializeRow_loop ndebug ?mem (length pre + 4) (length pre + 4 + length ?r) [] = Inr r"
    using DeserializeRow_loop_encode [OF s, of ndebug "pre @ le32 (of_nat (length ?r))" "?rest @ post" "[]"]
    by (simp add: encode_blob_def)
  have 3: "DeserializeRowVector ndebug ?mem (length pre + 4 + length ?r) (length pre + 4 + length ?r + length ?rest) (results @ [r])
      = Inr (results @ r # rs)"
    using Cons.IH [of "pre @ encode_blob ?r" "results @ [r]"] Cons.prems by (simp add: encode_blob_def add.assoc)
  show ?case using 1 2 3
    by (subst DeserializeRowVector.simps) (simp add: u encode_blob_def add.assoc)
qed

lemma mb_write_overflow: "length (mb_mem b) < off + length bs \<Longrightarrow> mb_write off bs b = Inl (Undefined ''write past the end of the message buffer'')"
  by (simp add: mb_write_def)

lemma mb_write_length: "mb_write off bs b = Inr b' \<Longrightarrow> length (mb_mem b') = length (mb_mem b)"
  by (auto simp: mb_write_def split: if_splits)

lemma SerializeRow_buf_overflow:
  assumes "length (mb_mem b) < base + offset + length (concat (map encode_field vs))" and "base + offset \<le> length (mb_mem b)"
  shows "\<exists>msg. SerializeRow_buf vs base offset b = Inl (Undefined msg)"
  using assms
proof (induction vs base offset b rule: SerializeRow_buf.induct)
  case (2 name val vs base offset b)
  have e: "length (encode_field (name, val)) = 8 + length name + length val" by (simp add: encode_field_def)
  show ?case
  proof (cases "base + offset + (8 + length name + length val) \<le> length (mb_mem b)")
    case False
    then show ?thesis by (auto simp: mb_write_def Let_def)
  next
    case True
    let ?n = "le32 (of_nat (length name))" and ?v = "le32 (of_nat (length val))"
    obtain b1 where b1: "mb_write (base + offset) ?n b = Inr b1" using True by (simp add: mb_write_def)
    note l1 = mb_write_length [OF b1]
    obtain b2 where b2: "mb_write (base + (offset + 4)) name b1 = Inr b2" using True l1 by (simp add: mb_write_def)
    note l2 = mb_write_length [OF b2]
    obtain b3 where b3: "mb_write (base + (offset + 4 + length name)) ?v b2 = Inr b3" using True l1 l2 by (simp add: mb_write_def)
    note l3 = mb_write_length [OF b3]
    obtain b4 where b4: "mb_write (base + (offset + 4 + length name + 4)) val b3 = Inr b4" using True l1 l2 l3 by (simp add: mb_write_def)
    note l4 = mb_write_length [OF b4]
    have "\<exists>msg. SerializeRow_buf vs base (offset + 4 + length name + 4 + length val) b4 = Inl (Undefined msg)"
      using 2(2) e True l1 l2 l3 l4 by (intro 2(1) [OF refl refl refl refl refl]) simp_all
    then show ?thesis by (simp only: SerializeRow_buf.simps Let_def b1 b2 b3 b4 andThen_simps)
  qed
qed simp

end
