(* ===== verification/Rpc_Client.thy ===== *)
theory Rpc_Client
  imports Msg_Buffer
begin

text \<open>
  The client of the client-server backends. \<^verbatim>\<open>src/rocksdb-clisvr/rocksdb_cli.cc\<close> and \<^verbatim>\<open>src/sqlite/sqlite_cli.cc\<close> have the same
  code but for their request types and property names, which are arguments here. The RPC library is a parameter
  of two functions: what the server answers to a request, and after how many rounds of the event loop the answer
  arrives. The locale \<open>kv_server\<close> (with \<open>row_server\<close> and \<open>scan_server\<close>) states what a client relies on of its server; the refinement of the client is
  proved from it once, and each server is an interpretation.
\<close>

section \<open>The RPC library and the client's state\<close>

record 'n rpc_net =
  rn_serve :: "nat \<Rightarrow> string \<Rightarrow> 'n \<Rightarrow> (string \<times> 'n) res"
  rn_rounds :: "nat \<Rightarrow> string \<Rightarrow> nat"

text \<open>
  The members of a client with the static members of its class, the request under way (the rounds until its answer
  arrives, its type and its bytes), and the state of the server behind the library.
\<close>

record 'n RpcClient =
  rc_props :: Properties
  rc_req :: MsgBuffer
  rc_resp :: MsgBuffer
  rc_complete :: bool
  rc_rpc_id :: "8 word"
  rc_nexus :: handle
  rc_global_rpc_id :: "8 word"
  rc_pending :: "(nat \<times> nat \<times> string) option"
  rc_net :: 'n

section \<open>Requests\<close>

definition notifyRpcComplete :: "'n RpcClient \<Rightarrow> 'n RpcClient" where
  "notifyRpcComplete c = c\<lparr>rc_complete := True\<rparr>"

text \<open>The library keeps the request buffer until the answer is there: a second request before that is an error.\<close>

definition enqueue_request :: "'n rpc_net \<Rightarrow> nat \<Rightarrow> 'n RpcClient \<Rightarrow> 'n RpcClient res" where
  "enqueue_request net req_type c =
     (if rc_pending c \<noteq> None then Inl (Undefined ''request buffer in use'')
      else let data = mb_data (rc_req c) in Inr (c\<lparr>rc_pending := Some (rn_rounds net req_type data, req_type, data)\<rparr>))"

definition run_event_loop_once :: "'n rpc_net \<Rightarrow> 'n RpcClient \<Rightarrow> 'n RpcClient res" where
  "run_event_loop_once net c =
     (case rc_pending c of
        None \<Rightarrow> Inr c
      | Some (d, req_type, data) \<Rightarrow>
          if 0 < d then Inr (c\<lparr>rc_pending := Some (d - 1, req_type, data)\<rparr>)
          else andThen (rn_serve net req_type data (rc_net c)) (\<lambda>(bytes, n).
               andThen (mb_write 0 bytes (rc_resp c)) (\<lambda>resp.
               andThen (resize_msg_buffer (length bytes) resp) (\<lambda>resp.
               Inr (notifyRpcComplete (c\<lparr>rc_pending := None, rc_net := n, rc_resp := resp\<rparr>))))))"

text \<open>Without a request under way the loop would never end, which is an error value here.\<close>

function (sequential) pollForRpcComplete :: "'n rpc_net \<Rightarrow> 'n RpcClient \<Rightarrow> 'n RpcClient res" where
  "pollForRpcComplete net c =
     (if rc_complete c then Inr (c\<lparr>rc_complete := False\<rparr>)
      else if rc_pending c = None then Inl (Undefined ''polls for ever'')
      else case run_event_loop_once net c of Inl e \<Rightarrow> Inl e | Inr c' \<Rightarrow> pollForRpcComplete net c')"
  by pat_completeness auto
termination
  by (relation "measure (\<lambda>(net, c). if rc_complete c then 0 else case rc_pending c of None \<Rightarrow> 0 | Some (d, _) \<Rightarrow> Suc d)")
    (auto simp: run_event_loop_once_def notifyRpcComplete_def andThen_def split: sum.splits if_splits)

declare pollForRpcComplete.simps [simp del]

definition rpc_request :: "'n rpc_net \<Rightarrow> nat \<Rightarrow> 'n RpcClient \<Rightarrow> 'n RpcClient res" where
  "rpc_request net req_type c = andThen (enqueue_request net req_type c) (pollForRpcComplete net)"

section \<open>The operations\<close>

text \<open>\<^verbatim>\<open>pfx\<close> is the first part of the property names of a backend. A negative message size cannot be allocated.\<close>

definition alloc_size :: "string \<Rightarrow> nat res" where
  "alloc_size prop =
     andThen (stoul prop) (\<lambda>v.
     let msg_size = sint (ucast v :: u32) in
     if msg_size < 0 then Inl (Undefined ''alloc_msg_buffer_or_die'') else Inr (nat msg_size))"

definition msg_size_of :: "string \<Rightarrow> Properties \<Rightarrow> nat res" where
  "msg_size_of pfx props = alloc_size (GetProperty props (pfx @ ''.msg_size'') ''1024'')"

definition rpc_Init :: "string \<Rightarrow> 'n RpcClient \<Rightarrow> (unit \<times> 'n RpcClient) res" where
  "rpc_Init pfx c =
     (let props = rc_props c in
      andThen (stoi (GetProperty props (pfx @ ''.phy_port'') ''0'')) (\<lambda>phy_port.
      let rpc_id = rc_global_rpc_id c;
          c = c\<lparr>rc_global_rpc_id := rc_global_rpc_id c + 1\<rparr>;
          c = (if rc_nexus c = NullHandle then c\<lparr>rc_nexus := LiveHandle\<rparr> else c);
          c = c\<lparr>rc_rpc_id := rpc_id\<rparr> in
      andThen (msg_size_of pfx props) (\<lambda>msg_size.
      Inr ((), c\<lparr>rc_req := alloc_msg_buffer msg_size, rc_resp := alloc_msg_buffer msg_size\<rparr>))))"

definition rpc_Cleanup :: "'n RpcClient \<Rightarrow> (unit \<times> 'n RpcClient) res" where
  "rpc_Cleanup c =
     (let before = rc_global_rpc_id c;
          c = c\<lparr>rc_global_rpc_id := rc_global_rpc_id c - 1\<rparr>
      in Inr ((), if before = 1 then c\<lparr>rc_nexus := NullHandle\<rparr> else c))"

definition rpc_Read ::
    "'n rpc_net \<Rightarrow> nat \<Rightarrow> bool \<Rightarrow> string \<Rightarrow> string \<Rightarrow> string list option \<Rightarrow> 'n RpcClient
     \<Rightarrow> ((Status \<times> Field list) \<times> 'n RpcClient) res" where
  "rpc_Read net req_type ndebug table key flds c =
     andThen (SerializeKey key (rc_req c)) (\<lambda>(k_size, req).
     andThen (resize_msg_buffer k_size req) (\<lambda>req.
     andThen (rpc_request net req_type (c\<lparr>rc_req := req\<rparr>)) (\<lambda>c.
     if mb_size (rc_resp c) < 4 then Inr ((kError, []), c)
     else andThen (get_status (rc_resp c)) (\<lambda>s.
       if s \<noteq> kOK then Inr ((s, []), c)
       else andThen (DeserializeRow_loop ndebug (mb_mem (rc_resp c)) 4 (mb_size (rc_resp c)) []) (\<lambda>result.
         Inr ((kOK, result), c))))))"

definition rpc_Scan ::
    "'n rpc_net \<Rightarrow> nat \<Rightarrow> bool \<Rightarrow> string \<Rightarrow> string \<Rightarrow> int \<Rightarrow> string list option \<Rightarrow> 'n RpcClient
     \<Rightarrow> ((Status \<times> Field list list) \<times> 'n RpcClient) res" where
  "rpc_Scan net req_type ndebug table key len flds c =
     andThen (SerializeKey key (rc_req c)) (\<lambda>(k_size, req).
     andThen (mb_write k_size (le32 (word_of_int len)) req) (\<lambda>req.
     andThen (resize_msg_buffer (k_size + 4) req) (\<lambda>req.
     andThen (rpc_request net req_type (c\<lparr>rc_req := req\<rparr>)) (\<lambda>c.
     if mb_size (rc_resp c) < 4 then Inr ((kError, []), c)
     else andThen (get_status (rc_resp c)) (\<lambda>s.
       if s \<noteq> kOK then Inr ((s, []), c)
       else andThen (DeserializeRowVector ndebug (mb_mem (rc_resp c)) 4 (mb_size (rc_resp c)) []) (\<lambda>result.
         Inr ((kOK, result), c)))))))"

text \<open>The answer to a request whose response is a status only.\<close>

definition status_reply :: "bool \<Rightarrow> 'n RpcClient \<Rightarrow> (Status \<times> 'n RpcClient) res" where
  "status_reply ndebug c =
     andThen (assert_that ndebug (mb_size (rc_resp c) = 4) ''resp_.get_data_size() == sizeof(DB::Status)'') (\<lambda>_.
     andThen (get_status (rc_resp c)) (\<lambda>s. Inr (s, c)))"

definition rpc_Write ::
    "'n rpc_net \<Rightarrow> nat \<Rightarrow> bool \<Rightarrow> string \<Rightarrow> string \<Rightarrow> Field list \<Rightarrow> 'n RpcClient \<Rightarrow> (Status \<times> 'n RpcClient) res" where
  "rpc_Write net req_type ndebug table key values c =
     andThen (SerializeKey key (rc_req c)) (\<lambda>(k_size, req).
     andThen (SerializeRow_buf values k_size 0 req) (\<lambda>(v_size, req).
     andThen (resize_msg_buffer (k_size + v_size) req) (\<lambda>req.
     andThen (rpc_request net req_type (c\<lparr>rc_req := req\<rparr>)) (status_reply ndebug))))"

definition rpc_Delete ::
    "'n rpc_net \<Rightarrow> nat \<Rightarrow> bool \<Rightarrow> string \<Rightarrow> string \<Rightarrow> 'n RpcClient \<Rightarrow> (Status \<times> 'n RpcClient) res" where
  "rpc_Delete net req_type ndebug table key c =
     andThen (SerializeKey key (rc_req c)) (\<lambda>(k_size, req).
     andThen (resize_msg_buffer k_size req) (\<lambda>req.
     andThen (rpc_request net req_type (c\<lparr>rc_req := req\<rparr>)) (status_reply ndebug)))"

text \<open>The class as a whole; \<open>rd\<close>, \<open>up\<close>, \<open>ins\<close>, \<open>del\<close> and \<open>scn\<close> are its request types.\<close>

definition Rpc_ops ::
    "'n rpc_net \<Rightarrow> string \<Rightarrow> nat \<Rightarrow> nat \<Rightarrow> nat \<Rightarrow> nat \<Rightarrow> nat \<Rightarrow> bool \<Rightarrow> bool \<Rightarrow> 'n RpcClient DB" where
  "Rpc_ops net pfx rd up ins del scn reinit ndebug =
     \<lparr>db_Init = rpc_Init pfx, db_Cleanup = rpc_Cleanup,
      db_Read = rpc_Read net rd ndebug, db_Scan = rpc_Scan net scn ndebug,
      db_Update = rpc_Write net up ndebug, db_Insert = rpc_Write net ins ndebug,
      db_Delete = rpc_Delete net del ndebug,
      db_ReadIdx = (\<lambda>_ _. Inl (Undefined ''pure virtual ReadIdx'')),
      db_ReInitBeforeTransaction = reinit,
      db_SetProps = (\<lambda>p c. c\<lparr>rc_props := p\<rparr>)\<rparr>"

section \<open>A request is answered\<close>

lemma pollForRpcComplete_answer:
  assumes "\<not> rc_complete c" and "rc_pending c = Some (d, ty, data)" and "rn_serve net ty data (rc_net c) = Inr (bytes, n)"
    and "length bytes \<le> length (mb_mem (rc_resp c))"
  shows "pollForRpcComplete net c = Inr (c\<lparr>rc_pending := None, rc_net := n, rc_complete := False,
     rc_resp := (rc_resp c)\<lparr>mb_mem := bytes @ drop (length bytes) (mb_mem (rc_resp c)), mb_size := length bytes\<rparr>\<rparr>)"
  using assms
proof (induction d arbitrary: c)
  case 0
  then show ?case
    by (subst pollForRpcComplete.simps)
      (simp add: run_event_loop_once_def mb_write_def resize_msg_buffer_def notifyRpcComplete_def, simp add: pollForRpcComplete.simps)
next
  case (Suc d)
  let ?c = "c\<lparr>rc_pending := Some (d, ty, data)\<rparr>"
  have "run_event_loop_once net c = Inr ?c" using Suc.prems(2) by (simp add: run_event_loop_once_def)
  then have "pollForRpcComplete net c = pollForRpcComplete net ?c" using Suc.prems(1,2) by (subst pollForRpcComplete.simps) simp
  also have "\<dots> = Inr (?c\<lparr>rc_pending := None, rc_net := n, rc_complete := False,
     rc_resp := (rc_resp ?c)\<lparr>mb_mem := bytes @ drop (length bytes) (mb_mem (rc_resp ?c)), mb_size := length bytes\<rparr>\<rparr>)"
    using Suc.prems by (intro Suc.IH) simp_all
  finally show ?case by simp
qed

lemma rpc_request_ok:
  assumes "rn_serve net ty (mb_data (rc_req c)) (rc_net c) = Inr (bytes, n)" and "length bytes \<le> length (mb_mem (rc_resp c))"
    and "\<not> rc_complete c" and "rc_pending c = None"
  shows "rpc_request net ty c = Inr (c\<lparr>rc_net := n,
     rc_resp := (rc_resp c)\<lparr>mb_mem := bytes @ drop (length bytes) (mb_mem (rc_resp c)), mb_size := length bytes\<rparr>\<rparr>)"
proof -
  let ?c = "c\<lparr>rc_pending := Some (rn_rounds net ty (mb_data (rc_req c)), ty, mb_data (rc_req c))\<rparr>"
  have "pollForRpcComplete net ?c = Inr (?c\<lparr>rc_pending := None, rc_net := n, rc_complete := False,
     rc_resp := (rc_resp ?c)\<lparr>mb_mem := bytes @ drop (length bytes) (mb_mem (rc_resp ?c)), mb_size := length bytes\<rparr>\<rparr>)"
    using assms by (intro pollForRpcComplete_answer) simp_all
  moreover have "c\<lparr>rc_pending := None, rc_complete := False\<rparr> = c" using assms(3,4) by (cases c) simp
  ultimately show ?thesis using assms(4) by (simp add: rpc_request_def enqueue_request_def Let_def) (cases c, simp add: assms)
qed

lemma get_status_bytes: "mb_mem b = le32 (status_code s) @ rest \<Longrightarrow> get_status b = Inr s"
  using read_u32_append [of 0 "[]" "status_code s" rest] by (simp add: get_status_def)

lemma status_reply_ok:
  "mb_size (rc_resp c) = 4 \<Longrightarrow> mb_mem (rc_resp c) = le32 (status_code s) @ rest \<Longrightarrow> status_reply ndebug c = Inr (s, c)"
  by (auto simp: status_reply_def get_status_bytes)

section \<open>Messages\<close>

abbreviation key_msg :: "string \<Rightarrow> string" where
  "key_msg k \<equiv> le32 (of_nat (length k)) @ k"

definition row_bytes :: "Field list \<Rightarrow> string" where
  "row_bytes r = concat (map encode_field r)"

definition blob_ok :: "nat \<Rightarrow> Field list \<Rightarrow> bool" where
  "blob_ok R r \<longleftrightarrow> (\<forall>fv \<in> set r. small fv) \<and> length (row_bytes r) \<le> R"

lemma key_msg_read: "length k < 2 ^ 31 \<Longrightarrow> DeserializeKey (key_msg k @ rest) = Inr k"
  using DeserializeKey_key [of k rest] by simp

lemma SerializeRow_row_bytes: "SerializeRow vs [] = row_bytes vs"
  by (simp add: SerializeRow_concat row_bytes_def)

lemma blob_length: "blob_ok R r \<Longrightarrow> length (encode_blob (row_bytes r)) \<le> 4 + R"
  by (simp add: encode_blob_def blob_ok_def)

lemma length_concat_bound: "\<forall>x \<in> set xs. length (f x) \<le> n \<Longrightarrow> length (concat (map f xs)) \<le> length xs * n"
  by (induction xs) auto

lemma status_response_ok:
  assumes "4 \<le> length (mb_mem b)"
  obtains b' where "status_response s b = Inr b'" "mb_data b' = le32 (status_code s)"
    "length (mb_mem b') = length (mb_mem b)"
  using assms by (simp add: status_response_def resize_msg_buffer_def put_status_def mb_write_def mb_data_def)

lemma data_response_ok:
  assumes "4 + length data \<le> length (mb_mem b)"
  obtains b' where "andThen (resize_msg_buffer (4 + length data) b) (\<lambda>resp. andThen (put_status kOK resp) (mb_write 4 data)) = Inr b'"
    "mb_data b' = le32 0 @ data" "length (mb_mem b') = length (mb_mem b)"
  using assms by (simp add: resize_msg_buffer_def put_status_def mb_write_def mb_data_def)

lemma key_request:
  assumes "4 + length k \<le> length (mb_mem b)"
  obtains req where "andThen (SerializeKey k b) (\<lambda>(k_size, req). andThen (resize_msg_buffer k_size req) f) = f req"
    "length (mb_mem req) = length (mb_mem b)" "mb_data req = key_msg k"
proof -
  let ?req = "b\<lparr>mb_mem := key_msg k @ drop (4 + length k) (mb_mem b), mb_size := 4 + length k\<rparr>"
  have "andThen (SerializeKey k b) (\<lambda>(k_size, req). andThen (resize_msg_buffer k_size req) f) = f ?req"
    using assms by (simp add: SerializeKey_fits resize_msg_buffer_def)
  then show thesis by (rule that) (use assms in \<open>simp_all add: mb_data_def\<close>)
qed

lemma row_request:
  assumes "4 + length k + length (row_bytes vs) \<le> length (mb_mem b)"
  obtains req where "andThen (SerializeKey k b) (\<lambda>(k_size, req). andThen (SerializeRow_buf vs k_size 0 req) (\<lambda>(v_size, req).
      andThen (resize_msg_buffer (k_size + v_size) req) f)) = f req"
    "length (mb_mem req) = length (mb_mem b)" "mb_data req = key_msg k @ row_bytes vs"
proof -
  let ?v = "row_bytes vs" and ?old = "drop (4 + length k) (mb_mem b)"
  let ?req = "b\<lparr>mb_mem := key_msg k @ ?v @ drop (length ?v) ?old, mb_size := 4 + length k + length ?v\<rparr>"
  have "SerializeRow_buf vs (4 + length k) 0 (b\<lparr>mb_mem := key_msg k @ ?old\<rparr>) =
      Inr (length ?v, b\<lparr>mb_mem := key_msg k @ ?v @ drop (length ?v) ?old\<rparr>)"
    using assms SerializeRow_buf_fits [of "b\<lparr>mb_mem := key_msg k @ ?old\<rparr>" "key_msg k" ?old vs "4 + length k" 0]
    by (simp add: row_bytes_def)
  moreover have "SerializeKey k b = Inr (4 + length k, b\<lparr>mb_mem := key_msg k @ ?old\<rparr>)" using assms by (simp add: SerializeKey_fits)
  ultimately have "andThen (SerializeKey k b) (\<lambda>(k_size, req). andThen (SerializeRow_buf vs k_size 0 req) (\<lambda>(v_size, req).
      andThen (resize_msg_buffer (k_size + v_size) req) f)) = f ?req"
    using assms by (simp add: resize_msg_buffer_def)
  then show thesis by (rule that) (use assms in \<open>simp_all add: mb_data_def\<close>)
qed

lemma scan_request:
  assumes "8 + length k \<le> length (mb_mem b)"
  obtains req where "andThen (SerializeKey k b) (\<lambda>(k_size, req). andThen (mb_write k_size (le32 w) req) (\<lambda>req.
      andThen (resize_msg_buffer (k_size + 4) req) f)) = f req"
    "length (mb_mem req) = length (mb_mem b)" "mb_data req = key_msg k @ le32 w"
proof -
  let ?old = "drop (4 + length k) (mb_mem b)"
  let ?req = "b\<lparr>mb_mem := key_msg k @ le32 w @ drop 4 ?old, mb_size := 4 + length k + 4\<rparr>"
  have "mb_write (4 + length k) (le32 w) (b\<lparr>mb_mem := key_msg k @ ?old\<rparr>) = Inr (b\<lparr>mb_mem := key_msg k @ le32 w @ drop 4 ?old\<rparr>)"
    using assms by (subst mb_write_append [where pre = "key_msg k" and old = ?old]) simp_all
  moreover have "SerializeKey k b = Inr (4 + length k, b\<lparr>mb_mem := key_msg k @ ?old\<rparr>)" using assms by (simp add: SerializeKey_fits)
  ultimately have "andThen (SerializeKey k b) (\<lambda>(k_size, req). andThen (mb_write k_size (le32 w) req) (\<lambda>req.
      andThen (resize_msg_buffer (k_size + 4) req) f)) = f ?req"
    using assms by (simp add: resize_msg_buffer_def)
  then show thesis by (rule that) (use assms in \<open>simp_all add: mb_data_def\<close>)
qed

section \<open>Tables of whole records\<close>

text \<open>The table that a server of whole records implements: reads return whole records, and an update replaces the record.\<close>

definition Blob_ops :: "table DB" where
  "Blob_ops = Table_ops\<lparr>db_Read := (\<lambda>t k _. db_Read Table_ops t k None), db_Scan := (\<lambda>t k n _. db_Scan Table_ops t k n None),
     db_Update := db_Insert Table_ops\<rparr>"

lemma Blob_ops_simps:
  "db_Read Blob_ops t k flds m = Inr (case m k of None \<Rightarrow> (kNotFound, []) | Some r \<Rightarrow> (kOK, r), m)"
  "db_Scan Blob_ops t k i flds m = Inr ((kOK, map (\<lambda>x. the (m x)) (take (nat i) (keys_from k m))), m)"
  "db_Update Blob_ops t k vs m = Inr (kOK, m(k \<mapsto> vs))" "db_Insert Blob_ops t k vs m = Inr (kOK, m(k \<mapsto> vs))"
  "db_Delete Blob_ops t k m = Inr (kOK, m(k := None))"
  by (auto simp: Blob_ops_def Table_ops_def select_def split: option.splits)

section \<open>The contract of a server\<close>

text \<open>The calls whose messages fit: \<open>N\<close> is the message size and \<open>R\<close> a bound on the size of a record.\<close>

fun row_fits :: "nat \<Rightarrow> nat \<Rightarrow> dbcall \<Rightarrow> bool" where
  "row_fits N R (CRead _ k _) = (4 + length k \<le> N)"
| "row_fits N R (CUpdate _ k vs) = (blob_ok R vs \<and> 4 + length k + length (row_bytes vs) \<le> N)"
| "row_fits N R (CInsert _ k vs) = (blob_ok R vs \<and> 4 + length k + length (row_bytes vs) \<le> N)"
| "row_fits N R (CDelete _ k) = (4 + length k \<le> N)"
| "row_fits N R (CScan _ _ _ _) = False"
| "row_fits N R (CReadIdx _) = False"

fun is_scan :: "dbcall \<Rightarrow> bool" where
  "is_scan (CScan _ _ _ _) = True"
| "is_scan _ = False"

definition fits :: "nat \<Rightarrow> nat \<Rightarrow> dbcall \<Rightarrow> bool" where
  "fits N R q = (case q of CScan _ k i _ \<Rightarrow> 8 + length k \<le> N \<and> int32_ok i \<and> 4 + nat i * (4 + R) \<le> N | _ \<Rightarrow> row_fits N R q)"

lemma fits_CScan [simp]: "fits N R (CScan t k i flds) \<longleftrightarrow> 8 + length k \<le> N \<and> int32_ok i \<and> 4 + nat i * (4 + R) \<le> N"
  by (simp add: fits_def)

lemma fits_row [simp]: "\<not> is_scan q \<Longrightarrow> fits N R q = row_fits N R q"
  by (cases q) (simp_all add: fits_def)

text \<open>A client between two calls: the server is in order, the buffers have the message size and no request is under way.\<close>

definition client_ok :: "('n \<Rightarrow> bool) \<Rightarrow> nat \<Rightarrow> 'n RpcClient \<Rightarrow> bool" where
  "client_ok ok N c \<longleftrightarrow> ok (rc_net c) \<and> length (mb_mem (rc_req c)) = N \<and> length (mb_mem (rc_resp c)) = N
     \<and> \<not> rc_complete c \<and> rc_pending c = None"

text \<open>
  A server keeps a table of records and answers the requests of the types \<open>rd\<close>, \<open>up\<close> and \<open>ins\<close> as the
  operations of \<open>spec\<close> do, within the message size \<open>N\<close>, for records of at most \<open>R\<close> bytes. After the status of a
  missing key it may send anything.
\<close>

locale kv_server =
  fixes serve :: "nat \<Rightarrow> string \<Rightarrow> 'n \<Rightarrow> (string \<times> 'n) res" and tbl :: "'n \<Rightarrow> table" and ok :: "'n \<Rightarrow> bool"
    and spec :: "table DB" and N R rd up ins :: nat
  assumes size: "ok n \<Longrightarrow> 4 \<le> N \<and> N < 2 ^ 31"
    and spec_read: "db_Read spec t k flds m = Inr (case m k of None \<Rightarrow> (kNotFound, []) | Some r \<Rightarrow> (kOK, r), m)"
    and serve_read: "ok n \<Longrightarrow> 4 + length k \<le> N \<Longrightarrow> \<exists>bytes rest n'. serve rd (key_msg k) n = Inr (bytes, n') \<and> ok n' \<and> tbl n' = tbl n
        \<and> length bytes \<le> N \<and> (case tbl n k of None \<Rightarrow> bytes = le32 (status_code kNotFound) @ rest
           | Some r \<Rightarrow> bytes = le32 (status_code kOK) @ row_bytes r \<and> blob_ok R r)"
    and serve_update: "ok n \<Longrightarrow> 4 + length k \<le> N \<Longrightarrow> blob_ok R vs \<Longrightarrow> \<exists>s n'. serve up (key_msg k @ row_bytes vs) n = Inr (le32 (status_code s), n')
        \<and> ok n' \<and> db_Update spec t k vs (tbl n) = Inr (s, tbl n')"
    and serve_insert: "ok n \<Longrightarrow> 4 + length k \<le> N \<Longrightarrow> blob_ok R vs \<Longrightarrow> \<exists>s n'. serve ins (key_msg k @ row_bytes vs) n = Inr (le32 (status_code s), n')
        \<and> ok n' \<and> db_Insert spec t k vs (tbl n) = Inr (s, tbl n')"
begin

lemma client_okD:
  assumes "client_ok ok N c"
  shows "ok (rc_net c)" "length (mb_mem (rc_req c)) = N" "length (mb_mem (rc_resp c)) = N" "4 \<le> N" "N < 2 ^ 31"
  using assms size by (auto simp: client_ok_def)

lemma request:
  assumes "client_ok ok N c" and "length (mb_mem req) = N" and "mb_data req = msg" and "serve ty msg (rc_net c) = Inr (bytes, n)" and "ok n"
    and "length bytes \<le> N"
  obtains c' rest where "rpc_request \<lparr>rn_serve = serve, rn_rounds = rounds\<rparr> ty (c\<lparr>rc_req := req\<rparr>) = Inr c'" "client_ok ok N c'" "rc_net c' = n"
    "mb_size (rc_resp c') = length bytes" "mb_mem (rc_resp c') = bytes @ rest"
proof -
  let ?c = "c\<lparr>rc_req := req, rc_net := n,
     rc_resp := (rc_resp c)\<lparr>mb_mem := bytes @ drop (length bytes) (mb_mem (rc_resp c)), mb_size := length bytes\<rparr>\<rparr>"
  have "rpc_request \<lparr>rn_serve = serve, rn_rounds = rounds\<rparr> ty (c\<lparr>rc_req := req\<rparr>) = Inr ?c"
    using assms rpc_request_ok [of "\<lparr>rn_serve = serve, rn_rounds = rounds\<rparr>" ty "c\<lparr>rc_req := req\<rparr>" bytes n]
    by (simp add: client_ok_def)
  then show thesis by (rule that) (use assms in \<open>simp_all add: client_ok_def\<close>)
qed

lemma status_request:
  assumes "client_ok ok N c" and "length (mb_mem req) = N" and "mb_data req = msg" and "serve ty msg (rc_net c) = Inr (le32 (status_code s), n)" and "ok n"
  obtains c' where "andThen (rpc_request \<lparr>rn_serve = serve, rn_rounds = rounds\<rparr> ty (c\<lparr>rc_req := req\<rparr>)) (status_reply ndebug) = Inr (s, c')"
    "client_ok ok N c'" "rc_net c' = n"
proof -
  have "length (le32 (status_code s)) \<le> N" using client_okD(4) [OF assms(1)] by simp
  then obtain c' rest where c': "rpc_request \<lparr>rn_serve = serve, rn_rounds = rounds\<rparr> ty (c\<lparr>rc_req := req\<rparr>) = Inr c'" "client_ok ok N c'" "rc_net c' = n"
    "mb_size (rc_resp c') = length (le32 (status_code s))" "mb_mem (rc_resp c') = le32 (status_code s) @ rest"
    by (rule request [OF assms])
  then show thesis using status_reply_ok [of c' s rest ndebug] by (intro that [of c']) simp_all
qed

lemma client_read:
  assumes ok: "client_ok ok N c" and k: "4 + length k \<le> N"
  shows "\<exists>s c'. rpc_Read \<lparr>rn_serve = serve, rn_rounds = rounds\<rparr> rd ndebug t k flds c = Inr (s, c') \<and> client_ok ok N c'
     \<and> db_Read spec t k flds (tbl (rc_net c)) = Inr (s, tbl (rc_net c'))"
proof -
  note d = client_okD [OF ok]
  let ?f = "\<lambda>req. andThen (rpc_request \<lparr>rn_serve = serve, rn_rounds = rounds\<rparr> rd (c\<lparr>rc_req := req\<rparr>)) (\<lambda>c.
     if mb_size (rc_resp c) < 4 then Inr ((kError, []), c)
     else andThen (get_status (rc_resp c)) (\<lambda>s.
       if s \<noteq> kOK then Inr ((s, []), c)
       else andThen (DeserializeRow_loop ndebug (mb_mem (rc_resp c)) 4 (mb_size (rc_resp c)) []) (\<lambda>result. Inr ((kOK, result), c))))"
  obtain req where req: "rpc_Read \<lparr>rn_serve = serve, rn_rounds = rounds\<rparr> rd ndebug t k flds c = ?f req" "length (mb_mem req) = N" "mb_data req = key_msg k"
    using key_request [of k "rc_req c" ?f] k d(2) by (auto simp: rpc_Read_def)
  obtain bytes rest n where n: "serve rd (key_msg k) (rc_net c) = Inr (bytes, n)" "ok n" "tbl n = tbl (rc_net c)" "length bytes \<le> N"
    "case tbl (rc_net c) k of None \<Rightarrow> bytes = le32 (status_code kNotFound) @ rest
       | Some r \<Rightarrow> bytes = le32 (status_code kOK) @ row_bytes r \<and> blob_ok R r"
    using serve_read [OF d(1) k] by blast
  obtain c' rst where c': "rpc_request \<lparr>rn_serve = serve, rn_rounds = rounds\<rparr> rd (c\<lparr>rc_req := req\<rparr>) = Inr c'" "client_ok ok N c'" "rc_net c' = n"
    "mb_size (rc_resp c') = length bytes" "mb_mem (rc_resp c') = bytes @ rst" by (rule request [OF ok req(2,3) n(1,2,4)])
  show ?thesis
  proof (cases "tbl (rc_net c) k")
    case None
    then have "get_status (rc_resp c') = Inr kNotFound" using c'(5) n(5) by (intro get_status_bytes [where rest = "rest @ rst"]) simp
    then show ?thesis using c' n req(1) None by (simp add: spec_read)
  next
    case (Some r)
    then have "DeserializeRow_loop ndebug (mb_mem (rc_resp c')) 4 (mb_size (rc_resp c')) [] = Inr r"
      using c'(4,5) n(5) DeserializeRow_loop_encode [of r ndebug "le32 (status_code kOK)" rst "[]"] by (simp add: blob_ok_def row_bytes_def)
    moreover have "get_status (rc_resp c') = Inr kOK" using c'(5) n(5) Some by (intro get_status_bytes [where rest = "row_bytes r @ rst"]) simp
    ultimately show ?thesis using Some c' n req(1) by (simp add: spec_read)
  qed
qed

lemma client_write:
  assumes ok: "client_ok ok N c" and k: "4 + length k + length (row_bytes vs) \<le> N"
    and serve: "\<exists>s n'. serve ty (key_msg k @ row_bytes vs) (rc_net c) = Inr (le32 (status_code s), n') \<and> ok n' \<and> f (tbl (rc_net c)) = Inr (s, tbl n')"
  shows "\<exists>s c'. rpc_Write \<lparr>rn_serve = serve, rn_rounds = rounds\<rparr> ty ndebug t k vs c = Inr (s, c') \<and> client_ok ok N c'
     \<and> f (tbl (rc_net c)) = Inr (s, tbl (rc_net c'))"
proof -
  let ?f = "\<lambda>req. andThen (rpc_request \<lparr>rn_serve = serve, rn_rounds = rounds\<rparr> ty (c\<lparr>rc_req := req\<rparr>)) (status_reply ndebug)"
  obtain req where req: "rpc_Write \<lparr>rn_serve = serve, rn_rounds = rounds\<rparr> ty ndebug t k vs c = ?f req" "length (mb_mem req) = N" "mb_data req = key_msg k @ row_bytes vs"
    using row_request [of k vs "rc_req c" ?f] k client_okD(2) [OF ok] by (auto simp: rpc_Write_def)
  obtain s n where n: "serve ty (key_msg k @ row_bytes vs) (rc_net c) = Inr (le32 (status_code s), n)" "ok n" "f (tbl (rc_net c)) = Inr (s, tbl n)"
    using serve by blast
  obtain c' where "?f req = Inr (s, c')" "client_ok ok N c'" "rc_net c' = n" by (rule status_request [OF ok req(2,3) n(1,2)])
  with req(1) n(3) show ?thesis by auto
qed

end

text \<open>A server that also deletes answers requests of the type \<open>del\<close>.\<close>

locale row_server = kv_server +
  fixes del :: nat
  assumes serve_delete: "ok n \<Longrightarrow> 4 + length k \<le> N \<Longrightarrow> \<exists>s n'. serve del (key_msg k) n = Inr (le32 (status_code s), n')
        \<and> ok n' \<and> db_Delete spec t k (tbl n) = Inr (s, tbl n')"
begin

lemma client_delete:
  assumes ok: "client_ok ok N c" and k: "4 + length k \<le> N"
  shows "\<exists>s c'. rpc_Delete \<lparr>rn_serve = serve, rn_rounds = rounds\<rparr> del ndebug t k c = Inr (s, c') \<and> client_ok ok N c'
     \<and> db_Delete spec t k (tbl (rc_net c)) = Inr (s, tbl (rc_net c'))"
proof -
  note d = client_okD [OF ok]
  let ?f = "\<lambda>req. andThen (rpc_request \<lparr>rn_serve = serve, rn_rounds = rounds\<rparr> del (c\<lparr>rc_req := req\<rparr>)) (status_reply ndebug)"
  obtain req where req: "rpc_Delete \<lparr>rn_serve = serve, rn_rounds = rounds\<rparr> del ndebug t k c = ?f req" "length (mb_mem req) = N" "mb_data req = key_msg k"
    using key_request [of k "rc_req c" ?f] k d(2) by (auto simp: rpc_Delete_def)
  obtain s n where n: "serve del (key_msg k) (rc_net c) = Inr (le32 (status_code s), n)" "ok n" "db_Delete spec t k (tbl (rc_net c)) = Inr (s, tbl n)"
    using serve_delete [OF d(1) k] by blast
  obtain c' where "?f req = Inr (s, c')" "client_ok ok N c'" "rc_net c' = n" by (rule status_request [OF ok req(2,3) n(1,2)])
  with req(1) n(3) show ?thesis by auto
qed

lemma client_call:
  assumes ok: "client_ok ok N c" and q: "row_fits N R q"
  shows "\<exists>r c'. db_call (Rpc_ops \<lparr>rn_serve = serve, rn_rounds = rounds\<rparr> pfx rd up ins del scn reinit ndebug) q c = Inr (r, c')
     \<and> client_ok ok N c' \<and> db_call spec q (tbl (rc_net c)) = Inr (r, tbl (rc_net c'))"
proof -
  note d = client_okD [OF ok]
  show ?thesis
  proof (cases q)
    case (CRead t k flds)
    with client_read [OF ok, of k rounds ndebug t flds] q show ?thesis by (auto simp: Rpc_ops_def)
  next
    case (CUpdate t k vs)
    with q have k: "4 + length k \<le> N" "blob_ok R vs" "4 + length k + length (row_bytes vs) \<le> N" by auto
    from client_write [where f = "db_Update spec t k vs", OF ok k(3) serve_update [OF d(1) k(1,2)], of rounds ndebug t] CUpdate show ?thesis
      by (auto simp: Rpc_ops_def)
  next
    case (CInsert t k vs)
    with q have k: "4 + length k \<le> N" "blob_ok R vs" "4 + length k + length (row_bytes vs) \<le> N" by auto
    from client_write [where f = "db_Insert spec t k vs", OF ok k(3) serve_insert [OF d(1) k(1,2)], of rounds ndebug t] CInsert show ?thesis
      by (auto simp: Rpc_ops_def)
  next
    case (CDelete t k)
    with client_delete [OF ok, of k rounds ndebug t] q show ?thesis by (auto simp: Rpc_ops_def)
  qed (use q in simp_all)
qed

lemma client_refines:
  "db_refinement (Rpc_ops \<lparr>rn_serve = serve, rn_rounds = rounds\<rparr> pfx rd up ins del scn reinit ndebug) spec (\<lambda>c. tbl (rc_net c))
     (client_ok ok N) (row_fits N R)"
  by unfold_locales (rule client_call)

end

text \<open>A server with a scan handler also answers requests of the type \<open>scn\<close>.\<close>

locale scan_server = row_server +
  fixes scn :: nat
  assumes spec_scan: "db_Scan spec t k i flds m = Inr ((kOK, map (\<lambda>x. the (m x)) (take (nat i) (keys_from k m))), m)"
    and serve_scan: "ok n \<Longrightarrow> 4 + length k \<le> N \<Longrightarrow> int32_ok i \<Longrightarrow> 4 + nat i * (4 + R) \<le> N \<Longrightarrow>
        \<exists>n'. serve scn (key_msg k @ le32 (word_of_int i)) n =
          Inr (le32 (status_code kOK) @ concat (map (\<lambda>x. encode_blob (row_bytes (the (tbl n x)))) (take (nat i) (keys_from k (tbl n)))), n')
        \<and> ok n' \<and> tbl n' = tbl n"
    and stored_blob: "ok n \<Longrightarrow> x \<in> set (keys_from k (tbl n)) \<Longrightarrow> blob_ok R (the (tbl n x))"
begin

lemma client_scan:
  assumes ok: "client_ok ok N c" and k: "8 + length k \<le> N" and i: "int32_ok i" "4 + nat i * (4 + R) \<le> N"
  shows "\<exists>s c'. rpc_Scan \<lparr>rn_serve = serve, rn_rounds = rounds\<rparr> scn ndebug t k i flds c = Inr (s, c') \<and> client_ok ok N c'
     \<and> db_Scan spec t k i flds (tbl (rc_net c)) = Inr (s, tbl (rc_net c'))"
proof -
  note d = client_okD [OF ok]
  let ?f = "\<lambda>req. andThen (rpc_request \<lparr>rn_serve = serve, rn_rounds = rounds\<rparr> scn (c\<lparr>rc_req := req\<rparr>)) (\<lambda>c.
     if mb_size (rc_resp c) < 4 then Inr ((kError, []), c)
     else andThen (get_status (rc_resp c)) (\<lambda>s.
       if s \<noteq> kOK then Inr ((s, []), c)
       else andThen (DeserializeRowVector ndebug (mb_mem (rc_resp c)) 4 (mb_size (rc_resp c)) []) (\<lambda>result. Inr ((kOK, result), c))))"
  obtain req where req: "rpc_Scan \<lparr>rn_serve = serve, rn_rounds = rounds\<rparr> scn ndebug t k i flds c = ?f req" "length (mb_mem req) = N"
    "mb_data req = key_msg k @ le32 (word_of_int i)"
    using scan_request [of k "rc_req c" "word_of_int i" ?f] k d(2) by (auto simp: rpc_Scan_def)
  define rs where "rs = map (\<lambda>x. the (tbl (rc_net c) x)) (take (nat i) (keys_from k (tbl (rc_net c))))"
  let ?out = "concat (map (\<lambda>r. encode_blob (row_bytes r)) rs)"
  have rs: "\<forall>r \<in> set rs. blob_ok R r" using stored_blob [OF d(1)] by (auto simp: rs_def dest!: in_set_takeD)
  have "4 + length k \<le> N" using k by linarith
  then obtain n where n: "serve scn (key_msg k @ le32 (word_of_int i)) (rc_net c) = Inr (le32 (status_code kOK) @ ?out, n)" "ok n" "tbl n = tbl (rc_net c)"
    using serve_scan [OF d(1) _ i] by (auto simp: rs_def comp_def)
  have "length ?out \<le> length rs * (4 + R)" using rs blob_length by (intro length_concat_bound) auto
  also have "\<dots> \<le> nat i * (4 + R)" by (intro mult_le_mono1) (simp add: rs_def)
  finally have len: "length (le32 (status_code kOK) @ ?out) \<le> N" using i(2) by simp
  then obtain c' rest where c': "rpc_request \<lparr>rn_serve = serve, rn_rounds = rounds\<rparr> scn (c\<lparr>rc_req := req\<rparr>) = Inr c'" "client_ok ok N c'" "rc_net c' = n"
    "mb_size (rc_resp c') = length (le32 (status_code kOK) @ ?out)" "mb_mem (rc_resp c') = (le32 (status_code kOK) @ ?out) @ rest"
    by (rule request [OF ok req(2,3) n(1,2)])
  have "\<forall>r \<in> set rs. (\<forall>fv \<in> set r. small fv) \<and> length (concat (map encode_field r)) < 2 ^ 32"
  proof
    fix r assume r: "r \<in> set rs"
    then have "length (encode_blob (row_bytes r)) \<le> length ?out" by (induction rs) auto
    then show "(\<forall>fv \<in> set r. small fv) \<and> length (concat (map encode_field r)) < 2 ^ 32"
      using rs r len d(5) by (auto simp: blob_ok_def row_bytes_def encode_blob_def)
  qed
  from DeserializeRowVector_encode [OF this, of ndebug "le32 (status_code kOK)" rest "[]"]
  have "DeserializeRowVector ndebug (mb_mem (rc_resp c')) 4 (mb_size (rc_resp c')) [] = Inr rs" using c'(4,5) by (simp add: row_bytes_def)
  moreover have "get_status (rc_resp c') = Inr kOK" using c'(5) by (intro get_status_bytes [where rest = "?out @ rest"]) simp
  ultimately show ?thesis using c' n(3) req(1) by (simp add: spec_scan rs_def)
qed

lemma client_scan_refines:
  "db_refinement (Rpc_ops \<lparr>rn_serve = serve, rn_rounds = rounds\<rparr> pfx rd up ins del scn reinit ndebug) spec (\<lambda>c. tbl (rc_net c))
     (client_ok ok N) (fits N R)"
proof unfold_locales
  fix c q assume c: "client_ok ok N c" and q: "fits N R q"
  show "\<exists>r c'. db_call (Rpc_ops \<lparr>rn_serve = serve, rn_rounds = rounds\<rparr> pfx rd up ins del scn reinit ndebug) q c = Inr (r, c')
     \<and> client_ok ok N c' \<and> db_call spec q (tbl (rc_net c)) = Inr (r, tbl (rc_net c'))"
  proof (cases "is_scan q")
    case True
    then obtain t k i flds where "q = CScan t k i flds" by (cases q) auto
    with client_scan [OF c, of k i rounds ndebug t flds] q show ?thesis by (auto simp: Rpc_ops_def)
  next
    case False
    with client_call [OF c, of q rounds pfx scn reinit ndebug] q show ?thesis by simp
  qed
qed

end

end
