(* ===== verification/Rocksdb_Rpc.thy ===== *)
theory Rocksdb_Rpc
  imports Rpc_Client Rocksdb
begin

text \<open>
  The RocksDB server and its client: \<^verbatim>\<open>src/rocksdb-clisvr\<close>. \<open>rocks_serve\<close> is the server's dispatch on its registered
  handlers, and the client is the one of \<open>Rpc_Client\<close> with the request types of \<^verbatim>\<open>common.h\<close>. An RPC library that delivers
  every request once and every response to its request answers with \<open>rocks_serve\<close>, after any number of rounds.
\<close>

section \<open>The server\<close>

definition READ_REQ :: nat where "READ_REQ = 0"
definition PUT_REQ :: nat where "PUT_REQ = 1"
definition DELETE_REQ :: nat where "DELETE_REQ = 2"
definition SCAN_REQ :: nat where "SCAN_REQ = 3"

lemmas req_defs = READ_REQ_def PUT_REQ_def DELETE_REQ_def SCAN_REQ_def

text \<open>The static members \<^verbatim>\<open>db_\<close> (with its storage) and \<^verbatim>\<open>sync\<close>, the response buffer, and the library's preallocated response buffer.\<close>

record 's ServerContext =
  sc_db :: handle
  sc_env :: 's
  sc_sync :: bool
  sc_resp_buf :: MsgBuffer
  sc_pre_resp_msgbuf :: MsgBuffer

definition sc_deref :: "'s ServerContext \<Rightarrow> 's res" where
  "sc_deref c = (if sc_db c = LiveHandle then Inr (sc_env c) else Inl (Undefined ''db_ does not point to a database''))"

definition read_handler ::
    "('e, 's) rocks_engine \<Rightarrow> string \<Rightarrow> 's ServerContext \<Rightarrow> (string \<times> 's ServerContext) res" where
  "read_handler kv req c =
     andThen (DeserializeKey req) (\<lambda>key.
     andThen (sc_deref c) (\<lambda>env.
     let (s, data) = kv_Get kv key env;
         resp = sc_resp_buf c in
     andThen (if s = KvNotFound then status_response kNotFound resp
              else if s \<noteq> KvOk then status_response kError resp
              else andThen (resize_msg_buffer (4 + length data) resp) (\<lambda>resp.
                   andThen (put_status kOK resp) (mb_write 4 data))) (\<lambda>resp.
     Inr (mb_data resp, c\<lparr>sc_resp_buf := resp\<rparr>))))"

definition put_handler ::
    "('e, 's) rocks_engine \<Rightarrow> string \<Rightarrow> 's ServerContext \<Rightarrow> (string \<times> 's ServerContext) res" where
  "put_handler kv req c =
     andThen (DeserializeKey req) (\<lambda>key.
     let offset = length key + 4 in
     andThen (read_bytes req offset (length req - offset)) (\<lambda>val.
     andThen (sc_deref c) (\<lambda>env.
     let (s, env) = kv_Put kv (sc_sync c) key val env in
     andThen (status_response (if s = KvOk then kOK else kError) (sc_pre_resp_msgbuf c)) (\<lambda>resp.
     Inr (mb_data resp, c\<lparr>sc_env := env\<rparr>)))))"

definition delete_handler ::
    "('e, 's) rocks_engine \<Rightarrow> string \<Rightarrow> 's ServerContext \<Rightarrow> (string \<times> 's ServerContext) res" where
  "delete_handler kv req c =
     andThen (DeserializeKey req) (\<lambda>key.
     andThen (sc_deref c) (\<lambda>env.
     let (s, env) = kv_Delete kv key env in
     andThen (status_response (if s = KvOk then kOK else kError) (sc_pre_resp_msgbuf c)) (\<lambda>resp.
     Inr (mb_data resp, c\<lparr>sc_env := env\<rparr>))))"

text \<open>The loop of the scan, which writes the records it visits into the response buffer.\<close>

fun scan_fill :: "int \<Rightarrow> int \<Rightarrow> (string \<times> string) list \<Rightarrow> nat \<Rightarrow> MsgBuffer \<Rightarrow> (nat \<times> MsgBuffer) res" where
  "scan_fill i len [] offset resp = Inr (offset, resp)"
| "scan_fill i len (entry # it) offset resp =
     (if i < len then
        (let data = snd entry in
         andThen (mb_write offset (le32 (of_nat (length data))) resp) (\<lambda>resp.
         let offset = offset + 4 in
         andThen (mb_write offset data resp) (\<lambda>resp.
         scan_fill (i + 1) len it (offset + length data) resp)))
      else Inr (offset, resp))"

definition scan_handler ::
    "('e, 's) rocks_engine \<Rightarrow> string \<Rightarrow> 's ServerContext \<Rightarrow> (string \<times> 's ServerContext) res" where
  "scan_handler kv req c =
     andThen (DeserializeKey req) (\<lambda>key.
     andThen (read_u32 req (4 + length key)) (\<lambda>w.
     let len = sint w in
     andThen (sc_deref c) (\<lambda>env.
     andThen (scan_fill 0 len (kv_Seek kv key env) 4 (sc_resp_buf c)) (\<lambda>(offset, resp).
     andThen (put_status kOK resp) (\<lambda>resp.
     andThen (resize_msg_buffer offset resp) (\<lambda>resp.
     Inr (mb_data resp, c\<lparr>sc_resp_buf := resp\<rparr>)))))))"

text \<open>The dispatch on the handlers that \<^verbatim>\<open>main\<close> registers.\<close>

definition rocks_serve ::
    "('e, 's) rocks_engine \<Rightarrow> nat \<Rightarrow> string \<Rightarrow> 's ServerContext \<Rightarrow> (string \<times> 's ServerContext) res" where
  "rocks_serve kv req_type req c =
     (if req_type = READ_REQ then read_handler kv req c
      else if req_type = PUT_REQ then put_handler kv req c
      else if req_type = DELETE_REQ then delete_handler kv req c
      else if req_type = SCAN_REQ then scan_handler kv req c
      else Inl (Undefined ''no handler for the request type''))"

text \<open>
  \<^verbatim>\<open>server_func\<close> up to its event loop: the first thread opens the database. The function \<^verbatim>\<open>GetOptions\<close> of the server is
  that of the embedded backend, always with a compressed cache. A negative message size cannot be allocated.
\<close>

definition Svr_GetOptions ::
    "'e rocksdb_lib \<Rightarrow> Properties \<Rightarrow> 'e rocksdb_Options \<Rightarrow> ('e rocksdb_Options \<times> string list) res" where
  "Svr_GetOptions lib props opt = Rocksdb_GetOptions lib False props opt"

definition server_func ::
    "('e, 's) rocks_engine \<Rightarrow> 'e rocksdb_lib \<Rightarrow> Properties \<Rightarrow> MsgBuffer \<Rightarrow> 's ServerContext \<Rightarrow> 's ServerContext res" where
  "server_func kv lib props pre c =
     andThen (stoi (GetProperty props ''rocksdb-clisvr.phy_port'' ''0'')) (\<lambda>phy_port.
     andThen (if sc_db c \<noteq> NullHandle then Inr c
              else let db_path = GetProperty props ''rocksdb.dbname'' '''' in
                andThen (Svr_GetOptions lib props ((rl_Options lib)\<lparr>ro_create_if_missing := True\<rparr>)) (\<lambda>(opt, cf_descs).
                andThen (if GetProperty props ''rocksdb.destroy'' ''false'' = ''true''
                         then throw_unless_ok ''RocksDB DestroyDB: '' (kv_Destroy kv db_path (opt, []) (sc_env c))
                         else Inr (sc_env c)) (\<lambda>env.
                andThen (throw_unless_ok ''RocksDB Open: '' (kv_Open kv (opt, cf_descs) db_path env)) (\<lambda>env.
                Inr (c\<lparr>sc_db := LiveHandle, sc_env := env,
                       sc_sync := (GetProperty props ''rocksdb.sync_wal'' ''false'' = ''true'')\<rparr>))))) (\<lambda>c.
     andThen (msg_size_of ''rocksdb-clisvr'' props) (\<lambda>msg_size.
     Inr (c\<lparr>sc_resp_buf := alloc_msg_buffer msg_size, sc_pre_resp_msgbuf := pre\<rparr>))))"

section \<open>The client\<close>

definition Cli_Init :: "'n RpcClient \<Rightarrow> (unit \<times> 'n RpcClient) res" where
  "Cli_Init = rpc_Init ''rocksdb-clisvr''"

definition Cli_Read :: "'n rpc_net \<Rightarrow> bool \<Rightarrow> string \<Rightarrow> string \<Rightarrow> string list option \<Rightarrow> 'n RpcClient
     \<Rightarrow> ((Status \<times> Field list) \<times> 'n RpcClient) res" where
  "Cli_Read net = rpc_Read net READ_REQ"

definition Cli_Scan :: "'n rpc_net \<Rightarrow> bool \<Rightarrow> string \<Rightarrow> string \<Rightarrow> int \<Rightarrow> string list option \<Rightarrow> 'n RpcClient
     \<Rightarrow> ((Status \<times> Field list list) \<times> 'n RpcClient) res" where
  "Cli_Scan net = rpc_Scan net SCAN_REQ"

definition Cli_Update :: "'n rpc_net \<Rightarrow> bool \<Rightarrow> string \<Rightarrow> string \<Rightarrow> Field list \<Rightarrow> 'n RpcClient \<Rightarrow> (Status \<times> 'n RpcClient) res" where
  "Cli_Update net = rpc_Write net PUT_REQ"

definition Cli_Delete :: "'n rpc_net \<Rightarrow> bool \<Rightarrow> string \<Rightarrow> string \<Rightarrow> 'n RpcClient \<Rightarrow> (Status \<times> 'n RpcClient) res" where
  "Cli_Delete net = rpc_Delete net DELETE_REQ"

text \<open>\<^verbatim>\<open>Insert\<close> is \<^verbatim>\<open>Update\<close>, and the workers initialise the database again before the transactions.\<close>

definition RocksdbCli_ops :: "'n rpc_net \<Rightarrow> bool \<Rightarrow> 'n RpcClient DB" where
  "RocksdbCli_ops net ndebug =
     \<lparr>db_Init = Cli_Init, db_Cleanup = rpc_Cleanup,
      db_Read = Cli_Read net ndebug, db_Scan = Cli_Scan net ndebug,
      db_Update = Cli_Update net ndebug, db_Insert = Cli_Update net ndebug,
      db_Delete = Cli_Delete net ndebug,
      db_ReadIdx = (\<lambda>_ _. Inl (Undefined ''pure virtual ReadIdx'')),
      db_ReInitBeforeTransaction = True,
      db_SetProps = (\<lambda>p c. c\<lparr>rc_props := p\<rparr>)\<rparr>"

lemma RocksdbCli_ops_rpc:
  "RocksdbCli_ops net ndebug = Rpc_ops net ''rocksdb-clisvr'' READ_REQ PUT_REQ PUT_REQ DELETE_REQ SCAN_REQ True ndebug"
  by (simp add: RocksdbCli_ops_def Rpc_ops_def Cli_Init_def Cli_Read_def Cli_Scan_def Cli_Update_def Cli_Delete_def)

section \<open>The server implements its part\<close>

interpretation blob: row_coding row_bytes "Slice_DeserializeRow ndebug" "blob_ok R" True for ndebug R
  by unfold_locales (use Slice_DeserializeRow_ser in \<open>simp add: blob_ok_def Rocksdb_SerializeRow_def SerializeRow_row_bytes\<close>)

definition svr_ok ::
    "('e, 's) rocks_engine \<Rightarrow> ('s \<Rightarrow> string \<rightharpoonup> string) \<Rightarrow> nat \<Rightarrow> nat \<Rightarrow> 's ServerContext \<Rightarrow> bool" where
  "svr_ok kv m N R c \<longleftrightarrow> kv_ok kv m \<and> sc_db c = LiveHandle \<and> length (mb_mem (sc_resp_buf c)) = N
     \<and> 4 \<le> length (mb_mem (sc_pre_resp_msgbuf c)) \<and> all_rows (blob_ok R) row_bytes (m (sc_env c))
     \<and> 4 + R \<le> N \<and> N < 2 ^ 31"

definition svr_table :: "('s \<Rightarrow> string \<rightharpoonup> string) \<Rightarrow> bool \<Rightarrow> 's ServerContext \<Rightarrow> table" where
  "svr_table m ndebug c = decode_table (Slice_DeserializeRow ndebug) (m (sc_env c))"

lemma svr_okD:
  assumes "svr_ok kv m N R c"
  shows "kv_ok kv m" "sc_deref c = Inr (sc_env c)" "length (mb_mem (sc_resp_buf c)) = N" "4 \<le> length (mb_mem (sc_pre_resp_msgbuf c))"
    "all_rows (blob_ok R) row_bytes (m (sc_env c))" "4 + R \<le> N" "N < 2 ^ 31"
  using assms by (simp_all add: svr_ok_def sc_deref_def)

lemma svr_read:
  assumes ok: "svr_ok kv m N R c" and k: "length k < 2 ^ 31"
  obtains c' where "rocks_serve kv READ_REQ (key_msg k) c =
      Inr (case svr_table m ndebug c k of None \<Rightarrow> le32 (status_code kNotFound) | Some r \<Rightarrow> le32 (status_code kOK) @ row_bytes r, c')"
    "svr_ok kv m N R c'" "svr_table m ndebug c' = svr_table m ndebug c"
proof (cases rule: blob.get_row [where m = m and env = "sc_env c" and ndebug = ndebug and k = k, OF TrueI svr_okD(5,1) [OF ok]])
  case 1
  have "4 \<le> length (mb_mem (sc_resp_buf c))" using svr_okD(3,6) [OF ok] by simp
  then obtain b where b: "status_response kNotFound (sc_resp_buf c) = Inr b" "mb_data b = le32 (status_code kNotFound)"
    "length (mb_mem b) = length (mb_mem (sc_resp_buf c))" by (rule status_response_ok)
  show thesis using 1 b ok key_msg_read [OF k, of "[]"] svr_okD(2) [OF ok]
    by (intro that [of "c\<lparr>sc_resp_buf := b\<rparr>"])
      (simp_all add: rocks_serve_def req_defs read_handler_def svr_table_def svr_ok_def)
next
  case (2 r)
  have "4 + length (row_bytes r) \<le> length (mb_mem (sc_resp_buf c))"
    using svr_okD(3,6) [OF ok] 2(1) by (simp add: blob_ok_def)
  then obtain b where b: "andThen (resize_msg_buffer (4 + length (row_bytes r)) (sc_resp_buf c))
      (\<lambda>resp. andThen (put_status kOK resp) (mb_write 4 (row_bytes r))) = Inr b"
    "mb_data b = le32 0 @ row_bytes r" "length (mb_mem b) = length (mb_mem (sc_resp_buf c))" by (rule data_response_ok)
  show thesis using 2 b ok key_msg_read [OF k, of "[]"] svr_okD(2) [OF ok]
    by (intro that [of "c\<lparr>sc_resp_buf := b\<rparr>"])
      (simp_all add: rocks_serve_def req_defs read_handler_def svr_table_def svr_ok_def)
qed

lemma svr_put:
  assumes ok: "svr_ok kv m N R c" and k: "length k < 2 ^ 31" and r: "blob_ok R r"
  obtains c' where "rocks_serve kv PUT_REQ (key_msg k @ row_bytes r) c = Inr (le32 (status_code kOK), c')"
    "svr_ok kv m N R c'" "svr_table m ndebug c' = (svr_table m ndebug c)(k \<mapsto> r)"
proof -
  note kv = svr_okD(1) [OF ok]
  let ?env = "snd (kv_Put kv (sc_sync c) k (row_bytes r) (sc_env c))"
  obtain b where b: "status_response kOK (sc_pre_resp_msgbuf c) = Inr b" "mb_data b = le32 (status_code kOK)"
    by (rule status_response_ok [OF svr_okD(4) [OF ok]])
  have v: "read_bytes (key_msg k @ row_bytes r) (length k + 4) (length (row_bytes r)) = Inr (row_bytes r)"
    using read_bytes_append [of "length k + 4" "key_msg k" _ "row_bytes r" "[]"] by simp
  have "rocks_serve kv PUT_REQ (key_msg k @ row_bytes r) c = Inr (le32 (status_code kOK), c\<lparr>sc_env := ?env\<rparr>)"
    using b v key_msg_read [OF k, of "row_bytes r"] svr_okD(2) [OF ok] kv_okD(3) [OF kv, of "sc_sync c" k "row_bytes r" "sc_env c"]
    by (simp add: rocks_serve_def req_defs put_handler_def split_beta)
  moreover have "svr_ok kv m N R (c\<lparr>sc_env := ?env\<rparr>)"
    using ok blob.rows_upd [OF svr_okD(5) [OF ok] r, of k] by (simp add: svr_ok_def kv_okD(4) [OF kv])
  moreover have "svr_table m ndebug (c\<lparr>sc_env := ?env\<rparr>) = (svr_table m ndebug c)(k \<mapsto> r)"
    using blob.decode_upd [OF TrueI r] by (simp add: svr_table_def kv_okD(4) [OF kv])
  ultimately show thesis by (rule that)
qed

lemma svr_delete:
  assumes ok: "svr_ok kv m N R c" and k: "length k < 2 ^ 31"
  obtains c' where "rocks_serve kv DELETE_REQ (key_msg k) c = Inr (le32 (status_code kOK), c')"
    "svr_ok kv m N R c'" "svr_table m ndebug c' = (svr_table m ndebug c)(k := None)"
proof -
  note kv = svr_okD(1) [OF ok]
  let ?env = "snd (kv_Delete kv k (sc_env c))"
  obtain b where b: "status_response kOK (sc_pre_resp_msgbuf c) = Inr b" "mb_data b = le32 (status_code kOK)"
    by (rule status_response_ok [OF svr_okD(4) [OF ok]])
  have "rocks_serve kv DELETE_REQ (key_msg k) c = Inr (le32 (status_code kOK), c\<lparr>sc_env := ?env\<rparr>)"
    using b key_msg_read [OF k, of "[]"] svr_okD(2) [OF ok] kv_okD(5) [OF kv, of k "sc_env c"]
    by (simp add: rocks_serve_def req_defs delete_handler_def split_beta)
  moreover have "svr_ok kv m N R (c\<lparr>sc_env := ?env\<rparr>)"
    using ok blob.rows_del [OF svr_okD(5) [OF ok], of k] by (simp add: svr_ok_def kv_okD(6) [OF kv])
  moreover have "svr_table m ndebug (c\<lparr>sc_env := ?env\<rparr>) = (svr_table m ndebug c)(k := None)"
    using blob.decode_del by (simp add: svr_table_def kv_okD(6) [OF kv])
  ultimately show thesis by (rule that)
qed

lemma scan_fill_fits:
  assumes "mb_mem b = pre @ old" and "offset = length pre"
    and "length (concat (map (\<lambda>e. encode_blob (snd e)) (take (nat (len - i)) it))) \<le> length old"
  shows "scan_fill i len it offset b =
     Inr (offset + length (concat (map (\<lambda>e. encode_blob (snd e)) (take (nat (len - i)) it))),
       b\<lparr>mb_mem := pre @ concat (map (\<lambda>e. encode_blob (snd e)) (take (nat (len - i)) it))
          @ drop (length (concat (map (\<lambda>e. encode_blob (snd e)) (take (nat (len - i)) it)))) old\<rparr>)"
  using assms
proof (induction it arbitrary: i offset b pre old)
  case (Cons e it)
  show ?case
  proof (cases "i < len")
    case True
    define rest where "rest = concat (map (\<lambda>e. encode_blob (snd e)) (take (nat (len - (i + 1))) it))"
    let ?d = "snd e" and ?l = "le32 (of_nat (length (snd e)))"
    have n: "nat (len - i) = Suc (nat (len - (i + 1)))" using True by linarith
    then have all: "concat (map (\<lambda>e. encode_blob (snd e)) (take (nat (len - i)) (e # it))) = ?l @ ?d @ rest"
      by (simp add: rest_def encode_blob_def)
    then have l: "4 + length ?d + length rest \<le> length old" using Cons.prems(3) by simp
    have w1: "mb_write offset ?l b = Inr (b\<lparr>mb_mem := pre @ ?l @ drop 4 old\<rparr>)"
      using Cons.prems(1,2) l by (subst mb_write_append [where pre = pre and old = old]) simp_all
    have w2: "mb_write (offset + 4) ?d (b\<lparr>mb_mem := pre @ ?l @ drop 4 old\<rparr>) = Inr (b\<lparr>mb_mem := (pre @ ?l @ ?d) @ drop (4 + length ?d) old\<rparr>)"
      using Cons.prems(2) l by (subst mb_write_append [where pre = "pre @ ?l" and old = "drop 4 old"]) (simp_all add: add.commute)
    have "scan_fill (i + 1) len it (offset + 4 + length ?d) (b\<lparr>mb_mem := (pre @ ?l @ ?d) @ drop (4 + length ?d) old\<rparr>) =
        Inr (offset + 4 + length ?d + length rest, b\<lparr>mb_mem := (pre @ ?l @ ?d) @ rest @ drop (length rest) (drop (4 + length ?d) old)\<rparr>)"
      using Cons.prems(2) l unfolding rest_def by (subst Cons.IH [where pre = "pre @ ?l @ ?d" and old = "drop (4 + length ?d) old"]) simp_all
    moreover have "scan_fill i len (e # it) offset b =
        scan_fill (i + 1) len it (offset + 4 + length ?d) (b\<lparr>mb_mem := (pre @ ?l @ ?d) @ drop (4 + length ?d) old\<rparr>)"
      using True by (simp only: scan_fill.simps Let_def w1 w2 andThen_simps if_True)
    moreover have "drop (length rest) (drop (4 + length ?d) old) = drop (length (?l @ ?d @ rest)) old"
      by (simp add: ac_simps)
    ultimately show ?thesis unfolding all by (simp only: append_assoc) simp
  next
    case False
    then show ?thesis using Cons.prems(1) by (cases b) simp
  qed
next
  case Nil
  then show ?case by (cases b) simp
qed

lemma svr_stored:
  assumes "svr_ok kv m N R c" and "x \<in> set (keys_from k (svr_table m ndebug c))"
  shows "m (sc_env c) x = Some (row_bytes (the (svr_table m ndebug c x))) \<and> blob_ok R (the (svr_table m ndebug c x))"
proof -
  have "x \<in> dom (m (sc_env c))"
    using assms kv_okD(1) [OF svr_okD(1) [OF assms(1)], of "sc_env c"] blob.keys_from_decode [OF TrueI svr_okD(5) [OF assms(1)], of k ndebug]
    by (simp add: svr_table_def) (simp add: keys_from_def)
  then obtain s where s: "m (sc_env c) x = Some s" by auto
  show ?thesis
    by (rule blob.stored_row [OF TrueI svr_okD(5) [OF assms(1)] s, of ndebug]) (simp add: svr_table_def s)
qed

lemma sint_of_int32: "int32_ok n \<Longrightarrow> sint (word_of_int n :: u32) = n"
  by (simp add: int32_ok_def signed_of_int signed_take_bit_int_eq_self)

lemma svr_scan:
  assumes ok: "svr_ok kv m N R c" and k: "length k < 2 ^ 31" and n: "int32_ok n" "4 + nat n * (4 + R) \<le> N"
  obtains c' where "rocks_serve kv SCAN_REQ (key_msg k @ le32 (word_of_int n)) c =
      Inr (le32 (status_code kOK) @ concat (map (\<lambda>x. encode_blob (row_bytes (the (svr_table m ndebug c x))))
        (take (nat n) (keys_from k (svr_table m ndebug c)))), c')"
    "svr_ok kv m N R c'" "svr_table m ndebug c' = svr_table m ndebug c"
proof -
  let ?ks = "keys_from k (svr_table m ndebug c)" and ?b = "sc_resp_buf c"
  define out where "out = concat (map (\<lambda>x. encode_blob (row_bytes (the (svr_table m ndebug c x)))) (take (nat n) ?ks))"
  have seek: "kv_Seek kv k (sc_env c) = map (\<lambda>x. (x, row_bytes (the (svr_table m ndebug c x)))) ?ks"
    using svr_stored [OF ok, of _ k ndebug] blob.keys_from_decode [OF TrueI svr_okD(5) [OF ok], of k ndebug]
    by (simp add: kv_okD(9) [OF svr_okD(1) [OF ok]] svr_table_def)
  have "length out \<le> length (take (nat n) ?ks) * (4 + R)"
    unfolding out_def using svr_stored [OF ok, of _ k ndebug] by (intro length_concat_bound) (auto intro!: blob_length dest: in_set_takeD)
  also have "\<dots> \<le> nat n * (4 + R)" by (intro mult_le_mono1) simp
  finally have len: "4 + length out \<le> N" using n(2) by linarith
  have it: "concat (map (\<lambda>e. encode_blob (snd e)) (take (nat n) (kv_Seek kv k (sc_env c)))) = out"
    by (simp add: seek out_def take_map comp_def)
  have fill: "scan_fill 0 n (kv_Seek kv k (sc_env c)) 4 ?b = Inr (4 + length out, ?b\<lparr>mb_mem := take 4 (mb_mem ?b) @ out @ drop (length out) (drop 4 (mb_mem ?b))\<rparr>)"
    using len svr_okD(3) [OF ok] by (subst scan_fill_fits [where pre = "take 4 (mb_mem ?b)" and old = "drop 4 (mb_mem ?b)"]) (simp_all add: it)
  have w: "read_u32 (key_msg k @ le32 (word_of_int n)) (4 + length k) = Inr (word_of_int n)"
    using read_u32_append [of "4 + length k" "key_msg k" "word_of_int n" "[]"] by simp
  let ?b' = "?b\<lparr>mb_mem := le32 0 @ out @ drop (length out) (drop 4 (mb_mem ?b)), mb_size := 4 + length out\<rparr>"
  have "rocks_serve kv SCAN_REQ (key_msg k @ le32 (word_of_int n)) c = Inr (le32 (status_code kOK) @ out, c\<lparr>sc_resp_buf := ?b'\<rparr>)"
    using key_msg_read [OF k, of "le32 (word_of_int n)"] svr_okD(2,3) [OF ok] w len
    by (simp add: rocks_serve_def req_defs scan_handler_def sint_of_int32 [OF n(1)] fill put_status_def mb_write_def resize_msg_buffer_def mb_data_def)
  moreover have "svr_ok kv m N R (c\<lparr>sc_resp_buf := ?b'\<rparr>)" "svr_table m ndebug (c\<lparr>sc_resp_buf := ?b'\<rparr>) = svr_table m ndebug c"
    using ok len by (simp_all add: svr_ok_def svr_table_def)
  ultimately show thesis using that unfolding out_def by blast
qed

lemma svr_row:
  assumes "svr_ok kv m N R c" and "svr_table m ndebug c k = Some r"
  shows "blob_ok R r"
  using assms(2) by (cases rule: blob.get_row [where m = m and env = "sc_env c" and ndebug = ndebug and k = k, OF TrueI svr_okD(5,1) [OF assms(1)]])
    (simp_all add: svr_table_def)

section \<open>Client and server implement a table of records\<close>

interpretation rks_server: scan_server "rocks_serve kv" "svr_table m ndebug" "svr_ok kv m N R" Blob_ops N R
    READ_REQ PUT_REQ PUT_REQ DELETE_REQ SCAN_REQ
  for kv m ndebug N R
proof unfold_locales
  fix n and k :: string and vs t i x assume ok: "svr_ok kv m N R n" 
  note d = svr_okD [OF ok]
  show "4 \<le> N \<and> N < 2 ^ 31" using d(6,7) by simp
  {
    assume "4 + length k \<le> N"
    then have k: "length k < 2 ^ 31" using d(7) by linarith
    obtain n' where n': "rocks_serve kv READ_REQ (key_msg k) n =
      Inr (case svr_table m ndebug n k of None \<Rightarrow> le32 (status_code kNotFound) | Some r \<Rightarrow> le32 (status_code kOK) @ row_bytes r, n')"
      "svr_ok kv m N R n'" "svr_table m ndebug n' = svr_table m ndebug n" by (rule svr_read [OF ok k])
    show "\<exists>bytes rest n'. rocks_serve kv READ_REQ (key_msg k) n = Inr (bytes, n') \<and> svr_ok kv m N R n' \<and> svr_table m ndebug n' = svr_table m ndebug n
        \<and> length bytes \<le> N \<and> (case svr_table m ndebug n k of None \<Rightarrow> bytes = le32 (status_code kNotFound) @ rest
           | Some r \<Rightarrow> bytes = le32 (status_code kOK) @ row_bytes r \<and> blob_ok R r)"
      using n' svr_row [OF ok, of ndebug k] d(6) by (auto simp: blob_ok_def split: option.splits)
    obtain n1 where "rocks_serve kv DELETE_REQ (key_msg k) n = Inr (le32 (status_code kOK), n1)" "svr_ok kv m N R n1"
      "svr_table m ndebug n1 = (svr_table m ndebug n)(k := None)" by (rule svr_delete [OF ok k])
    then show "\<exists>s n'. rocks_serve kv DELETE_REQ (key_msg k) n = Inr (le32 (status_code s), n') \<and> svr_ok kv m N R n'
      \<and> db_Delete Blob_ops t k (svr_table m ndebug n) = Inr (s, svr_table m ndebug n')" by (auto simp: Blob_ops_simps)
    {
      assume "blob_ok R vs"
      then obtain n2 where "rocks_serve kv PUT_REQ (key_msg k @ row_bytes vs) n = Inr (le32 (status_code kOK), n2)" "svr_ok kv m N R n2"
        "svr_table m ndebug n2 = (svr_table m ndebug n)(k \<mapsto> vs)" by (rule svr_put [OF ok k])
      then show "\<exists>s n'. rocks_serve kv PUT_REQ (key_msg k @ row_bytes vs) n = Inr (le32 (status_code s), n') \<and> svr_ok kv m N R n'
          \<and> db_Update Blob_ops t k vs (svr_table m ndebug n) = Inr (s, svr_table m ndebug n')"
        "\<exists>s n'. rocks_serve kv PUT_REQ (key_msg k @ row_bytes vs) n = Inr (le32 (status_code s), n') \<and> svr_ok kv m N R n'
          \<and> db_Insert Blob_ops t k vs (svr_table m ndebug n) = Inr (s, svr_table m ndebug n')" by (auto simp: Blob_ops_simps)
    }
    assume i: "int32_ok i" "4 + nat i * (4 + R) \<le> N"
    show "\<exists>n'. rocks_serve kv SCAN_REQ (key_msg k @ le32 (word_of_int i)) n =
          Inr (le32 (status_code kOK) @ concat (map (\<lambda>x. encode_blob (row_bytes (the (svr_table m ndebug n x))))
            (take (nat i) (keys_from k (svr_table m ndebug n)))), n') \<and> svr_ok kv m N R n' \<and> svr_table m ndebug n' = svr_table m ndebug n"
      by (rule svr_scan [OF ok k i, of ndebug]) blast
  }
  show "blob_ok R (the (svr_table m ndebug n x))" if "x \<in> set (keys_from k (svr_table m ndebug n))"
    using svr_stored [OF ok that] by simp
qed (simp_all add: Blob_ops_simps)

interpretation rks_rpc: db_refinement "RocksdbCli_ops \<lparr>rn_serve = rocks_serve kv, rn_rounds = rounds\<rparr> ndebug" Blob_ops
    "\<lambda>c. svr_table m ndebug (rc_net c)" "client_ok (svr_ok kv m N R) N" "fits N R"
  for kv rounds ndebug m N R
  unfolding RocksdbCli_ops_rpc by (rule rks_server.client_scan_refines)

section \<open>Properties\<close>

text \<open>C10: Client and server together implement the table of whole records, over an RPC library that delivers each request once and its
  response back after any number of rounds of the event loop, and an engine that keeps its promises: any sequence of calls whose messages
  fit the message size returns, with the statuses, records and scan results of that table.\<close>

theorem rpc_refines_table:
  assumes "client_ok (svr_ok kv m N R) N c" and "\<forall>q \<in> set qs. fits N R q"
  shows "\<exists>rs c'. db_calls (RocksdbCli_ops \<lparr>rn_serve = rocks_serve kv, rn_rounds = rounds\<rparr> ndebug) qs c = Inr (rs, c')
     \<and> client_ok (svr_ok kv m N R) N c'
     \<and> db_calls Blob_ops qs (svr_table m ndebug (rc_net c)) = Inr (rs, svr_table m ndebug (rc_net c'))"
  using rks_rpc.calls_refine [of kv m N R c qs rounds ndebug] assms by blast

abbreviation demo_net :: "nat \<Rightarrow> (string \<times> string) list ServerContext rpc_net" where
  "demo_net d \<equiv> \<lparr>rn_serve = rocks_serve (mem_engine :: (unit, (string \<times> string) list) rocks_engine), rn_rounds = (\<lambda>_ _. d)\<rparr>"

definition demo_cli :: "nat \<Rightarrow> (string \<times> string) list ServerContext RpcClient" where
  "demo_cli N = \<lparr>rc_props = no_properties, rc_req = alloc_msg_buffer N, rc_resp = alloc_msg_buffer N, rc_complete = False,
     rc_rpc_id = 0, rc_nexus = LiveHandle, rc_global_rpc_id = 1, rc_pending = None,
     rc_net = \<lparr>sc_db = LiveHandle, sc_env = [], sc_sync = False, sc_resp_buf = alloc_msg_buffer N, sc_pre_resp_msgbuf = alloc_msg_buffer 64\<rparr>\<rparr>"

lemma demo_cli_ok: "4 + R \<le> N \<Longrightarrow> N < 2 ^ 31 \<Longrightarrow> client_ok (svr_ok mem_engine map_of N R) N (demo_cli N)"
  by (simp add: client_ok_def svr_ok_def demo_cli_def alloc_msg_buffer_def all_rows_def mem_engine_ok)

theorem rpc_refines_table_witness:
  "\<exists>c'. db_calls (RocksdbCli_ops (demo_net 3) False)
     [CInsert ''t'' ''k'' [(''f0'', ''a''), (''f1'', ''b'')], CRead ''t'' ''k'' None, CScan ''t'' ''a'' 1 None,
      CDelete ''t'' ''k'', CRead ''t'' ''k'' None] (demo_cli 64)
     = Inr ([RStatus kOK, RFields kOK [(''f0'', ''a''), (''f1'', ''b'')], RRows kOK [[(''f0'', ''a''), (''f1'', ''b'')]],
             RStatus kOK, RFields kNotFound []], c')"
proof -
  let ?kv = "mem_engine :: (unit, (string \<times> string) list) rocks_engine"
  let ?qs = "[CInsert ''t'' ''k'' [(''f0'', ''a''), (''f1'', ''b'')], CRead ''t'' ''k'' None, CScan ''t'' ''a'' 1 None,
      CDelete ''t'' ''k'', CRead ''t'' ''k'' None]"
  have q: "\<forall>q \<in> set ?qs. fits 64 40 q"
    by (simp add: blob_ok_def small_def row_bytes_def encode_field_def int32_ok_def)
  obtain rs c' where 1: "db_calls (RocksdbCli_ops (demo_net 3) False) ?qs (demo_cli 64) = Inr (rs, c')"
      "db_calls Blob_ops ?qs (svr_table map_of False (rc_net (demo_cli 64))) = Inr (rs, svr_table map_of False (rc_net c'))"
    using rpc_refines_table [where kv = ?kv and ndebug = False and rounds = "\<lambda>_ _. 3", OF demo_cli_ok q] by auto
  have t: "svr_table map_of False (rc_net (demo_cli 64)) = Map.empty"
    by (auto simp: svr_table_def decode_table_def demo_cli_def)
  have "{x \<in> {''k''}. ''a'' \<le> x} = {''k''}" by auto
  then have "keys_from ''a'' [''k'' \<mapsto> r] = [''k'']" for r :: "Field list" by (simp add: keys_from_def)
  with 1(2) have "rs = [RStatus kOK, RFields kOK [(''f0'', ''a''), (''f1'', ''b'')], RRows kOK [[(''f0'', ''a''), (''f1'', ''b'')]],
             RStatus kOK, RFields kNotFound []]"
    by (simp add: t Blob_ops_simps)
  with 1(1) show ?thesis by simp
qed

text \<open>A partial update through the client loses the other fields: the server stores what the update carries, so a read that follows
  returns exactly the fields of the update, whatever the record held before.\<close>

theorem rpc_partial_update_drops_fields:
  assumes "client_ok (svr_ok kv m N R) N c" and "blob_ok R vs" and "4 + length k + length (row_bytes vs) \<le> N"
    and "net = \<lparr>rn_serve = rocks_serve kv, rn_rounds = rounds\<rparr>"
  shows "\<exists>c1 c2. Cli_Update net ndebug t k vs c = Inr (kOK, c1) \<and> Cli_Read net ndebug t k flds c1 = Inr ((kOK, vs), c2)"
proof -
  have "\<forall>q \<in> set [CUpdate t k vs, CRead t k flds]. fits N R q" using assms(2,3) by simp
  from rks_rpc.calls_refine [OF assms(1) this, of rounds ndebug] show ?thesis
    by (auto simp: RocksdbCli_ops_def Blob_ops_simps andThen_eq_Inr map_result_Inr assms(4))
qed

theorem rpc_partial_update_drops_fields_witness:
  "\<exists>c1 c2. Cli_Update (demo_net 0) True ''t'' ''k'' [(''f1'', ''c'')] (demo_cli 64) = Inr (kOK, c1)
     \<and> Cli_Read (demo_net 0) True ''t'' ''k'' (Some [''f0'']) c1 = Inr ((kOK, [(''f1'', ''c'')]), c2)"
  by (rule rpc_partial_update_drops_fields [where R = 40 and N = 64, OF demo_cli_ok _ _ refl])
    (simp_all add: blob_ok_def small_def row_bytes_def encode_field_def)

text \<open>C36: A record that does not fit the message buffer is written past its end: when the key and the record need more than the message
  size, an insert or update is undefined behaviour. With the default message size of 1024 bytes this is so for the default
  record of ten fields of 100 bytes.\<close>

theorem rpc_large_record_overflows:
  assumes "length (mb_mem (rc_req c)) < 4 + length k + length (row_bytes vs)"
  shows "\<exists>msg. Cli_Update net ndebug t k vs c = Inl (Undefined msg)"
proof (cases "4 + length k \<le> length (mb_mem (rc_req c))")
  case True
  let ?b = "rc_req c" and ?old = "drop (4 + length k) (mb_mem (rc_req c))"
  have "\<exists>msg. SerializeRow_buf vs (4 + length k) 0 (?b\<lparr>mb_mem := key_msg k @ ?old\<rparr>) = Inl (Undefined msg)"
    using assms True by (intro SerializeRow_buf_overflow) (simp_all add: row_bytes_def)
  then show ?thesis using True by (auto simp: Cli_Update_def rpc_Write_def SerializeKey_fits)
next
  case False
  then show ?thesis by (auto simp: Cli_Update_def rpc_Write_def SerializeKey_def mb_write_def Let_def)
qed

theorem rpc_large_record_overflows_witness:
  "\<exists>msg. Cli_Update (demo_net 0) True ''t'' ''user1''
     (map (\<lambda>i. (''field'' @ to_string i, replicate 100 (CHR ''x''))) [0..<10]) (demo_cli 1024) = Inl (Undefined msg)"
proof (rule rpc_large_record_overflows)
  have "length (concat (map encode_field (map (\<lambda>i. (''field'' @ to_string i, replicate 100 (CHR ''x''))) [0..<10]))) = 1140"
    by (simp add: upt_rec encode_field_def to_string.simps)
  then show "length (mb_mem (rc_req (demo_cli 1024))) < 4 + length ''user1''
      + length (row_bytes (map (\<lambda>i. (''field'' @ to_string i, replicate 100 (CHR ''x''))) [0..<10]))"
    unfolding row_bytes_def by (simp add: demo_cli_def alloc_msg_buffer_def)
qed

end
