(* ===== verification/Lazykv.thy ===== *)
theory Lazykv
  imports Rocksdb_Rpc
begin

text \<open>
  The client of the key-value store over a lazy log, \<^verbatim>\<open>src/lazykv/lazy_kv.h\<close> and \<^verbatim>\<open>src/lazykv/lazy_kv.cc\<close>. It has two sessions, one to
  a server for writes and one to a server for reads; the messages and the wait for an answer are those of \<open>Msg_Buffer\<close> and \<open>Rpc_Client\<close>.
  The two servers are not part of the sources and are a parameter, as is the RPC library, so nothing is claimed here of what a read returns.
\<close>

section \<open>The class\<close>

definition KV_INSERT :: nat where "KV_INSERT = 41"
definition KV_READ :: nat where "KV_READ = 42"

text \<open>The wait for the two connections is left to the library.\<close>

definition LazyKV_Init :: "'n RpcClient \<Rightarrow> (unit \<times> 'n RpcClient) res" where
  "LazyKV_Init c =
     (let props = rc_props c in
      andThen (stoi (GetProperty props ''erpc.phy_port'' ''0'')) (\<lambda>phy_port.
      let rpc_id = rc_global_rpc_id c;
          c = c\<lparr>rc_global_rpc_id := rc_global_rpc_id c + 1\<rparr>;
          c = (if rc_nexus c = NullHandle then c\<lparr>rc_nexus := LiveHandle\<rparr> else c);
          c = c\<lparr>rc_rpc_id := rpc_id\<rparr> in
      andThen (alloc_size (GetProperty props ''msg.size'' ''8192'')) (\<lambda>msg_size.
      Inr ((), c\<lparr>rc_req := alloc_msg_buffer msg_size, rc_resp := alloc_msg_buffer msg_size\<rparr>))))"

definition LazyKV_Cleanup :: "'n RpcClient \<Rightarrow> (unit \<times> 'n RpcClient) res" where
  "LazyKV_Cleanup = rpc_Cleanup"

definition LazyKV_Read ::
    "'n rpc_net \<Rightarrow> bool \<Rightarrow> string \<Rightarrow> string \<Rightarrow> string list option \<Rightarrow> 'n RpcClient \<Rightarrow> ((Status \<times> Field list) \<times> 'n RpcClient) res" where
  "LazyKV_Read net = rpc_Read net KV_READ"

definition LazyKV_Insert ::
    "'n rpc_net \<Rightarrow> bool \<Rightarrow> string \<Rightarrow> string \<Rightarrow> Field list \<Rightarrow> 'n RpcClient \<Rightarrow> (Status \<times> 'n RpcClient) res" where
  "LazyKV_Insert net = rpc_Write net KV_INSERT"

definition LazyKV_ops :: "'n rpc_net \<Rightarrow> bool \<Rightarrow> 'n RpcClient DB" where
  "LazyKV_ops net ndebug =
     \<lparr>db_Init = LazyKV_Init, db_Cleanup = LazyKV_Cleanup,
      db_Read = LazyKV_Read net ndebug,
      db_Scan = (\<lambda>_ _ _ _ _. Inl (ThrownLiteral ''Scan: function not implemented!'')),
      db_Update = LazyKV_Insert net ndebug, db_Insert = LazyKV_Insert net ndebug,
      db_Delete = (\<lambda>_ _ _. Inl (ThrownLiteral ''Delete: function not implemented!'')),
      db_ReadIdx = (\<lambda>_ _. Inl (Undefined ''ReadIdx ends without a return'')),
      db_ReInitBeforeTransaction = False,
      db_SetProps = (\<lambda>p c. c\<lparr>rc_props := p\<rparr>)\<rparr>"

section \<open>The calls it answers\<close>

text \<open>
  These facts hold whatever the two servers answer: an update is sent as an insert, and a sequence of calls that comes to its end
  holds no scan, delete or index read, since those throw a literal or end without a return.
\<close>

lemma LazyKV_update_is_insert: "db_Update (LazyKV_ops net ndebug) = db_Insert (LazyKV_ops net ndebug)"
  by (simp add: LazyKV_ops_def)

fun lazykv_supported :: "dbcall \<Rightarrow> bool" where
  "lazykv_supported (CRead _ _ _) \<longleftrightarrow> True"
| "lazykv_supported (CUpdate _ _ _) \<longleftrightarrow> True"
| "lazykv_supported (CInsert _ _ _) \<longleftrightarrow> True"
| "lazykv_supported _ \<longleftrightarrow> False"

lemma LazyKV_calls_supported:
  "db_calls (LazyKV_ops net ndebug) cs c = Inr (rs, c') \<Longrightarrow> \<forall>q \<in> set cs. lazykv_supported q"
proof (induction cs arbitrary: c rs)
  case (Cons q cs)
  from Cons.prems obtain r d rs' where "db_call (LazyKV_ops net ndebug) q c = Inr (r, d)"
    "db_calls (LazyKV_ops net ndebug) cs d = Inr (rs', c')"
    by (auto simp: andThen_def split: sum.splits prod.splits)
  with Cons.IH show ?case by (cases q) (auto simp: LazyKV_ops_def)
qed simp

end
