(* ===== verification/Sqlite.thy ===== *)
theory Sqlite
  imports Rpc_Client
begin

text \<open>
  What the two SQLite backends share: the C interface of SQLite as a parameter with its documented behaviour on the
  four statements the code prepares, and the prepared statements of a connection (\<^verbatim>\<open>prepared_stmts_\<close>, the functions
  \<^verbatim>\<open>prepare...Query\<close> and the set-up of the database). \<^verbatim>\<open>src/sqlocal/sqlocal_db.cc\<close> and \<^verbatim>\<open>src/sqlite/sqlite_svr.cc\<close> have this
  code twice.
\<close>

section \<open>The library\<close>

text \<open>
  \<open>'s\<close> is the state behind a connection. A statement is a number. Each function has the arguments the code passes
  and returns the result code; \<open>sq_prepare\<close> also returns the statement and \<open>sq_exec\<close> the error message.
\<close>

record 's sqlite_lib =
  sq_open :: "string \<Rightarrow> 's \<Rightarrow> int \<times> 's"
  sq_file_control :: "'s \<Rightarrow> int \<times> 's"
  sq_exec :: "string \<Rightarrow> 's \<Rightarrow> int \<times> string \<times> 's"
  sq_close :: "'s \<Rightarrow> int \<times> 's"
  sq_errmsg :: "'s \<Rightarrow> string"
  sq_prepare :: "string \<Rightarrow> 's \<Rightarrow> int \<times> nat \<times> 's"
  sq_finalize :: "nat \<Rightarrow> 's \<Rightarrow> 's"
  sq_bind_text :: "nat \<Rightarrow> nat \<Rightarrow> string \<Rightarrow> int \<Rightarrow> 's \<Rightarrow> int \<times> 's"
  sq_step :: "nat \<Rightarrow> 's \<Rightarrow> int \<times> 's"
  sq_column_text :: "nat \<Rightarrow> nat \<Rightarrow> 's \<Rightarrow> string"
  sq_reset :: "nat \<Rightarrow> 's \<Rightarrow> int \<times> 's"

definition SQLITE_OK :: int where "SQLITE_OK = 0"
definition SQLITE_BUSY :: int where "SQLITE_BUSY = 5"
definition SQLITE_CONSTRAINT :: int where "SQLITE_CONSTRAINT = 19"
definition SQLITE_ROW :: int where "SQLITE_ROW = 100"
definition SQLITE_DONE :: int where "SQLITE_DONE = 101"

lemmas sqlite_codes = SQLITE_OK_def SQLITE_BUSY_def SQLITE_CONSTRAINT_def SQLITE_ROW_def SQLITE_DONE_def

section \<open>The statements\<close>

definition TABLE_NAME :: string where "TABLE_NAME = ''usertable''"
definition PRIMARY_KEY :: string where "PRIMARY_KEY = ''YCSB_KEY''"
definition COLUMN_NAME :: string where "COLUMN_NAME = ''YCSB_VALUE''"

definition SQL_READ_REQ :: nat where "SQL_READ_REQ = 0"
definition SQL_UPDATE_REQ :: nat where "SQL_UPDATE_REQ = 1"
definition SQL_INSERT_REQ :: nat where "SQL_INSERT_REQ = 2"
definition SQL_DELETE_REQ :: nat where "SQL_DELETE_REQ = 3"
definition SQL_SCAN_REQ :: nat where "SQL_SCAN_REQ = 4"

lemmas sql_reqs = SQL_READ_REQ_def SQL_UPDATE_REQ_def SQL_INSERT_REQ_def SQL_DELETE_REQ_def SQL_SCAN_REQ_def

definition read_query :: string where
  "read_query = ''SELECT '' @ COLUMN_NAME @ '' FROM '' @ TABLE_NAME @ '' WHERE '' @ PRIMARY_KEY @ '' = ?;''"

definition insert_query :: string where
  "insert_query = ''INSERT INTO '' @ TABLE_NAME @ '' ('' @ PRIMARY_KEY @ '','' @ COLUMN_NAME @ '') VALUES (?, ?);''"

definition update_query :: string where
  "update_query = ''UPDATE '' @ TABLE_NAME @ '' SET '' @ COLUMN_NAME @ '' = ? WHERE '' @ PRIMARY_KEY @ '' = ?;''"

definition delete_query :: string where
  "delete_query = ''DELETE FROM '' @ TABLE_NAME @ '' WHERE '' @ PRIMARY_KEY @ '' = ?;''"

definition create_query :: string where
  "create_query = ''CREATE TABLE IF NOT EXISTS '' @ TABLE_NAME @ '' ('' @ PRIMARY_KEY @ '' TEXT NOT NULL PRIMARY KEY, '' @ COLUMN_NAME @ '' TEXT NOT NULL);''"

lemmas sql_queries = read_query_def insert_query_def update_query_def delete_query_def

lemma queries_distinct: "distinct [read_query, insert_query, update_query, delete_query]"
  by (simp add: sql_queries TABLE_NAME_def PRIMARY_KEY_def COLUMN_NAME_def)

section \<open>The documented behaviour\<close>

text \<open>
  A statement is its query text, the bound parameters, whether it has been stepped since the last reset, and the row
  it stands on. \<open>tbl\<close> is the content of the table, if it exists, and \<open>stm\<close> the statements that are not finalised. A text
  longer than \<^verbatim>\<open>SQLITE_MAX_LENGTH\<close> bytes, one billion, is refused.
\<close>

record sq_stmt =
  ss_query :: string
  ss_bind :: "nat \<rightharpoonup> string"
  ss_busy :: bool
  ss_row :: string

definition new_stmt :: "string \<Rightarrow> sq_stmt" where
  "new_stmt q = \<lparr>ss_query = q, ss_bind = Map.empty, ss_busy = False, ss_row = []\<rparr>"

definition text_fits :: "string \<Rightarrow> bool" where
  "text_fits v \<longleftrightarrow> length v \<le> 1000000000"

text \<open>The effect of stepping a statement with its parameters bound: the result code, the row and the new content.\<close>

definition stmt_result :: "sq_stmt \<Rightarrow> (string \<rightharpoonup> string) \<Rightarrow> int \<times> string \<times> (string \<rightharpoonup> string)" where
  "stmt_result st m =
     (let p1 = the (ss_bind st 1); p2 = the (ss_bind st 2) in
      if ss_query st = read_query then (case m p1 of None \<Rightarrow> (SQLITE_DONE, [], m) | Some v \<Rightarrow> (SQLITE_ROW, v, m))
      else if ss_query st = insert_query then (if m p1 = None then (SQLITE_DONE, [], m(p1 \<mapsto> p2)) else (SQLITE_CONSTRAINT, [], m))
      else if ss_query st = update_query then (SQLITE_DONE, [], if m p2 = None then m else m(p2 \<mapsto> p1))
      else (SQLITE_DONE, [], m(p1 := None)))"

definition known_query :: "string \<Rightarrow> bool" where
  "known_query q \<longleftrightarrow> q \<in> {read_query, insert_query, update_query, delete_query}"

definition bound :: "sq_stmt \<Rightarrow> bool" where
  "bound st \<longleftrightarrow> known_query (ss_query st) \<and> ss_bind st 1 \<noteq> None
     \<and> (ss_query st \<in> {insert_query, update_query} \<longrightarrow> ss_bind st 2 \<noteq> None)"

definition sq_ok :: "'s sqlite_lib \<Rightarrow> ('s \<Rightarrow> (string \<rightharpoonup> string) option) \<Rightarrow> ('s \<Rightarrow> nat \<rightharpoonup> sq_stmt) \<Rightarrow> bool" where
  "sq_ok lib tbl stm \<longleftrightarrow>
     (\<forall>q s m. tbl s = Some m \<longrightarrow> known_query q \<longrightarrow>
        (case sq_prepare lib q s of (rc, h, s') \<Rightarrow> rc = SQLITE_OK \<and> stm s h = None \<and> stm s' = (stm s)(h \<mapsto> new_stmt q) \<and> tbl s' = tbl s))
   \<and> (\<forall>h i v s st. stm s h = Some st \<longrightarrow> \<not> ss_busy st \<longrightarrow> text_fits v \<longrightarrow>
        (case sq_bind_text lib h i v (int (length v)) s of (rc, s') \<Rightarrow> rc = SQLITE_OK \<and> tbl s' = tbl s
           \<and> stm s' = (stm s)(h \<mapsto> st\<lparr>ss_bind := (ss_bind st)(i \<mapsto> v)\<rparr>)))
   \<and> (\<forall>h s st m. stm s h = Some st \<longrightarrow> \<not> ss_busy st \<longrightarrow> bound st \<longrightarrow> tbl s = Some m \<longrightarrow>
        (case (sq_step lib h s, stmt_result st m) of ((rc, s'), (rc', row, m')) \<Rightarrow> rc = rc' \<and> tbl s' = Some m'
           \<and> stm s' = (stm s)(h \<mapsto> st\<lparr>ss_busy := True, ss_row := row\<rparr>)))
   \<and> (\<forall>h s st. stm s h = Some st \<longrightarrow> sq_column_text lib h 0 s = ss_row st)
   \<and> (\<forall>h s st. stm s h = Some st \<longrightarrow> tbl (snd (sq_reset lib h s)) = tbl s
        \<and> stm (snd (sq_reset lib h s)) = (stm s)(h \<mapsto> st\<lparr>ss_busy := False\<rparr>))
   \<and> (\<forall>h s st. stm s h = Some st \<longrightarrow> tbl (sq_finalize lib h s) = tbl s \<and> stm (sq_finalize lib h s) = (stm s)(h := None))
   \<and> (\<forall>s. fst (sq_close lib s) = (if stm s = Map.empty then SQLITE_OK else SQLITE_BUSY))"

lemma sq_okD:
  assumes "sq_ok lib tbl stm"
  shows "tbl s = Some m \<Longrightarrow> known_query q \<Longrightarrow>
      (case sq_prepare lib q s of (rc, h, s') \<Rightarrow> rc = SQLITE_OK \<and> stm s h = None \<and> stm s' = (stm s)(h \<mapsto> new_stmt q) \<and> tbl s' = tbl s)"
    and "stm s h = Some st \<Longrightarrow> \<not> ss_busy st \<Longrightarrow> text_fits v \<Longrightarrow>
      (case sq_bind_text lib h i v (int (length v)) s of (rc, s') \<Rightarrow> rc = SQLITE_OK \<and> tbl s' = tbl s
         \<and> stm s' = (stm s)(h \<mapsto> st\<lparr>ss_bind := (ss_bind st)(i \<mapsto> v)\<rparr>))"
    and "stm s h = Some st \<Longrightarrow> \<not> ss_busy st \<Longrightarrow> bound st \<Longrightarrow> tbl s = Some m \<Longrightarrow>
      (case (sq_step lib h s, stmt_result st m) of ((rc, s'), (rc', row, m')) \<Rightarrow> rc = rc' \<and> tbl s' = Some m'
         \<and> stm s' = (stm s)(h \<mapsto> st\<lparr>ss_busy := True, ss_row := row\<rparr>))"
    and "stm s h = Some st \<Longrightarrow> sq_column_text lib h 0 s = ss_row st"
    and "stm s h = Some st \<Longrightarrow> tbl (snd (sq_reset lib h s)) = tbl s \<and> stm (snd (sq_reset lib h s)) = (stm s)(h \<mapsto> st\<lparr>ss_busy := False\<rparr>)"
    and "stm s h = Some st \<Longrightarrow> tbl (sq_finalize lib h s) = tbl s \<and> stm (sq_finalize lib h s) = (stm s)(h := None)"
    and "fst (sq_close lib s) = (if stm s = Map.empty then SQLITE_OK else SQLITE_BUSY)"
  using assms unfolding sq_ok_def by meson+

text \<open>A library that keeps the table as a map and the statements in a list, in which a finalised statement leaves a hole.\<close>

record mem_sql =
  ms_table :: "string \<rightharpoonup> string"
  ms_stmts :: "sq_stmt option list"

definition ms_stm :: "mem_sql \<Rightarrow> nat \<rightharpoonup> sq_stmt" where
  "ms_stm s h = (if h < length (ms_stmts s) then ms_stmts s ! h else None)"

definition mem_sqlite :: "mem_sql sqlite_lib" where
  "mem_sqlite =
     \<lparr>sq_open = (\<lambda>_ s. (SQLITE_OK, s)), sq_file_control = (\<lambda>s. (SQLITE_OK, s)), sq_exec = (\<lambda>_ s. (SQLITE_OK, [], s)),
      sq_close = (\<lambda>s. (if \<forall>x \<in> set (ms_stmts s). x = None then SQLITE_OK else SQLITE_BUSY, s)), sq_errmsg = (\<lambda>_. []),
      sq_prepare = (\<lambda>q s. (SQLITE_OK, length (ms_stmts s), s\<lparr>ms_stmts := ms_stmts s @ [Some (new_stmt q)]\<rparr>)),
      sq_finalize = (\<lambda>h s. s\<lparr>ms_stmts := (ms_stmts s)[h := None]\<rparr>),
      sq_bind_text = (\<lambda>h i v n s. case ms_stm s h of None \<Rightarrow> (21, s)
        | Some st \<Rightarrow> (SQLITE_OK, s\<lparr>ms_stmts := (ms_stmts s)[h := Some (st\<lparr>ss_bind := (ss_bind st)(i \<mapsto> take (nat n) v)\<rparr>)]\<rparr>)),
      sq_step = (\<lambda>h s. case ms_stm s h of None \<Rightarrow> (21, s)
        | Some st \<Rightarrow> (case stmt_result st (ms_table s) of (rc, row, m) \<Rightarrow>
            (rc, s\<lparr>ms_table := m, ms_stmts := (ms_stmts s)[h := Some (st\<lparr>ss_busy := True, ss_row := row\<rparr>)]\<rparr>))),
      sq_column_text = (\<lambda>h _ s. case ms_stm s h of None \<Rightarrow> [] | Some st \<Rightarrow> ss_row st),
      sq_reset = (\<lambda>h s. case ms_stm s h of None \<Rightarrow> (21, s)
        | Some st \<Rightarrow> (SQLITE_OK, s\<lparr>ms_stmts := (ms_stmts s)[h := Some (st\<lparr>ss_busy := False\<rparr>)]\<rparr>))\<rparr>"

lemma ms_stm_update: "h < length (ms_stmts s) \<Longrightarrow> ms_stm (s\<lparr>ms_stmts := (ms_stmts s)[h := x]\<rparr>) = (ms_stm s)(h := x)"
  by (auto simp: ms_stm_def)

lemma ms_stm_Some: "ms_stm s h = Some st \<Longrightarrow> h < length (ms_stmts s)"
  by (auto simp: ms_stm_def split: if_splits)

lemma ms_stm_append: "ms_stm (s\<lparr>ms_stmts := ms_stmts s @ [x]\<rparr>) = (ms_stm s)(length (ms_stmts s) := x)"
  by (auto simp: ms_stm_def nth_append)

lemma ms_stm_empty: "(\<forall>x \<in> set (ms_stmts s). x = None) \<longleftrightarrow> ms_stm s = Map.empty"
  by (auto simp: ms_stm_def fun_eq_iff in_set_conv_nth) force

lemma mem_sqlite_ok: "sq_ok mem_sqlite (\<lambda>s. Some (ms_table s)) ms_stm"
proof -
  have t: "ms_stm (s\<lparr>ms_table := m, ms_stmts := xs\<rparr>) = ms_stm (s\<lparr>ms_stmts := xs\<rparr>)" for s m xs by (simp add: ms_stm_def fun_eq_iff)
  have "ms_stm s (length (ms_stmts s)) = None" for s by (simp add: ms_stm_def)
  then show ?thesis
    unfolding sq_ok_def
    by (auto simp: mem_sqlite_def ms_stm_append t ms_stm_update ms_stm_Some ms_stm_empty split: prod.splits)
qed

section \<open>Connections\<close>

text \<open>
  The connection \<^verbatim>\<open>db_\<close>, the map \<^verbatim>\<open>prepared_stmts_\<close> from request types to statements, and the state behind the
  connection.
\<close>

record 's sql_ctx =
  sx_db :: handle
  sx_prepared :: "(nat \<times> nat) list"
  sx_env :: 's

text \<open>The size argument is a 32-bit \<^verbatim>\<open>int\<close>.\<close>

definition bind_text :: "'s sqlite_lib \<Rightarrow> nat \<Rightarrow> nat \<Rightarrow> string \<Rightarrow> 's \<Rightarrow> int \<times> 's" where
  "bind_text lib stmt i data env = sq_bind_text lib stmt i data (sint (of_nat (length data) :: u32)) env"

definition prepare_query :: "'s sqlite_lib \<Rightarrow> nat \<Rightarrow> string \<Rightarrow> ('s, 'z) sql_ctx_scheme \<Rightarrow> (bool \<times> ('s, 'z) sql_ctx_scheme) res" where
  "prepare_query lib req query ctx =
     (if sx_db ctx \<noteq> LiveHandle then Inl (Undefined ''db_ does not point to a database'')
      else case sq_prepare lib query (sx_env ctx) of (ret, stmt, env) \<Rightarrow>
        if ret \<noteq> SQLITE_OK then Inr (False, ctx\<lparr>sx_env := sq_finalize lib stmt env\<rparr>)
        else Inr (True, ctx\<lparr>sx_prepared := (req, stmt) # sx_prepared ctx, sx_env := env\<rparr>))"

definition prepareReadQuery :: "'s sqlite_lib \<Rightarrow> ('s, 'z) sql_ctx_scheme \<Rightarrow> (bool \<times> ('s, 'z) sql_ctx_scheme) res" where
  "prepareReadQuery lib = prepare_query lib SQL_READ_REQ read_query"

definition prepareInsertQuery :: "'s sqlite_lib \<Rightarrow> ('s, 'z) sql_ctx_scheme \<Rightarrow> (bool \<times> ('s, 'z) sql_ctx_scheme) res" where
  "prepareInsertQuery lib = prepare_query lib SQL_INSERT_REQ insert_query"

definition prepareUpdateQuery :: "'s sqlite_lib \<Rightarrow> ('s, 'z) sql_ctx_scheme \<Rightarrow> (bool \<times> ('s, 'z) sql_ctx_scheme) res" where
  "prepareUpdateQuery lib = prepare_query lib SQL_UPDATE_REQ update_query"

definition prepareDeleteQuery :: "'s sqlite_lib \<Rightarrow> ('s, 'z) sql_ctx_scheme \<Rightarrow> (bool \<times> ('s, 'z) sql_ctx_scheme) res" where
  "prepareDeleteQuery lib = prepare_query lib SQL_DELETE_REQ delete_query"

text \<open>The statement for a request type, prepared at its first use; \<open>None\<close> when that fails.\<close>

definition prepared ::
    "nat \<Rightarrow> (('s, 'z) sql_ctx_scheme \<Rightarrow> (bool \<times> ('s, 'z) sql_ctx_scheme) res) \<Rightarrow> ('s, 'z) sql_ctx_scheme
     \<Rightarrow> (nat option \<times> ('s, 'z) sql_ctx_scheme) res" where
  "prepared req prep ctx =
     andThen (if map_of (sx_prepared ctx) req = None then prep ctx else Inr (True, ctx)) (\<lambda>(success, ctx).
     Inr (if success then map_of (sx_prepared ctx) req else None, ctx))"

text \<open>
  The set-up of a new connection; \<open>pfx\<close> is the first part of the property names. When \<^verbatim>\<open>sqlite3_open\<close> or
  \<^verbatim>\<open>sqlite3_file_control\<close> fails, the code closes the connection and then asks it for its error message.
\<close>

definition pragmas :: "string \<Rightarrow> Properties \<Rightarrow> string" where
  "pragmas pfx props =
     ''PRAGMA wal_autocheckpoint='' @ GetProperty props (pfx @ ''.wal_autocheckpoint'') ''1000'' @ '';''
     @ ''PRAGMA locking_mode='' @ GetProperty props (pfx @ ''.locking_mode'') ''NORMAL'' @ '';''
     @ ''PRAGMA journal_mode='' @ GetProperty props (pfx @ ''.journal_mode'') ''WAL'' @ '';''
     @ ''PRAGMA synchronous='' @ GetProperty props (pfx @ ''.synchronous'') ''NORMAL'' @ '';''"

definition open_database :: "'s sqlite_lib \<Rightarrow> string \<Rightarrow> Properties \<Rightarrow> 's \<Rightarrow> 's res" where
  "open_database lib pfx props env =
     (case sq_open lib (GetProperty props (pfx @ ''.dbname'') '''') env of (ret, env) \<Rightarrow>
      if ret \<noteq> SQLITE_OK then Inl (Undefined ''sqlite3_errmsg of a closed connection'')
      else case sq_file_control lib env of (ret, env) \<Rightarrow>
      if ret \<noteq> SQLITE_OK then Inl (Undefined ''sqlite3_errmsg of a closed connection'')
      else case sq_exec lib (pragmas pfx props) env of (ret, err_msg, env) \<Rightarrow>
      if ret \<noteq> SQLITE_OK then Inl (Exception (''Can't set journal mode to WAL, error: '' @ err_msg))
      else case sq_exec lib create_query env of (ret, err_msg, env) \<Rightarrow>
      if ret \<noteq> SQLITE_OK then Inl (Exception (''Can't create table, error: '' @ err_msg))
      else Inr env)"

section \<open>Prepared statements are typed\<close>

text \<open>
  Every entry of \<^verbatim>\<open>prepared_stmts_\<close> is a statement with the query of its request type, ready to be bound and
  stepped, and no two request types share a statement. The other statements of the connection, those of other
  objects, are \<open>oth\<close>.
\<close>

definition query_of :: "nat \<Rightarrow> string" where
  "query_of req = (if req = SQL_READ_REQ then read_query else if req = SQL_UPDATE_REQ then update_query
     else if req = SQL_INSERT_REQ then insert_query else delete_query)"

definition stmts_ok :: "('s \<Rightarrow> nat \<rightharpoonup> sq_stmt) \<Rightarrow> nat set \<Rightarrow> ('s, 'z) sql_ctx_scheme \<Rightarrow> bool" where
  "stmts_ok stm oth ctx \<longleftrightarrow> distinct (map fst (sx_prepared ctx)) \<and> distinct (map snd (sx_prepared ctx))
     \<and> dom (stm (sx_env ctx)) = oth \<union> snd ` set (sx_prepared ctx) \<and> oth \<inter> snd ` set (sx_prepared ctx) = {}
     \<and> (\<forall>(req, h) \<in> set (sx_prepared ctx). \<exists>st. stm (sx_env ctx) h = Some st \<and> ss_query st = query_of req \<and> \<not> ss_busy st)"

lemma query_of_simps [simp]:
  "query_of SQL_READ_REQ = read_query" "query_of SQL_UPDATE_REQ = update_query" "query_of SQL_INSERT_REQ = insert_query"
  "query_of SQL_DELETE_REQ = delete_query" "known_query (query_of req)"
  by (simp_all add: query_of_def sql_reqs known_query_def)

lemmas prepare_defs = prepareReadQuery_def prepareInsertQuery_def prepareUpdateQuery_def prepareDeleteQuery_def

lemma prepared_ok:
  assumes lib: "sq_ok lib tbl stm" and ctx: "sx_db ctx = LiveHandle" "tbl (sx_env ctx) = Some m" "stmts_ok stm oth ctx"
    and prep: "prep = prepare_query lib req (query_of req)"
  obtains h ps env st where "prepared req prep ctx = Inr (Some h, ctx\<lparr>sx_prepared := ps, sx_env := env\<rparr>)" "tbl env = Some m"
    "stm env h = Some st" "ss_query st = query_of req" "\<not> ss_busy st" "stmts_ok stm oth (ctx\<lparr>sx_prepared := ps, sx_env := env\<rparr>)"
proof (cases "map_of (sx_prepared ctx) req")
  case (Some h)
  then have "(req, h) \<in> set (sx_prepared ctx)" by (rule map_of_SomeD)
  then obtain st where st: "stm (sx_env ctx) h = Some st" "ss_query st = query_of req" "\<not> ss_busy st"
    using ctx(3) by (force simp: stmts_ok_def)
  have eq: "ctx\<lparr>sx_prepared := sx_prepared ctx, sx_env := sx_env ctx\<rparr> = ctx" by simp
  show thesis by (rule that [of h "sx_env ctx" "sx_prepared ctx" st]) (use Some st ctx eq in \<open>simp_all add: prepared_def\<close>)
next
  case None
  obtain rc h env where p: "sq_prepare lib (query_of req) (sx_env ctx) = (rc, h, env)" by (cases "sq_prepare lib (query_of req) (sx_env ctx)")
  then have h: "rc = SQLITE_OK" "stm (sx_env ctx) h = None" "stm env = (stm (sx_env ctx))(h \<mapsto> new_stmt (query_of req))" "tbl env = Some m"
    using sq_okD(1) [OF lib ctx(2), of "query_of req"] ctx(2) by simp_all
  have "stmts_ok stm oth (ctx\<lparr>sx_prepared := (req, h) # sx_prepared ctx, sx_env := env\<rparr>)"
  proof -
    have new: "h \<notin> oth \<union> snd ` set (sx_prepared ctx)" "req \<notin> fst ` set (sx_prepared ctx)"
      using ctx(3) h(2) None by (auto simp: stmts_ok_def map_of_eq_None_iff)
    have "\<exists>st. stm env x = Some st \<and> ss_query st = query_of rq \<and> \<not> ss_busy st" if "(rq, x) \<in> set (sx_prepared ctx)" for rq x
      using ctx(3) that new(1) by (force simp: stmts_ok_def h(3))
    then show ?thesis using ctx(3) new by (auto simp: stmts_ok_def h(3) new_stmt_def) (force simp: image_iff)
  qed
  then show thesis
    by (intro that [of h env "(req, h) # sx_prepared ctx" "new_stmt (query_of req)"])
      (use None p h ctx(1) prep in \<open>simp_all add: prepared_def prepare_query_def new_stmt_def\<close>)
qed

text \<open>A statement runs from reset to reset: its parameters are bound, it is stepped, and it is reset.\<close>

lemma bind_text_ok:
  assumes "sq_ok lib tbl stm" and "stm s h = Some st" and "\<not> ss_busy st" and "text_fits v"
  obtains s' where "bind_text lib h i v s = (SQLITE_OK, s')" "tbl s' = tbl s"
    "stm s' = (stm s)(h \<mapsto> st\<lparr>ss_bind := (ss_bind st)(i \<mapsto> v)\<rparr>)"
proof -
  have "sint (of_nat (length v) :: u32) = int (length v)"
    using assms(4) by (simp add: text_fits_def signed_of_nat signed_take_bit_int_eq_self)
  then show thesis using sq_okD(2) [OF assms, of i] that by (cases "bind_text lib h i v s") (simp add: bind_text_def)
qed

lemma step_reset_ok:
  assumes lib: "sq_ok lib tbl stm" and st: "stm s h = Some st" "\<not> ss_busy st" "bound st" and m: "tbl s = Some m"
    and r: "stmt_result st m = (rc, row, m')"
  obtains s' where "sq_step lib h s = (rc, s')" "sq_column_text lib h 0 s' = row" "tbl (snd (sq_reset lib h s')) = Some m'"
    "stm (snd (sq_reset lib h s')) = (stm s)(h \<mapsto> st\<lparr>ss_row := row\<rparr>)"
proof -
  obtain rc1 s' where 1: "sq_step lib h s = (rc1, s')" by (cases "sq_step lib h s")
  then have 2: "rc1 = rc" "tbl s' = Some m'" "stm s' = (stm s)(h \<mapsto> st\<lparr>ss_busy := True, ss_row := row\<rparr>)"
    using sq_okD(3) [OF lib st m] r by simp_all
  then have 3: "stm s' h = Some (st\<lparr>ss_busy := True, ss_row := row\<rparr>)" by simp
  from st(2) have "st\<lparr>ss_row := row, ss_busy := False\<rparr> = st\<lparr>ss_row := row\<rparr>" by (cases st) simp
  then show thesis using 1 2 sq_okD(4) [OF lib 3] sq_okD(5) [OF lib 3] by (intro that [of s']) (auto simp: fun_eq_iff)
qed

lemma stmts_ok_step:
  assumes "stmts_ok stm oth ctx" and "stm env = (stm (sx_env ctx))(h \<mapsto> st')" and "stm (sx_env ctx) h = Some st"
    and "ss_query st' = ss_query st" and "\<not> ss_busy st'"
  shows "stmts_ok stm oth (ctx\<lparr>sx_env := env\<rparr>)"
  using assms by (fastforce simp: stmts_ok_def)

lemma stmt_result_simps:
  "ss_query st = read_query \<Longrightarrow> ss_bind st 1 = Some k \<Longrightarrow>
     stmt_result st m = (case m k of None \<Rightarrow> (SQLITE_DONE, [], m) | Some v \<Rightarrow> (SQLITE_ROW, v, m))"
  "ss_query st = insert_query \<Longrightarrow> ss_bind st 1 = Some k \<Longrightarrow> ss_bind st 2 = Some v \<Longrightarrow>
     stmt_result st m = (if m k = None then (SQLITE_DONE, [], m(k \<mapsto> v)) else (SQLITE_CONSTRAINT, [], m))"
  "ss_query st = update_query \<Longrightarrow> ss_bind st 1 = Some v \<Longrightarrow> ss_bind st 2 = Some k \<Longrightarrow>
     stmt_result st m = (SQLITE_DONE, [], if m k = None then m else m(k \<mapsto> v))"
  "ss_query st = delete_query \<Longrightarrow> ss_bind st 1 = Some k \<Longrightarrow> stmt_result st m = (SQLITE_DONE, [], m(k := None))"
  using queries_distinct by (auto simp: stmt_result_def)

lemma run_one_parameter:
  assumes lib: "sq_ok lib tbl stm" and ctx: "sx_db ctx = LiveHandle" "tbl (sx_env ctx) = Some m" "stmts_ok stm oth ctx"
    and prep: "prep = prepare_query lib req (query_of req)" and req: "req \<in> {SQL_READ_REQ, SQL_DELETE_REQ}" and k: "text_fits k"
  obtains h ps env env1 env2 st rc row m' where "prepared req prep ctx = Inr (Some h, ctx\<lparr>sx_prepared := ps, sx_env := env\<rparr>)"
    "bind_text lib h 1 k env = (SQLITE_OK, env1)" "sq_step lib h env1 = (rc, env2)" "sq_column_text lib h 0 env2 = row"
    "ss_query st = query_of req" "ss_bind st 1 = Some k" "stmt_result st m = (rc, row, m')"
    "tbl (snd (sq_reset lib h env2)) = Some m'" "stmts_ok stm oth (ctx\<lparr>sx_prepared := ps, sx_env := snd (sq_reset lib h env2)\<rparr>)"
proof -
  obtain h ps env st where p: "prepared req prep ctx = Inr (Some h, ctx\<lparr>sx_prepared := ps, sx_env := env\<rparr>)" "tbl env = Some m"
    "stm env h = Some st" "ss_query st = query_of req" "\<not> ss_busy st" "stmts_ok stm oth (ctx\<lparr>sx_prepared := ps, sx_env := env\<rparr>)"
    by (rule prepared_ok [OF lib ctx prep])
  let ?st = "st\<lparr>ss_bind := (ss_bind st)(1 \<mapsto> k)\<rparr>"
  obtain env1 where b: "bind_text lib h 1 k env = (SQLITE_OK, env1)" "tbl env1 = tbl env" "stm env1 = (stm env)(h \<mapsto> ?st)"
    by (rule bind_text_ok [OF lib p(3,5) k, of 1])
  obtain rc row m' where r: "stmt_result ?st m = (rc, row, m')" by (cases "stmt_result ?st m")
  have st: "stm env1 h = Some ?st" "\<not> ss_busy ?st" "bound ?st" "tbl env1 = Some m"
    using p b req queries_distinct by (auto simp: bound_def)
  obtain env2 where s: "sq_step lib h env1 = (rc, env2)" "sq_column_text lib h 0 env2 = row" "tbl (snd (sq_reset lib h env2)) = Some m'"
    "stm (snd (sq_reset lib h env2)) = (stm env1)(h \<mapsto> ?st\<lparr>ss_row := row\<rparr>)" by (rule step_reset_ok [OF lib st r])
  have "stmts_ok stm oth (ctx\<lparr>sx_prepared := ps, sx_env := snd (sq_reset lib h env2)\<rparr>)"
    using stmts_ok_step [OF p(6), of "snd (sq_reset lib h env2)" h "?st\<lparr>ss_row := row\<rparr>" st] p(3,5) s(4) b(3) by simp
  then show thesis by (rule that [OF p(1) b(1) s(1,2) _ _ r s(3), rotated 2]) (use p(4) in simp_all)
qed

lemma run_two_parameters:
  assumes lib: "sq_ok lib tbl stm" and ctx: "sx_db ctx = LiveHandle" "tbl (sx_env ctx) = Some m" "stmts_ok stm oth ctx"
    and prep: "prep = prepare_query lib req (query_of req)" and req: "req \<in> {SQL_INSERT_REQ, SQL_UPDATE_REQ}" and k: "text_fits a" "text_fits b"
  obtains h ps env env1 env2 env3 st rc row m' where "prepared req prep ctx = Inr (Some h, ctx\<lparr>sx_prepared := ps, sx_env := env\<rparr>)"
    "bind_text lib h 1 a env = (SQLITE_OK, env1)" "bind_text lib h 2 b env1 = (SQLITE_OK, env2)" "sq_step lib h env2 = (rc, env3)"
    "ss_query st = query_of req" "ss_bind st 1 = Some a" "ss_bind st 2 = Some b" "stmt_result st m = (rc, row, m')"
    "tbl (snd (sq_reset lib h env3)) = Some m'" "stmts_ok stm oth (ctx\<lparr>sx_prepared := ps, sx_env := snd (sq_reset lib h env3)\<rparr>)"
proof -
  obtain h ps env st where p: "prepared req prep ctx = Inr (Some h, ctx\<lparr>sx_prepared := ps, sx_env := env\<rparr>)" "tbl env = Some m"
    "stm env h = Some st" "ss_query st = query_of req" "\<not> ss_busy st" "stmts_ok stm oth (ctx\<lparr>sx_prepared := ps, sx_env := env\<rparr>)"
    by (rule prepared_ok [OF lib ctx prep])
  let ?st1 = "st\<lparr>ss_bind := (ss_bind st)(1 \<mapsto> a)\<rparr>" and ?st = "st\<lparr>ss_bind := (ss_bind st)(1 \<mapsto> a, 2 \<mapsto> b)\<rparr>"
  obtain env1 where b1: "bind_text lib h 1 a env = (SQLITE_OK, env1)" "tbl env1 = tbl env" "stm env1 = (stm env)(h \<mapsto> ?st1)"
    by (rule bind_text_ok [OF lib p(3,5) k(1), of 1])
  have "stm env1 h = Some ?st1" "\<not> ss_busy ?st1" using b1(3) p(5) by simp_all
  then obtain env2 where b2: "bind_text lib h 2 b env1 = (SQLITE_OK, env2)" "tbl env2 = tbl env1"
    "stm env2 = (stm env1)(h \<mapsto> ?st1\<lparr>ss_bind := (ss_bind ?st1)(2 \<mapsto> b)\<rparr>)"
    by (rule bind_text_ok [OF lib _ _ k(2)])
  obtain rc row m' where r: "stmt_result ?st m = (rc, row, m')" by (cases "stmt_result ?st m")
  have st: "stm env2 h = Some ?st" "\<not> ss_busy ?st" "bound ?st" "tbl env2 = Some m"
    using p b1 b2 req by (auto simp: bound_def)
  obtain env3 where s: "sq_step lib h env2 = (rc, env3)" "sq_column_text lib h 0 env3 = row" "tbl (snd (sq_reset lib h env3)) = Some m'"
    "stm (snd (sq_reset lib h env3)) = (stm env2)(h \<mapsto> ?st\<lparr>ss_row := row\<rparr>)" by (rule step_reset_ok [OF lib st r])
  have "stmts_ok stm oth (ctx\<lparr>sx_prepared := ps, sx_env := snd (sq_reset lib h env3)\<rparr>)"
    using stmts_ok_step [OF p(6), of "snd (sq_reset lib h env3)" h "?st\<lparr>ss_row := row\<rparr>" st] p(3,5) s(4) b1(3) b2(3) by simp
  then show thesis by (rule that [OF p(1) b1(1) b2(1) s(1) _ _ _ r s(3), rotated 3]) (use p(4) in simp_all)
qed

section \<open>The table with SQL semantics\<close>

text \<open>
  The abstract specification of both backends: a record is one text; an insert of an existing key fails, an update
  replaces the record of an existing key and does nothing otherwise, both with the status \<^verbatim>\<open>kOK\<close>; fields cannot be
  selected and there is no scan.
\<close>

definition Sql_ops :: "table DB" where
  "Sql_ops = Table_ops\<lparr>
     db_Read := (\<lambda>_ k _ m. Inr (case m k of None \<Rightarrow> (kNotFound, []) | Some r \<Rightarrow> (kOK, r), m)),
     db_Scan := (\<lambda>_ _ _ _ m. Inr ((kNotImplemented, []), m)),
     db_Update := (\<lambda>_ k vs m. Inr (kOK, if m k = None then m else m(k \<mapsto> vs))),
     db_Insert := (\<lambda>_ k vs m. Inr (if m k = None then (kOK, m(k \<mapsto> vs)) else (kError, m)))\<rparr>"

lemma Sql_ops_simps:
  "db_Read Sql_ops t k flds m = Inr (case m k of None \<Rightarrow> (kNotFound, []) | Some r \<Rightarrow> (kOK, r), m)"
  "db_Scan Sql_ops t k n flds m = Inr ((kNotImplemented, []), m)"
  "db_Update Sql_ops t k vs m = Inr (kOK, if m k = None then m else m(k \<mapsto> vs))"
  "db_Insert Sql_ops t k vs m = Inr (if m k = None then (kOK, m(k \<mapsto> vs)) else (kError, m))"
  "db_Delete Sql_ops t k m = Inr (kOK, m(k := None))"
  by (simp_all add: Sql_ops_def Table_ops_def)

end
