(* ===== verification/Sqlocal.thy ===== *)
theory Sqlocal
  imports Sqlite
begin

text \<open>
  The embedded SQLite backend, \<^verbatim>\<open>src/sqlocal/sqlocal_db.h\<close> and \<^verbatim>\<open>src/sqlocal/sqlocal_db.cc\<close>. The static members (connection and
  reference count) and the state behind the connection are part of the object's record. Records are stored as one
  text in the layout of \<open>Row_Codec\<close>. The messages on the error stream are not modelled.
\<close>

section \<open>The class\<close>

record 's SQLocalDB = "'s sql_ctx" +
  sl_props :: Properties
  sl_ref_cnt :: int

definition SQLocal_SerializeRow :: "Field list \<Rightarrow> string" where
  "SQLocal_SerializeRow values = SerializeRow values []"

definition SQLocal_DeserializeRow :: "bool \<Rightarrow> string \<Rightarrow> Field list res" where
  "SQLocal_DeserializeRow ndebug data = DeserializeRow_loop ndebug data 0 (length data) []"

definition SQLocal_Init :: "'s sqlite_lib \<Rightarrow> 's SQLocalDB \<Rightarrow> (unit \<times> 's SQLocalDB) res" where
  "SQLocal_Init lib d =
     (let d = d\<lparr>sl_ref_cnt := sl_ref_cnt d + 1\<rparr> in
      if sx_db d = NullHandle
      then andThen (open_database lib ''sqlocal'' (sl_props d) (sx_env d)) (\<lambda>env. Inr ((), d\<lparr>sx_db := LiveHandle, sx_env := env\<rparr>))
      else Inr ((), d))"

text \<open>\<^verbatim>\<open>Cleanup\<close> finalises the object's statements but keeps them in \<^verbatim>\<open>prepared_stmts_\<close>, and does not reset \<^verbatim>\<open>db_\<close>. Closing a
  null connection does nothing.\<close>

definition SQLocal_Cleanup :: "'s sqlite_lib \<Rightarrow> 's SQLocalDB \<Rightarrow> (unit \<times> 's SQLocalDB) res" where
  "SQLocal_Cleanup lib d =
     (let d = d\<lparr>sx_env := foldl (\<lambda>env (_, stmt). sq_finalize lib stmt env) (sx_env d) (sx_prepared d), sl_ref_cnt := sl_ref_cnt d - 1\<rparr> in
      if sl_ref_cnt d \<noteq> 0 \<or> sx_db d = NullHandle then Inr ((), d)
      else if sx_db d = DeletedHandle then Inl (Undefined ''connection closed twice'')
      else case sq_close lib (sx_env d) of (ret, env) \<Rightarrow>
        if ret \<noteq> SQLITE_OK then Inl (Exception (''Failed to close SQLite: '' @ sq_errmsg lib env))
        else Inr ((), d\<lparr>sx_db := DeletedHandle, sx_env := env\<rparr>))"

text \<open>The label at the end of each operation: the statement is reset, whatever happened to it.\<close>

definition sl_return :: "'s sqlite_lib \<Rightarrow> nat \<Rightarrow> 'a \<Rightarrow> 's SQLocalDB \<Rightarrow> 's \<Rightarrow> ('a \<times> 's SQLocalDB) res" where
  "sl_return lib stmt s d env = Inr (s, d\<lparr>sx_env := snd (sq_reset lib stmt env)\<rparr>)"

definition SQLocal_Read ::
    "'s sqlite_lib \<Rightarrow> bool \<Rightarrow> string \<Rightarrow> string \<Rightarrow> string list option \<Rightarrow> 's SQLocalDB \<Rightarrow> ((Status \<times> Field list) \<times> 's SQLocalDB) res" where
  "SQLocal_Read lib ndebug table key flds d =
     andThen (prepared SQL_READ_REQ (prepareReadQuery lib) d) (\<lambda>(stmt, d).
     case stmt of None \<Rightarrow> Inr ((kError, []), d)
     | Some stmt \<Rightarrow>
        (case bind_text lib stmt 1 key (sx_env d) of (ret, env) \<Rightarrow>
         if ret \<noteq> SQLITE_OK then sl_return lib stmt (kError, []) d env
         else case sq_step lib stmt env of (ret, env) \<Rightarrow>
         if ret = SQLITE_ROW
         then andThen (SQLocal_DeserializeRow ndebug (sq_column_text lib stmt 0 env)) (\<lambda>result. sl_return lib stmt (kOK, result) d env)
         else if ret = SQLITE_DONE then sl_return lib stmt (kNotFound, []) d env
         else sl_return lib stmt (kError, []) d env))"

definition SQLocal_Update ::
    "'s sqlite_lib \<Rightarrow> string \<Rightarrow> string \<Rightarrow> Field list \<Rightarrow> 's SQLocalDB \<Rightarrow> (Status \<times> 's SQLocalDB) res" where
  "SQLocal_Update lib table key values d =
     andThen (prepared SQL_UPDATE_REQ (prepareUpdateQuery lib) d) (\<lambda>(stmt, d).
     case stmt of None \<Rightarrow> Inr (kError, d)
     | Some stmt \<Rightarrow>
        (let data = SQLocal_SerializeRow values in
         case bind_text lib stmt 1 data (sx_env d) of (ret, env) \<Rightarrow>
         if ret \<noteq> SQLITE_OK then sl_return lib stmt kError d env
         else case bind_text lib stmt 2 key env of (ret, env) \<Rightarrow>
         if ret \<noteq> SQLITE_OK then sl_return lib stmt kError d env
         else case sq_step lib stmt env of (ret, env) \<Rightarrow>
         sl_return lib stmt (if ret = SQLITE_DONE then kOK else kError) d env))"

definition SQLocal_Insert ::
    "'s sqlite_lib \<Rightarrow> string \<Rightarrow> string \<Rightarrow> Field list \<Rightarrow> 's SQLocalDB \<Rightarrow> (Status \<times> 's SQLocalDB) res" where
  "SQLocal_Insert lib table key values d =
     andThen (prepared SQL_INSERT_REQ (prepareInsertQuery lib) d) (\<lambda>(stmt, d).
     case stmt of None \<Rightarrow> Inr (kError, d)
     | Some stmt \<Rightarrow>
        (let data = SQLocal_SerializeRow values in
         case bind_text lib stmt 1 key (sx_env d) of (ret, env) \<Rightarrow>
         if ret \<noteq> SQLITE_OK then sl_return lib stmt kError d env
         else case bind_text lib stmt 2 data env of (ret, env) \<Rightarrow>
         if ret \<noteq> SQLITE_OK then sl_return lib stmt kError d env
         else case sq_step lib stmt env of (ret, env) \<Rightarrow>
         sl_return lib stmt (if ret = SQLITE_DONE then kOK else kError) d env))"

definition SQLocal_Delete :: "'s sqlite_lib \<Rightarrow> string \<Rightarrow> string \<Rightarrow> 's SQLocalDB \<Rightarrow> (Status \<times> 's SQLocalDB) res" where
  "SQLocal_Delete lib table key d =
     andThen (prepared SQL_DELETE_REQ (prepareDeleteQuery lib) d) (\<lambda>(stmt, d).
     case stmt of None \<Rightarrow> Inr (kError, d)
     | Some stmt \<Rightarrow>
        (case bind_text lib stmt 1 key (sx_env d) of (ret, env) \<Rightarrow>
         if ret \<noteq> SQLITE_OK then sl_return lib stmt kError d env
         else case sq_step lib stmt env of (ret, env) \<Rightarrow>
         sl_return lib stmt (if ret = SQLITE_DONE then kOK else kError) d env))"

definition SQLocal_ops :: "'s sqlite_lib \<Rightarrow> bool \<Rightarrow> 's SQLocalDB DB" where
  "SQLocal_ops lib ndebug =
     \<lparr>db_Init = SQLocal_Init lib, db_Cleanup = SQLocal_Cleanup lib,
      db_Read = SQLocal_Read lib ndebug, db_Scan = (\<lambda>_ _ _ _ d. Inr ((kNotImplemented, []), d)),
      db_Update = SQLocal_Update lib, db_Insert = SQLocal_Insert lib, db_Delete = SQLocal_Delete lib,
      db_ReadIdx = (\<lambda>_ _. Inl (Undefined ''pure virtual ReadIdx'')),
      db_ReInitBeforeTransaction = False,
      db_SetProps = (\<lambda>p d. d\<lparr>sl_props := p\<rparr>)\<rparr>"

section \<open>The backend implements the table\<close>

interpretation sl_rows: row_coding row_bytes "SQLocal_DeserializeRow ndebug" "blob_ok R" True for ndebug R
proof unfold_locales
  fix r assume "blob_ok R r"
  then show "SQLocal_DeserializeRow ndebug (row_bytes r) = Inr r"
    using DeserializeRow_loop_encode [of r ndebug "[]" "[]" "[]"] by (simp add: SQLocal_DeserializeRow_def row_bytes_def blob_ok_def)
qed

definition sql_table :: "('s \<Rightarrow> (string \<rightharpoonup> string) option) \<Rightarrow> bool \<Rightarrow> ('s, 'z) sql_ctx_scheme \<Rightarrow> table" where
  "sql_table tbl ndebug d = decode_table (SQLocal_DeserializeRow ndebug) (the (tbl (sx_env d)))"

definition sql_ok ::
    "'s sqlite_lib \<Rightarrow> ('s \<Rightarrow> (string \<rightharpoonup> string) option) \<Rightarrow> ('s \<Rightarrow> nat \<rightharpoonup> sq_stmt) \<Rightarrow> nat set \<Rightarrow> nat \<Rightarrow> ('s, 'z) sql_ctx_scheme \<Rightarrow> bool" where
  "sql_ok lib tbl stm oth R d \<longleftrightarrow> sq_ok lib tbl stm \<and> sx_db d = LiveHandle \<and> stmts_ok stm oth d \<and> R \<le> 1000000000
     \<and> (\<exists>m. tbl (sx_env d) = Some m \<and> all_rows (blob_ok R) row_bytes m)"

text \<open>The calls within the limits: keys of at most a billion bytes, and records of at most \<open>R\<close>.\<close>

fun sql_call :: "nat \<Rightarrow> dbcall \<Rightarrow> bool" where
  "sql_call R (CRead _ k _) = text_fits k"
| "sql_call R (CScan _ _ _ _) = True"
| "sql_call R (CUpdate _ k vs) = (text_fits k \<and> blob_ok R vs)"
| "sql_call R (CInsert _ k vs) = (text_fits k \<and> blob_ok R vs)"
| "sql_call R (CDelete _ k) = text_fits k"
| "sql_call R (CReadIdx _) = False"

lemma sql_okD:
  assumes "sql_ok lib tbl stm oth R d"
  obtains m where "sq_ok lib tbl stm" "sx_db d = LiveHandle" "tbl (sx_env d) = Some m" "stmts_ok stm oth d" "all_rows (blob_ok R) row_bytes m"
    "sql_table tbl ndebug d = decode_table (SQLocal_DeserializeRow ndebug) m" "R \<le> 1000000000"
  using assms by (auto simp: sql_ok_def sql_table_def)

lemma sql_okI:
  assumes "sql_ok lib tbl stm oth R d" and "tbl env = Some m" and "all_rows (blob_ok R) row_bytes m"
    and "stmts_ok stm oth (d\<lparr>sx_prepared := ps, sx_env := env\<rparr>)"
  shows "sql_ok lib tbl stm oth R (d\<lparr>sx_prepared := ps, sx_env := env\<rparr>)"
  using assms by (simp add: sql_ok_def)

lemma row_fits_text: "blob_ok R vs \<Longrightarrow> R \<le> 1000000000 \<Longrightarrow> text_fits (row_bytes vs)"
  by (simp add: blob_ok_def text_fits_def)

text \<open>Each kind of statement, run on the stored texts, does what the table does.\<close>

lemma sql_read_run:
  assumes ok: "sql_ok lib tbl stm oth R d" and k: "text_fits k"
  obtains h ps env env1 env2 rc where "prepared SQL_READ_REQ (prepareReadQuery lib) d = Inr (Some h, d\<lparr>sx_prepared := ps, sx_env := env\<rparr>)"
    "bind_text lib h 1 k env = (SQLITE_OK, env1)" "sq_step lib h env1 = (rc, env2)"
    "case sql_table tbl ndebug d k of None \<Rightarrow> rc = SQLITE_DONE | Some r \<Rightarrow> rc = SQLITE_ROW \<and> blob_ok R r \<and> sq_column_text lib h 0 env2 = row_bytes r"
    "sql_ok lib tbl stm oth R (d\<lparr>sx_prepared := ps, sx_env := snd (sq_reset lib h env2)\<rparr>)"
    "sql_table tbl ndebug (d\<lparr>sx_prepared := ps, sx_env := snd (sq_reset lib h env2)\<rparr>) = sql_table tbl ndebug d"
proof -
  obtain m where m: "sq_ok lib tbl stm" "sx_db d = LiveHandle" "tbl (sx_env d) = Some m" "stmts_ok stm oth d" "all_rows (blob_ok R) row_bytes m"
    "sql_table tbl ndebug d = decode_table (SQLocal_DeserializeRow ndebug) m" "R \<le> 1000000000" by (rule sql_okD [OF ok])
  have p: "prepareReadQuery lib = prepare_query lib SQL_READ_REQ (query_of SQL_READ_REQ)" by (simp add: prepareReadQuery_def)
  obtain h ps env env1 env2 st rc row m' where r: "prepared SQL_READ_REQ (prepareReadQuery lib) d = Inr (Some h, d\<lparr>sx_prepared := ps, sx_env := env\<rparr>)"
    "bind_text lib h 1 k env = (SQLITE_OK, env1)" "sq_step lib h env1 = (rc, env2)" "sq_column_text lib h 0 env2 = row"
    "ss_query st = query_of SQL_READ_REQ" "ss_bind st 1 = Some k" "stmt_result st m = (rc, row, m')" "tbl (snd (sq_reset lib h env2)) = Some m'"
    "stmts_ok stm oth (d\<lparr>sx_prepared := ps, sx_env := snd (sq_reset lib h env2)\<rparr>)"
    by (rule run_one_parameter [OF m(1-4) p insertI1 k])
  have res: "(rc, row, m') = (case m k of None \<Rightarrow> (SQLITE_DONE, [], m) | Some v \<Rightarrow> (SQLITE_ROW, v, m))"
    using r(5-7) stmt_result_simps(1) [of st k m] by simp
  then have m': "m' = m" by (simp split: option.splits)
  have "case sql_table tbl ndebug d k of None \<Rightarrow> rc = SQLITE_DONE | Some r \<Rightarrow> rc = SQLITE_ROW \<and> blob_ok R r \<and> sq_column_text lib h 0 env2 = row_bytes r"
  proof (cases "m k")
    case (Some v)
    then show ?thesis by (rule sl_rows.stored_row [OF TrueI m(5), of k v ndebug]) (use res r(4) Some m(6) in simp)
  qed (use res m(6) in \<open>simp add: decode_table_def\<close>)
  then show thesis
    by (rule that [OF r(1-3)]) (use sql_okI [OF ok _ m(5) r(9)] r(8) m(6) m' in \<open>simp_all add: sql_table_def\<close>)
qed

lemma sql_delete_run:
  assumes ok: "sql_ok lib tbl stm oth R d" and k: "text_fits k"
  obtains h ps env env1 env2 where "prepared SQL_DELETE_REQ (prepareDeleteQuery lib) d = Inr (Some h, d\<lparr>sx_prepared := ps, sx_env := env\<rparr>)"
    "bind_text lib h 1 k env = (SQLITE_OK, env1)" "sq_step lib h env1 = (SQLITE_DONE, env2)"
    "sql_ok lib tbl stm oth R (d\<lparr>sx_prepared := ps, sx_env := snd (sq_reset lib h env2)\<rparr>)"
    "sql_table tbl ndebug (d\<lparr>sx_prepared := ps, sx_env := snd (sq_reset lib h env2)\<rparr>) = (sql_table tbl ndebug d)(k := None)"
proof -
  obtain m where m: "sq_ok lib tbl stm" "sx_db d = LiveHandle" "tbl (sx_env d) = Some m" "stmts_ok stm oth d" "all_rows (blob_ok R) row_bytes m"
    "sql_table tbl ndebug d = decode_table (SQLocal_DeserializeRow ndebug) m" "R \<le> 1000000000" by (rule sql_okD [OF ok])
  have p: "prepareDeleteQuery lib = prepare_query lib SQL_DELETE_REQ (query_of SQL_DELETE_REQ)" by (simp add: prepareDeleteQuery_def)
  have q: "SQL_DELETE_REQ \<in> {SQL_READ_REQ, SQL_DELETE_REQ}" by simp
  obtain h ps env env1 env2 st rc row m' where r: "prepared SQL_DELETE_REQ (prepareDeleteQuery lib) d = Inr (Some h, d\<lparr>sx_prepared := ps, sx_env := env\<rparr>)"
    "bind_text lib h 1 k env = (SQLITE_OK, env1)" "sq_step lib h env1 = (rc, env2)" "sq_column_text lib h 0 env2 = row"
    "ss_query st = query_of SQL_DELETE_REQ" "ss_bind st 1 = Some k" "stmt_result st m = (rc, row, m')" "tbl (snd (sq_reset lib h env2)) = Some m'"
    "stmts_ok stm oth (d\<lparr>sx_prepared := ps, sx_env := snd (sq_reset lib h env2)\<rparr>)"
    by (rule run_one_parameter [OF m(1-4) p q k])
  have res: "rc = SQLITE_DONE" "m' = m(k := None)" using r(5-7) stmt_result_simps(4) [of st k m] by simp_all
  have "all_rows (blob_ok R) row_bytes m'" using sl_rows.rows_del [OF m(5), of k] res(2) by simp
  from sql_okI [OF ok r(8) this r(9)] show thesis
    by (rule that [OF r(1-2), rotated]) (use r(3) res(1) r(8) m(6) res(2) sl_rows.decode_del in \<open>simp_all add: sql_table_def\<close>)
qed

lemma sql_insert_run:
  assumes ok: "sql_ok lib tbl stm oth R d" and k: "text_fits k" and vs: "blob_ok R vs"
  obtains h ps env env1 env2 env3 rc where "prepared SQL_INSERT_REQ (prepareInsertQuery lib) d = Inr (Some h, d\<lparr>sx_prepared := ps, sx_env := env\<rparr>)"
    "bind_text lib h 1 k env = (SQLITE_OK, env1)" "bind_text lib h 2 (row_bytes vs) env1 = (SQLITE_OK, env2)" "sq_step lib h env2 = (rc, env3)"
    "rc = SQLITE_DONE \<longleftrightarrow> sql_table tbl ndebug d k = None"
    "sql_ok lib tbl stm oth R (d\<lparr>sx_prepared := ps, sx_env := snd (sq_reset lib h env3)\<rparr>)"
    "sql_table tbl ndebug (d\<lparr>sx_prepared := ps, sx_env := snd (sq_reset lib h env3)\<rparr>) =
       (if sql_table tbl ndebug d k = None then (sql_table tbl ndebug d)(k \<mapsto> vs) else sql_table tbl ndebug d)"
proof -
  obtain m where m: "sq_ok lib tbl stm" "sx_db d = LiveHandle" "tbl (sx_env d) = Some m" "stmts_ok stm oth d" "all_rows (blob_ok R) row_bytes m"
    "sql_table tbl ndebug d = decode_table (SQLocal_DeserializeRow ndebug) m" "R \<le> 1000000000" by (rule sql_okD [OF ok])
  have p: "prepareInsertQuery lib = prepare_query lib SQL_INSERT_REQ (query_of SQL_INSERT_REQ)" by (simp add: prepareInsertQuery_def)
  obtain h ps env env1 env2 env3 st rc row m' where r: "prepared SQL_INSERT_REQ (prepareInsertQuery lib) d = Inr (Some h, d\<lparr>sx_prepared := ps, sx_env := env\<rparr>)"
    "bind_text lib h 1 k env = (SQLITE_OK, env1)" "bind_text lib h 2 (row_bytes vs) env1 = (SQLITE_OK, env2)" "sq_step lib h env2 = (rc, env3)"
    "ss_query st = query_of SQL_INSERT_REQ" "ss_bind st 1 = Some k" "ss_bind st 2 = Some (row_bytes vs)" "stmt_result st m = (rc, row, m')"
    "tbl (snd (sq_reset lib h env3)) = Some m'" "stmts_ok stm oth (d\<lparr>sx_prepared := ps, sx_env := snd (sq_reset lib h env3)\<rparr>)"
    by (rule run_two_parameters [OF m(1-4) p insertI1 k row_fits_text [OF vs m(7)]])
  have res: "(rc, row, m') = (if m k = None then (SQLITE_DONE, [], m(k \<mapsto> row_bytes vs)) else (SQLITE_CONSTRAINT, [], m))"
    using r(5-8) stmt_result_simps(2) [of st k "row_bytes vs" m] by simp
  then have "all_rows (blob_ok R) row_bytes m'" using sl_rows.rows_upd [OF m(5) vs] m(5) by (simp split: if_splits)
  from sql_okI [OF ok r(9) this r(10)] show thesis
    by (rule that [OF r(1-4), rotated])
      (use res r(9) m(6) sl_rows.decode_None [OF TrueI m(5)] sl_rows.decode_upd [OF TrueI vs] in \<open>auto simp: sql_table_def sqlite_codes split: if_splits\<close>)
qed

lemma sql_update_run:
  assumes ok: "sql_ok lib tbl stm oth R d" and k: "text_fits k" and vs: "blob_ok R vs"
  obtains h ps env env1 env2 env3 where "prepared SQL_UPDATE_REQ (prepareUpdateQuery lib) d = Inr (Some h, d\<lparr>sx_prepared := ps, sx_env := env\<rparr>)"
    "bind_text lib h 1 (row_bytes vs) env = (SQLITE_OK, env1)" "bind_text lib h 2 k env1 = (SQLITE_OK, env2)" "sq_step lib h env2 = (SQLITE_DONE, env3)"
    "sql_ok lib tbl stm oth R (d\<lparr>sx_prepared := ps, sx_env := snd (sq_reset lib h env3)\<rparr>)"
    "sql_table tbl ndebug (d\<lparr>sx_prepared := ps, sx_env := snd (sq_reset lib h env3)\<rparr>) =
       (if sql_table tbl ndebug d k = None then sql_table tbl ndebug d else (sql_table tbl ndebug d)(k \<mapsto> vs))"
proof -
  obtain m where m: "sq_ok lib tbl stm" "sx_db d = LiveHandle" "tbl (sx_env d) = Some m" "stmts_ok stm oth d" "all_rows (blob_ok R) row_bytes m"
    "sql_table tbl ndebug d = decode_table (SQLocal_DeserializeRow ndebug) m" "R \<le> 1000000000" by (rule sql_okD [OF ok])
  have p: "prepareUpdateQuery lib = prepare_query lib SQL_UPDATE_REQ (query_of SQL_UPDATE_REQ)" by (simp add: prepareUpdateQuery_def)
  have q: "SQL_UPDATE_REQ \<in> {SQL_INSERT_REQ, SQL_UPDATE_REQ}" by simp
  obtain h ps env env1 env2 env3 st rc row m' where r: "prepared SQL_UPDATE_REQ (prepareUpdateQuery lib) d = Inr (Some h, d\<lparr>sx_prepared := ps, sx_env := env\<rparr>)"
    "bind_text lib h 1 (row_bytes vs) env = (SQLITE_OK, env1)" "bind_text lib h 2 k env1 = (SQLITE_OK, env2)" "sq_step lib h env2 = (rc, env3)"
    "ss_query st = query_of SQL_UPDATE_REQ" "ss_bind st 1 = Some (row_bytes vs)" "ss_bind st 2 = Some k" "stmt_result st m = (rc, row, m')"
    "tbl (snd (sq_reset lib h env3)) = Some m'" "stmts_ok stm oth (d\<lparr>sx_prepared := ps, sx_env := snd (sq_reset lib h env3)\<rparr>)"
    by (rule run_two_parameters [OF m(1-4) p q row_fits_text [OF vs m(7)] k])
  have res: "rc = SQLITE_DONE" "m' = (if m k = None then m else m(k \<mapsto> row_bytes vs))"
    using r(5-8) stmt_result_simps(3) [of st "row_bytes vs" k m] by simp_all
  have "all_rows (blob_ok R) row_bytes m'" using sl_rows.rows_upd [OF m(5) vs] m(5) res(2) by simp
  from sql_okI [OF ok r(9) this r(10)] show thesis
    by (rule that [OF r(1-3), rotated])
      (use res r(4,9) m(6) sl_rows.decode_None [OF TrueI m(5)] sl_rows.decode_upd [OF TrueI vs] in \<open>auto simp: sql_table_def split: if_splits\<close>)
qed

interpretation sqlocal: db_refinement "SQLocal_ops lib ndebug" Sql_ops "sql_table tbl ndebug" "sql_ok lib tbl stm oth R" "sql_call R"
  for lib ndebug tbl stm oth R
proof unfold_locales
  fix d :: "'a SQLocalDB" and q assume ok: "sql_ok lib tbl stm oth R d" and q: "sql_call R q"
  note ops = SQLocal_ops_def sl_return_def Sql_ops_simps sqlite_codes SQLocal_SerializeRow_def SerializeRow_row_bytes
  show "\<exists>r d'. db_call (SQLocal_ops lib ndebug) q d = Inr (r, d') \<and> sql_ok lib tbl stm oth R d'
      \<and> db_call Sql_ops q (sql_table tbl ndebug d) = Inr (r, sql_table tbl ndebug d')"
  proof (cases q)
    case (CRead t k flds)
    have k: "text_fits k" using q CRead by simp
    show ?thesis
    proof (rule sql_read_run [OF ok k, of ndebug], goal_cases)
      case (1 h ps env env1 env2 rc)
      then show ?case using CRead sl_rows.deser_ser [OF TrueI, of R _ ndebug]
        by (cases "sql_table tbl ndebug d k") (auto simp: ops SQLocal_Read_def)
    qed
  next
    case (CUpdate t k vs)
    then have k: "text_fits k" "blob_ok R vs" using q by simp_all
    show ?thesis by (rule sql_update_run [OF ok k, of ndebug]) (use CUpdate in \<open>auto simp: ops SQLocal_Update_def\<close>)
  next
    case (CInsert t k vs)
    then have k: "text_fits k" "blob_ok R vs" using q by simp_all
    show ?thesis by (rule sql_insert_run [OF ok k, of ndebug]) (use CInsert in \<open>auto simp: ops SQLocal_Insert_def\<close>)
  next
    case (CDelete t k)
    have k: "text_fits k" using q CDelete by simp
    show ?thesis by (rule sql_delete_run [OF ok k, of ndebug]) (use CDelete in \<open>auto simp: ops SQLocal_Delete_def\<close>)
  next
    case (CScan t k n flds)
    then show ?thesis using ok by (auto simp: ops)
  qed (use q in simp)
qed

section \<open>The shared connection\<close>

definition NewSQLocalDB :: "Properties \<Rightarrow> 's kv_static \<Rightarrow> 's SQLocalDB" where
  "NewSQLocalDB props st = \<lparr>sx_db = st_db st, sx_prepared = [], sx_env = st_env st, sl_props = props, sl_ref_cnt = st_ref_cnt st\<rparr>"

definition sl_static :: "'s SQLocalDB \<Rightarrow> 's kv_static" where
  "sl_static d = \<lparr>st_db = sx_db d, st_ref_cnt = sl_ref_cnt d, st_env = sx_env d\<rparr>"

definition sl_open :: "'s sqlite_lib \<Rightarrow> Properties \<Rightarrow> 's kv_static \<Rightarrow> 's kv_static res" where
  "sl_open lib props st = map_sum id (sl_static \<circ> snd) (SQLocal_Init lib (NewSQLocalDB props st))"

definition sl_close :: "'s sqlite_lib \<Rightarrow> 's kv_static \<Rightarrow> 's kv_static res" where
  "sl_close lib st = map_sum id (sl_static \<circ> snd) (SQLocal_Cleanup lib (NewSQLocalDB no_properties st))"

lemma sq_close_empty: "sq_ok lib tbl stm \<Longrightarrow> stm s = Map.empty \<Longrightarrow> \<exists>s'. sq_close lib s = (SQLITE_OK, s')"
  using sq_okD(7) [of lib tbl stm s] by (cases "sq_close lib s") simp

interpretation sl_handle: shared_handle "sl_open lib props" "sl_close lib"
    "\<lambda>st. st_db st = LiveHandle \<and> sq_ok lib tbl stm \<and> stm (st_env st) = Map.empty" st_ref_cnt st_env True for lib props tbl stm
  by unfold_locales
    (auto simp: sl_open_def sl_close_def SQLocal_Init_def SQLocal_Cleanup_def NewSQLocalDB_def sl_static_def Let_def dest!: sq_close_empty)

lemma finalize_all:
  assumes lib: "sq_ok lib tbl stm" and "distinct (map snd ps)" and "snd ` set ps \<subseteq> dom (stm s)"
  shows "tbl (foldl (\<lambda>env (_, stmt). sq_finalize lib stmt env) s ps) = tbl s
     \<and> stm (foldl (\<lambda>env (_, stmt). sq_finalize lib stmt env) s ps) = (\<lambda>h. if h \<in> snd ` set ps then None else stm s h)"
  using assms(2,3)
proof (induction ps arbitrary: s)
  case (Cons p ps)
  obtain req h where p: "p = (req, h)" by (cases p)
  obtain st where "stm s h = Some st" using Cons.prems(2) p by auto
  then have f: "tbl (sq_finalize lib h s) = tbl s" "stm (sq_finalize lib h s) = (stm s)(h := None)" using sq_okD(6) [OF lib] by blast+
  have "snd ` set ps \<subseteq> dom (stm (sq_finalize lib h s))" using Cons.prems p by (auto simp: f)
  moreover have "distinct (map snd ps)" using Cons.prems(1) by simp
  ultimately have "tbl (foldl (\<lambda>env (_, stmt). sq_finalize lib stmt env) (sq_finalize lib h s) ps) = tbl s
     \<and> stm (foldl (\<lambda>env (_, stmt). sq_finalize lib stmt env) (sq_finalize lib h s) ps) = (\<lambda>x. if x \<in> snd ` set ps then None else ((stm s)(h := None)) x)"
    using Cons.IH [of "sq_finalize lib h s"] by (simp only: f)
  then show ?case using p by (simp add: fun_eq_iff)
qed simp

lemma prepared_ref_cnt:
  "prepared req (prepare_query lib req q) d = Inr (x, d') \<Longrightarrow> sl_ref_cnt d' = sl_ref_cnt d"
  by (auto simp: prepared_def prepare_query_def res_simps split: if_splits prod.splits)

lemma op_ref_cnt:
  assumes "andThen (prepared req (prepare_query lib req q) d) f = Inr (x, d')"
    and "\<And>stmt d1. f (stmt, d1) = Inr (x, d') \<Longrightarrow> sl_ref_cnt d' = sl_ref_cnt d1"
  shows "sl_ref_cnt d' = sl_ref_cnt d"
  using assms by (auto simp: andThen_eq_Inr dest: prepared_ref_cnt)

lemma call_ref_cnt:
  assumes "db_call (SQLocal_ops lib ndebug) q d = Inr (r, d')"
  shows "sl_ref_cnt d' = sl_ref_cnt d"
proof (cases q)
  case (CRead t k flds)
  then obtain x where "SQLocal_Read lib ndebug t k flds d = Inr (x, d')" using assms by (auto simp: SQLocal_ops_def map_result_Inr)
  then show ?thesis unfolding SQLocal_Read_def prepare_defs
    by (rule op_ref_cnt) (auto simp: sl_return_def andThen_eq_Inr split: option.splits prod.splits if_splits)
next
  case (CUpdate t k vs)
  then obtain x where "SQLocal_Update lib t k vs d = Inr (x, d')" using assms by (auto simp: SQLocal_ops_def map_result_Inr)
  then show ?thesis unfolding SQLocal_Update_def prepare_defs
    by (rule op_ref_cnt) (auto simp: sl_return_def Let_def split: option.splits prod.splits if_splits)
next
  case (CInsert t k vs)
  then obtain x where "SQLocal_Insert lib t k vs d = Inr (x, d')" using assms by (auto simp: SQLocal_ops_def map_result_Inr)
  then show ?thesis unfolding SQLocal_Insert_def prepare_defs
    by (rule op_ref_cnt) (auto simp: sl_return_def Let_def split: option.splits prod.splits if_splits)
next
  case (CDelete t k)
  then obtain x where "SQLocal_Delete lib t k d = Inr (x, d')" using assms by (auto simp: SQLocal_ops_def map_result_Inr)
  then show ?thesis unfolding SQLocal_Delete_def prepare_defs
    by (rule op_ref_cnt) (auto simp: sl_return_def split: option.splits prod.splits if_splits)
qed (use assms in \<open>auto simp: SQLocal_ops_def\<close>)

lemma calls_ref_cnt: "db_calls (SQLocal_ops lib ndebug) qs d = Inr (rs, d') \<Longrightarrow> sl_ref_cnt d' = sl_ref_cnt d"
  by (induction qs arbitrary: d rs) (auto simp: res_simps dest!: call_ref_cnt)

section \<open>Properties\<close>

text \<open>C11: The embedded SQLite backend implements the table with SQL semantics, for every library that keeps its documented promises:
  any sequence of calls within the size limits returns, in a debug build and in a release build, with the statuses and records
  of that table, whose content the stored texts encode.\<close>

theorem sqlocal_refines_table:
  assumes "sql_ok lib tbl stm oth R d" and "\<forall>q \<in> set qs. sql_call R q"
  shows "\<exists>rs d'. db_calls (SQLocal_ops lib ndebug) qs d = Inr (rs, d') \<and> sql_ok lib tbl stm oth R d'
     \<and> db_calls Sql_ops qs (sql_table tbl ndebug d) = Inr (rs, sql_table tbl ndebug d')"
  using sqlocal.calls_refine [of lib tbl stm oth R d qs ndebug] assms by blast

definition demo_sqlocal :: "mem_sql SQLocalDB" where
  "demo_sqlocal = NewSQLocalDB no_properties \<lparr>st_db = LiveHandle, st_ref_cnt = 1, st_env = \<lparr>ms_table = Map.empty, ms_stmts = []\<rparr>\<rparr>"

lemma demo_sqlocal_ok: "sql_ok mem_sqlite (\<lambda>s. Some (ms_table s)) ms_stm {} 100 demo_sqlocal"
proof -
  have "ms_stm \<lparr>ms_table = Map.empty, ms_stmts = []\<rparr> = Map.empty" by (simp add: ms_stm_def fun_eq_iff)
  then show ?thesis by (simp add: sql_ok_def mem_sqlite_ok demo_sqlocal_def NewSQLocalDB_def stmts_ok_def all_rows_def)
qed

abbreviation demo_sql_calls :: "dbcall list" where
  "demo_sql_calls \<equiv> [CInsert ''t'' ''k'' [(''f0'', ''a'')], CInsert ''t'' ''k'' [(''f0'', ''b'')], CUpdate ''t'' ''x'' [(''f0'', ''c'')],
     CRead ''t'' ''k'' None, CRead ''t'' ''x'' None, CScan ''t'' ''k'' 3 None]"

lemma demo_sql_calls_ok: "\<forall>q \<in> set demo_sql_calls. sql_call 100 q"
  by (simp add: text_fits_def blob_ok_def small_def row_bytes_def encode_field_def)

theorem sqlocal_refines_table_witness:
  "\<exists>d'. db_calls (SQLocal_ops mem_sqlite False) demo_sql_calls demo_sqlocal
     = Inr ([RStatus kOK, RStatus kError, RStatus kOK, RFields kOK [(''f0'', ''a'')], RFields kNotFound [], RRows kNotImplemented []], d')"
proof -
  have "sql_table (\<lambda>s. Some (ms_table s)) False demo_sqlocal = Map.empty"
    by (auto simp: sql_table_def demo_sqlocal_def NewSQLocalDB_def decode_table_def)
  with sqlocal_refines_table [OF demo_sqlocal_ok demo_sql_calls_ok, of False] show ?thesis by (auto simp: Sql_ops_simps)
qed

text \<open>C32: The prepared statements stay typed: after any sequence of calls, failed inserts included, every entry of \<^verbatim>\<open>prepared_stmts_\<close>
  is a statement of its own with the query of its request type, and it is reset, so that the next operation can bind it.\<close>

theorem sqlocal_statements_typed:
  assumes "sql_ok lib tbl stm oth R d" and "\<forall>q \<in> set qs. sql_call R q" and "db_calls (SQLocal_ops lib ndebug) qs d = Inr (rs, d')"
    and "map_of (sx_prepared d') req = Some h"
  shows "h \<notin> oth \<and> (\<forall>req'. map_of (sx_prepared d') req' = Some h \<longrightarrow> req' = req)
     \<and> (\<exists>st. stm (sx_env d') h = Some st \<and> ss_query st = query_of req \<and> \<not> ss_busy st)"
proof -
  have "sql_ok lib tbl stm oth R d'" using sqlocal.calls_refine [OF assms(1,2), of ndebug] assms(3) by auto
  then have s: "stmts_ok stm oth d'" by (simp add: sql_ok_def)
  have h: "(req, h) \<in> set (sx_prepared d')" using assms(4) by (rule map_of_SomeD)
  have inj: "inj_on snd (set (sx_prepared d'))" using s by (simp add: stmts_ok_def distinct_map)
  have "req' = req" if "map_of (sx_prepared d') req' = Some h" for req'
    using inj_onD [OF inj _ map_of_SomeD [OF that] h] by simp
  moreover have "h \<notin> oth" using s h by (force simp: stmts_ok_def)
  moreover have "\<exists>st. stm (sx_env d') h = Some st \<and> ss_query st = query_of req \<and> \<not> ss_busy st" using s h by (auto simp: stmts_ok_def)
  ultimately show ?thesis by blast
qed

theorem sqlocal_statements_typed_witness:
  "\<exists>rs d' h st. db_calls (SQLocal_ops mem_sqlite False) [CInsert ''t'' ''k'' [(''f0'', ''a'')]] demo_sqlocal = Inr (rs, d')
     \<and> map_of (sx_prepared d') SQL_INSERT_REQ = Some h \<and> ms_stm (sx_env d') h = Some st \<and> ss_query st = insert_query \<and> \<not> ss_busy st"
proof -
  let ?qs = "[CInsert ''t'' ''k'' [(''f0'', ''a'')]]"
  have q: "\<forall>q \<in> set ?qs. sql_call 100 q"
    by (simp add: text_fits_def blob_ok_def small_def row_bytes_def encode_field_def)
  have "length (row_bytes [(''f0'', ''a'')]) = 11" by (simp add: row_bytes_def encode_field_def)
  then obtain d' where d': "db_calls (SQLocal_ops mem_sqlite False) ?qs demo_sqlocal = Inr ([RStatus kOK], d')"
    "map_of (sx_prepared d') SQL_INSERT_REQ = Some 0"
    by (simp add: SQLocal_ops_def SQLocal_Insert_def prepared_def prepareInsertQuery_def prepare_query_def demo_sqlocal_def NewSQLocalDB_def
        mem_sqlite_def bind_text_def ms_stm_def sl_return_def new_stmt_def stmt_result_def sqlite_codes Let_def split_beta)
  from sqlocal_statements_typed [OF demo_sqlocal_ok q d'] show ?thesis using d' by auto
qed

text \<open>When the last user of the connection cleans up after any sequence of calls, and no other object has left a statement open,
  \<^verbatim>\<open>Cleanup\<close> finalises the object's statements and closes the connection without an exception. A statement of another object
  that is still open makes the same \<^verbatim>\<open>Cleanup\<close> throw.\<close>

theorem sqlocal_cleanup_closes:
  assumes "sql_ok lib tbl stm oth R d" and "\<forall>q \<in> set qs. sql_call R q" and "sl_ref_cnt d = 1"
  shows "\<exists>rs d1. db_calls (SQLocal_ops lib ndebug) qs d = Inr (rs, d1)
     \<and> (if oth = {} then \<exists>d2. SQLocal_Cleanup lib d1 = Inr ((), d2) \<and> sx_db d2 = DeletedHandle \<and> sl_ref_cnt d2 = 0
        else \<exists>msg. SQLocal_Cleanup lib d1 = Inl (Exception msg))"
proof -
  obtain rs d1 where d1: "db_calls (SQLocal_ops lib ndebug) qs d = Inr (rs, d1)" "sql_ok lib tbl stm oth R d1"
    using sqlocal.calls_refine [OF assms(1,2), of ndebug] by blast
  then have lib: "sq_ok lib tbl stm" and s: "stmts_ok stm oth d1" and l: "sx_db d1 = LiveHandle" by (simp_all add: sql_ok_def)
  let ?env = "foldl (\<lambda>env (_, stmt). sq_finalize lib stmt env) (sx_env d1) (sx_prepared d1)"
  have "stm ?env = (\<lambda>h. if h \<in> snd ` set (sx_prepared d1) then None else stm (sx_env d1) h)"
    using finalize_all [OF lib, of "sx_prepared d1" "sx_env d1"] s by (simp add: stmts_ok_def)
  then have "dom (stm ?env) = dom (stm (sx_env d1)) - snd ` set (sx_prepared d1)" by (auto simp: dom_def)
  then have "dom (stm ?env) = oth" using s by (auto simp: stmts_ok_def)
  then have e: "stm ?env = Map.empty \<longleftrightarrow> oth = {}" by (metis dom_empty dom_eq_empty_conv)
  obtain ret env where c: "sq_close lib ?env = (ret, env)" by (cases "sq_close lib ?env")
  then have "ret = SQLITE_OK \<longleftrightarrow> oth = {}" using sq_okD(7) [OF lib, of ?env] e by (simp add: sqlite_codes)
  then show ?thesis using l assms(3) calls_ref_cnt [OF d1(1)] d1(1) c by (simp add: SQLocal_Cleanup_def)
qed

theorem sqlocal_cleanup_closes_witness:
  "\<exists>rs d1 d2. db_calls (SQLocal_ops mem_sqlite True) demo_sql_calls demo_sqlocal = Inr (rs, d1)
     \<and> SQLocal_Cleanup mem_sqlite d1 = Inr ((), d2) \<and> sx_db d2 = DeletedHandle"
proof -
  have "sl_ref_cnt demo_sqlocal = 1" by (simp add: demo_sqlocal_def NewSQLocalDB_def)
  from sqlocal_cleanup_closes [OF demo_sqlocal_ok demo_sql_calls_ok this, of True] show ?thesis by auto
qed

end
