(* ===== verification/Sqlite_Rpc.thy ===== *)
theory Sqlite_Rpc
  imports Sqlocal
begin

text \<open>
  The SQLite server, \<^verbatim>\<open>src/sqlite/sqlite_svr.cc\<close>, and its client, \<^verbatim>\<open>src/sqlite/sqlite_cli.cc\<close>. The server runs the prepared
  statements of \<open>Sqlite\<close> and answers in the messages of \<open>Msg_Buffer\<close>; the client is the one of \<open>Rpc_Client\<close>. The pair
  implements the table with SQL semantics, but no handler serves scans.
\<close>

section \<open>The server\<close>

record 's SqlServerContext = "'s sql_ctx" +
  qc_resp_buf :: MsgBuffer
  qc_pre_resp_msgbuf :: MsgBuffer
  qc_setup :: bool

text \<open>When the statement cannot be prepared, the handlers answer at once.\<close>

definition Sql_read_handler :: "'s sqlite_lib \<Rightarrow> string \<Rightarrow> 's SqlServerContext \<Rightarrow> (string \<times> 's SqlServerContext) res" where
  "Sql_read_handler lib req c =
     andThen (DeserializeKey req) (\<lambda>key.
     andThen (prepared SQL_READ_REQ (prepareReadQuery lib) c) (\<lambda>(stmt, c).
     let resp = qc_resp_buf c in
     case stmt of None \<Rightarrow> andThen (status_response kError resp) (\<lambda>resp. Inr (mb_data resp, c\<lparr>qc_resp_buf := resp\<rparr>))
     | Some stmt \<Rightarrow>
        (case bind_text lib stmt 1 key (sx_env c) of (ret, env) \<Rightarrow>
         andThen (if ret \<noteq> SQLITE_OK then andThen (status_response kError resp) (\<lambda>resp. Inr (resp, env))
                  else case sq_step lib stmt env of (ret, env) \<Rightarrow>
                    if ret = SQLITE_ROW
                    then let val = sq_column_text lib stmt 0 env in
                      andThen (andThen (resize_msg_buffer (4 + length val) resp) (\<lambda>resp.
                               andThen (put_status kOK resp) (mb_write 4 val))) (\<lambda>resp. Inr (resp, env))
                    else if ret = SQLITE_DONE then andThen (put_status kNotFound resp) (\<lambda>resp. Inr (resp, env))
                    else andThen (put_status kError resp) (\<lambda>resp. Inr (resp, env))) (\<lambda>(resp, env).
         Inr (mb_data resp, c\<lparr>sx_env := snd (sq_reset lib stmt env), qc_resp_buf := resp\<rparr>)))))"

text \<open>The end of the writing handlers: the status in the library's preallocated buffer, and the statement reset.\<close>

definition write_resp ::
    "'s sqlite_lib \<Rightarrow> nat \<Rightarrow> Status \<Rightarrow> 's \<Rightarrow> 's SqlServerContext \<Rightarrow> (string \<times> 's SqlServerContext) res" where
  "write_resp lib stmt s env c =
     andThen (status_response s (qc_pre_resp_msgbuf c)) (\<lambda>resp.
     Inr (mb_data resp, c\<lparr>sx_env := snd (sq_reset lib stmt env)\<rparr>))"

definition insert_handler :: "'s sqlite_lib \<Rightarrow> string \<Rightarrow> 's SqlServerContext \<Rightarrow> (string \<times> 's SqlServerContext) res" where
  "insert_handler lib req c =
     andThen (DeserializeKey req) (\<lambda>key.
     let offset = length key + 4 in
     andThen (read_bytes req offset (length req - offset)) (\<lambda>val.
     andThen (prepared SQL_INSERT_REQ (prepareInsertQuery lib) c) (\<lambda>(stmt, c).
     case stmt of None \<Rightarrow> andThen (status_response kError (qc_pre_resp_msgbuf c)) (\<lambda>resp. Inr (mb_data resp, c))
     | Some stmt \<Rightarrow>
        (case bind_text lib stmt 1 key (sx_env c) of (ret, env) \<Rightarrow>
         if ret \<noteq> SQLITE_OK then write_resp lib stmt kError env c
         else case bind_text lib stmt 2 val env of (ret, env) \<Rightarrow>
         if ret \<noteq> SQLITE_OK then write_resp lib stmt kError env c
         else case sq_step lib stmt env of (ret, env) \<Rightarrow>
         write_resp lib stmt (if ret = SQLITE_DONE then kOK else kError) env c))))"

definition update_handler :: "'s sqlite_lib \<Rightarrow> string \<Rightarrow> 's SqlServerContext \<Rightarrow> (string \<times> 's SqlServerContext) res" where
  "update_handler lib req c =
     andThen (DeserializeKey req) (\<lambda>key.
     let offset = length key + 4 in
     andThen (read_bytes req offset (length req - offset)) (\<lambda>val.
     andThen (prepared SQL_UPDATE_REQ (prepareUpdateQuery lib) c) (\<lambda>(stmt, c).
     case stmt of None \<Rightarrow> andThen (status_response kError (qc_pre_resp_msgbuf c)) (\<lambda>resp. Inr (mb_data resp, c))
     | Some stmt \<Rightarrow>
        (case bind_text lib stmt 1 val (sx_env c) of (ret, env) \<Rightarrow>
         if ret \<noteq> SQLITE_OK then write_resp lib stmt kError env c
         else case bind_text lib stmt 2 key env of (ret, env) \<Rightarrow>
         if ret \<noteq> SQLITE_OK then write_resp lib stmt kError env c
         else case sq_step lib stmt env of (ret, env) \<Rightarrow>
         write_resp lib stmt (if ret = SQLITE_DONE then kOK else kError) env c))))"

definition Sql_delete_handler :: "'s sqlite_lib \<Rightarrow> string \<Rightarrow> 's SqlServerContext \<Rightarrow> (string \<times> 's SqlServerContext) res" where
  "Sql_delete_handler lib req c =
     andThen (DeserializeKey req) (\<lambda>key.
     andThen (prepared SQL_DELETE_REQ (prepareDeleteQuery lib) c) (\<lambda>(stmt, c).
     case stmt of None \<Rightarrow> andThen (status_response kError (qc_pre_resp_msgbuf c)) (\<lambda>resp. Inr (mb_data resp, c))
     | Some stmt \<Rightarrow>
        (case bind_text lib stmt 1 key (sx_env c) of (ret, env) \<Rightarrow>
         if ret \<noteq> SQLITE_OK then write_resp lib stmt kError env c
         else case sq_step lib stmt env of (ret, env) \<Rightarrow>
         write_resp lib stmt (if ret = SQLITE_DONE then kOK else kError) env c)))"

text \<open>The handlers that \<^verbatim>\<open>main\<close> registers.\<close>

definition sql_serve :: "'s sqlite_lib \<Rightarrow> nat \<Rightarrow> string \<Rightarrow> 's SqlServerContext \<Rightarrow> (string \<times> 's SqlServerContext) res" where
  "sql_serve lib req_type req c =
     (if req_type = SQL_READ_REQ then Sql_read_handler lib req c
      else if req_type = SQL_UPDATE_REQ then update_handler lib req c
      else if req_type = SQL_INSERT_REQ then insert_handler lib req c
      else if req_type = SQL_DELETE_REQ then Sql_delete_handler lib req c
      else Inl (Undefined ''no handler for the request type''))"

text \<open>\<^verbatim>\<open>server_func\<close> up to its event loop, with the buffer \<open>pre\<close> that the library preallocates for responses.\<close>

definition Sql_server_func ::
    "'s sqlite_lib \<Rightarrow> Properties \<Rightarrow> MsgBuffer \<Rightarrow> 's SqlServerContext \<Rightarrow> 's SqlServerContext res" where
  "Sql_server_func lib props pre c =
     andThen (stoi (GetProperty props ''sqlite.phy_port'' ''0'')) (\<lambda>phy_port.
     let c = c\<lparr>sx_prepared := []\<rparr> in
     andThen (if sx_db c \<noteq> NullHandle then Inr c
              else andThen (open_database lib ''sqlite'' props (sx_env c)) (\<lambda>env. Inr (c\<lparr>sx_db := LiveHandle, sx_env := env\<rparr>))) (\<lambda>c.
     let c = c\<lparr>qc_setup := True\<rparr> in
     andThen (msg_size_of ''sqlite'' props) (\<lambda>msg_size.
     Inr (c\<lparr>qc_resp_buf := alloc_msg_buffer msg_size, qc_pre_resp_msgbuf := pre\<rparr>))))"

text \<open>The end of the server: the destructor of each context finalises its statements, then \<^verbatim>\<open>main\<close> closes the connection.\<close>

definition ServerContext_destructor :: "'s sqlite_lib \<Rightarrow> 's SqlServerContext \<Rightarrow> 's SqlServerContext" where
  "ServerContext_destructor lib c = c\<lparr>sx_env := foldl (\<lambda>env (_, stmt). sq_finalize lib stmt env) (sx_env c) (sx_prepared c)\<rparr>"

definition close_server :: "'s sqlite_lib \<Rightarrow> 's SqlServerContext \<Rightarrow> 's res" where
  "close_server lib c =
     (case sq_close lib (sx_env c) of (ret, env) \<Rightarrow>
      if ret \<noteq> SQLITE_OK then Inl (Exception (''Failed to close SQLite: '' @ sq_errmsg lib env)) else Inr env)"

section \<open>The client\<close>

definition SQLite_Init :: "'n RpcClient \<Rightarrow> (unit \<times> 'n RpcClient) res" where
  "SQLite_Init = rpc_Init ''sqlite''"

definition SQLite_Cleanup :: "'n RpcClient \<Rightarrow> (unit \<times> 'n RpcClient) res" where
  "SQLite_Cleanup = rpc_Cleanup"

definition SQLite_Read :: "'n rpc_net \<Rightarrow> bool \<Rightarrow> string \<Rightarrow> string \<Rightarrow> string list option \<Rightarrow> 'n RpcClient
     \<Rightarrow> ((Status \<times> Field list) \<times> 'n RpcClient) res" where
  "SQLite_Read net = rpc_Read net SQL_READ_REQ"

definition SQLite_Scan :: "'n rpc_net \<Rightarrow> bool \<Rightarrow> string \<Rightarrow> string \<Rightarrow> int \<Rightarrow> string list option \<Rightarrow> 'n RpcClient
     \<Rightarrow> ((Status \<times> Field list list) \<times> 'n RpcClient) res" where
  "SQLite_Scan net = rpc_Scan net SQL_SCAN_REQ"

definition SQLite_Update :: "'n rpc_net \<Rightarrow> bool \<Rightarrow> string \<Rightarrow> string \<Rightarrow> Field list \<Rightarrow> 'n RpcClient \<Rightarrow> (Status \<times> 'n RpcClient) res" where
  "SQLite_Update net = rpc_Write net SQL_UPDATE_REQ"

definition SQLite_Insert :: "'n rpc_net \<Rightarrow> bool \<Rightarrow> string \<Rightarrow> string \<Rightarrow> Field list \<Rightarrow> 'n RpcClient \<Rightarrow> (Status \<times> 'n RpcClient) res" where
  "SQLite_Insert net = rpc_Write net SQL_INSERT_REQ"

definition SQLite_Delete :: "'n rpc_net \<Rightarrow> bool \<Rightarrow> string \<Rightarrow> string \<Rightarrow> 'n RpcClient \<Rightarrow> (Status \<times> 'n RpcClient) res" where
  "SQLite_Delete net = rpc_Delete net SQL_DELETE_REQ"

definition SQLite_ops :: "'n rpc_net \<Rightarrow> bool \<Rightarrow> 'n RpcClient DB" where
  "SQLite_ops net ndebug =
     \<lparr>db_Init = SQLite_Init, db_Cleanup = SQLite_Cleanup,
      db_Read = SQLite_Read net ndebug, db_Scan = SQLite_Scan net ndebug,
      db_Update = SQLite_Update net ndebug, db_Insert = SQLite_Insert net ndebug,
      db_Delete = SQLite_Delete net ndebug,
      db_ReadIdx = (\<lambda>_ _. Inl (Undefined ''pure virtual ReadIdx'')),
      db_ReInitBeforeTransaction = False,
      db_SetProps = (\<lambda>p c. c\<lparr>rc_props := p\<rparr>)\<rparr>"

lemma SQLite_ops_rpc:
  "SQLite_ops net ndebug = Rpc_ops net ''sqlite'' SQL_READ_REQ SQL_UPDATE_REQ SQL_INSERT_REQ SQL_DELETE_REQ SQL_SCAN_REQ False ndebug"
  by (simp add: SQLite_ops_def Rpc_ops_def SQLite_Init_def SQLite_Cleanup_def SQLite_Read_def SQLite_Scan_def SQLite_Update_def
      SQLite_Insert_def SQLite_Delete_def)

section \<open>The server keeps its contract\<close>

definition qsvr_ok ::
    "'s sqlite_lib \<Rightarrow> ('s \<Rightarrow> (string \<rightharpoonup> string) option) \<Rightarrow> ('s \<Rightarrow> nat \<rightharpoonup> sq_stmt) \<Rightarrow> nat set \<Rightarrow> nat \<Rightarrow> nat \<Rightarrow> 's SqlServerContext \<Rightarrow> bool" where
  "qsvr_ok lib tbl stm oth N R c \<longleftrightarrow> sql_ok lib tbl stm oth R c \<and> length (mb_mem (qc_resp_buf c)) = N
     \<and> 4 \<le> mb_size (qc_resp_buf c) \<and> mb_size (qc_resp_buf c) \<le> N
     \<and> 4 \<le> length (mb_mem (qc_pre_resp_msgbuf c)) \<and> 4 + R \<le> N \<and> N \<le> 1000000000"

lemma sql_ok_buffer [simp]: "sql_ok lib tbl stm oth R (c\<lparr>qc_resp_buf := b\<rparr>) = sql_ok lib tbl stm oth R c"
  by (simp add: sql_ok_def stmts_ok_def)

lemma sql_table_buffer [simp]: "sql_table tbl ndebug (c\<lparr>qc_resp_buf := b\<rparr>) = sql_table tbl ndebug c"
  by (simp add: sql_table_def)

lemma write_resp_ok:
  assumes "4 \<le> length (mb_mem (qc_pre_resp_msgbuf c))"
  shows "write_resp lib stmt s env c = Inr (le32 (status_code s), c\<lparr>sx_env := snd (sq_reset lib stmt env)\<rparr>)"
  by (rule status_response_ok [OF assms, of s]) (simp add: write_resp_def)

lemma key_data: "read_bytes (key_msg k @ v) (length k + 4) (length v) = Inr v"
  using read_bytes_append [of "length k + 4" "key_msg k" _ v "[]"] by simp

lemma put_status_keeps_size:
  assumes "4 \<le> mb_size b" and "mb_size b \<le> length (mb_mem b)"
  obtains b' rest where "put_status s b = Inr b'" "mb_data b' = le32 (status_code s) @ rest" "mb_size b' = mb_size b"
    "length (mb_mem b') = length (mb_mem b)" "length (mb_data b') = mb_size b"
proof (rule that)
  show "put_status s b = Inr (b\<lparr>mb_mem := le32 (status_code s) @ drop 4 (mb_mem b)\<rparr>)"
    using assms by (simp add: put_status_def mb_write_def)
  show "mb_data (b\<lparr>mb_mem := le32 (status_code s) @ drop 4 (mb_mem b)\<rparr>) = le32 (status_code s) @ take (mb_size b - 4) (drop 4 (mb_mem b))"
    using assms by (simp add: mb_data_def)
qed (use assms in \<open>simp_all add: mb_data_def\<close>)

text \<open>The answer to a read; after \<^verbatim>\<open>kNotFound\<close> it carries the bytes of the previous answer, because the handler does not resize it.\<close>

lemma sql_svr_read:
  assumes ok: "qsvr_ok lib tbl stm oth N R n" and k: "text_fits k" "length k < 2 ^ 31"
  obtains bytes rest n' where "sql_serve lib SQL_READ_REQ (key_msg k) n = Inr (bytes, n')" "qsvr_ok lib tbl stm oth N R n'"
    "sql_table tbl ndebug n' = sql_table tbl ndebug n" "length bytes \<le> N"
    "case sql_table tbl ndebug n k of None \<Rightarrow> bytes = le32 (status_code kNotFound) @ rest
       | Some r \<Rightarrow> bytes = le32 (status_code kOK) @ row_bytes r \<and> blob_ok R r"
proof -
  have o: "sql_ok lib tbl stm oth R n" and b: "length (mb_mem (qc_resp_buf n)) = N" "4 \<le> mb_size (qc_resp_buf n)"
    "mb_size (qc_resp_buf n) \<le> N" "4 + R \<le> N" using ok by (simp_all add: qsvr_ok_def)
  obtain h ps env env1 env2 rc where r: "prepared SQL_READ_REQ (prepareReadQuery lib) n = Inr (Some h, n\<lparr>sx_prepared := ps, sx_env := env\<rparr>)"
    "bind_text lib h 1 k env = (SQLITE_OK, env1)" "sq_step lib h env1 = (rc, env2)"
    "case sql_table tbl ndebug n k of None \<Rightarrow> rc = SQLITE_DONE | Some r \<Rightarrow> rc = SQLITE_ROW \<and> blob_ok R r \<and> sq_column_text lib h 0 env2 = row_bytes r"
    "sql_ok lib tbl stm oth R (n\<lparr>sx_prepared := ps, sx_env := snd (sq_reset lib h env2)\<rparr>)"
    "sql_table tbl ndebug (n\<lparr>sx_prepared := ps, sx_env := snd (sq_reset lib h env2)\<rparr>) = sql_table tbl ndebug n"
    by (rule sql_read_run [OF o k(1)])
  let ?n = "\<lambda>x. n\<lparr>sx_prepared := ps, sx_env := snd (sq_reset lib h env2), qc_resp_buf := x\<rparr>"
  note serve = sql_serve_def Sql_read_handler_def key_msg_read [OF k(2), of "[]", simplified] Let_def
  show thesis
  proof (cases "sql_table tbl ndebug n k")
    case None
    obtain x rest where x: "put_status kNotFound (qc_resp_buf n) = Inr x" "mb_data x = le32 (status_code kNotFound) @ rest"
      "mb_size x = mb_size (qc_resp_buf n)" "length (mb_mem x) = length (mb_mem (qc_resp_buf n))" "length (mb_data x) = mb_size (qc_resp_buf n)"
      using put_status_keeps_size [of "qc_resp_buf n" kNotFound] b by metis
    show thesis by (rule that [of "mb_data x" "?n x" rest]) (use r x b ok None in \<open>simp_all add: serve sqlite_codes qsvr_ok_def\<close>)
  next
    case (Some w)
    have "4 + length (row_bytes w) \<le> length (mb_mem (qc_resp_buf n))" using r(4) Some b by (simp add: blob_ok_def)
    then obtain x where x: "andThen (resize_msg_buffer (4 + length (row_bytes w)) (qc_resp_buf n)) (\<lambda>resp. andThen (put_status kOK resp) (mb_write 4 (row_bytes w))) = Inr x"
      "mb_data x = le32 0 @ row_bytes w" "length (mb_mem x) = length (mb_mem (qc_resp_buf n))" by (rule data_response_ok)
    have size: "mb_size x = 4 + length (row_bytes w)"
      using x(1) by (auto simp: res_simps resize_msg_buffer_def put_status_def mb_write_def split: if_splits)
    show thesis
      by (rule that [of "mb_data x" "?n x" "[]"])
        (use r x size b ok Some in \<open>simp_all add: serve sqlite_codes qsvr_ok_def blob_ok_def\<close>)
  qed
qed

interpretation sql_server: row_server "sql_serve lib" "sql_table tbl ndebug" "qsvr_ok lib tbl stm oth N R" Sql_ops N R
    SQL_READ_REQ SQL_UPDATE_REQ SQL_INSERT_REQ SQL_DELETE_REQ
  for lib tbl ndebug stm oth N R
proof unfold_locales
  fix n and k :: string and vs t assume ok: "qsvr_ok lib tbl stm oth N R n"
  then have o: "sql_ok lib tbl stm oth R n" and b: "length (mb_mem (qc_resp_buf n)) = N" "4 \<le> mb_size (qc_resp_buf n)"
    "mb_size (qc_resp_buf n) \<le> N" "4 \<le> length (mb_mem (qc_pre_resp_msgbuf n))" "4 + R \<le> N" "N \<le> 1000000000" by (simp_all add: qsvr_ok_def)
  show "4 \<le> N \<and> N < 2 ^ 31" using b(5,6) by simp
  {
    assume k': "4 + length k \<le> N"
    then have k: "text_fits k" "length k < 2 ^ 31" using b(6) by (simp_all add: text_fits_def)
    note serve = sql_serve_def sql_reqs key_msg_read [OF k(2), simplified] key_msg_read [OF k(2), of "[]", simplified] key_data [simplified]
    show "\<exists>bytes rest n'. sql_serve lib SQL_READ_REQ (key_msg k) n = Inr (bytes, n') \<and> qsvr_ok lib tbl stm oth N R n' \<and> sql_table tbl ndebug n' = sql_table tbl ndebug n
        \<and> length bytes \<le> N \<and> (case sql_table tbl ndebug n k of None \<Rightarrow> bytes = le32 (status_code kNotFound) @ rest
           | Some r \<Rightarrow> bytes = le32 (status_code kOK) @ row_bytes r \<and> blob_ok R r)"
      by (rule sql_svr_read [OF ok k]) blast
    show "\<exists>s n'. sql_serve lib SQL_DELETE_REQ (key_msg k) n = Inr (le32 (status_code s), n') \<and> qsvr_ok lib tbl stm oth N R n'
      \<and> db_Delete Sql_ops t k (sql_table tbl ndebug n) = Inr (s, sql_table tbl ndebug n')"
      by (rule sql_delete_run [OF o k(1), of ndebug])
        (use b in \<open>simp add: serve Sql_delete_handler_def write_resp_ok qsvr_ok_def Sql_ops_simps sqlite_codes\<close>)
    assume vs: "blob_ok R vs"
    show "\<exists>s n'. sql_serve lib SQL_UPDATE_REQ (key_msg k @ row_bytes vs) n = Inr (le32 (status_code s), n') \<and> qsvr_ok lib tbl stm oth N R n'
        \<and> db_Update Sql_ops t k vs (sql_table tbl ndebug n) = Inr (s, sql_table tbl ndebug n')"
      by (rule sql_update_run [OF o k(1) vs, of ndebug])
        (use b in \<open>auto simp: serve update_handler_def write_resp_ok qsvr_ok_def Sql_ops_simps sqlite_codes\<close>)
    show "\<exists>s n'. sql_serve lib SQL_INSERT_REQ (key_msg k @ row_bytes vs) n = Inr (le32 (status_code s), n') \<and> qsvr_ok lib tbl stm oth N R n'
        \<and> db_Insert Sql_ops t k vs (sql_table tbl ndebug n) = Inr (s, sql_table tbl ndebug n')"
      by (rule sql_insert_run [OF o k(1) vs, of ndebug])
        (use b in \<open>auto simp: serve insert_handler_def write_resp_ok qsvr_ok_def Sql_ops_simps sqlite_codes\<close>)
  }
qed (simp_all add: Sql_ops_simps)

interpretation sqlite_rpc: db_refinement "SQLite_ops \<lparr>rn_serve = sql_serve lib, rn_rounds = rounds\<rparr> ndebug" Sql_ops
    "\<lambda>c. sql_table tbl ndebug (rc_net c)" "client_ok (qsvr_ok lib tbl stm oth N R) N" "row_fits N R"
  for lib rounds ndebug tbl stm oth N R
  unfolding SQLite_ops_rpc by (rule sql_server.client_refines)

section \<open>Properties\<close>

text \<open>C12: SQLite client and server together implement the table with SQL semantics, over an RPC library that delivers each request
  once and its response back after any number of rounds of the event loop: any sequence of reads, inserts, updates and deletes
  whose messages fit returns, with the statuses and records of that table.\<close>

theorem sqlite_rpc_refines_table:
  assumes "client_ok (qsvr_ok lib tbl stm oth N R) N c" and "\<forall>q \<in> set qs. row_fits N R q"
  shows "\<exists>rs c'. db_calls (SQLite_ops \<lparr>rn_serve = sql_serve lib, rn_rounds = rounds\<rparr> ndebug) qs c = Inr (rs, c')
     \<and> client_ok (qsvr_ok lib tbl stm oth N R) N c'
     \<and> db_calls Sql_ops qs (sql_table tbl ndebug (rc_net c)) = Inr (rs, sql_table tbl ndebug (rc_net c'))"
  using sqlite_rpc.calls_refine [of lib tbl stm oth N R c qs rounds ndebug] assms by blast

definition demo_sql_client :: "mem_sql SqlServerContext RpcClient" where
  "demo_sql_client = \<lparr>rc_props = no_properties, rc_req = alloc_msg_buffer 64, rc_resp = alloc_msg_buffer 64, rc_complete = False,
     rc_rpc_id = 0, rc_nexus = LiveHandle, rc_global_rpc_id = 1, rc_pending = None,
     rc_net = \<lparr>sx_db = LiveHandle, sx_prepared = [], sx_env = \<lparr>ms_table = Map.empty, ms_stmts = []\<rparr>,
       qc_resp_buf = alloc_msg_buffer 64, qc_pre_resp_msgbuf = alloc_msg_buffer 64, qc_setup = True\<rparr>\<rparr>"

lemma demo_sql_client_ok: "client_ok (qsvr_ok mem_sqlite (\<lambda>s. Some (ms_table s)) ms_stm {} 64 40) 64 demo_sql_client"
proof -
  have "ms_stm \<lparr>ms_table = Map.empty, ms_stmts = []\<rparr> = Map.empty" by (simp add: ms_stm_def fun_eq_iff)
  then show ?thesis
    by (simp add: client_ok_def qsvr_ok_def sql_ok_def mem_sqlite_ok demo_sql_client_def stmts_ok_def all_rows_def alloc_msg_buffer_def)
qed

theorem sqlite_rpc_refines_table_witness:
  "\<exists>c'. db_calls (SQLite_ops \<lparr>rn_serve = sql_serve mem_sqlite, rn_rounds = (\<lambda>_ _. 2)\<rparr> False)
     [CInsert ''t'' ''k'' [(''f0'', ''a'')], CInsert ''t'' ''k'' [(''f0'', ''b'')], CRead ''t'' ''k'' None, CDelete ''t'' ''k'',
      CRead ''t'' ''k'' None] demo_sql_client
     = Inr ([RStatus kOK, RStatus kError, RFields kOK [(''f0'', ''a'')], RStatus kOK, RFields kNotFound []], c')"
proof -
  let ?qs = "[CInsert ''t'' ''k'' [(''f0'', ''a'')], CInsert ''t'' ''k'' [(''f0'', ''b'')], CRead ''t'' ''k'' None, CDelete ''t'' ''k'',
      CRead ''t'' ''k'' None]"
  have q: "\<forall>q \<in> set ?qs. row_fits 64 40 q" by (simp add: blob_ok_def small_def row_bytes_def encode_field_def)
  have "sql_table (\<lambda>s. Some (ms_table s)) False (rc_net demo_sql_client) = Map.empty"
    by (auto simp: sql_table_def demo_sql_client_def decode_table_def)
  with sqlite_rpc_refines_table [OF demo_sql_client_ok q, of "\<lambda>_ _. 2" False] show ?thesis by (auto simp: Sql_ops_simps)
qed

text \<open>C37: Scans of the SQLite client are not served: the server registers no handler for their request type, so every scan, on any
  client whose request buffer holds the message, is a request without a handler.\<close>

theorem sqlite_scan_unserved:
  assumes "8 + length k \<le> length (mb_mem (rc_req c))" and "\<not> rc_complete c" and "rc_pending c = None"
  shows "SQLite_Scan \<lparr>rn_serve = sql_serve lib, rn_rounds = rounds\<rparr> ndebug t k i flds c = Inl (Undefined ''no handler for the request type'')"
proof -
  let ?net = "\<lparr>rn_serve = sql_serve lib, rn_rounds = rounds\<rparr>"
  have poll: "pollForRpcComplete ?net c = Inl (Undefined ''no handler for the request type'')"
    if "\<not> rc_complete c" "rc_pending c = Some (n, SQL_SCAN_REQ, data)" for c :: "'a SqlServerContext RpcClient" and n data
    using that
  proof (induction n arbitrary: c)
    case 0
    then show ?case by (subst pollForRpcComplete.simps) (simp add: run_event_loop_once_def sql_serve_def sql_reqs)
  next
    case (Suc n)
    then show ?case by (subst pollForRpcComplete.simps) (simp add: run_event_loop_once_def)
  qed
  have rq: "rpc_request ?net SQL_SCAN_REQ (c\<lparr>rc_req := req\<rparr>) = Inl (Undefined ''no handler for the request type'')" for req
    using assms(2,3) poll [of "c\<lparr>rc_req := req, rc_pending := Some (rounds SQL_SCAN_REQ (mb_data req), SQL_SCAN_REQ, mb_data req)\<rparr>"]
    by (simp add: rpc_request_def enqueue_request_def Let_def)
  show ?thesis
    by (rule scan_request [OF assms(1), of "word_of_int i" "\<lambda>req. andThen (rpc_request ?net SQL_SCAN_REQ (c\<lparr>rc_req := req\<rparr>)) (\<lambda>c.
     if mb_size (rc_resp c) < 4 then Inr ((kError, []), c)
     else andThen (get_status (rc_resp c)) (\<lambda>s. if s \<noteq> kOK then Inr ((s, []), c)
       else andThen (DeserializeRowVector ndebug (mb_mem (rc_resp c)) 4 (mb_size (rc_resp c)) []) (\<lambda>result. Inr ((kOK, result), c))))"])
      (simp add: SQLite_Scan_def rpc_Scan_def rq)
qed

theorem sqlite_scan_unserved_witness:
  "SQLite_Scan \<lparr>rn_serve = sql_serve mem_sqlite, rn_rounds = (\<lambda>_ _. 2)\<rparr> True ''t'' ''k'' 3 None demo_sql_client
     = Inl (Undefined ''no handler for the request type'')"
  by (rule sqlite_scan_unserved) (simp_all add: demo_sql_client_def alloc_msg_buffer_def)

end
