(* ===== verification/Lmdb.thy ===== *)
theory Lmdb
  imports KV_Store
begin

text \<open>
  The LMDB backend, \<^verbatim>\<open>src/lmdb/lmdb_db.h\<close> and \<^verbatim>\<open>src/lmdb/lmdb_db.cc\<close>. The library is a parameter; its documented behaviour is
  stated over the committed content, the view of the open transaction and the position of the cursor. Unlike the
  other embedded backends, this one reports a missing key of an update or delete as an exception.
\<close>

section \<open>The library\<close>

text \<open>
  \<open>'s\<close> is the state behind the environment, with the transaction and the cursor of the running operation. A function
  returns its error code, 0 for success; \<open>ml_mkdir\<close> returns \<^verbatim>\<open>errno\<close> when \<^verbatim>\<open>mkdir\<close> fails.
\<close>

record 's mdb_lib =
  ml_env_create :: "'s \<Rightarrow> int \<times> 's"
  ml_env_set_mapsize :: "u64 \<Rightarrow> 's \<Rightarrow> int \<times> 's"
  ml_mkdir :: "string \<Rightarrow> 's \<Rightarrow> int \<times> 's"
  ml_env_open :: "string \<Rightarrow> u32 \<Rightarrow> 's \<Rightarrow> int \<times> 's"
  ml_txn_begin :: "bool \<Rightarrow> 's \<Rightarrow> int \<times> 's"
  ml_open :: "'s \<Rightarrow> int \<times> 's"
  ml_txn_commit :: "'s \<Rightarrow> int \<times> 's"
  ml_txn_abort :: "'s \<Rightarrow> 's"
  ml_get :: "string \<Rightarrow> 's \<Rightarrow> int \<times> string"
  ml_put :: "string \<Rightarrow> string \<Rightarrow> 's \<Rightarrow> int \<times> 's"
  ml_del :: "string \<Rightarrow> 's \<Rightarrow> int \<times> 's"
  ml_cursor_open :: "'s \<Rightarrow> int \<times> 's"
  ml_cursor_set :: "string \<Rightarrow> 's \<Rightarrow> int \<times> string \<times> 's"
  ml_cursor_next :: "'s \<Rightarrow> int \<times> string \<times> 's"
  ml_cursor_close :: "'s \<Rightarrow> 's"
  ml_env_close :: "'s \<Rightarrow> 's"
  ml_strerror :: "int \<Rightarrow> string"

definition MDB_NOTFOUND :: int where "MDB_NOTFOUND = -30798"

definition MDB_NOSYNC :: u32 where "MDB_NOSYNC = 0x10000"
definition MDB_NOMETASYNC :: u32 where "MDB_NOMETASYNC = 0x40000"
definition MDB_WRITEMAP :: u32 where "MDB_WRITEMAP = 0x80000"
definition MDB_MAPASYNC :: u32 where "MDB_MAPASYNC = 0x100000"
definition MDB_NORDAHEAD :: u32 where "MDB_NORDAHEAD = 0x800000"

text \<open>\<^verbatim>\<open>if (ret) throw utils::Exception(what + mdb_strerror(ret));\<close>\<close>

definition mdb_check :: "'s mdb_lib \<Rightarrow> string \<Rightarrow> int \<times> 'a \<Rightarrow> 'a res" where
  "mdb_check lib what r = (if fst r = 0 then Inr (snd r) else Inl (Exception (what @ ml_strerror lib (fst r))))"

lemma mdb_check_ok [simp]: "fst r = 0 \<Longrightarrow> mdb_check lib what r = Inr (snd r)"
  by (simp add: mdb_check_def)

section \<open>The documented behaviour\<close>

record mdb_state =
  md_committed :: "string \<rightharpoonup> string"
  md_txn :: "(string \<rightharpoonup> string) option"
  md_cursor :: "string list"

text \<open>Keys have between 1 and 511 bytes.\<close>

definition key_ok :: "string \<Rightarrow> bool" where
  "key_ok k \<longleftrightarrow> 0 < length k \<and> length k \<le> 511"

text \<open>
  With no transaction open one can begin, and it sees the committed content; reads, writes and cursors work on its
  view, which a commit makes the committed content and an abort drops. A placed cursor visits the keys in order. The
  map is large enough for what is stored.
\<close>

definition mdb_ok :: "'s mdb_lib \<Rightarrow> ('s \<Rightarrow> mdb_state) \<Rightarrow> bool" where
  "mdb_ok lib sm \<longleftrightarrow>
     (\<forall>s. finite (dom (md_committed (sm s))))
   \<and> (\<forall>b s. md_txn (sm s) = None \<longrightarrow> fst (ml_txn_begin lib b s) = 0
        \<and> sm (snd (ml_txn_begin lib b s)) = (sm s)\<lparr>md_txn := Some (md_committed (sm s))\<rparr>)
   \<and> (\<forall>s m k. md_txn (sm s) = Some m \<longrightarrow> key_ok k \<longrightarrow>
        ml_get lib k s = (case m k of None \<Rightarrow> (MDB_NOTFOUND, []) | Some v \<Rightarrow> (0, v)))
   \<and> (\<forall>s m k v. md_txn (sm s) = Some m \<longrightarrow> key_ok k \<longrightarrow> fst (ml_put lib k v s) = 0
        \<and> sm (snd (ml_put lib k v s)) = (sm s)\<lparr>md_txn := Some (m(k \<mapsto> v))\<rparr>)
   \<and> (\<forall>s m k. md_txn (sm s) = Some m \<longrightarrow> key_ok k \<longrightarrow> fst (ml_del lib k s) = (if m k = None then MDB_NOTFOUND else 0)
        \<and> (m k \<noteq> None \<longrightarrow> sm (snd (ml_del lib k s)) = (sm s)\<lparr>md_txn := Some (m(k := None))\<rparr>))
   \<and> (\<forall>s m. md_txn (sm s) = Some m \<longrightarrow> fst (ml_txn_commit lib s) = 0
        \<and> sm (snd (ml_txn_commit lib s)) = (sm s)\<lparr>md_committed := m, md_txn := None\<rparr>)
   \<and> (\<forall>s m. md_txn (sm s) = Some m \<longrightarrow> sm (ml_txn_abort lib s) = (sm s)\<lparr>md_txn := None\<rparr>)
   \<and> (\<forall>s m. md_txn (sm s) = Some m \<longrightarrow> fst (ml_cursor_open lib s) = 0 \<and> sm (snd (ml_cursor_open lib s)) = (sm s)\<lparr>md_cursor := []\<rparr>)
   \<and> (\<forall>s m k. md_txn (sm s) = Some m \<longrightarrow> key_ok k \<longrightarrow> (case ml_cursor_set lib k s of (ret, data, s') \<Rightarrow>
        (case m k of None \<Rightarrow> ret = MDB_NOTFOUND \<and> sm s' = sm s
           | Some v \<Rightarrow> ret = 0 \<and> data = v \<and> sm s' = (sm s)\<lparr>md_cursor := keys_from k m\<rparr>)))
   \<and> (\<forall>s m x ks. md_txn (sm s) = Some m \<longrightarrow> md_cursor (sm s) = x # ks \<longrightarrow> (case ml_cursor_next lib s of (ret, data, s') \<Rightarrow>
        (case ks of [] \<Rightarrow> ret = MDB_NOTFOUND \<and> sm s' = sm s
           | y # _ \<Rightarrow> ret = 0 \<and> data = the (m y) \<and> sm s' = (sm s)\<lparr>md_cursor := ks\<rparr>)))
   \<and> (\<forall>s. sm (ml_cursor_close lib s) = (sm s)\<lparr>md_cursor := []\<rparr>)"

lemma mdb_okD:
  assumes "mdb_ok lib sm"
  shows "finite (dom (md_committed (sm s)))"
    and "md_txn (sm s) = None \<Longrightarrow> fst (ml_txn_begin lib b s) = 0
        \<and> sm (snd (ml_txn_begin lib b s)) = (sm s)\<lparr>md_txn := Some (md_committed (sm s))\<rparr>"
    and "md_txn (sm s) = Some m \<Longrightarrow> key_ok k \<Longrightarrow> ml_get lib k s = (case m k of None \<Rightarrow> (MDB_NOTFOUND, []) | Some v \<Rightarrow> (0, v))"
    and "md_txn (sm s) = Some m \<Longrightarrow> key_ok k \<Longrightarrow> fst (ml_put lib k v s) = 0 \<and> sm (snd (ml_put lib k v s)) = (sm s)\<lparr>md_txn := Some (m(k \<mapsto> v))\<rparr>"
    and "md_txn (sm s) = Some m \<Longrightarrow> key_ok k \<Longrightarrow> fst (ml_del lib k s) = (if m k = None then MDB_NOTFOUND else 0)
        \<and> (m k \<noteq> None \<longrightarrow> sm (snd (ml_del lib k s)) = (sm s)\<lparr>md_txn := Some (m(k := None))\<rparr>)"
    and "md_txn (sm s) = Some m \<Longrightarrow> fst (ml_txn_commit lib s) = 0 \<and> sm (snd (ml_txn_commit lib s)) = (sm s)\<lparr>md_committed := m, md_txn := None\<rparr>"
    and "md_txn (sm s) = Some m \<Longrightarrow> sm (ml_txn_abort lib s) = (sm s)\<lparr>md_txn := None\<rparr>"
    and "md_txn (sm s) = Some m \<Longrightarrow> fst (ml_cursor_open lib s) = 0 \<and> sm (snd (ml_cursor_open lib s)) = (sm s)\<lparr>md_cursor := []\<rparr>"
    and "md_txn (sm s) = Some m \<Longrightarrow> key_ok k \<Longrightarrow> (case ml_cursor_set lib k s of (ret, data, s') \<Rightarrow>
        (case m k of None \<Rightarrow> ret = MDB_NOTFOUND \<and> sm s' = sm s
           | Some v \<Rightarrow> ret = 0 \<and> data = v \<and> sm s' = (sm s)\<lparr>md_cursor := keys_from k m\<rparr>))"
    and "md_txn (sm s) = Some m \<Longrightarrow> md_cursor (sm s) = x # ks \<Longrightarrow> (case ml_cursor_next lib s of (ret, data, s') \<Rightarrow>
        (case ks of [] \<Rightarrow> ret = MDB_NOTFOUND \<and> sm s' = sm s
           | y # _ \<Rightarrow> ret = 0 \<and> data = the (m y) \<and> sm s' = (sm s)\<lparr>md_cursor := ks\<rparr>))"
    and "sm (ml_cursor_close lib s) = (sm s)\<lparr>md_cursor := []\<rparr>"
  using assms unfolding mdb_ok_def by meson+

section \<open>The class\<close>

text \<open>The static members, the properties, and the state behind the environment.\<close>

record 's LmdbDB =
  lm_props :: Properties
  lm_field_count :: u64
  lm_field_prefix :: string
  lm_env :: handle
  lm_ref_cnt :: int
  lm_st :: 's

definition env_opt_of :: "Properties \<Rightarrow> u32" where
  "env_opt_of props =
     (if GetProperty props ''lmdb.nosync'' ''false'' = ''true'' then MDB_NOSYNC else 0)
     OR (if GetProperty props ''lmdb.nometasync'' ''false'' = ''true'' then MDB_NOMETASYNC else 0)
     OR (if GetProperty props ''lmdb.noreadahead'' ''false'' = ''true'' then MDB_NORDAHEAD else 0)
     OR (if GetProperty props ''lmdb.writemap'' ''false'' = ''true'' then MDB_WRITEMAP else 0)
     OR (if GetProperty props ''lmdb.mapasync'' ''false'' = ''true'' then MDB_MAPASYNC else 0)"

text \<open>The test \<^verbatim>\<open>map_size >= 0\<close> of an unsigned number always holds.\<close>

definition Lmdb_Init :: "'s mdb_lib \<Rightarrow> 's LmdbDB \<Rightarrow> (unit \<times> 's LmdbDB) res" where
  "Lmdb_Init lib d =
     (let props = lm_props d; before = lm_ref_cnt d; d = d\<lparr>lm_ref_cnt := before + 1\<rparr> in
      if before \<noteq> 0 then Inr ((), d)
      else andThen (stoi (GetProperty props ''fieldcount'' ''10'')) (\<lambda>field_count.
      let d = d\<lparr>lm_field_count := word_of_int field_count, lm_field_prefix := GetProperty props ''fieldnameprefix'' ''field''\<rparr>;
          env_opt = env_opt_of props in
      andThen (mdb_check lib ''Init mdb_env_create: '' (ml_env_create lib (lm_st d))) (\<lambda>s.
      andThen (stoul (GetProperty props ''lmdb.mapsize'' ''-1'')) (\<lambda>map_size.
      andThen (mdb_check lib ''Init mdb_env_set_mapsize: '' (ml_env_set_mapsize lib map_size s)) (\<lambda>s.
      let db_path = GetProperty props ''lmdb.dbpath'' '''' in
      if db_path = '''' then Inl (Exception ''LMDB db path is missing'')
      else case ml_mkdir lib db_path s of (errno, s) \<Rightarrow>
      if errno \<noteq> 0 \<and> errno \<noteq> EEXIST then Inl (Exception (''Init mkdir: '' @ ml_strerror lib errno))
      else andThen (mdb_check lib ''Init mdb_env_open: '' (ml_env_open lib db_path env_opt s)) (\<lambda>s.
      andThen (mdb_check lib ''Init mdb_txn_begin: '' (ml_txn_begin lib False s)) (\<lambda>s.
      andThen (mdb_check lib ''Init mdb_open: '' (ml_open lib s)) (\<lambda>s.
      andThen (mdb_check lib ''Init mdb_txn_commit: '' (ml_txn_commit lib s)) (\<lambda>s.
      Inr ((), d\<lparr>lm_env := LiveHandle, lm_st := s\<rparr>))))))))))"

definition Lmdb_Cleanup :: "'s mdb_lib \<Rightarrow> 's LmdbDB \<Rightarrow> (unit \<times> 's LmdbDB) res" where
  "Lmdb_Cleanup lib d =
     (let d = d\<lparr>lm_ref_cnt := lm_ref_cnt d - 1\<rparr> in
      if lm_ref_cnt d \<noteq> 0 then Inr ((), d)
      else if lm_env d \<noteq> LiveHandle then Inl (Undefined ''env_ does not point to an environment'')
      else Inr ((), d\<lparr>lm_env := DeletedHandle, lm_st := ml_env_close lib (lm_st d)\<rparr>))"

definition lm_deref :: "'s LmdbDB \<Rightarrow> 's res" where
  "lm_deref d = (if lm_env d = LiveHandle then Inr (lm_st d) else Inl (Undefined ''env_ does not point to an environment''))"

definition Lmdb_SerializeRow :: "Field list \<Rightarrow> string" where
  "Lmdb_SerializeRow values = SerializeRow values []"

definition Lmdb_DeserializeRowFilter :: "bool \<Rightarrow> string list \<Rightarrow> string \<Rightarrow> Field list res" where
  "Lmdb_DeserializeRowFilter ndebug flds data =
     andThen (DeserializeRowFilter_loop ndebug data 0 (length data) flds []) (\<lambda>values.
     andThen (assert_that ndebug (length values = length flds) ''values->size() == fields.size()'') (\<lambda>_. Inr values))"

definition Lmdb_DeserializeRow :: "bool \<Rightarrow> u64 \<Rightarrow> string \<Rightarrow> Field list res" where
  "Lmdb_DeserializeRow ndebug field_count data =
     andThen (DeserializeRow_loop ndebug data 0 (length data) []) (\<lambda>values.
     andThen (assert_that ndebug (of_nat (length values) = field_count) ''values->size() == field_count_'') (\<lambda>_. Inr values))"

definition lm_reader :: "bool \<Rightarrow> u64 \<Rightarrow> string list option \<Rightarrow> string \<Rightarrow> Field list res" where
  "lm_reader ndebug field_count flds = (case flds of
       None \<Rightarrow> Lmdb_DeserializeRow ndebug field_count
     | Some fs \<Rightarrow> Lmdb_DeserializeRowFilter ndebug fs)"

definition Lmdb_Read ::
    "'s mdb_lib \<Rightarrow> bool \<Rightarrow> string \<Rightarrow> string \<Rightarrow> string list option \<Rightarrow> 's LmdbDB \<Rightarrow> ((Status \<times> Field list) \<times> 's LmdbDB) res" where
  "Lmdb_Read lib ndebug table key flds d =
     andThen (lm_deref d) (\<lambda>s.
     andThen (mdb_check lib ''Read mdb_txn_begin: '' (ml_txn_begin lib True s)) (\<lambda>s.
     case ml_get lib key s of (ret, data) \<Rightarrow>
     if ret = MDB_NOTFOUND then Inr ((kNotFound, []), d\<lparr>lm_st := ml_txn_abort lib s\<rparr>)
     else if ret \<noteq> 0 then Inl (Exception (''Read mdb_get: '' @ ml_strerror lib ret))
     else andThen (lm_reader ndebug (lm_field_count d) flds data) (\<lambda>result.
       Inr ((kOK, result), d\<lparr>lm_st := ml_txn_abort lib s\<rparr>))))"

text \<open>The loop of a scan: \<open>ret\<close> and \<open>data\<close> are the result of the last move of the cursor.\<close>

function lm_scan_loop ::
    "'s mdb_lib \<Rightarrow> (string \<Rightarrow> Field list res) \<Rightarrow> int \<Rightarrow> int \<Rightarrow> int \<Rightarrow> string \<Rightarrow> 's \<Rightarrow> Field list list \<Rightarrow> (Field list list \<times> 's) res" where
  "lm_scan_loop lib deser i len ret data s result =
     (if ret = 0 \<and> i < len
      then case deser data of Inl e \<Rightarrow> Inl e
        | Inr values \<Rightarrow> (case ml_cursor_next lib s of (ret, data, s) \<Rightarrow>
            lm_scan_loop lib deser (i + 1) len ret data s (result @ [values]))
      else Inr (result, s))"
  by pat_completeness auto
termination
  by (relation "measure (\<lambda>(lib, deser, i, len, _). nat (len - i))") auto

declare lm_scan_loop.simps [simp del]

definition Lmdb_Scan ::
    "'s mdb_lib \<Rightarrow> bool \<Rightarrow> string \<Rightarrow> string \<Rightarrow> int \<Rightarrow> string list option \<Rightarrow> 's LmdbDB \<Rightarrow> ((Status \<times> Field list list) \<times> 's LmdbDB) res" where
  "Lmdb_Scan lib ndebug table key len flds d =
     andThen (lm_deref d) (\<lambda>s.
     andThen (mdb_check lib ''Scan mdb_txn_begin: '' (ml_txn_begin lib False s)) (\<lambda>s.
     andThen (mdb_check lib ''Scan mdb_cursor_open: '' (ml_cursor_open lib s)) (\<lambda>s.
     case ml_cursor_set lib key s of (ret, data, s) \<Rightarrow>
     if ret = MDB_NOTFOUND then Inr ((kNotFound, []), d\<lparr>lm_st := ml_txn_abort lib (ml_cursor_close lib s)\<rparr>)
     else if ret \<noteq> 0 then Inl (Exception (''Scan mdb_cursor_get: '' @ ml_strerror lib ret))
     else andThen (lm_scan_loop lib (lm_reader ndebug (lm_field_count d) flds) 0 len ret data s []) (\<lambda>(result, s).
       Inr ((kOK, result), d\<lparr>lm_st := ml_txn_abort lib (ml_cursor_close lib s)\<rparr>)))))"

definition Lmdb_Update ::
    "'s mdb_lib \<Rightarrow> bool \<Rightarrow> string \<Rightarrow> string \<Rightarrow> Field list \<Rightarrow> 's LmdbDB \<Rightarrow> (Status \<times> 's LmdbDB) res" where
  "Lmdb_Update lib ndebug table key values d =
     andThen (lm_deref d) (\<lambda>s.
     andThen (mdb_check lib ''Update mdb_txn_begin: '' (ml_txn_begin lib False s)) (\<lambda>s.
     andThen (mdb_check lib ''Update mdb_get: '' (ml_get lib key s)) (\<lambda>data.
     andThen (Lmdb_DeserializeRow ndebug (lm_field_count d) data) (\<lambda>current_values.
     andThen (assign_fields ndebug values current_values) (\<lambda>current_values.
     let data = Lmdb_SerializeRow current_values in
     andThen (mdb_check lib ''Update mdb_put: '' (ml_put lib key data s)) (\<lambda>s.
     andThen (mdb_check lib ''Update mdb_txn_commit: '' (ml_txn_commit lib s)) (\<lambda>s.
     Inr (kOK, d\<lparr>lm_st := s\<rparr>))))))))"

definition Lmdb_Insert ::
    "'s mdb_lib \<Rightarrow> string \<Rightarrow> string \<Rightarrow> Field list \<Rightarrow> 's LmdbDB \<Rightarrow> (Status \<times> 's LmdbDB) res" where
  "Lmdb_Insert lib table key values d =
     (let data = Lmdb_SerializeRow values in
      andThen (lm_deref d) (\<lambda>s.
      andThen (mdb_check lib ''Insert mdb_txn_begin: '' (ml_txn_begin lib False s)) (\<lambda>s.
      andThen (mdb_check lib ''Insert mdb_put: '' (ml_put lib key data s)) (\<lambda>s.
      andThen (mdb_check lib ''Insert mdb_txn_commit: '' (ml_txn_commit lib s)) (\<lambda>s.
      Inr (kOK, d\<lparr>lm_st := s\<rparr>))))))"

definition Lmdb_Delete :: "'s mdb_lib \<Rightarrow> string \<Rightarrow> string \<Rightarrow> 's LmdbDB \<Rightarrow> (Status \<times> 's LmdbDB) res" where
  "Lmdb_Delete lib table key d =
     andThen (lm_deref d) (\<lambda>s.
     andThen (mdb_check lib ''Delete mdb_txn_begin: '' (ml_txn_begin lib False s)) (\<lambda>s.
     andThen (mdb_check lib ''Delete mdb_del: '' (ml_del lib key s)) (\<lambda>s.
     andThen (mdb_check lib ''Delete mdb_txn_commit: '' (ml_txn_commit lib s)) (\<lambda>s.
     Inr (kOK, d\<lparr>lm_st := s\<rparr>)))))"

definition Lmdb_ops :: "'s mdb_lib \<Rightarrow> bool \<Rightarrow> 's LmdbDB DB" where
  "Lmdb_ops lib ndebug =
     \<lparr>db_Init = Lmdb_Init lib, db_Cleanup = Lmdb_Cleanup lib,
      db_Read = Lmdb_Read lib ndebug, db_Scan = Lmdb_Scan lib ndebug,
      db_Update = Lmdb_Update lib ndebug, db_Insert = Lmdb_Insert lib, db_Delete = Lmdb_Delete lib,
      db_ReadIdx = (\<lambda>_ _. Inl (Undefined ''pure virtual ReadIdx'')),
      db_ReInitBeforeTransaction = False,
      db_SetProps = (\<lambda>p d. d\<lparr>lm_props := p\<rparr>)\<rparr>"

section \<open>Records\<close>

interpretation lm_codec: row_codec Lmdb_SerializeRow "Lmdb_DeserializeRow ndebug field_count" names
    "distinct names \<and> of_nat (length names) = field_count" "Lmdb_DeserializeRowFilter ndebug"
  for ndebug field_count names
proof unfold_locales
  fix r assume g: "distinct names \<and> of_nat (length names) = field_count" and r: "row_ok names r"
  have n: "length r = length names" using r by (auto simp: row_ok_def)
  show "Lmdb_DeserializeRow ndebug field_count (Lmdb_SerializeRow r) = Inr r"
    using whole_row(1) [OF r] g by (simp add: Lmdb_DeserializeRow_def Lmdb_SerializeRow_def n)
  fix flds assume f: "subseq flds names"
  show "Lmdb_DeserializeRowFilter ndebug flds (Lmdb_SerializeRow r) = Inr (project flds r)"
    using whole_row(2) [OF r conjunct1 [OF g] f, of ndebug]
    by (simp add: Lmdb_DeserializeRowFilter_def Lmdb_SerializeRow_def) (simp add: project_def)
qed

section \<open>The backend implements the table\<close>

text \<open>
  The abstract table of this backend; \<open>nf\<close> is the library's text for a missing key. A scan has to start at an existing
  key, and an update or delete of a missing key is an exception.
\<close>

definition Lmdb_table_ops :: "string \<Rightarrow> table DB" where
  "Lmdb_table_ops nf = Table_ops\<lparr>
     db_Scan := (\<lambda>t k n flds m. if m k = None then Inr ((kNotFound, []), m) else db_Scan Table_ops t k n flds m),
     db_Update := (\<lambda>t k vs m. if m k = None then Inl (Exception (''Update mdb_get: '' @ nf)) else db_Update Table_ops t k vs m),
     db_Delete := (\<lambda>t k m. if m k = None then Inl (Exception (''Delete mdb_del: '' @ nf)) else db_Delete Table_ops t k m)\<rparr>"

definition lm_ok :: "'s mdb_lib \<Rightarrow> ('s \<Rightarrow> mdb_state) \<Rightarrow> string list \<Rightarrow> 's LmdbDB \<Rightarrow> bool" where
  "lm_ok lib sm names d \<longleftrightarrow> mdb_ok lib sm \<and> lm_env d = LiveHandle \<and> md_txn (sm (lm_st d)) = None
     \<and> distinct names \<and> of_nat (length names) = lm_field_count d
     \<and> all_rows (row_ok names) Lmdb_SerializeRow (md_committed (sm (lm_st d)))"

definition lm_table :: "('s \<Rightarrow> mdb_state) \<Rightarrow> bool \<Rightarrow> 's LmdbDB \<Rightarrow> table" where
  "lm_table sm ndebug d = decode_table (Lmdb_DeserializeRow ndebug (lm_field_count d)) (md_committed (sm (lm_st d)))"

fun call_key :: "dbcall \<Rightarrow> string" where
  "call_key (CRead _ k _) = k"
| "call_key (CScan _ k _ _) = k"
| "call_key (CUpdate _ k _) = k"
| "call_key (CInsert _ k _) = k"
| "call_key (CDelete _ k) = k"
| "call_key (CReadIdx _) = []"

lemma lm_okD:
  assumes "lm_ok lib sm names d"
  shows "mdb_ok lib sm" "lm_deref d = Inr (lm_st d)" "md_txn (sm (lm_st d)) = None"
    "distinct names \<and> of_nat (length names) = lm_field_count d" "all_rows (row_ok names) Lmdb_SerializeRow (md_committed (sm (lm_st d)))"
  using assms by (simp_all add: lm_ok_def lm_deref_def)

lemma lm_begin:
  assumes "lm_ok lib sm names d"
  obtains s where "ml_txn_begin lib b (lm_st d) = (0, s)" "sm s = (sm (lm_st d))\<lparr>md_txn := Some (md_committed (sm (lm_st d)))\<rparr>"
    "md_txn (sm s) = Some (md_committed (sm (lm_st d)))"
  using mdb_okD(2) [OF lm_okD(1,3) [OF assms], of b] that by (cases "ml_txn_begin lib b (lm_st d)") simp

lemma lm_stored:
  assumes "lm_ok lib sm names d"
  obtains "md_committed (sm (lm_st d)) k = None" "lm_table sm ndebug d k = None"
  | r where "row_ok names r" "md_committed (sm (lm_st d)) k = Some (Lmdb_SerializeRow r)" "lm_table sm ndebug d k = Some r"
      "Lmdb_DeserializeRow ndebug (lm_field_count d) (Lmdb_SerializeRow r) = Inr r"
proof (cases "md_committed (sm (lm_st d)) k")
  case None
  then show thesis by (intro that(1)) (simp_all add: lm_table_def decode_table_def)
next
  case (Some v)
  show thesis by (rule lm_codec.stored_row [OF lm_okD(4,5) [OF assms] Some, of ndebug]) (use that(2) Some in \<open>auto simp: lm_table_def\<close>)
qed

text \<open>An operation that ends its transaction leaves an admissible state, with the content it has committed.\<close>

lemma lm_unchanged:
  assumes "lm_ok lib sm names d" and "md_committed (sm s) = md_committed (sm (lm_st d))" and "md_txn (sm s) = None"
  shows "lm_ok lib sm names (d\<lparr>lm_st := s\<rparr>)" and "lm_table sm ndebug (d\<lparr>lm_st := s\<rparr>) = lm_table sm ndebug d"
  using assms by (simp_all add: lm_ok_def lm_table_def)

lemma lm_commit_put:
  assumes ok: "lm_ok lib sm names d" and r: "row_ok names r" and s: "md_txn (sm s) = Some (md_committed (sm (lm_st d)))" and k: "key_ok k"
  obtains s1 s2 where "ml_put lib k (Lmdb_SerializeRow r) s = (0, s1)" "ml_txn_commit lib s1 = (0, s2)" "lm_ok lib sm names (d\<lparr>lm_st := s2\<rparr>)"
    "lm_table sm ndebug (d\<lparr>lm_st := s2\<rparr>) = (lm_table sm ndebug d)(k \<mapsto> r)"
proof -
  let ?m = "(md_committed (sm (lm_st d)))(k \<mapsto> Lmdb_SerializeRow r)"
  obtain s1 where s1: "ml_put lib k (Lmdb_SerializeRow r) s = (0, s1)" "sm s1 = (sm s)\<lparr>md_txn := Some ?m\<rparr>"
    using mdb_okD(4) [OF lm_okD(1) [OF ok] s k, of "Lmdb_SerializeRow r"] by (cases "ml_put lib k (Lmdb_SerializeRow r) s") simp
  obtain s2 where s2: "ml_txn_commit lib s1 = (0, s2)" "sm s2 = (sm s1)\<lparr>md_committed := ?m, md_txn := None\<rparr>"
    using mdb_okD(6) [OF lm_okD(1) [OF ok], of s1 ?m] s1(2) by (cases "ml_txn_commit lib s1") simp
  show thesis
  proof (rule that [OF s1(1) s2(1)])
    show "lm_ok lib sm names (d\<lparr>lm_st := s2\<rparr>)"
      using ok s2(2) lm_codec.rows_upd [OF lm_okD(5) [OF ok] r, of k] by (simp add: lm_ok_def)
    show "lm_table sm ndebug (d\<lparr>lm_st := s2\<rparr>) = (lm_table sm ndebug d)(k \<mapsto> r)"
      using s2(2) lm_codec.decode_upd [OF lm_okD(4) [OF ok] r] by (simp add: lm_table_def)
  qed
qed

lemma lm_Update:
  assumes ok: "lm_ok lib sm names d" and k: "key_ok k" and vs: "\<forall>fv \<in> set vs. fst fv \<in> set names \<and> small fv"
  shows "(lm_table sm ndebug d k = None \<longrightarrow> Lmdb_Update lib ndebug t k vs d = Inl (Exception (''Update mdb_get: '' @ ml_strerror lib MDB_NOTFOUND)))
     \<and> (\<forall>r. lm_table sm ndebug d k = Some r \<longrightarrow> (\<exists>d'. Lmdb_Update lib ndebug t k vs d = Inr (kOK, d') \<and> lm_ok lib sm names d'
          \<and> lm_table sm ndebug d' = (lm_table sm ndebug d)(k \<mapsto> overwrite vs r)))"
proof -
  obtain s where s: "ml_txn_begin lib False (lm_st d) = (0, s)" "sm s = (sm (lm_st d))\<lparr>md_txn := Some (md_committed (sm (lm_st d)))\<rparr>"
    "md_txn (sm s) = Some (md_committed (sm (lm_st d)))" by (rule lm_begin [OF ok])
  note get = mdb_okD(3) [OF lm_okD(1) [OF ok] s(3) k]
  show ?thesis
  proof (cases rule: lm_stored [OF ok, of k ndebug])
    case 1
    then show ?thesis using s(1) get lm_okD(2) [OF ok] by (simp add: Lmdb_Update_def mdb_check_def MDB_NOTFOUND_def)
  next
    case (2 r)
    have upd: "assign_fields ndebug vs r = Inr (overwrite vs r)" "row_ok names (overwrite vs r)"
      using update_row [OF _ 2(1) vs] lm_okD(4) [OF ok] by simp_all
    obtain s1 s2 where p: "ml_put lib k (Lmdb_SerializeRow (overwrite vs r)) s = (0, s1)" "ml_txn_commit lib s1 = (0, s2)" "lm_ok lib sm names (d\<lparr>lm_st := s2\<rparr>)"
      "lm_table sm ndebug (d\<lparr>lm_st := s2\<rparr>) = (lm_table sm ndebug d)(k \<mapsto> overwrite vs r)" by (rule lm_commit_put [OF ok upd(2) s(3) k])
    have "Lmdb_Update lib ndebug t k vs d = Inr (kOK, d\<lparr>lm_st := s2\<rparr>)"
      using s(1) get 2 upd p(1,2) lm_okD(2) [OF ok] by (simp add: Lmdb_Update_def)
    with p(3,4) 2(3) show ?thesis by simp
  qed
qed

lemma lm_Insert:
  assumes ok: "lm_ok lib sm names d" and k: "key_ok k" and r: "row_ok names vs"
  shows "\<exists>d'. Lmdb_Insert lib t k vs d = Inr (kOK, d') \<and> lm_ok lib sm names d' \<and> lm_table sm ndebug d' = (lm_table sm ndebug d)(k \<mapsto> vs)"
proof -
  obtain s where s: "ml_txn_begin lib False (lm_st d) = (0, s)" "sm s = (sm (lm_st d))\<lparr>md_txn := Some (md_committed (sm (lm_st d)))\<rparr>"
    "md_txn (sm s) = Some (md_committed (sm (lm_st d)))" by (rule lm_begin [OF ok])
  obtain s1 s2 where "ml_put lib k (Lmdb_SerializeRow vs) s = (0, s1)" "ml_txn_commit lib s1 = (0, s2)" "lm_ok lib sm names (d\<lparr>lm_st := s2\<rparr>)"
    "lm_table sm ndebug (d\<lparr>lm_st := s2\<rparr>) = (lm_table sm ndebug d)(k \<mapsto> vs)" by (rule lm_commit_put [OF ok r s(3) k])
  then show ?thesis using s(1) lm_okD(2) [OF ok] by (auto simp: Lmdb_Insert_def)
qed

lemma lm_Delete:
  assumes ok: "lm_ok lib sm names d" and k: "key_ok k"
  shows "if lm_table sm ndebug d k = None then Lmdb_Delete lib t k d = Inl (Exception (''Delete mdb_del: '' @ ml_strerror lib MDB_NOTFOUND))
     else \<exists>d'. Lmdb_Delete lib t k d = Inr (kOK, d') \<and> lm_ok lib sm names d' \<and> lm_table sm ndebug d' = (lm_table sm ndebug d)(k := None)"
proof -
  let ?c = "md_committed (sm (lm_st d))"
  obtain s where s: "ml_txn_begin lib False (lm_st d) = (0, s)" "sm s = (sm (lm_st d))\<lparr>md_txn := Some ?c\<rparr>" "md_txn (sm s) = Some ?c"
    by (rule lm_begin [OF ok])
  obtain rc s1 where d1: "ml_del lib k s = (rc, s1)" by (cases "ml_del lib k s")
  note del = mdb_okD(5) [OF lm_okD(1) [OF ok] s(3) k, unfolded d1]
  show ?thesis
  proof (cases "?c k")
    case None
    then have "lm_table sm ndebug d k = None" by (simp add: lm_table_def decode_table_def)
    with None show ?thesis using s(1) d1 del lm_okD(2) [OF ok] by (simp add: Lmdb_Delete_def mdb_check_def MDB_NOTFOUND_def)
  next
    case (Some v)
    then have t: "lm_table sm ndebug d k \<noteq> None" using lm_codec.decode_None [OF lm_okD(4,5) [OF ok], of ndebug k] by (simp add: lm_table_def)
    obtain s2 where s2: "ml_txn_commit lib s1 = (0, s2)" "sm s2 = (sm s1)\<lparr>md_committed := ?c(k := None), md_txn := None\<rparr>"
      using mdb_okD(6) [OF lm_okD(1) [OF ok], of s1 "?c(k := None)"] del Some by (cases "ml_txn_commit lib s1") simp
    have "Lmdb_Delete lib t k d = Inr (kOK, d\<lparr>lm_st := s2\<rparr>)" using s(1) d1 del Some s2(1) lm_okD(2) [OF ok] by (simp add: Lmdb_Delete_def)
    moreover have "lm_ok lib sm names (d\<lparr>lm_st := s2\<rparr>)" using ok s2(2) lm_codec.rows_del [OF lm_okD(5) [OF ok], of k] by (simp add: lm_ok_def)
    moreover have "lm_table sm ndebug (d\<lparr>lm_st := s2\<rparr>) = (lm_table sm ndebug d)(k := None)"
      using s2(2) lm_codec.decode_del by (simp add: lm_table_def)
    ultimately show ?thesis using t by simp
  qed
qed

lemma keys_from_present:
  assumes "finite (dom m)" and "m k \<noteq> None"
  obtains ks where "keys_from k m = k # ks"
proof -
  let ?A = "{x \<in> dom m. k \<le> x}"
  have k: "finite ?A" "k \<in> ?A" using assms by auto
  then have "Min ?A = k" by (intro Min_eqI) auto
  then have "sorted_list_of_set ?A = k # sorted_list_of_set (?A - {k})"
    using sorted_list_of_set_nonempty [OF k(1)] k(2) by auto
  then show thesis by (intro that) (simp add: keys_from_def)
qed

text \<open>The loop over the cursor reads the records that the cursor still has to visit.\<close>

lemma lm_scan_loop_cursor:
  assumes lib: "mdb_ok lib sm"
  shows "md_txn (sm s) = Some m \<Longrightarrow> md_cursor (sm s) = x # ks \<Longrightarrow>
     scan_loop deser i len (map (\<lambda>x. (x, the (m x))) (x # ks)) result = Inr rs \<Longrightarrow>
     \<exists>s'. lm_scan_loop lib deser i len 0 (the (m x)) s result = Inr (rs, s') \<and> md_txn (sm s') = Some m
       \<and> md_committed (sm s') = md_committed (sm s)"
proof (induction ks arbitrary: x i s result)
  case Nil
  obtain ret data s' where n: "ml_cursor_next lib s = (ret, data, s')" by (cases "ml_cursor_next lib s")
  note nx = mdb_okD(10) [OF lib Nil.prems(1,2), unfolded n]
  show ?case
  proof (cases "i < len")
    case True
    then obtain v where v: "deser (the (m x)) = Inr v" "rs = result @ [v]"
      using Nil.prems(3) by (auto simp: res_simps)
    with True n nx Nil.prems(1) show ?thesis
      by (subst lm_scan_loop.simps) (simp add: lm_scan_loop.simps MDB_NOTFOUND_def)
  next
    case False
    then show ?thesis using Nil.prems by (subst lm_scan_loop.simps) simp
  qed
next
  case (Cons y ks)
  obtain ret data s' where n: "ml_cursor_next lib s = (ret, data, s')" by (cases "ml_cursor_next lib s")
  have nx: "ret = 0" "data = the (m y)" "sm s' = (sm s)\<lparr>md_cursor := y # ks\<rparr>"
    using mdb_okD(10) [OF lib Cons.prems(1,2), unfolded n] by simp_all
  show ?case
  proof (cases "i < len")
    case True
    then obtain v where v: "deser (the (m x)) = Inr v"
      "scan_loop deser (i + 1) len (map (\<lambda>x. (x, the (m x))) (y # ks)) (result @ [v]) = Inr rs"
      using Cons.prems(3) by (auto simp: res_simps)
    have "md_txn (sm s') = Some m" "md_cursor (sm s') = y # ks" using nx(3) Cons.prems(1) by simp_all
    from Cons.IH [OF this v(2)] True n nx v(1) show ?thesis by (subst lm_scan_loop.simps) simp
  next
    case False
    then show ?thesis using Cons.prems by (subst lm_scan_loop.simps) simp
  qed
qed

lemma lm_end_read:
  assumes "mdb_ok lib sm" and "md_txn (sm s) = Some m"
  shows "md_txn (sm (ml_txn_abort lib s)) = None" "md_committed (sm (ml_txn_abort lib s)) = md_committed (sm s)"
    "md_txn (sm (ml_txn_abort lib (ml_cursor_close lib s))) = None"
    "md_committed (sm (ml_txn_abort lib (ml_cursor_close lib s))) = md_committed (sm s)"
  using mdb_okD(7) [OF assms] mdb_okD(7) [OF assms(1), of "ml_cursor_close lib s" m] mdb_okD(11) [OF assms(1), of s] assms(2) by simp_all

lemma lm_Read:
  assumes ok: "lm_ok lib sm names d" and k: "key_ok k" and flds: "case flds of None \<Rightarrow> True | Some fs \<Rightarrow> subseq fs names"
  shows "\<exists>d'. Lmdb_Read lib ndebug t k flds d = Inr (case lm_table sm ndebug d k of None \<Rightarrow> (kNotFound, []) | Some r \<Rightarrow> (kOK, select flds r), d')
     \<and> lm_ok lib sm names d' \<and> lm_table sm ndebug d' = lm_table sm ndebug d"
proof -
  obtain s where s: "ml_txn_begin lib True (lm_st d) = (0, s)" "sm s = (sm (lm_st d))\<lparr>md_txn := Some (md_committed (sm (lm_st d)))\<rparr>"
    "md_txn (sm s) = Some (md_committed (sm (lm_st d)))" by (rule lm_begin [OF ok])
  note get = mdb_okD(3) [OF lm_okD(1) [OF ok] s(3) k]
  let ?d = "d\<lparr>lm_st := ml_txn_abort lib s\<rparr>"
  have e: "lm_ok lib sm names ?d" "lm_table sm ndebug ?d = lm_table sm ndebug d"
    using lm_unchanged [OF ok] lm_end_read(1,2) [OF lm_okD(1) [OF ok] s(3)] s(2) by simp_all
  show ?thesis
  proof (cases rule: lm_stored [OF ok, of k ndebug])
    case 1
    then show ?thesis using s(1) get e lm_okD(2) [OF ok] by (simp add: Lmdb_Read_def)
  next
    case (2 r)
    have "lm_reader ndebug (lm_field_count d) flds (Lmdb_SerializeRow r) = Inr (select flds r)"
      unfolding lm_reader_def by (rule lm_codec.read_selected [OF lm_okD(4) [OF ok] 2(1) flds])
    then show ?thesis using s(1) get e 2 lm_okD(2) [OF ok] by (simp add: Lmdb_Read_def MDB_NOTFOUND_def)
  qed
qed

lemma lm_Scan:
  assumes ok: "lm_ok lib sm names d" and k: "key_ok k" and flds: "case flds of None \<Rightarrow> True | Some fs \<Rightarrow> subseq fs names"
  shows "\<exists>d'. Lmdb_Scan lib ndebug t k n flds d = Inr (if lm_table sm ndebug d k = None then (kNotFound, [])
       else (kOK, map (\<lambda>x. select flds (the (lm_table sm ndebug d x))) (take (nat n) (keys_from k (lm_table sm ndebug d)))), d')
     \<and> lm_ok lib sm names d' \<and> lm_table sm ndebug d' = lm_table sm ndebug d"
proof -
  let ?c = "md_committed (sm (lm_st d))"
  note lib = lm_okD(1) [OF ok]
  obtain s where s: "ml_txn_begin lib False (lm_st d) = (0, s)" "sm s = (sm (lm_st d))\<lparr>md_txn := Some ?c\<rparr>" "md_txn (sm s) = Some ?c"
    by (rule lm_begin [OF ok])
  obtain s1 where s1: "ml_cursor_open lib s = (0, s1)" "sm s1 = (sm s)\<lparr>md_cursor := []\<rparr>"
    using mdb_okD(8) [OF lib s(3)] by (cases "ml_cursor_open lib s") simp
  then have t1: "md_txn (sm s1) = Some ?c" using s(3) by simp
  obtain ret data s2 where set: "ml_cursor_set lib k s1 = (ret, data, s2)" by (cases "ml_cursor_set lib k s1")
  note cs = mdb_okD(9) [OF lib t1 k, unfolded set]
  have ending: "lm_ok lib sm names (d\<lparr>lm_st := ml_txn_abort lib (ml_cursor_close lib x)\<rparr>)
      \<and> lm_table sm ndebug (d\<lparr>lm_st := ml_txn_abort lib (ml_cursor_close lib x)\<rparr>) = lm_table sm ndebug d"
    if "md_txn (sm x) = Some ?c" "md_committed (sm x) = ?c" for x
    using lm_unchanged [OF ok] lm_end_read(3,4) [OF lib that(1)] that(2) by simp
  have none: "lm_table sm ndebug d k = None \<longleftrightarrow> ?c k = None"
    using lm_codec.decode_None [OF lm_okD(4,5) [OF ok]] by (simp add: lm_table_def)
  show ?thesis
  proof (cases "?c k")
    case None
    then have "Lmdb_Scan lib ndebug t k n flds d = Inr ((kNotFound, []), d\<lparr>lm_st := ml_txn_abort lib (ml_cursor_close lib s2)\<rparr>)"
      using cs s(1) s1(1) set lm_okD(2) [OF ok] by (simp add: Lmdb_Scan_def)
    then show ?thesis using ending [of s2] cs None none t1 s(2) s1(2) by simp
  next
    case (Some v)
    obtain ks where ks: "keys_from k ?c = k # ks" using keys_from_present [OF mdb_okD(1) [OF lib], of "lm_st d" k] Some by auto
    have c2: "ret = 0" "data = the (?c k)" "md_txn (sm s2) = Some ?c" "md_cursor (sm s2) = k # ks" "md_committed (sm s2) = ?c"
      using cs Some ks t1 s(2) s1(2) by simp_all
    define rs where "rs = map (\<lambda>x. select flds (the (lm_table sm ndebug d x))) (take (nat n) (keys_from k ?c))"
    have "scan_loop (lm_reader ndebug (lm_field_count d) flds) 0 n (map (\<lambda>x. (x, the (?c x))) (k # ks)) [] = Inr rs"
      using lm_codec.scan_selected [OF lm_okD(4,5) [OF ok] mdb_okD(1) [OF lib] flds, of ndebug n k]
      by (simp add: lm_reader_def ks rs_def lm_table_def)
    from lm_scan_loop_cursor [OF lib c2(3,4) this] obtain s3 where s3:
      "lm_scan_loop lib (lm_reader ndebug (lm_field_count d) flds) 0 n 0 (the (?c k)) s2 [] = Inr (rs, s3)"
      "md_txn (sm s3) = Some ?c" "md_committed (sm s3) = md_committed (sm s2)" by blast
    have "Lmdb_Scan lib ndebug t k n flds d = Inr ((kOK, rs), d\<lparr>lm_st := ml_txn_abort lib (ml_cursor_close lib s3)\<rparr>)"
      using s(1) s1(1) set c2(1,2) s3(1) lm_okD(2) [OF ok] by (simp add: Lmdb_Scan_def MDB_NOTFOUND_def)
    moreover have "keys_from k (lm_table sm ndebug d) = keys_from k ?c"
      using lm_codec.keys_from_decode [OF lm_okD(4,5) [OF ok]] by (simp add: lm_table_def)
    ultimately show ?thesis using ending [OF s3(2)] s3(3) c2(5) none Some by (simp add: rs_def)
  qed
qed

interpretation lmdb: db_exact "Lmdb_ops lib ndebug" "Lmdb_table_ops (ml_strerror lib MDB_NOTFOUND)" "lm_table sm ndebug"
    "lm_ok lib sm names" "\<lambda>c. row_call names c \<and> key_ok (call_key c)"
  for lib ndebug sm names
proof -
  have "map_sum id (apsnd (lm_table sm ndebug)) (db_call (Lmdb_ops lib ndebug) c d)
         = db_call (Lmdb_table_ops (ml_strerror lib MDB_NOTFOUND)) c (lm_table sm ndebug d)
       \<and> (\<forall>r d'. db_call (Lmdb_ops lib ndebug) c d = Inr (r, d') \<longrightarrow> lm_ok lib sm names d')"
    if ok: "lm_ok lib sm names d" and c: "row_call names c \<and> key_ok (call_key c)" for d c
  proof (cases c)
    case (CRead t k flds)
    with lm_Read [OF ok, of k flds ndebug t] c show ?thesis by (auto simp: Lmdb_ops_def Lmdb_table_ops_def Table_ops_def split: option.splits)
  next
    case (CScan t k n flds)
    with lm_Scan [OF ok, of k flds ndebug t n] c show ?thesis by (auto simp: Lmdb_ops_def Lmdb_table_ops_def Table_ops_def)
  next
    case (CUpdate t k vs)
    with lm_Update [OF ok, of k vs ndebug t] c show ?thesis
      by (cases "lm_table sm ndebug d k") (auto simp: Lmdb_ops_def Lmdb_table_ops_def Table_ops_def)
  next
    case (CInsert t k vs)
    with lm_Insert [OF ok, of k vs t ndebug] c show ?thesis by (auto simp: Lmdb_ops_def Lmdb_table_ops_def Table_ops_def)
  next
    case (CDelete t k)
    with lm_Delete [OF ok, of k ndebug t] c show ?thesis
      by (auto simp: Lmdb_ops_def Lmdb_table_ops_def Table_ops_def split: if_splits)
  qed (use c in simp)
  then show "db_exact (Lmdb_ops lib ndebug) (Lmdb_table_ops (ml_strerror lib MDB_NOTFOUND)) (lm_table sm ndebug)
      (lm_ok lib sm names) (\<lambda>c. row_call names c \<and> key_ok (call_key c))"
    by unfold_locales blast+
qed

section \<open>The shared environment\<close>

text \<open>
  All members but the properties are static. An \<^verbatim>\<open>Init\<close> with a positive count only counts, and the last \<^verbatim>\<open>Cleanup\<close> closes the
  environment.
\<close>

definition lm_live :: "'s LmdbDB \<Rightarrow> bool" where
  "lm_live d \<longleftrightarrow> lm_env d = LiveHandle \<and> 0 < lm_ref_cnt d"

interpretation lm_handle: shared_handle "\<lambda>d. map_sum id snd (Lmdb_Init lib d)" "\<lambda>d. map_sum id snd (Lmdb_Cleanup lib d)"
    lm_live lm_ref_cnt lm_st True for lib
  by unfold_locales (auto simp: lm_live_def Lmdb_Init_def Lmdb_Cleanup_def Let_def)

section \<open>A library in memory\<close>

record mem_mdb_state =
  mm_committed :: "(string \<times> string) list"
  mm_txn :: "(string \<times> string) list option"
  mm_cursor :: "string list"

definition mm_abs :: "mem_mdb_state \<Rightarrow> mdb_state" where
  "mm_abs s = \<lparr>md_committed = map_of (mm_committed s), md_txn = map_option map_of (mm_txn s), md_cursor = mm_cursor s\<rparr>"

definition mm_entries :: "mem_mdb_state \<Rightarrow> (string \<times> string) list" where
  "mm_entries s = (case mm_txn s of None \<Rightarrow> [] | Some l \<Rightarrow> l)"

definition mem_mdb :: "mem_mdb_state mdb_lib" where
  "mem_mdb =
     \<lparr>ml_env_create = (\<lambda>s. (0, s)), ml_env_set_mapsize = (\<lambda>_ s. (0, s)), ml_mkdir = (\<lambda>_ s. (0, s)), ml_env_open = (\<lambda>_ _ s. (0, s)),
      ml_txn_begin = (\<lambda>_ s. (0, s\<lparr>mm_txn := Some (mm_committed s)\<rparr>)), ml_open = (\<lambda>s. (0, s)),
      ml_txn_commit = (\<lambda>s. (0, s\<lparr>mm_committed := mm_entries s, mm_txn := None\<rparr>)),
      ml_txn_abort = (\<lambda>s. s\<lparr>mm_txn := None\<rparr>),
      ml_get = (\<lambda>k s. case map_of (mm_entries s) k of None \<Rightarrow> (MDB_NOTFOUND, []) | Some v \<Rightarrow> (0, v)),
      ml_put = (\<lambda>k v s. (0, s\<lparr>mm_txn := Some (mem_batch (mm_entries s) (BPut k v))\<rparr>)),
      ml_del = (\<lambda>k s. if map_of (mm_entries s) k = None then (MDB_NOTFOUND, s)
        else (0, s\<lparr>mm_txn := Some (mem_batch (mm_entries s) (BDelete k))\<rparr>)),
      ml_cursor_open = (\<lambda>s. (0, s\<lparr>mm_cursor := []\<rparr>)),
      ml_cursor_set = (\<lambda>k s. case map_of (mm_entries s) k of None \<Rightarrow> (MDB_NOTFOUND, [], s)
        | Some v \<Rightarrow> (0, v, s\<lparr>mm_cursor := keys_from k (map_of (mm_entries s))\<rparr>)),
      ml_cursor_next = (\<lambda>s. case tl (mm_cursor s) of [] \<Rightarrow> (MDB_NOTFOUND, [], s)
        | y # ks \<Rightarrow> (0, the (map_of (mm_entries s) y), s\<lparr>mm_cursor := y # ks\<rparr>)),
      ml_cursor_close = (\<lambda>s. s\<lparr>mm_cursor := []\<rparr>), ml_env_close = (\<lambda>s. s),
      ml_strerror = (\<lambda>e. if e = MDB_NOTFOUND then ''MDB_NOTFOUND: No matching key/data pair found'' else ''error'')\<rparr>"

lemma mem_mdb_ok: "mdb_ok mem_mdb mm_abs"
proof -
  have d: "map_of (filter (\<lambda>kv. fst kv \<noteq> k) l) = (map_of l)(k := None)" for k and l :: "(string \<times> string) list"
    using map_of_mem_batch [of l "BDelete k"] by simp
  show ?thesis unfolding mdb_ok_def
    by (auto simp: mem_mdb_def mm_abs_def mm_entries_def d finite_dom_map_of split: option.splits list.splits)
qed

definition demo_lmdb :: "mem_mdb_state LmdbDB" where
  "demo_lmdb = \<lparr>lm_props = no_properties, lm_field_count = 2, lm_field_prefix = ''field'', lm_env = LiveHandle, lm_ref_cnt = 1,
     lm_st = \<lparr>mm_committed = [], mm_txn = None, mm_cursor = []\<rparr>\<rparr>"

lemma demo_lmdb_ok: "lm_ok mem_mdb mm_abs [''field0'', ''field1''] demo_lmdb"
  by (simp add: lm_ok_def mem_mdb_ok demo_lmdb_def mm_abs_def all_rows_def)

section \<open>Properties\<close>

text \<open>C13: The LMDB backend implements its table exactly, for every library that keeps its documented promises: any sequence of calls
  with the configured fields and admissible keys ends as it does in the table, with the same statuses, records and scan results or
  with the same exception at the same call; when it returns, no transaction is left open.\<close>

theorem lmdb_matches_table:
  assumes "lm_ok lib sm names d" and "\<forall>c \<in> set cs. row_call names c \<and> key_ok (call_key c)"
  shows "map_sum id (apsnd (lm_table sm ndebug)) (db_calls (Lmdb_ops lib ndebug) cs d)
       = db_calls (Lmdb_table_ops (ml_strerror lib MDB_NOTFOUND)) cs (lm_table sm ndebug d)
     \<and> (\<forall>rs d'. db_calls (Lmdb_ops lib ndebug) cs d = Inr (rs, d') \<longrightarrow> md_txn (sm (lm_st d')) = None)"
  using lmdb.calls_exact [OF assms, of ndebug] lm_okD(3) by blast

theorem lmdb_matches_table_witness:
  "\<exists>d'. db_calls (Lmdb_ops mem_mdb False)
     [CInsert ''t'' ''k'' [(''field0'', ''a''), (''field1'', ''b'')], CUpdate ''t'' ''k'' [(''field1'', ''c'')],
      CRead ''t'' ''k'' (Some [''field1'']), CScan ''t'' ''k'' 5 None, CScan ''t'' ''j'' 5 None, CDelete ''t'' ''k''] demo_lmdb
   = Inr ([RStatus kOK, RStatus kOK, RFields kOK [(''field1'', ''c'')], RRows kOK [[(''field0'', ''a''), (''field1'', ''c'')]],
           RRows kNotFound [], RStatus kOK], d')"
proof -
  let ?cs = "[CInsert ''t'' ''k'' [(''field0'', ''a''), (''field1'', ''b'')], CUpdate ''t'' ''k'' [(''field1'', ''c'')],
      CRead ''t'' ''k'' (Some [''field1'']), CScan ''t'' ''k'' 5 None, CScan ''t'' ''j'' 5 None, CDelete ''t'' ''k'']"
  have c: "\<forall>c \<in> set ?cs. row_call [''field0'', ''field1''] c \<and> key_ok (call_key c)"
    by (simp add: row_ok_def small_def key_ok_def)
  have t: "lm_table mm_abs False demo_lmdb = Map.empty" by (auto simp: lm_table_def decode_table_def demo_lmdb_def mm_abs_def)
  have "{x. x = ''k'' \<and> ''k'' \<le> x} = {''k''}" by auto
  then have k: "keys_from ''k'' [''k'' \<mapsto> r] = [''k'']" for r :: "Field list" by (simp add: keys_from_def)
  obtain m where m: "db_calls (Lmdb_table_ops (ml_strerror mem_mdb MDB_NOTFOUND)) ?cs Map.empty = Inr ([RStatus kOK, RStatus kOK, RFields kOK [(''field1'', ''c'')],
      RRows kOK [[(''field0'', ''a''), (''field1'', ''c'')]], RRows kNotFound [], RStatus kOK], m)"
    by (simp add: Lmdb_table_ops_def Table_ops_def overwrite_def select_def project_def k)
  from lmdb_matches_table [OF demo_lmdb_ok c, of False] show ?thesis unfolding t m by (intro map_state_Inr) (rule conjunct1)
qed

text \<open>An update or a delete of a key that is not stored ends with an exception, where the table of the other embedded backends returns
  a status.\<close>

theorem lmdb_missing_key_throws:
  assumes "lm_ok lib sm names d" and "key_ok k" and "lm_table sm ndebug d k = None" and "\<forall>fv \<in> set vs. fst fv \<in> set names \<and> small fv"
  shows "Lmdb_Update lib ndebug t k vs d = Inl (Exception (''Update mdb_get: '' @ ml_strerror lib MDB_NOTFOUND))
     \<and> Lmdb_Delete lib t k d = Inl (Exception (''Delete mdb_del: '' @ ml_strerror lib MDB_NOTFOUND))
     \<and> db_Update Table_ops t k vs (lm_table sm ndebug d) = Inr (kNotFound, lm_table sm ndebug d)"
  using lm_Update [OF assms(1,2,4), of ndebug t] lm_Delete [OF assms(1,2), of ndebug t] assms(3) by (simp add: Table_ops_def)

theorem lmdb_missing_key_throws_witness:
  "Lmdb_Update mem_mdb True ''t'' ''k'' [] demo_lmdb = Inl (Exception ''Update mdb_get: MDB_NOTFOUND: No matching key/data pair found'')"
proof -
  have "lm_table mm_abs True demo_lmdb ''k'' = None" by (simp add: lm_table_def decode_table_def demo_lmdb_def mm_abs_def)
  from lmdb_missing_key_throws [OF demo_lmdb_ok _ this, of "[]" "''t''"] show ?thesis by (simp add: key_ok_def mem_mdb_def)
qed

text \<open>With the default configuration \<^verbatim>\<open>Init\<close> asks the library for a map of 18446744073709551615 bytes: the default of the property is
  \<^verbatim>\<open>-1\<close>, which as an unsigned number passes the test that was meant to leave the size alone. When the library refuses that size,
  \<^verbatim>\<open>Init\<close> throws.\<close>

theorem lmdb_default_mapsize:
  assumes "lm_ref_cnt d = 0" and "lm_props d = no_properties" and "ml_env_create lib (lm_st d) = (0, s)"
    and "fst (ml_env_set_mapsize lib 18446744073709551615 s) = err" and "err \<noteq> 0"
  shows "Lmdb_Init lib d = Inl (Exception (''Init mdb_env_set_mapsize: '' @ ml_strerror lib err))"
proof -
  have "stoi (GetProperty (lm_props d) ''fieldcount'' ''10'') = Inr 10"
    by (simp add: assms(2) GetProperty_def no_properties_def stoi_def parse_long_def skip_sign_def isspace_def
        is_digit_def dec_val_def digit_val_def int32_ok_def)
  moreover have "stoul (GetProperty (lm_props d) ''lmdb.mapsize'' ''-1'') = Inr 18446744073709551615"
    by (simp add: assms(2) GetProperty_def no_properties_def stoul_def parse_long_def skip_sign_def isspace_def
        is_digit_def dec_val_def digit_val_def)
  ultimately show ?thesis using assms(1,3,4,5) by (simp add: Lmdb_Init_def mdb_check_def Let_def)
qed

theorem lmdb_default_mapsize_witness:
  "Lmdb_Init (mem_mdb\<lparr>ml_env_set_mapsize := (\<lambda>n s. (if n > 2 ^ 47 then 22 else 0, s))\<rparr>) (demo_lmdb\<lparr>lm_ref_cnt := 0\<rparr>)
     = Inl (Exception ''Init mdb_env_set_mapsize: error'')"
  using lmdb_default_mapsize [of "demo_lmdb\<lparr>lm_ref_cnt := 0\<rparr>" "mem_mdb\<lparr>ml_env_set_mapsize := (\<lambda>n s. (if n > 2 ^ 47 then 22 else 0, s))\<rparr>"
      "lm_st demo_lmdb" 22]
  by (simp add: demo_lmdb_def mem_mdb_def MDB_NOTFOUND_def)

end
