(* ===== verification/Wiredtiger.thy ===== *)
theory Wiredtiger
  imports KV_Store
begin

text \<open>
  The WiredTiger backend, \<^verbatim>\<open>src/wiredtiger/wiredtiger_db.h\<close> and \<^verbatim>\<open>src/wiredtiger/wiredtiger_db.cc\<close>. The library is a parameter; its
  documented behaviour is stated over the content of the table and the key, value and position of the object's cursor. A field of
  the sources' \<^verbatim>\<open>Field\<close> is read as its \<^verbatim>\<open>name\<close> (first) and \<^verbatim>\<open>value\<close> (second). The scan loop does not move the cursor; the table that
  the backend implements has this scan.
\<close>

section \<open>The library\<close>

text \<open>
  \<open>'s\<close> is the state behind the connection, with the session and the cursor of this object. A function returns its error code,
  0 for success; \<open>wt_mkdir\<close> returns \<^verbatim>\<open>errno\<close> when \<^verbatim>\<open>mkdir\<close> fails. \<open>wt_search_near\<close> also returns \<^verbatim>\<open>exact\<close>.
\<close>

record 's wt_lib =
  wt_mkdir :: "string \<Rightarrow> 's \<Rightarrow> int \<times> 's"
  wt_open :: "string \<Rightarrow> string \<Rightarrow> 's \<Rightarrow> int \<times> 's"
  wt_open_session :: "'s \<Rightarrow> int \<times> 's"
  wt_create :: "string \<Rightarrow> string \<Rightarrow> 's \<Rightarrow> int \<times> 's"
  wt_open_cursor :: "string \<Rightarrow> string \<Rightarrow> 's \<Rightarrow> int \<times> 's"
  wt_set_key :: "string \<Rightarrow> 's \<Rightarrow> 's"
  wt_set_value :: "string \<Rightarrow> 's \<Rightarrow> 's"
  wt_search :: "'s \<Rightarrow> int \<times> 's"
  wt_search_near :: "'s \<Rightarrow> int \<times> int \<times> 's"
  wt_next :: "'s \<Rightarrow> int \<times> 's"
  wt_get_value :: "'s \<Rightarrow> int \<times> string"
  wt_insert :: "'s \<Rightarrow> int \<times> 's"
  wt_update :: "'s \<Rightarrow> int \<times> 's"
  wt_remove :: "'s \<Rightarrow> int \<times> 's"
  wt_cursor_close :: "'s \<Rightarrow> 's"
  wt_session_close :: "'s \<Rightarrow> int \<times> 's"
  wt_conn_close :: "'s \<Rightarrow> int \<times> 's"
  wt_strerror :: "int \<Rightarrow> string"

definition WT_NOTFOUND :: int where "WT_NOTFOUND = -31803"

text \<open>The macro \<^verbatim>\<open>error_check\<close>; \<open>fname\<close> is the path the compiler puts for \<^verbatim>\<open>__FILE__\<close>, \<open>line\<close> the line of the use.\<close>

definition wt_error :: "string \<Rightarrow> nat \<Rightarrow> exn" where
  "wt_error fname line = Exception (''[wiredtiger] '' @ fname @ '':'' @ to_string line)"

definition error_check :: "string \<Rightarrow> nat \<Rightarrow> int \<times> 'a \<Rightarrow> 'a res" where
  "error_check fname line r = (if fst r \<noteq> 0 then Inl (wt_error fname line) else Inr (snd r))"

lemma error_check_ok [simp]: "fst r = 0 \<Longrightarrow> error_check fname line r = Inr (snd r)"
  by (simp add: error_check_def)

section \<open>The documented behaviour\<close>

record wt_state =
  ws_data :: "string \<rightharpoonup> string"
  ws_key :: "string option"
  ws_value :: "string option"
  ws_pos :: "string option"

text \<open>A stored key with no other stored key between it and \<open>k\<close>.\<close>

definition adjacent :: "string \<Rightarrow> (string \<rightharpoonup> string) \<Rightarrow> string \<Rightarrow> bool" where
  "adjacent k m x \<longleftrightarrow> x \<in> dom m \<and> (\<forall>y \<in> dom m. \<not> (x < y \<and> y \<le> k) \<and> \<not> (k \<le> y \<and> y < x))"

text \<open>
  The cursor is configured with \<^verbatim>\<open>overwrite=true\<close>: an insert replaces a stored value. \<open>rm\<close> is the code for the removal of a key
  that is not stored, 0 or \<^verbatim>\<open>WT_NOTFOUND\<close> depending on the version of the library.
\<close>

definition wt_ok :: "'s wt_lib \<Rightarrow> int \<Rightarrow> ('s \<Rightarrow> wt_state) \<Rightarrow> bool" where
  "wt_ok lib rm sm \<longleftrightarrow>
     (\<forall>s. finite (dom (ws_data (sm s))))
   \<and> (\<forall>k s. ws_data (sm (wt_set_key lib k s)) = ws_data (sm s) \<and> ws_key (sm (wt_set_key lib k s)) = Some k)
   \<and> (\<forall>v s. ws_data (sm (wt_set_value lib v s)) = ws_data (sm s) \<and> ws_key (sm (wt_set_value lib v s)) = ws_key (sm s)
        \<and> ws_value (sm (wt_set_value lib v s)) = Some v)
   \<and> (\<forall>k s. ws_key (sm s) = Some k \<longrightarrow> (case wt_search lib s of (ret, s') \<Rightarrow> ws_data (sm s') = ws_data (sm s)
        \<and> (if ws_data (sm s) k = None then ret = WT_NOTFOUND else ret = 0 \<and> ws_key (sm s') = Some k \<and> ws_pos (sm s') = Some k)))
   \<and> (\<forall>k s. ws_key (sm s) = Some k \<longrightarrow> (case wt_search_near lib s of (ret, exact, s') \<Rightarrow> ws_data (sm s') = ws_data (sm s)
        \<and> (if ws_data (sm s) = Map.empty then ret = WT_NOTFOUND
           else ret = 0 \<and> (\<exists>x. ws_pos (sm s') = Some x \<and> adjacent k (ws_data (sm s)) x \<and> (exact < 0 \<longleftrightarrow> x < k)))))
   \<and> (\<forall>x s. ws_pos (sm s) = Some x \<longrightarrow> (case wt_next lib s of (ret, s') \<Rightarrow> ws_data (sm s') = ws_data (sm s)
        \<and> (let later = {y \<in> dom (ws_data (sm s)). x < y} in
           if later = {} then ret = WT_NOTFOUND else ret = 0 \<and> ws_pos (sm s') = Some (Min later))))
   \<and> (\<forall>x v s. ws_pos (sm s) = Some x \<longrightarrow> ws_data (sm s) x = Some v \<longrightarrow> wt_get_value lib s = (0, v))
   \<and> (\<forall>k v s. ws_key (sm s) = Some k \<longrightarrow> ws_value (sm s) = Some v \<longrightarrow>
        fst (wt_insert lib s) = 0 \<and> ws_data (sm (snd (wt_insert lib s))) = (ws_data (sm s))(k \<mapsto> v))
   \<and> (\<forall>k v s. ws_key (sm s) = Some k \<longrightarrow> ws_value (sm s) = Some v \<longrightarrow>
        fst (wt_update lib s) = 0 \<and> ws_data (sm (snd (wt_update lib s))) = (ws_data (sm s))(k \<mapsto> v))
   \<and> (\<forall>k s. ws_key (sm s) = Some k \<longrightarrow> fst (wt_remove lib s) = (if ws_data (sm s) k = None then rm else 0)
        \<and> ws_data (sm (snd (wt_remove lib s))) = (ws_data (sm s))(k := None))"

lemma wt_okD:
  assumes "wt_ok lib rm sm"
  shows "finite (dom (ws_data (sm s)))"
    and "ws_data (sm (wt_set_key lib k s)) = ws_data (sm s)" and "ws_key (sm (wt_set_key lib k s)) = Some k"
    and "ws_data (sm (wt_set_value lib v s)) = ws_data (sm s)" and "ws_key (sm (wt_set_value lib v s)) = ws_key (sm s)"
    and "ws_value (sm (wt_set_value lib v s)) = Some v"
    and "ws_key (sm s) = Some k \<Longrightarrow> (case wt_search lib s of (ret, s') \<Rightarrow> ws_data (sm s') = ws_data (sm s)
        \<and> (if ws_data (sm s) k = None then ret = WT_NOTFOUND else ret = 0 \<and> ws_key (sm s') = Some k \<and> ws_pos (sm s') = Some k))"
    and "ws_key (sm s) = Some k \<Longrightarrow> (case wt_search_near lib s of (ret, exact, s') \<Rightarrow> ws_data (sm s') = ws_data (sm s)
        \<and> (if ws_data (sm s) = Map.empty then ret = WT_NOTFOUND
           else ret = 0 \<and> (\<exists>x. ws_pos (sm s') = Some x \<and> adjacent k (ws_data (sm s)) x \<and> (exact < 0 \<longleftrightarrow> x < k))))"
    and "ws_pos (sm s) = Some x \<Longrightarrow> (case wt_next lib s of (ret, s') \<Rightarrow> ws_data (sm s') = ws_data (sm s)
        \<and> (let later = {y \<in> dom (ws_data (sm s)). x < y} in
           if later = {} then ret = WT_NOTFOUND else ret = 0 \<and> ws_pos (sm s') = Some (Min later)))"
    and "ws_pos (sm s) = Some x \<Longrightarrow> ws_data (sm s) x = Some v \<Longrightarrow> wt_get_value lib s = (0, v)"
    and "ws_key (sm s) = Some k \<Longrightarrow> ws_value (sm s) = Some v \<Longrightarrow>
        fst (wt_insert lib s) = 0 \<and> ws_data (sm (snd (wt_insert lib s))) = (ws_data (sm s))(k \<mapsto> v)"
    and "ws_key (sm s) = Some k \<Longrightarrow> ws_value (sm s) = Some v \<Longrightarrow>
        fst (wt_update lib s) = 0 \<and> ws_data (sm (snd (wt_update lib s))) = (ws_data (sm s))(k \<mapsto> v)"
    and "ws_key (sm s) = Some k \<Longrightarrow> fst (wt_remove lib s) = (if ws_data (sm s) k = None then rm else 0)
        \<and> ws_data (sm (snd (wt_remove lib s))) = (ws_data (sm s))(k := None)"
  using assms unfolding wt_ok_def by meson+

section \<open>The class\<close>

text \<open>
  \<^verbatim>\<open>conn_\<close> and \<^verbatim>\<open>ref_cnt_\<close> are static, \<^verbatim>\<open>session_\<close> and \<^verbatim>\<open>cursor_\<close> belong to the object. The method pointers are set by \<^verbatim>\<open>Init\<close>, always to the
  functions for single entries, so an object with a cursor has them set.
\<close>

record 's WTDB =
  wd_props :: Properties
  wd_fieldcount :: u32
  wd_conn :: handle
  wd_ref_cnt :: int
  wd_session :: handle
  wd_cursor :: handle
  wd_st :: 's

definition config_item :: "string \<Rightarrow> string \<Rightarrow> string \<Rightarrow> string" where
  "config_item name v sep = (if v = '''' then '''' else name @ v @ sep)"

definition db_config_of :: "Properties \<Rightarrow> string" where
  "db_config_of props =
     (let db_config = ''create,'';
          db_config = db_config @ config_item ''cache_size='' (GetProperty props ''wiredtiger.cache_size'' ''100MB'') '','';
          db_config = db_config @ config_item ''direct_io='' (GetProperty props ''wiredtiger.direct_io'' ''[]'') '','';
          db_config = db_config @ config_item ''in_memory='' (GetProperty props ''wiredtiger.in_memory'' ''false'') '','';
          lsm_config = config_item ''merge='' (GetProperty props ''wiredtiger.lsm_mgr.merge'' ''true'') '','';
          lsm_config = lsm_config @ config_item ''worker_thread_max='' (GetProperty props ''wiredtiger.lsm_mgr.max_workers'' ''4'') '''' in
      db_config @ config_item ''lsm_manager=('' lsm_config '')'')"

definition table_config_of :: "Properties \<Rightarrow> string res" where
  "table_config_of props =
     (let table_config = ''key_format=u,value_format=u,'';
          compressor = GetProperty props ''wiredtiger.blk_mgr.compressor'' ''snappy'';
          table_config = table_config @ config_item ''allocation_size='' (GetProperty props ''wiredtiger.blk_mgr.allocation_size'' ''4KB'') '','' in
      if compressor \<noteq> '''' \<and> compressor \<notin> {''snappy'', ''lz4'', ''zlib'', ''zstd''} then Inl (Exception ''unknown compressor name'')
      else let
          table_config = table_config @ ''block_compressor='' @ compressor @ '','';
          lsm_config = config_item ''bloom_bit_count='' (GetProperty props ''wiredtiger.blk_mgr.bloom_bit_count'' ''16'') '','';
          lsm_config = lsm_config @ config_item ''bloom_hash_count='' (GetProperty props ''wiredtiger.blk_mgr.bloom_hash_count'' ''8'') '','';
          lsm_config = lsm_config @ config_item ''chunk_max='' (GetProperty props ''wiredtiger.blk_mgr.chunk_max'' ''5GB'') '','';
          lsm_config = lsm_config @ config_item ''chunk_size='' (GetProperty props ''wiredtiger.blk_mgr.chunk_size'' ''10MB'') '''';
          table_config = table_config @ config_item ''lsm=('' lsm_config ''),'';
          table_config = table_config @ config_item ''internal_page_max='' (GetProperty props ''wiredtiger.blk_mgr.btree.internal_page_max'' ''4KB'') '','';
          table_config = table_config @ config_item ''leaf_key_max='' (GetProperty props ''wiredtiger.blk_mgr.btree.leaf_key_max'' ''0'') '','';
          table_config = table_config @ config_item ''leaf_value_max='' (GetProperty props ''wiredtiger.blk_mgr.btree.leaf_value_max'' ''0'') '','';
          table_config = table_config @ config_item ''leaf_page_max='' (GetProperty props ''wiredtiger.blk_mgr.btree.leaf_page_max'' ''32KB'') '''' in
        Inr table_config)"

definition WT_Init :: "'s wt_lib \<Rightarrow> string \<Rightarrow> 's WTDB \<Rightarrow> (unit \<times> 's WTDB) res" where
  "WT_Init lib fname d =
     (let props = wd_props d; format = GetProperty props ''wiredtiger.format'' ''single'' in
      andThen (stoi (GetProperty props ''fieldcount'' ''10'')) (\<lambda>fieldcount.
      let d = d\<lparr>wd_fieldcount := word_of_int fieldcount\<rparr> in
      if format \<noteq> ''single'' then Inl (Exception ''single ONLY'')
      else let d = d\<lparr>wd_ref_cnt := wd_ref_cnt d + 1\<rparr> in
      if wd_conn d \<noteq> NullHandle then
        (if wd_conn d \<noteq> LiveHandle then Inl (Undefined ''conn_ points to a closed connection'')
         else andThen (error_check fname 111 (wt_open_session lib (wd_st d))) (\<lambda>s.
           andThen (error_check fname 112 (wt_open_cursor lib ''table:ycsbc'' ''overwrite=true'' s)) (\<lambda>s.
           Inr ((), d\<lparr>wd_session := LiveHandle, wd_cursor := LiveHandle, wd_st := s\<rparr>))))
      else let home = GetProperty props ''wiredtiger.home'' '''' in
      if home = '''' then Inl (Exception ''wiredtiger home is missing'')
      else case wt_mkdir lib home (wd_st d) of (errno, s) \<Rightarrow>
      if errno \<noteq> 0 \<and> errno \<noteq> EEXIST then Inl (Exception (''Init mkdir: '' @ wt_strerror lib errno))
      else andThen (error_check fname 149 (wt_open lib home (db_config_of props) s)) (\<lambda>s.
      andThen (error_check fname 153 (wt_open_session lib s)) (\<lambda>s.
      andThen (table_config_of props) (\<lambda>table_config.
      andThen (error_check fname 190 (wt_create lib ''table:ycsbc'' table_config s)) (\<lambda>s.
      andThen (error_check fname 194 (wt_open_cursor lib ''table:ycsbc'' ''overwrite=true'' s)) (\<lambda>s.
      Inr ((), d\<lparr>wd_conn := LiveHandle, wd_session := LiveHandle, wd_cursor := LiveHandle, wd_st := s\<rparr>))))))))"

text \<open>The members \<^verbatim>\<open>conn_\<close>, \<^verbatim>\<open>session_\<close> and \<^verbatim>\<open>cursor_\<close> are not reset. Closing the connection ends all its cursors.\<close>

definition wt_deref :: "'s WTDB \<Rightarrow> 's res" where
  "wt_deref d = (if wd_cursor d = LiveHandle \<and> wd_conn d = LiveHandle then Inr (wd_st d) else Inl (Undefined ''cursor_ is not an open cursor''))"

definition WT_Cleanup :: "'s wt_lib \<Rightarrow> string \<Rightarrow> 's WTDB \<Rightarrow> (unit \<times> 's WTDB) res" where
  "WT_Cleanup lib fname d =
     andThen (wt_deref d) (\<lambda>s.
     let s = wt_cursor_close lib s in
     andThen (error_check fname 200 (wt_session_close lib s)) (\<lambda>s.
     let d = d\<lparr>wd_ref_cnt := wd_ref_cnt d - 1, wd_session := DeletedHandle, wd_cursor := DeletedHandle, wd_st := s\<rparr> in
     if wd_ref_cnt d \<noteq> 0 then Inr ((), d)
     else andThen (error_check fname 204 (wt_conn_close lib s)) (\<lambda>s.
       Inr ((), d\<lparr>wd_conn := DeletedHandle, wd_st := s\<rparr>))))"

definition WT_SerializeRow :: "Field list \<Rightarrow> string" where
  "WT_SerializeRow values = SerializeRow values []"

definition WT_DeserializeRow :: "bool \<Rightarrow> u32 \<Rightarrow> string \<Rightarrow> Field list res" where
  "WT_DeserializeRow ndebug fieldcount data =
     andThen (DeserializeRow_loop ndebug data 0 (length data) []) (\<lambda>values.
     andThen (assert_that ndebug (length values = unat fieldcount) ''values->size() == fieldcount_'') (\<lambda>_. Inr values))"

definition WT_DeserializeRowFilter :: "bool \<Rightarrow> string list \<Rightarrow> string \<Rightarrow> Field list res" where
  "WT_DeserializeRowFilter ndebug flds data =
     andThen (DeserializeRowFilter_loop ndebug data 0 (length data) flds []) (\<lambda>values.
     andThen (assert_that ndebug (length values = length flds) ''values->size() == fields.size()'') (\<lambda>_. Inr values))"

definition wt_reader :: "bool \<Rightarrow> u32 \<Rightarrow> string list option \<Rightarrow> string \<Rightarrow> Field list res" where
  "wt_reader ndebug fieldcount flds = (case flds of
       None \<Rightarrow> WT_DeserializeRow ndebug fieldcount
     | Some fs \<Rightarrow> WT_DeserializeRowFilter ndebug fs)"

definition WT_ReadSingleEntry ::
    "'s wt_lib \<Rightarrow> string \<Rightarrow> bool \<Rightarrow> string \<Rightarrow> string \<Rightarrow> string list option \<Rightarrow> 's WTDB \<Rightarrow> ((Status \<times> Field list) \<times> 's WTDB) res" where
  "WT_ReadSingleEntry lib fname ndebug table key flds d =
     andThen (wt_deref d) (\<lambda>s.
     case wt_search lib (wt_set_key lib key s) of (ret, s) \<Rightarrow>
     if ret = WT_NOTFOUND then Inr ((kNotFound, []), d\<lparr>wd_st := s\<rparr>)
     else if ret \<noteq> 0 then Inl (Exception ''wiredtiger search error'')
     else andThen (error_check fname 220 (wt_get_value lib s)) (\<lambda>v.
     andThen (wt_reader ndebug (wd_fieldcount d) flds v) (\<lambda>result.
     Inr ((kOK, result), d\<lparr>wd_st := s\<rparr>))))"

function wt_scan_loop ::
    "'s wt_lib \<Rightarrow> string \<Rightarrow> (string \<Rightarrow> Field list res) \<Rightarrow> int \<Rightarrow> int \<Rightarrow> int \<Rightarrow> 's \<Rightarrow> Field list list \<Rightarrow> Field list list res" where
  "wt_scan_loop lib fname deser ret i len s result =
     (if ret = 0 \<and> i < len
      then case error_check fname 242 (wt_get_value lib s) of Inl e \<Rightarrow> Inl e
        | Inr v \<Rightarrow> (case deser v of Inl e \<Rightarrow> Inl e
            | Inr values \<Rightarrow> wt_scan_loop lib fname deser ret (i + 1) len s (result @ [values]))
      else Inr result)"
  by pat_completeness auto
termination
  by (relation "measure (\<lambda>(lib, fname, deser, ret, i, len, _). nat (len - i))") auto

declare wt_scan_loop.simps [simp del]

definition WT_ScanSingleEntry ::
    "'s wt_lib \<Rightarrow> string \<Rightarrow> bool \<Rightarrow> string \<Rightarrow> string \<Rightarrow> int \<Rightarrow> string list option \<Rightarrow> 's WTDB \<Rightarrow> ((Status \<times> Field list list) \<times> 's WTDB) res" where
  "WT_ScanSingleEntry lib fname ndebug table key len flds d =
     andThen (wt_deref d) (\<lambda>s.
     andThen (error_check fname 237 (wt_search_near lib (wt_set_key lib key s))) (\<lambda>(exact, s).
     case if exact < 0 then wt_next lib s else (0, s) of (ret, s) \<Rightarrow>
     andThen (wt_scan_loop lib fname (wt_reader ndebug (wd_fieldcount d) flds) ret 0 len s []) (\<lambda>result.
     Inr ((kOK, result), d\<lparr>wd_st := s\<rparr>))))"

definition WT_UpdateSingleEntry ::
    "'s wt_lib \<Rightarrow> string \<Rightarrow> bool \<Rightarrow> string \<Rightarrow> string \<Rightarrow> Field list \<Rightarrow> 's WTDB \<Rightarrow> (Status \<times> 's WTDB) res" where
  "WT_UpdateSingleEntry lib fname ndebug table key values d =
     andThen (wt_deref d) (\<lambda>s.
     case wt_search lib (wt_set_key lib key s) of (ret, s) \<Rightarrow>
     if ret = WT_NOTFOUND then Inr (kNotFound, d\<lparr>wd_st := s\<rparr>)
     else if ret \<noteq> 0 then Inl (Exception ''wiredtiger search error'')
     else andThen (error_check fname 267 (wt_get_value lib s)) (\<lambda>v.
     andThen (WT_DeserializeRow ndebug (wd_fieldcount d) v) (\<lambda>current_values.
     andThen (assign_fields ndebug values current_values) (\<lambda>current_values.
     case wt_update lib (wt_set_value lib (WT_SerializeRow current_values) s) of (ret, s) \<Rightarrow>
     if ret = WT_NOTFOUND then Inr (kNotFound, d\<lparr>wd_st := s\<rparr>)
     else if ret \<noteq> 0 then Inl (Exception ''wiredtiger update error'')
     else Inr (kOK, d\<lparr>wd_st := s\<rparr>)))))"

definition WT_InsertSingleEntry :: "'s wt_lib \<Rightarrow> string \<Rightarrow> string \<Rightarrow> string \<Rightarrow> Field list \<Rightarrow> 's WTDB \<Rightarrow> (Status \<times> 's WTDB) res" where
  "WT_InsertSingleEntry lib fname table key values d =
     andThen (wt_deref d) (\<lambda>s.
     let s = wt_set_key lib key s; data = WT_SerializeRow values; s = wt_set_value lib data s in
     andThen (error_check fname 305 (wt_insert lib s)) (\<lambda>s. Inr (kOK, d\<lparr>wd_st := s\<rparr>)))"

definition WT_DeleteSingleEntry :: "'s wt_lib \<Rightarrow> string \<Rightarrow> string \<Rightarrow> string \<Rightarrow> 's WTDB \<Rightarrow> (Status \<times> 's WTDB) res" where
  "WT_DeleteSingleEntry lib fname table key d =
     andThen (wt_deref d) (\<lambda>s.
     andThen (error_check fname 312 (wt_remove lib (wt_set_key lib key s))) (\<lambda>s. Inr (kOK, d\<lparr>wd_st := s\<rparr>)))"

definition WT_ops :: "'s wt_lib \<Rightarrow> string \<Rightarrow> bool \<Rightarrow> 's WTDB DB" where
  "WT_ops lib fname ndebug =
     \<lparr>db_Init = WT_Init lib fname, db_Cleanup = WT_Cleanup lib fname,
      db_Read = WT_ReadSingleEntry lib fname ndebug, db_Scan = WT_ScanSingleEntry lib fname ndebug,
      db_Update = WT_UpdateSingleEntry lib fname ndebug, db_Insert = WT_InsertSingleEntry lib fname,
      db_Delete = WT_DeleteSingleEntry lib fname,
      db_ReadIdx = (\<lambda>_ _. Inl (Undefined ''pure virtual ReadIdx'')),
      db_ReInitBeforeTransaction = False,
      db_SetProps = (\<lambda>p d. d\<lparr>wd_props := p\<rparr>)\<rparr>"

section \<open>Records\<close>

interpretation wt_codec: row_codec WT_SerializeRow "WT_DeserializeRow ndebug fieldcount" names
    "distinct names \<and> length names = unat fieldcount" "WT_DeserializeRowFilter ndebug"
  for ndebug fieldcount names
proof unfold_locales
  fix r assume g: "distinct names \<and> length names = unat fieldcount" and r: "row_ok names r"
  have n: "length r = length names" using r by (auto simp: row_ok_def)
  show "WT_DeserializeRow ndebug fieldcount (WT_SerializeRow r) = Inr r"
    using whole_row(1) [OF r] g by (simp add: WT_DeserializeRow_def WT_SerializeRow_def n)
  fix flds assume f: "subseq flds names"
  show "WT_DeserializeRowFilter ndebug flds (WT_SerializeRow r) = Inr (project flds r)"
    using whole_row(2) [OF r conjunct1 [OF g] f, of ndebug]
    by (simp add: WT_DeserializeRowFilter_def WT_SerializeRow_def) (simp add: project_def)
qed

section \<open>The backend implements its table\<close>

text \<open>
  The abstract table of this backend: a scan of an empty table is an exception, and any other scan returns the first record at or
  after the key as many times as records were asked for.
\<close>

definition WT_table_ops :: "string \<Rightarrow> int \<Rightarrow> table DB" where
  "WT_table_ops fname rm = Table_ops\<lparr>
     db_Scan := (\<lambda>_ k n flds m. if m = Map.empty then Inl (wt_error fname 237)
       else Inr ((kOK, case keys_from k m of [] \<Rightarrow> [] | x # _ \<Rightarrow> replicate (nat n) (select flds (the (m x)))), m)),
     db_Delete := (\<lambda>t k m. if m k = None \<and> rm \<noteq> 0 then Inl (wt_error fname 312) else db_Delete Table_ops t k m)\<rparr>"

definition wd_ok :: "'s wt_lib \<Rightarrow> int \<Rightarrow> ('s \<Rightarrow> wt_state) \<Rightarrow> string list \<Rightarrow> 's WTDB \<Rightarrow> bool" where
  "wd_ok lib rm sm names d \<longleftrightarrow> wt_ok lib rm sm \<and> wd_conn d = LiveHandle \<and> wd_cursor d = LiveHandle
     \<and> distinct names \<and> length names = unat (wd_fieldcount d)
     \<and> all_rows (row_ok names) WT_SerializeRow (ws_data (sm (wd_st d)))"

definition wd_table :: "('s \<Rightarrow> wt_state) \<Rightarrow> bool \<Rightarrow> 's WTDB \<Rightarrow> table" where
  "wd_table sm ndebug d = decode_table (WT_DeserializeRow ndebug (wd_fieldcount d)) (ws_data (sm (wd_st d)))"

lemma wd_okD:
  assumes "wd_ok lib rm sm names d"
  shows "wt_ok lib rm sm" "wt_deref d = Inr (wd_st d)" "distinct names \<and> length names = unat (wd_fieldcount d)"
    "all_rows (row_ok names) WT_SerializeRow (ws_data (sm (wd_st d)))"
  using assms by (simp_all add: wd_ok_def wt_deref_def)

lemma wd_stored:
  assumes "wd_ok lib rm sm names d"
  obtains "ws_data (sm (wd_st d)) k = None" "wd_table sm ndebug d k = None"
  | r where "row_ok names r" "ws_data (sm (wd_st d)) k = Some (WT_SerializeRow r)" "wd_table sm ndebug d k = Some r"
      "WT_DeserializeRow ndebug (wd_fieldcount d) (WT_SerializeRow r) = Inr r"
proof (cases "ws_data (sm (wd_st d)) k")
  case None
  then show thesis by (intro that(1)) (simp_all add: wd_table_def decode_table_def)
next
  case (Some v)
  show thesis by (rule wt_codec.stored_row [OF wd_okD(3,4) [OF assms] Some, of ndebug]) (use that(2) Some in \<open>auto simp: wd_table_def\<close>)
qed

lemma wd_unchanged:
  assumes "wd_ok lib rm sm names d" and "ws_data (sm s) = ws_data (sm (wd_st d))"
  shows "wd_ok lib rm sm names (d\<lparr>wd_st := s\<rparr>)" and "wd_table sm ndebug (d\<lparr>wd_st := s\<rparr>) = wd_table sm ndebug d"
  using assms by (simp_all add: wd_ok_def wd_table_def)

lemma wd_stores:
  assumes ok: "wd_ok lib rm sm names d" and r: "row_ok names r" and s: "ws_data (sm s) = (ws_data (sm (wd_st d)))(k \<mapsto> WT_SerializeRow r)"
  shows "wd_ok lib rm sm names (d\<lparr>wd_st := s\<rparr>)" and "wd_table sm ndebug (d\<lparr>wd_st := s\<rparr>) = (wd_table sm ndebug d)(k \<mapsto> r)"
  using ok s wt_codec.rows_upd [OF wd_okD(4) [OF ok] r, of k] wt_codec.decode_upd [OF wd_okD(3) [OF ok] r]
  by (simp_all add: wd_ok_def wd_table_def)

text \<open>Setting the key and searching.\<close>

lemma wd_search:
  assumes "wd_ok lib rm sm names d"
  obtains s where "wt_search lib (wt_set_key lib k (wd_st d)) = (WT_NOTFOUND, s)" "ws_data (sm (wd_st d)) k = None"
      "wd_table sm ndebug d k = None" "wd_ok lib rm sm names (d\<lparr>wd_st := s\<rparr>)" "wd_table sm ndebug (d\<lparr>wd_st := s\<rparr>) = wd_table sm ndebug d"
  | r s where "wt_search lib (wt_set_key lib k (wd_st d)) = (0, s)" "row_ok names r" "wt_get_value lib s = (0, WT_SerializeRow r)"
      "ws_key (sm s) = Some k" "ws_data (sm s) = ws_data (sm (wd_st d))" "wd_table sm ndebug d k = Some r"
proof -
  note lib = wd_okD(1) [OF assms]
  obtain ret s where s: "wt_search lib (wt_set_key lib k (wd_st d)) = (ret, s)" by fastforce
  note sr = wt_okD(7) [OF lib, of "wt_set_key lib k (wd_st d)" k, unfolded s, simplified wt_okD(2,3) [OF lib], simplified]
  show thesis
  proof (cases rule: wd_stored [OF assms, of k ndebug])
    case 1
    then show thesis using that(1) [of s] sr s wd_unchanged [OF assms, of s] by simp
  next
    case (2 r)
    then have s0: "ret = 0" "ws_key (sm s) = Some k" "ws_data (sm s) = ws_data (sm (wd_st d))" and p: "ws_pos (sm s) = Some k" using sr by simp_all
    have "wt_get_value lib s = (0, WT_SerializeRow r)" by (rule wt_okD(10) [OF lib p]) (use 2 s0 in simp)
    then show thesis using that(2) [of s r] s s0 2 by simp
  qed
qed

lemma wd_Read:
  assumes ok: "wd_ok lib rm sm names d" and flds: "case flds of None \<Rightarrow> True | Some fs \<Rightarrow> subseq fs names"
  shows "\<exists>d'. WT_ReadSingleEntry lib fname ndebug t k flds d = Inr (case wd_table sm ndebug d k of None \<Rightarrow> (kNotFound, []) | Some r \<Rightarrow> (kOK, select flds r), d')
     \<and> wd_ok lib rm sm names d' \<and> wd_table sm ndebug d' = wd_table sm ndebug d"
proof (cases rule: wd_search [OF ok, of k ndebug])
  case (1 s)
  then show ?thesis using wd_okD(2) [OF ok] by (simp add: WT_ReadSingleEntry_def)
next
  case (2 r s)
  have "wt_reader ndebug (wd_fieldcount d) flds (WT_SerializeRow r) = Inr (select flds r)"
    unfolding wt_reader_def by (rule wt_codec.read_selected [OF wd_okD(3) [OF ok] 2(2) flds])
  then show ?thesis using 2 wd_okD(2) [OF ok] wd_unchanged [OF ok 2(5)] by (simp add: WT_ReadSingleEntry_def WT_NOTFOUND_def)
qed

lemma wd_Update:
  assumes ok: "wd_ok lib rm sm names d" and vs: "\<forall>fv \<in> set vs. fst fv \<in> set names \<and> small fv"
  shows "\<exists>d'. WT_UpdateSingleEntry lib fname ndebug t k vs d = Inr (if wd_table sm ndebug d k = None then kNotFound else kOK, d')
     \<and> wd_ok lib rm sm names d' \<and> wd_table sm ndebug d' =
       (case wd_table sm ndebug d k of None \<Rightarrow> wd_table sm ndebug d | Some r \<Rightarrow> (wd_table sm ndebug d)(k \<mapsto> overwrite vs r))"
proof (cases rule: wd_search [OF ok, of k ndebug])
  case (1 s)
  then show ?thesis using wd_okD(2) [OF ok] by (simp add: WT_UpdateSingleEntry_def)
next
  case (2 r s)
  note lib = wd_okD(1) [OF ok] and w = wt_codec.deser_ser [OF wd_okD(3) [OF ok] 2(2)]
  have upd: "assign_fields ndebug vs r = Inr (overwrite vs r)" "row_ok names (overwrite vs r)"
    using update_row [OF _ 2(2) vs] wd_okD(3) [OF ok] by simp_all
  let ?s = "wt_set_value lib (WT_SerializeRow (overwrite vs r)) s"
  obtain s1 where s1: "wt_update lib ?s = (0, s1)" "ws_data (sm s1) = (ws_data (sm (wd_st d)))(k \<mapsto> WT_SerializeRow (overwrite vs r))"
    using wt_okD(12) [OF lib, of ?s k "WT_SerializeRow (overwrite vs r)"] 2(4,5)
    by (cases "wt_update lib ?s") (simp add: wt_okD(4-6) [OF lib])
  have "WT_UpdateSingleEntry lib fname ndebug t k vs d = Inr (kOK, d\<lparr>wd_st := s1\<rparr>)"
    using 2(1,3) s1(1) upd(1) w wd_okD(2) [OF ok] by (simp add: WT_UpdateSingleEntry_def WT_NOTFOUND_def)
  then show ?thesis using wd_stores [OF ok upd(2) s1(2)] 2(6) by simp
qed

lemma wd_Insert:
  assumes ok: "wd_ok lib rm sm names d" and r: "row_ok names vs"
  shows "\<exists>d'. WT_InsertSingleEntry lib fname t k vs d = Inr (kOK, d') \<and> wd_ok lib rm sm names d'
     \<and> wd_table sm ndebug d' = (wd_table sm ndebug d)(k \<mapsto> vs)"
proof -
  note lib = wd_okD(1) [OF ok]
  let ?s = "wt_set_value lib (WT_SerializeRow vs) (wt_set_key lib k (wd_st d))"
  obtain s1 where s1: "wt_insert lib ?s = (0, s1)" "ws_data (sm s1) = (ws_data (sm (wd_st d)))(k \<mapsto> WT_SerializeRow vs)"
    using wt_okD(11) [OF lib, of ?s k "WT_SerializeRow vs"] by (cases "wt_insert lib ?s") (simp add: wt_okD(2-6) [OF lib])
  then have "WT_InsertSingleEntry lib fname t k vs d = Inr (kOK, d\<lparr>wd_st := s1\<rparr>)"
    using wd_okD(2) [OF ok] by (simp add: WT_InsertSingleEntry_def)
  then show ?thesis using wd_stores [OF ok r s1(2)] by simp
qed

lemma wd_Delete:
  assumes ok: "wd_ok lib rm sm names d"
  shows "if wd_table sm ndebug d k = None \<and> rm \<noteq> 0 then WT_DeleteSingleEntry lib fname t k d = Inl (wt_error fname 312)
     else \<exists>d'. WT_DeleteSingleEntry lib fname t k d = Inr (kOK, d') \<and> wd_ok lib rm sm names d'
       \<and> wd_table sm ndebug d' = (wd_table sm ndebug d)(k := None)"
proof -
  note lib = wd_okD(1) [OF ok]
  obtain rc s1 where s1: "wt_remove lib (wt_set_key lib k (wd_st d)) = (rc, s1)" by fastforce
  have rc: "rc = (if ws_data (sm (wd_st d)) k = None then rm else 0)" "ws_data (sm s1) = (ws_data (sm (wd_st d)))(k := None)"
    using wt_okD(13) [OF lib, of "wt_set_key lib k (wd_st d)" k] s1 by (simp_all add: wt_okD(2,3) [OF lib])
  have none: "wd_table sm ndebug d k = None \<longleftrightarrow> ws_data (sm (wd_st d)) k = None"
    using wt_codec.decode_None [OF wd_okD(3,4) [OF ok]] by (simp add: wd_table_def)
  have "wd_ok lib rm sm names (d\<lparr>wd_st := s1\<rparr>)" "wd_table sm ndebug (d\<lparr>wd_st := s1\<rparr>) = (wd_table sm ndebug d)(k := None)"
    using ok rc(2) wt_codec.rows_del [OF wd_okD(4) [OF ok], of k] wt_codec.decode_del by (simp_all add: wd_ok_def wd_table_def)
  then show ?thesis using s1 rc(1) none wd_okD(2) [OF ok] by (auto simp: WT_DeleteSingleEntry_def error_check_def)
qed

text \<open>Where the cursor stands after the search of a scan: at the first stored key that is not below the key of the scan.\<close>

lemma keys_from_first:
  assumes "finite (dom m)"
  shows "keys_from k m = [] \<longleftrightarrow> {x \<in> dom m. k \<le> x} = {}"
    and "{x \<in> dom m. k \<le> x} \<noteq> {} \<Longrightarrow> \<exists>ks. keys_from k m = Min {x \<in> dom m. k \<le> x} # ks"
  using assms sorted_list_of_set_nonempty [of "{x \<in> dom m. k \<le> x}"] by (auto simp: keys_from_def)

lemma adjacent_first:
  assumes "finite (dom m)" and "adjacent k m x"
  shows "x < k \<Longrightarrow> {y \<in> dom m. x < y} = {y \<in> dom m. k \<le> y}"
    and "\<not> x < k \<Longrightarrow> x \<in> {y \<in> dom m. k \<le> y} \<and> Min {y \<in> dom m. k \<le> y} = x"
proof -
  show "{y \<in> dom m. x < y} = {y \<in> dom m. k \<le> y}" if "x < k"
    using assms(2) that unfolding adjacent_def by (auto dest: leI less_le_trans)
  assume "\<not> x < k"
  then have x: "x \<in> {y \<in> dom m. k \<le> y}" using assms(2) by (simp add: adjacent_def)
  moreover have "Min {y \<in> dom m. k \<le> y} = x"
    using assms x unfolding adjacent_def by (intro Min_eqI) (auto simp: not_less [symmetric])
  ultimately show "x \<in> {y \<in> dom m. k \<le> y} \<and> Min {y \<in> dom m. k \<le> y} = x" by simp
qed

lemma wd_position:
  assumes lib: "wt_ok lib rm sm" and ne: "ws_data (sm s) \<noteq> Map.empty"
  obtains exact s1 ret s2 where "wt_search_near lib (wt_set_key lib k s) = (0, exact, s1)"
    "(if exact < 0 then wt_next lib s1 else (0, s1)) = (ret, s2)" "ws_data (sm s2) = ws_data (sm s)"
    "case keys_from k (ws_data (sm s)) of [] \<Rightarrow> ret = WT_NOTFOUND | x # _ \<Rightarrow> ret = 0 \<and> ws_pos (sm s2) = Some x \<and> x \<in> dom (ws_data (sm s))"
proof -
  let ?m = "ws_data (sm s)" and ?A = "{y \<in> dom (ws_data (sm s)). k \<le> y}"
  have fin: "finite (dom ?m)" by (rule wt_okD(1) [OF lib])
  obtain r exact s1 where s1: "wt_search_near lib (wt_set_key lib k s) = (r, exact, s1)" by (cases "wt_search_near lib (wt_set_key lib k s)")
  from wt_okD(8) [OF lib wt_okD(3) [OF lib], of k s, unfolded s1, simplified wt_okD(2) [OF lib]] ne obtain x
    where x: "r = 0" "ws_data (sm s1) = ?m" "ws_pos (sm s1) = Some x" "adjacent k ?m x" "exact < 0 \<longleftrightarrow> x < k" by auto
  obtain ret s2 where s2: "(if exact < 0 then wt_next lib s1 else (0, s1)) = (ret, s2)" by fastforce
  have "ws_data (sm s2) = ?m \<and> (if ?A = {} then ret = WT_NOTFOUND else ret = 0 \<and> ws_pos (sm s2) = Some (Min ?A))"
  proof (cases "x < k")
    case True
    with s2 x(5) have n: "wt_next lib s1 = (ret, s2)" by simp
    show ?thesis using wt_okD(9) [OF lib x(3), unfolded n] by (simp add: x(2) adjacent_first(1) [OF fin x(4) True])
  next
    case False
    with s2 x adjacent_first(2) [OF fin x(4) False] show ?thesis by auto
  qed
  then have q: "ws_data (sm s2) = ?m" "?A = {} \<Longrightarrow> ret = WT_NOTFOUND" "?A \<noteq> {} \<Longrightarrow> ret = 0 \<and> ws_pos (sm s2) = Some (Min ?A)"
    by presburger+
  have "case keys_from k ?m of [] \<Rightarrow> ret = WT_NOTFOUND | x # _ \<Rightarrow> ret = 0 \<and> ws_pos (sm s2) = Some x \<and> x \<in> dom ?m"
  proof (cases "?A = {}")
    case True
    then show ?thesis using q(2) keys_from_first(1) [OF fin, of k] by simp
  next
    case False
    have "Min ?A \<in> ?A" using fin False by (intro Min_in) auto
    moreover obtain ks where "keys_from k ?m = Min ?A # ks" using keys_from_first(2) [OF fin False] by blast
    ultimately show ?thesis using q(3) [OF False] by simp
  qed
  with that [of exact s1 ret s2] s1 s2 x(1) q(1) show thesis by simp
qed

lemma wt_scan_loop_repeats:
  assumes "wt_get_value lib s = (0, v)" and "deser v = Inr r"
  shows "wt_scan_loop lib fname deser 0 i len s result = Inr (result @ replicate (nat (len - i)) r)"
proof (induction "nat (len - i)" arbitrary: i result)
  case 0
  then show ?case by (subst wt_scan_loop.simps) simp
next
  case (Suc n)
  then have i: "i < len" "nat (len - (i + 1)) = n" by linarith+
  have "wt_scan_loop lib fname deser 0 (i + 1) len s (result @ [r]) = Inr ((result @ [r]) @ replicate n r)"
    using Suc.hyps(1) [of "i + 1"] i(2) by simp
  then show ?case using i assms Suc.hyps(2) [symmetric] by (subst wt_scan_loop.simps) simp
qed

lemma wd_Scan:
  assumes ok: "wd_ok lib rm sm names d" and flds: "case flds of None \<Rightarrow> True | Some fs \<Rightarrow> subseq fs names"
  shows "if wd_table sm ndebug d = Map.empty then WT_ScanSingleEntry lib fname ndebug t k n flds d = Inl (wt_error fname 237)
     else \<exists>d'. WT_ScanSingleEntry lib fname ndebug t k n flds d = Inr ((kOK, case keys_from k (wd_table sm ndebug d) of [] \<Rightarrow> []
         | x # _ \<Rightarrow> replicate (nat n) (select flds (the (wd_table sm ndebug d x)))), d')
       \<and> wd_ok lib rm sm names d' \<and> wd_table sm ndebug d' = wd_table sm ndebug d"
proof -
  let ?m = "ws_data (sm (wd_st d))"
  note lib = wd_okD(1) [OF ok]
  have keys: "keys_from k (wd_table sm ndebug d) = keys_from k ?m"
    using wt_codec.keys_from_decode [OF wd_okD(3,4) [OF ok]] by (simp add: wd_table_def)
  have empty: "wd_table sm ndebug d = Map.empty \<longleftrightarrow> ?m = Map.empty"
    using wt_codec.decode_None [OF wd_okD(3,4) [OF ok], of ndebug] by (auto simp: wd_table_def fun_eq_iff)
  show ?thesis
  proof (cases "?m = Map.empty")
    case True
    have "fst (wt_search_near lib (wt_set_key lib k (wd_st d))) = WT_NOTFOUND"
      using wt_okD(8) [OF lib wt_okD(3) [OF lib], of k "wd_st d", simplified wt_okD(2) [OF lib]] True by auto
    with True show ?thesis using empty wd_okD(2) [OF ok] by (simp add: WT_ScanSingleEntry_def error_check_def WT_NOTFOUND_def)
  next
    case False
    obtain exact s1 ret s2 where s: "wt_search_near lib (wt_set_key lib k (wd_st d)) = (0, exact, s1)"
      "(if exact < 0 then wt_next lib s1 else (0, s1)) = (ret, s2)" "ws_data (sm s2) = ?m"
      "case keys_from k ?m of [] \<Rightarrow> ret = WT_NOTFOUND | x # _ \<Rightarrow> ret = 0 \<and> ws_pos (sm s2) = Some x \<and> x \<in> dom ?m"
      by (rule wd_position [OF lib False])
    let ?rs = "case keys_from k ?m of [] \<Rightarrow> [] | x # _ \<Rightarrow> replicate (nat n) (select flds (the (wd_table sm ndebug d x)))"
    have "wt_scan_loop lib fname (wt_reader ndebug (wd_fieldcount d) flds) ret 0 n s2 [] = Inr ?rs"
    proof (cases "keys_from k ?m")
      case Nil
      then show ?thesis using s(4) by (subst wt_scan_loop.simps) (simp add: WT_NOTFOUND_def)
    next
      case (Cons x ks)
      then have x: "ret = 0" "ws_pos (sm s2) = Some x" "x \<in> dom ?m" using s(4) by simp_all
      then obtain r where r: "row_ok names r" "?m x = Some (WT_SerializeRow r)" "wd_table sm ndebug d x = Some r"
        by (cases rule: wd_stored [OF ok, of x ndebug]) auto
      have "wt_get_value lib s2 = (0, WT_SerializeRow r)" by (rule wt_okD(10) [OF lib x(2)]) (simp add: s(3) r(2))
      moreover have "wt_reader ndebug (wd_fieldcount d) flds (WT_SerializeRow r) = Inr (select flds r)"
        unfolding wt_reader_def by (rule wt_codec.read_selected [OF wd_okD(3) [OF ok] r(1) flds])
      ultimately show ?thesis using wt_scan_loop_repeats [of lib s2 _ _ _ fname 0 n "[]"] by (simp add: x(1) Cons r(3))
    qed
    then have "WT_ScanSingleEntry lib fname ndebug t k n flds d = Inr ((kOK, ?rs), d\<lparr>wd_st := s2\<rparr>)"
      using s(1,2) wd_okD(2) [OF ok] by (simp add: WT_ScanSingleEntry_def)
    then show ?thesis using wd_unchanged [OF ok s(3)] empty False keys by auto
  qed
qed

interpretation wiredtiger: db_exact "WT_ops lib fname ndebug" "WT_table_ops fname rm" "wd_table sm ndebug"
    "wd_ok lib rm sm names" "row_call names"
  for lib fname ndebug rm sm names
proof -
  have "map_sum id (apsnd (wd_table sm ndebug)) (db_call (WT_ops lib fname ndebug) c d)
         = db_call (WT_table_ops fname rm) c (wd_table sm ndebug d)
       \<and> (\<forall>r d'. db_call (WT_ops lib fname ndebug) c d = Inr (r, d') \<longrightarrow> wd_ok lib rm sm names d')"
    if ok: "wd_ok lib rm sm names d" and c: "row_call names c" for d c
  proof (cases c)
    case (CRead t k flds)
    with wd_Read [OF ok, of flds fname ndebug t k] c show ?thesis by (auto simp: WT_ops_def WT_table_ops_def Table_ops_def split: option.splits)
  next
    case (CScan t k n flds)
    with wd_Scan [OF ok, of flds ndebug fname t k n] c show ?thesis
      by (auto simp: WT_ops_def WT_table_ops_def split: if_splits)
  next
    case (CUpdate t k vs)
    with wd_Update [OF ok, of vs fname ndebug t k] c show ?thesis
      by (cases "wd_table sm ndebug d k") (auto simp: WT_ops_def WT_table_ops_def Table_ops_def)
  next
    case (CInsert t k vs)
    with wd_Insert [OF ok, of vs fname t k ndebug] c show ?thesis by (auto simp: WT_ops_def WT_table_ops_def Table_ops_def)
  next
    case (CDelete t k)
    with wd_Delete [OF ok, of ndebug k fname t] c show ?thesis
      by (auto simp: WT_ops_def WT_table_ops_def Table_ops_def split: if_splits)
  qed (use c in simp)
  then show "db_exact (WT_ops lib fname ndebug) (WT_table_ops fname rm) (wd_table sm ndebug) (wd_ok lib rm sm names) (row_call names)"
    by unfold_locales blast+
qed

section \<open>A library in memory\<close>

record mem_wt_state =
  wm_data :: "(string \<times> string) list"
  wm_key :: "string option"
  wm_value :: "string option"
  wm_pos :: "string option"

definition wm_abs :: "mem_wt_state \<Rightarrow> wt_state" where
  "wm_abs s = \<lparr>ws_data = map_of (wm_data s), ws_key = wm_key s, ws_value = wm_value s, ws_pos = wm_pos s\<rparr>"

definition wm_keys :: "(string \<Rightarrow> bool) \<Rightarrow> mem_wt_state \<Rightarrow> string list" where
  "wm_keys P s = filter P (map fst (wm_data s))"

definition mem_wt :: "mem_wt_state wt_lib" where
  "mem_wt =
     \<lparr>wt_mkdir = (\<lambda>_ s. (0, s)), wt_open = (\<lambda>_ _ s. (0, s)), wt_open_session = (\<lambda>s. (0, s)),
      wt_create = (\<lambda>_ _ s. (0, s)), wt_open_cursor = (\<lambda>_ _ s. (0, s)),
      wt_set_key = (\<lambda>k s. s\<lparr>wm_key := Some k\<rparr>), wt_set_value = (\<lambda>v s. s\<lparr>wm_value := Some v\<rparr>),
      wt_search = (\<lambda>s. if map_of (wm_data s) (the (wm_key s)) = None then (WT_NOTFOUND, s) else (0, s\<lparr>wm_pos := wm_key s\<rparr>)),
      wt_search_near = (\<lambda>s. let k = the (wm_key s); up = wm_keys (\<lambda>x. k \<le> x) s in
        if wm_data s = [] then (WT_NOTFOUND, 0, s)
        else if up = [] then (0, -1, s\<lparr>wm_pos := Some (Max (set (wm_keys (\<lambda>_. True) s)))\<rparr>)
        else (0, if Min (set up) = k then 0 else 1, s\<lparr>wm_pos := Some (Min (set up))\<rparr>)),
      wt_next = (\<lambda>s. let up = wm_keys (\<lambda>y. the (wm_pos s) < y) s in
        if up = [] then (WT_NOTFOUND, s) else (0, s\<lparr>wm_pos := Some (Min (set up))\<rparr>)),
      wt_get_value = (\<lambda>s. (0, the (map_of (wm_data s) (the (wm_pos s))))),
      wt_insert = (\<lambda>s. (0, s\<lparr>wm_data := mem_batch (wm_data s) (BPut (the (wm_key s)) (the (wm_value s)))\<rparr>)),
      wt_update = (\<lambda>s. (0, s\<lparr>wm_data := mem_batch (wm_data s) (BPut (the (wm_key s)) (the (wm_value s)))\<rparr>)),
      wt_remove = (\<lambda>s. (if map_of (wm_data s) (the (wm_key s)) = None then WT_NOTFOUND else 0,
        s\<lparr>wm_data := mem_batch (wm_data s) (BDelete (the (wm_key s)))\<rparr>)),
      wt_cursor_close = (\<lambda>s. s), wt_session_close = (\<lambda>s. (0, s)), wt_conn_close = (\<lambda>s. (0, s)), wt_strerror = (\<lambda>_. ''error'')\<rparr>"

lemma set_wm_keys: "set (wm_keys P s) = {x \<in> dom (map_of (wm_data s)). P x}"
  by (auto simp: wm_keys_def dom_map_of_conv_image_fst)

lemma wm_keys_empty: "wm_keys P s = [] \<longleftrightarrow> {x \<in> dom (map_of (wm_data s)). P x} = {}"
  using set_wm_keys [of P s] by (metis set_empty)

lemma mem_near:
  assumes "ws_key (wm_abs s) = Some k"
  shows "case wt_search_near mem_wt s of (ret, exact, s') \<Rightarrow> ws_data (wm_abs s') = ws_data (wm_abs s)
     \<and> (if ws_data (wm_abs s) = Map.empty then ret = WT_NOTFOUND
        else ret = 0 \<and> (\<exists>x. ws_pos (wm_abs s') = Some x \<and> adjacent k (ws_data (wm_abs s)) x \<and> (exact < 0 \<longleftrightarrow> x < k)))"
proof -
  let ?m = "map_of (wm_data s)"
  let ?up = "{x \<in> dom ?m. k \<le> x}"
  have k: "wm_key s = Some k" using assms by (simp add: wm_abs_def)
  have fin: "finite (dom ?m)" by (rule finite_dom_map_of)
  consider "wm_data s = []" | "wm_data s \<noteq> []" "?up = {}" | "wm_data s \<noteq> []" "?up \<noteq> {}" by blast
  then show ?thesis
  proof cases
    case 1
    then show ?thesis by (simp add: mem_wt_def wm_abs_def)
  next
    case 2
    then have ne: "dom ?m \<noteq> {}" by simp
    have m: "Max (dom ?m) \<in> dom ?m" "\<forall>y \<in> dom ?m. y \<le> Max (dom ?m)" using Max_in [OF fin ne] Max_ge [OF fin] by blast+
    then have "adjacent k ?m (Max (dom ?m))" "Max (dom ?m) < k" using 2(2) by (auto simp: adjacent_def not_le not_less)
    then show ?thesis using 2 k ne by (simp add: mem_wt_def wm_abs_def Let_def set_wm_keys wm_keys_empty)
  next
    case 3
    have m: "Min ?up \<in> ?up" "\<forall>y \<in> ?up. Min ?up \<le> y" using Min_in [of ?up] Min_le [of ?up] fin 3(2) by auto
    then have "adjacent k ?m (Min ?up)" "\<not> Min ?up < k" by (auto simp: adjacent_def not_less)
    then show ?thesis using 3 k by (simp add: mem_wt_def wm_abs_def Let_def set_wm_keys wm_keys_empty) blast
  qed
qed

lemma mem_wt_ok: "wt_ok mem_wt WT_NOTFOUND wm_abs"
proof -
  have d: "map_of (filter (\<lambda>kv. fst kv \<noteq> k) l) = (map_of l)(k := None)" for k and l :: "(string \<times> string) list"
    using map_of_mem_batch [of l "BDelete k"] by simp
  have "\<forall>x s. ws_pos (wm_abs s) = Some x \<longrightarrow> (case wt_next mem_wt s of (ret, s') \<Rightarrow> ws_data (wm_abs s') = ws_data (wm_abs s)
        \<and> (let later = {y \<in> dom (ws_data (wm_abs s)). x < y} in
           if later = {} then ret = WT_NOTFOUND else ret = 0 \<and> ws_pos (wm_abs s') = Some (Min later)))"
    by (auto simp: mem_wt_def wm_abs_def Let_def set_wm_keys wm_keys_empty)
  moreover have "\<forall>k s. ws_key (wm_abs s) = Some k \<longrightarrow> (case wt_search_near mem_wt s of (ret, exact, s') \<Rightarrow> ws_data (wm_abs s') = ws_data (wm_abs s)
        \<and> (if ws_data (wm_abs s) = Map.empty then ret = WT_NOTFOUND
           else ret = 0 \<and> (\<exists>x. ws_pos (wm_abs s') = Some x \<and> adjacent k (ws_data (wm_abs s)) x \<and> (exact < 0 \<longleftrightarrow> x < k))))"
    by (intro allI impI mem_near)
  ultimately show ?thesis unfolding wt_ok_def
    by (intro conjI) (simp_all add: mem_wt_def wm_abs_def d finite_dom_map_of)
qed

definition demo_wt :: "(string \<times> string) list \<Rightarrow> mem_wt_state WTDB" where
  "demo_wt l = \<lparr>wd_props = no_properties, wd_fieldcount = 1, wd_conn = LiveHandle, wd_ref_cnt = 1, wd_session = LiveHandle,
     wd_cursor = LiveHandle, wd_st = \<lparr>wm_data = l, wm_key = None, wm_value = None, wm_pos = None\<rparr>\<rparr>"

lemma demo_wt_ok:
  assumes "\<forall>kv \<in> set l. \<exists>v. snd kv = WT_SerializeRow [(''field0'', v)] \<and> length v < 2 ^ 32"
  shows "wd_ok mem_wt WT_NOTFOUND wm_abs [''field0''] (demo_wt l)"
proof -
  have "\<exists>r. row_ok [''field0''] r \<and> s = WT_SerializeRow r" if s: "s \<in> ran (map_of l)" for s
  proof -
    obtain k where "(k, s) \<in> set l" using s by (auto simp: ran_def dest: map_of_SomeD)
    then obtain v where "s = WT_SerializeRow [(''field0'', v)]" "length v < 2 ^ 32" using assms by fastforce
    then show ?thesis by (intro exI [of _ "[(''field0'', v)]"]) (simp add: row_ok_def small_def)
  qed
  then show ?thesis by (simp add: wd_ok_def mem_wt_ok demo_wt_def wm_abs_def all_rows_def)
qed

section \<open>Properties\<close>

text \<open>C14: The WiredTiger backend implements its table exactly, for every library that keeps its documented promises: any sequence of calls
  with the configured fields ends as it does in the table, with the same statuses, records and scan results or with the same exception at
  the same call.\<close>

theorem wiredtiger_matches_table:
  assumes "wd_ok lib rm sm names d" and "\<forall>c \<in> set cs. row_call names c"
  shows "map_sum id (apsnd (wd_table sm ndebug)) (db_calls (WT_ops lib fname ndebug) cs d)
       = db_calls (WT_table_ops fname rm) cs (wd_table sm ndebug d)"
  using wiredtiger.calls_exact [OF assms, of ndebug fname] by (rule conjunct1)

theorem wiredtiger_matches_table_witness:
  "\<exists>d'. db_calls (WT_ops mem_wt ''w.cc'' False)
     [CInsert ''t'' ''k'' [(''field0'', ''a'')], CUpdate ''t'' ''k'' [(''field0'', ''b'')], CUpdate ''t'' ''j'' [],
      CRead ''t'' ''k'' (Some [''field0'']), CScan ''t'' ''j'' 2 None, CDelete ''t'' ''k''] (demo_wt [])
   = Inr ([RStatus kOK, RStatus kOK, RStatus kNotFound, RFields kOK [(''field0'', ''b'')], RRows kOK [[(''field0'', ''b'')], [(''field0'', ''b'')]],
           RStatus kOK], d')"
proof -
  let ?cs = "[CInsert ''t'' ''k'' [(''field0'', ''a'')], CUpdate ''t'' ''k'' [(''field0'', ''b'')], CUpdate ''t'' ''j'' [],
      CRead ''t'' ''k'' (Some [''field0'']), CScan ''t'' ''j'' 2 None, CDelete ''t'' ''k'']"
  have c: "\<forall>c \<in> set ?cs. row_call [''field0''] c" by (simp add: row_ok_def small_def)
  have t: "wd_table wm_abs False (demo_wt []) = Map.empty" by (auto simp: wd_table_def decode_table_def demo_wt_def wm_abs_def)
  have "{x. x = ''k'' \<and> ''j'' \<le> x} = {''k''}" by auto
  then have k: "keys_from ''j'' [''k'' \<mapsto> r] = [''k'']" for r :: "Field list" by (simp add: keys_from_def)
  obtain m where m: "db_calls (WT_table_ops ''w.cc'' WT_NOTFOUND) ?cs Map.empty = Inr ([RStatus kOK, RStatus kOK, RStatus kNotFound,
      RFields kOK [(''field0'', ''b'')], RRows kOK [[(''field0'', ''b'')], [(''field0'', ''b'')]], RStatus kOK], m)"
    by (simp add: WT_table_ops_def Table_ops_def overwrite_def select_def project_def k numeral_2_eq_2)
  from wiredtiger_matches_table [OF demo_wt_ok c, of "[]" False "''w.cc''"] show ?thesis unfolding t m by (intro map_state_Inr) simp
qed

text \<open>C40: A scan of the WiredTiger backend never moves on: where the table has at least two records from the key on and at least two are
  asked for, the scan returns the first record as often as records were asked for, and the second record is not returned in its
  place.\<close>

theorem wiredtiger_scan_repeats_first:
  assumes "wd_ok lib rm sm names d" and "flds = None \<or> (\<exists>fs. flds = Some fs \<and> subseq fs names)"
    and "keys_from k (wd_table sm ndebug d) = x # y # ks" and "2 \<le> n"
    and "select flds (the (wd_table sm ndebug d x)) \<noteq> select flds (the (wd_table sm ndebug d y))"
  shows "\<exists>rs d' ts. WT_ScanSingleEntry lib fname ndebug t k n flds d = Inr ((kOK, rs), d')
     \<and> rs = replicate (nat n) (select flds (the (wd_table sm ndebug d x)))
     \<and> db_Scan Table_ops t k n flds (wd_table sm ndebug d) = Inr ((kOK, ts), wd_table sm ndebug d) \<and> rs ! 1 \<noteq> ts ! 1"
proof -
  have ne: "wd_table sm ndebug d \<noteq> Map.empty" using assms(3) by (auto simp: keys_from_def)
  have f: "case flds of None \<Rightarrow> True | Some fs \<Rightarrow> subseq fs names" using assms(2) by auto
  obtain j where j: "nat n = Suc (Suc j)" using assms(4) by (metis Suc_nat_eq_nat_zadd1 add_2_eq_Suc le_Suc_ex nat_le_iff nat_numeral zero_le_numeral nat_mono)
  show ?thesis using wd_Scan [OF assms(1) f, of ndebug fname t k n] ne assms(3,5) by (auto simp: Table_ops_def j)
qed

theorem wiredtiger_scan_repeats_first_witness:
  "\<exists>d'. WT_ScanSingleEntry mem_wt ''w.cc'' True ''t'' ''a'' 3 None
       (demo_wt [(''a'', WT_SerializeRow [(''field0'', ''x'')]), (''b'', WT_SerializeRow [(''field0'', ''y'')])])
     = Inr ((kOK, [[(''field0'', ''x'')], [(''field0'', ''x'')], [(''field0'', ''x'')]]), d')"
proof -
  let ?l = "[(''a'', WT_SerializeRow [(''field0'', ''x'')]), (''b'', WT_SerializeRow [(''field0'', ''y'')])]"
  have ok: "wd_ok mem_wt WT_NOTFOUND wm_abs [''field0''] (demo_wt ?l)"
  proof (rule demo_wt_ok)
    have "\<exists>v. WT_SerializeRow [(''field0'', w)] = WT_SerializeRow [(''field0'', v)] \<and> length v < 2 ^ 32" if "length w < 2 ^ 32" for w
      using that by blast
    then show "\<forall>kv \<in> set ?l. \<exists>v. snd kv = WT_SerializeRow [(''field0'', v)] \<and> length v < 2 ^ 32" by simp
  qed
  have r: "WT_DeserializeRow True 1 (WT_SerializeRow [(''field0'', v)]) = Inr [(''field0'', v)]" if "length v < 2 ^ 32" for v
    by (rule wt_codec.deser_ser [of "[''field0'']"]) (use that in \<open>simp_all add: row_ok_def small_def\<close>)
  have t: "wd_table wm_abs True (demo_wt ?l) = [''b'' \<mapsto> [(''field0'', ''y'')], ''a'' \<mapsto> [(''field0'', ''x'')]]"
    by (auto simp: wd_table_def decode_table_def demo_wt_def wm_abs_def r)
  have "{x. (x = ''a'' \<or> x = ''b'') \<and> ''a'' \<le> x} = {''a'', ''b''}" by auto
  then have k: "keys_from ''a'' (wd_table wm_abs True (demo_wt ?l)) = [''a'', ''b'']" by (simp add: t keys_from_def insort_is_Cons)
  show ?thesis using wiredtiger_scan_repeats_first [OF ok _ k, of None 3 "''w.cc''" "''t''"] by (simp add: t select_def numeral_3_eq_3)
qed

text \<open>
  \<^verbatim>\<open>Init\<close> after the last \<^verbatim>\<open>Cleanup\<close> opens a session on the closed connection, because \<^verbatim>\<open>conn_\<close> is not reset.
\<close>

lemma wiredtiger_reinit_undefined:
  assumes "WT_Cleanup lib fname d = Inr (u, d')" and "wd_ref_cnt d = 1"
    and "stoi (GetProperty (wd_props d) ''fieldcount'' ''10'') = Inr n" and "GetProperty (wd_props d) ''wiredtiger.format'' ''single'' = ''single''"
  shows "WT_Init lib fname d' = Inl (Undefined ''conn_ points to a closed connection'')"
proof -
  have "wd_conn d' = DeletedHandle" "wd_props d' = wd_props d"
    using assms(1,2) by (auto simp: WT_Cleanup_def res_simps Let_def)
  then show ?thesis using assms(3,4) by (simp add: WT_Init_def Let_def)
qed

end
