(* ===== verification/Redis.thy ===== *)
theory Redis
  imports KV_Store "HOL-Library.AList"
begin

text \<open>
  The Redis backend, \<^verbatim>\<open>src/redis/redis_db.h\<close> and \<^verbatim>\<open>src/redis/redis_db.cc\<close>: a record is a Redis hash under its key. The client library and
  the server behind it are a parameter; an error of the library is thrown through the backend.
\<close>

section \<open>The library\<close>

record 's redis_lib =
  rl_connect :: "string \<Rightarrow> int \<Rightarrow> 's \<Rightarrow> 's res"
  rl_hmget :: "string \<Rightarrow> string list \<Rightarrow> 's \<Rightarrow> (string option list \<times> 's) res"
  rl_hgetall :: "string \<Rightarrow> 's \<Rightarrow> (string list \<times> 's) res"
  rl_hmset :: "string \<Rightarrow> Field list \<Rightarrow> 's \<Rightarrow> 's res"
  rl_del :: "string \<Rightarrow> 's \<Rightarrow> 's res"

type_synonym hashes = "string \<Rightarrow> (string \<rightharpoonup> string)"

text \<open>
  The documented behaviour, over the hash of every key (empty for a key that does not exist). The commands \<^verbatim>\<open>HMGET\<close> and \<^verbatim>\<open>HMSET\<close> need at least one
  field; \<^verbatim>\<open>HGETALL\<close> returns every field followed by its value, in any order.
\<close>

definition redis_ok :: "'s redis_lib \<Rightarrow> ('s \<Rightarrow> hashes) \<Rightarrow> bool" where
  "redis_ok lib h \<longleftrightarrow>
     (\<forall>k fs s. fs \<noteq> [] \<longrightarrow> (\<exists>s'. rl_hmget lib k fs s = Inr (map (h s k) fs, s') \<and> h s' = h s))
   \<and> (\<forall>k s. \<exists>ps s'. rl_hgetall lib k s = Inr (concat (map (\<lambda>(f, v). [f, v]) ps), s') \<and> distinct (map fst ps) \<and> map_of ps = h s k \<and> h s' = h s)
   \<and> (\<forall>k vs s. vs \<noteq> [] \<longrightarrow> (\<exists>s'. rl_hmset lib k vs s = Inr s' \<and> h s' = (h s)(k := h s k ++ map_of (rev vs))))
   \<and> (\<forall>k s. \<exists>s'. rl_del lib k s = Inr s' \<and> h s' = (h s)(k := Map.empty))"

section \<open>The class\<close>

record 's RedisDB =
  rs_props :: Properties
  rs_redis :: bool
  rs_st :: 's

text \<open>\<^verbatim>\<open>redis_\<close> is null before \<^verbatim>\<open>Init\<close>.\<close>

definition rs_deref :: "'s RedisDB \<Rightarrow> 's res" where
  "rs_deref d = (if rs_redis d then Inr (rs_st d) else Inl (Undefined ''redis_ is null''))"

definition Redis_Init :: "'s redis_lib \<Rightarrow> 's RedisDB \<Rightarrow> (unit \<times> 's RedisDB) res" where
  "Redis_Init lib d =
     (let props = rs_props d; host = GetProperty props ''redis.host'' ''localhost'' in
      andThen (stoi (GetProperty props ''redis.port'' ''6379'')) (\<lambda>port.
      andThen (rl_connect lib host port (rs_st d)) (\<lambda>s.
      Inr ((), d\<lparr>rs_redis := True, rs_st := s\<rparr>))))"

text \<open>The loop over the answer of \<^verbatim>\<open>hmget\<close>; \<^verbatim>\<open>fields->at(i)\<close> throws when the answer is longer than the request.\<close>

fun field_values :: "string list \<Rightarrow> string option list \<Rightarrow> Field list \<Rightarrow> Field list res" where
  "field_values fs [] result = Inr result"
| "field_values [] (v # vs) result = Inl (OutOfRange ''vector::at'')"
| "field_values (f # fs) (v # vs) result = field_values fs vs (result @ [(f, case v of Some x \<Rightarrow> x | None \<Rightarrow> '''')])"

text \<open>The loop over the answer of \<^verbatim>\<open>hgetall\<close>, which takes the strings in pairs.\<close>

definition field_pairs :: "string list \<Rightarrow> Field list" where
  "field_pairs values = map (\<lambda>i. (values ! (2 * i), values ! (2 * i + 1))) [0..<length values div 2]"

definition Redis_Read ::
    "'s redis_lib \<Rightarrow> bool \<Rightarrow> string \<Rightarrow> string \<Rightarrow> string list option \<Rightarrow> 's RedisDB \<Rightarrow> ((Status \<times> Field list) \<times> 's RedisDB) res" where
  "Redis_Read lib ndebug table key flds d =
     andThen (rs_deref d) (\<lambda>s.
     case flds of
       Some fs \<Rightarrow>
         andThen (rl_hmget lib key fs s) (\<lambda>(values, s).
         andThen (assert_that ndebug (length fs = length values) ''fields->size() == values.size()'') (\<lambda>_.
         andThen (field_values fs values []) (\<lambda>result.
         Inr ((kOK, result), d\<lparr>rs_st := s\<rparr>))))
     | None \<Rightarrow>
         andThen (rl_hgetall lib key s) (\<lambda>(values, s).
         andThen (assert_that ndebug (length values mod 2 = 0) ''values.size() % 2 == 0'') (\<lambda>_.
         Inr ((kOK, field_pairs values), d\<lparr>rs_st := s\<rparr>))))"

definition Redis_Update :: "'s redis_lib \<Rightarrow> string \<Rightarrow> string \<Rightarrow> Field list \<Rightarrow> 's RedisDB \<Rightarrow> (Status \<times> 's RedisDB) res" where
  "Redis_Update lib table key values d =
     andThen (rs_deref d) (\<lambda>s. andThen (rl_hmset lib key values s) (\<lambda>s. Inr (kOK, d\<lparr>rs_st := s\<rparr>)))"

definition Redis_Delete :: "'s redis_lib \<Rightarrow> string \<Rightarrow> string \<Rightarrow> 's RedisDB \<Rightarrow> (Status \<times> 's RedisDB) res" where
  "Redis_Delete lib table key d =
     andThen (rs_deref d) (\<lambda>s. andThen (rl_del lib key s) (\<lambda>s. Inr (kOK, d\<lparr>rs_st := s\<rparr>)))"

definition Redis_ops :: "'s redis_lib \<Rightarrow> bool \<Rightarrow> 's RedisDB DB" where
  "Redis_ops lib ndebug =
     \<lparr>db_Init = Redis_Init lib, db_Cleanup = (\<lambda>d. Inr ((), d)),
      db_Read = Redis_Read lib ndebug,
      db_Scan = (\<lambda>_ _ _ _ _. Inl (ThrownLiteral ''Scan: function not implemented!'')),
      db_Update = Redis_Update lib, db_Insert = Redis_Update lib, db_Delete = Redis_Delete lib,
      db_ReadIdx = (\<lambda>_ _. Inl (Undefined ''pure virtual ReadIdx'')),
      db_ReInitBeforeTransaction = False,
      db_SetProps = (\<lambda>p d. d\<lparr>rs_props := p\<rparr>)\<rparr>"

section \<open>The backend implements a table of hashes\<close>

text \<open>
  The abstract table: writes set the fields they name and keep the others, a delete empties the hash, and a read of named fields gives the
  empty string for a field that is not there. Every status is \<^verbatim>\<open>kOK\<close>. A read of all fields has no fixed order and is stated separately.
\<close>

definition Hash_ops :: "hashes DB" where
  "Hash_ops =
     \<lparr>db_Init = (\<lambda>m. Inr ((), m)), db_Cleanup = (\<lambda>m. Inr ((), m)),
      db_Read = (\<lambda>_ k flds m. Inr ((kOK, map (\<lambda>f. (f, case m k f of Some v \<Rightarrow> v | None \<Rightarrow> '''')) (the flds)), m)),
      db_Scan = (\<lambda>_ _ _ _ _. Inl (ThrownLiteral ''Scan: function not implemented!'')),
      db_Update = (\<lambda>_ k vs m. Inr (kOK, m(k := m k ++ map_of (rev vs)))),
      db_Insert = (\<lambda>_ k vs m. Inr (kOK, m(k := m k ++ map_of (rev vs)))),
      db_Delete = (\<lambda>_ k m. Inr (kOK, m(k := Map.empty))),
      db_ReadIdx = (\<lambda>_ _. Inl (Undefined ''pure virtual ReadIdx'')),
      db_ReInitBeforeTransaction = False, db_SetProps = (\<lambda>_ m. m)\<rparr>"

fun hash_call :: "dbcall \<Rightarrow> bool" where
  "hash_call (CRead _ _ flds) = (flds \<noteq> None \<and> flds \<noteq> Some [])"
| "hash_call (CUpdate _ _ vs) = (vs \<noteq> [])"
| "hash_call (CInsert _ _ vs) = (vs \<noteq> [])"
| "hash_call _ = True"

definition rs_ok :: "'s redis_lib \<Rightarrow> ('s \<Rightarrow> hashes) \<Rightarrow> 's RedisDB \<Rightarrow> bool" where
  "rs_ok lib h d \<longleftrightarrow> redis_ok lib h \<and> rs_redis d"

lemma field_values_all: "field_values fs (map g fs) result = Inr (result @ map (\<lambda>f. (f, case g f of Some x \<Rightarrow> x | None \<Rightarrow> '''')) fs)"
  by (induction fs arbitrary: result) simp_all

lemma field_pairs_concat: "field_pairs (concat (map (\<lambda>(f, v). [f, v]) ps)) = ps"
proof (induction ps)
  case (Cons p ps)
  let ?c = "\<lambda>ps. concat (map (\<lambda>(f, v). [f, v]) ps)"
  obtain f v where p: "p = (f, v)" by (cases p)
  have "length (?c (p # ps)) div 2 = Suc (length (?c ps) div 2)" by (simp add: p)
  then have "field_pairs (?c (p # ps)) = (f, v) # map (\<lambda>i. (?c ps ! (2 * i), ?c ps ! (2 * i + 1))) [0..<length (?c ps) div 2]"
    unfolding field_pairs_def by (simp only: upt_conv_Cons [of 0 "Suc _"] zero_less_Suc map_Suc_upt [symmetric] list.map map_map) (simp add: p)
  also have "\<dots> = p # ps" using Cons.IH by (simp add: field_pairs_def p)
  finally show ?case .
qed (simp add: field_pairs_def)

interpretation redis: db_exact "Redis_ops lib ndebug" Hash_ops "\<lambda>d. h (rs_st d)" "rs_ok lib h" hash_call
  for lib ndebug h
proof -
  have "map_sum id (apsnd (\<lambda>d. h (rs_st d))) (db_call (Redis_ops lib ndebug) c d) = db_call Hash_ops c (h (rs_st d))
       \<and> (\<forall>r d'. db_call (Redis_ops lib ndebug) c d = Inr (r, d') \<longrightarrow> rs_ok lib h d')"
    if ok: "rs_ok lib h d" and c: "hash_call c" for c d
  proof -
    have lib: "redis_ok lib h" and d: "rs_deref d = Inr (rs_st d)" "rs_redis d" using ok by (simp_all add: rs_ok_def rs_deref_def)
    have wr: "\<exists>s. Redis_Update lib t k vs d = Inr (kOK, d\<lparr>rs_st := s\<rparr>) \<and> h s = (h (rs_st d))(k := h (rs_st d) k ++ map_of (rev vs))"
      if "vs \<noteq> []" for t k vs
    proof -
      obtain s where "rl_hmset lib k vs (rs_st d) = Inr s" "h s = (h (rs_st d))(k := h (rs_st d) k ++ map_of (rev vs))"
        using lib \<open>vs \<noteq> []\<close> unfolding redis_ok_def by blast
      then show ?thesis using d by (intro exI [of _ s]) (simp add: Redis_Update_def)
    qed
    show ?thesis
    proof (cases c)
      case (CRead t k flds)
      then obtain fs where fs: "flds = Some fs" "fs \<noteq> []" using c by auto
      obtain s where s: "rl_hmget lib k fs (rs_st d) = Inr (map (h (rs_st d) k) fs, s)" "h s = h (rs_st d)"
        using lib fs(2) unfolding redis_ok_def by blast
      show ?thesis using CRead fs s d lib by (simp add: Redis_ops_def Redis_Read_def Hash_ops_def rs_ok_def field_values_all)
    next
      case (CUpdate t k vs)
      with wr [of vs t k] c lib d(2) show ?thesis by (auto simp: Redis_ops_def Hash_ops_def rs_ok_def)
    next
      case (CInsert t k vs)
      with wr [of vs t k] c lib d(2) show ?thesis by (auto simp: Redis_ops_def Hash_ops_def rs_ok_def)
    next
      case (CDelete t k)
      obtain s where "rl_del lib k (rs_st d) = Inr s" "h s = (h (rs_st d))(k := Map.empty)" using lib unfolding redis_ok_def by blast
      with CDelete d lib show ?thesis by (simp add: Redis_ops_def Redis_Delete_def Hash_ops_def rs_ok_def)
    qed (simp_all add: Redis_ops_def Hash_ops_def)
  qed
  then show "db_exact (Redis_ops lib ndebug) Hash_ops (\<lambda>d. h (rs_st d)) (rs_ok lib h) hash_call" by unfold_locales blast+
qed

section \<open>A server in memory\<close>

text \<open>Every write is kept as a hash in front of the older ones.\<close>

fun mem_hash :: "(string \<times> Field list option) list \<Rightarrow> string \<Rightarrow> Field list" where
  "mem_hash [] k = []"
| "mem_hash ((k', w) # s) k = (if k' \<noteq> k then mem_hash s k
     else case w of None \<Rightarrow> [] | Some vs \<Rightarrow> AList.updates (map fst vs) (map snd vs) (mem_hash s k))"

definition mem_redis :: "(string \<times> Field list option) list redis_lib" where
  "mem_redis =
     \<lparr>rl_connect = (\<lambda>_ _ s. Inr s), rl_hmget = (\<lambda>k fs s. Inr (map (map_of (mem_hash s k)) fs, s)),
      rl_hgetall = (\<lambda>k s. Inr (concat (map (\<lambda>(f, v). [f, v]) (mem_hash s k)), s)),
      rl_hmset = (\<lambda>k vs s. Inr ((k, Some vs) # s)), rl_del = (\<lambda>k s. Inr ((k, None) # s))\<rparr>"

lemma distinct_mem_hash: "distinct (map fst (mem_hash s k))"
  by (induction s k rule: mem_hash.induct) (auto split: option.splits intro: distinct_updates)

lemma mem_redis_ok: "redis_ok mem_redis (\<lambda>s k. map_of (mem_hash s k))"
proof -
  have "map_of (AList.updates (map fst vs) (map snd vs) r) = map_of r ++ map_of (rev vs)" for vs r :: "Field list"
    by (simp add: updates_conv' map_upds_def zip_map_fst_snd)
  then show ?thesis using distinct_mem_hash by (auto simp: redis_ok_def mem_redis_def fun_eq_iff)
qed

section \<open>Properties\<close>

text \<open>C16: The Redis backend implements the table of hashes, for every library that keeps its documented promises: any sequence of calls that name at
  least one field ends as it does in the table, and a read of all fields that follows returns each field of the record once, with its value.\<close>

theorem redis_matches_hashes:
  assumes "redis_ok lib h" and "rs_redis d" and "\<forall>c \<in> set cs. hash_call c"
  shows "map_sum id (apsnd (\<lambda>d. h (rs_st d))) (db_calls (Redis_ops lib ndebug) cs d) = db_calls Hash_ops cs (h (rs_st d))
     \<and> (\<forall>rs d' t k. db_calls (Redis_ops lib ndebug) cs d = Inr (rs, d') \<longrightarrow>
          (\<exists>ps d''. Redis_Read lib ndebug t k None d' = Inr ((kOK, ps), d'') \<and> distinct (map fst ps) \<and> map_of ps = h (rs_st d') k))"
proof -
  have ok: "rs_ok lib h d" using assms(1,2) by (simp add: rs_ok_def)
  have "\<exists>ps d''. Redis_Read lib ndebug t k None d' = Inr ((kOK, ps), d'') \<and> distinct (map fst ps) \<and> map_of ps = h (rs_st d') k"
    if "rs_ok lib h d'" for t k d'
  proof -
    obtain ps s where ps: "rl_hgetall lib k (rs_st d') = Inr (concat (map (\<lambda>(f, v). [f, v]) ps), s)" "distinct (map fst ps)" "map_of ps = h (rs_st d') k"
      using assms(1) unfolding redis_ok_def by blast
    have "length (concat (map (\<lambda>(f, v). [f, v]) ps)) mod 2 = 0" by (induction ps) auto
    then show ?thesis using ps that by (simp add: Redis_Read_def rs_deref_def rs_ok_def field_pairs_concat)
  qed
  then show ?thesis using redis.calls_exact [OF ok assms(3), of ndebug] by blast
qed

theorem redis_matches_hashes_witness:
  "\<exists>d'. db_calls (Redis_ops mem_redis False)
     [CInsert ''t'' ''k'' [(''f'', ''a''), (''g'', ''b'')], CUpdate ''t'' ''k'' [(''g'', ''c'')], CRead ''t'' ''k'' (Some [''g'', ''f'', ''x'']),
      CDelete ''t'' ''k'', CRead ''t'' ''k'' (Some [''f''])] \<lparr>rs_props = no_properties, rs_redis = True, rs_st = []\<rparr>
     = Inr ([RStatus kOK, RStatus kOK, RFields kOK [(''g'', ''c''), (''f'', ''a''), (''x'', [])], RStatus kOK, RFields kOK [(''f'', [])]], d')"
proof -
  let ?d = "\<lparr>rs_props = no_properties, rs_redis = True, rs_st = []\<rparr> :: (string \<times> Field list option) list RedisDB"
  let ?cs = "[CInsert ''t'' ''k'' [(''f'', ''a''), (''g'', ''b'')], CUpdate ''t'' ''k'' [(''g'', ''c'')], CRead ''t'' ''k'' (Some [''g'', ''f'', ''x'']),
      CDelete ''t'' ''k'', CRead ''t'' ''k'' (Some [''f''])]"
  obtain m where m: "db_calls Hash_ops ?cs (\<lambda>k. map_of (mem_hash (rs_st ?d) k))
      = Inr ([RStatus kOK, RStatus kOK, RFields kOK [(''g'', ''c''), (''f'', ''a''), (''x'', [])], RStatus kOK, RFields kOK [(''f'', [])]], m)"
    by (simp add: Hash_ops_def)
  from redis_matches_hashes [OF mem_redis_ok, of ?d ?cs False] show ?thesis unfolding m by (intro map_state_Inr) (auto simp del: db_calls.simps)
qed

end
