(* ===== verification/Sql_Servers.thy ===== *)
theory Sql_Servers
  imports KV_Store
begin

text \<open>
  The backends that talk to an SQL server: \<^verbatim>\<open>src/postgres/postgres_db.h\<close>, \<^verbatim>\<open>src/postgres/postgres_db.cc\<close>, \<^verbatim>\<open>src/mariadb/maria_db.h\<close> and
  \<^verbatim>\<open>src/mariadb/maria_db.cc\<close>. The client libraries with the servers behind them are parameters; what PostgreSQL documents for the
  statements the backend sends is \<open>pg_ok\<close>. The texts on the console are not modelled.
\<close>

section \<open>PostgreSQL\<close>

text \<open>The results of a query that the code tells apart: rows, the number of rows a command has affected, and an error.\<close>

datatype pg_result = PGRES_TUPLES_OK "string list list" | PGRES_COMMAND_OK string | PGRES_ERROR string

record 's pg_lib =
  pq_connectdb :: "string \<Rightarrow> 's \<Rightarrow> bool \<times> 's"
  pq_exec :: "string \<Rightarrow> 's \<Rightarrow> pg_result \<times> 's"
  pq_execParams :: "string \<Rightarrow> string \<Rightarrow> 's \<Rightarrow> pg_result \<times> 's"
  pq_finish :: "'s \<Rightarrow> 's"

record 's PostgresDB =
  pg_props :: Properties
  pg_conn :: bool
  pg_st :: 's

text \<open>What the library sees of a string it is given as a C string; a parameter in text format is one too, its length is ignored.\<close>

definition c_str :: "string \<Rightarrow> string" where
  "c_str s = takeWhile (\<lambda>c. c \<noteq> CHR 0x00) s"

definition squote :: string where "squote = [CHR 0x27]"

definition pg_exists_query :: "string \<Rightarrow> string" where
  "pg_exists_query table_name = ''SELECT EXISTS (SELECT 1 FROM information_schema.tables WHERE table_name = '' @ squote @ table_name @ squote @ '')''"

definition pg_create_query :: "string \<Rightarrow> string" where
  "pg_create_query table_name = ''CREATE TABLE '' @ table_name @ ''('' @ ''YCSB_KEY'' @ '' VARCHAR(255) PRIMARY KEY, '' @ ''YCSB_VALUE'' @ '' TEXT)''"

definition pg_read_query :: "string \<Rightarrow> string \<Rightarrow> string" where
  "pg_read_query table key = ''SELECT '' @ ''YCSB_VALUE'' @ '' FROM '' @ table @ '' WHERE '' @ ''YCSB_KEY'' @ '' = '' @ squote @ key @ squote"

definition pg_update_query :: "string \<Rightarrow> string \<Rightarrow> string" where
  "pg_update_query table key = ''UPDATE '' @ table @ '' SET '' @ ''YCSB_VALUE'' @ '' = $1::text WHERE '' @ ''YCSB_KEY'' @ '' = '' @ squote @ key @ squote"

definition pg_insert_query :: "string \<Rightarrow> string \<Rightarrow> string" where
  "pg_insert_query table key = ''INSERT INTO '' @ table @ '' ('' @ ''YCSB_KEY'' @ '','' @ ''YCSB_VALUE'' @ '') VALUES ('' @ squote @ key @ squote @ '', $1::varchar(255))''"

definition pg_delete_query :: "string \<Rightarrow> string \<Rightarrow> string" where
  "pg_delete_query table key = ''DELETE FROM '' @ table @ '' WHERE '' @ ''YCSB_KEY'' @ '' = '' @ squote @ key @ squote"

definition Postgres_Init :: "'s pg_lib \<Rightarrow> 's PostgresDB \<Rightarrow> (unit \<times> 's PostgresDB) res" where
  "Postgres_Init lib d =
     (let props = pg_props d;
          conninfo = ''postgresql://'' @ GetProperty props ''pgsql.hostaddr'' ''localhost'' @ '':'' @ GetProperty props ''pgsql.port'' ''5432''
            @ ''/'' @ GetProperty props ''pgsql.dbname'' ''postgres'' in
      case pq_connectdb lib (c_str conninfo) (pg_st d) of (connection_ok, s) \<Rightarrow>
      if \<not> connection_ok then Inl (Exit 1)
      else let table_name = GetProperty props ''table'' ''usertable'' in
      case pq_exec lib (c_str (pg_exists_query table_name)) s of (res, s) \<Rightarrow>
      (case res of
         PGRES_TUPLES_OK ((exist # _) # _) \<Rightarrow>
           if exist = ''t'' then Inr ((), d\<lparr>pg_conn := True, pg_st := s\<rparr>)
           else (case pq_exec lib (c_str (pg_create_query table_name)) s of (res, s) \<Rightarrow>
             (case res of PGRES_COMMAND_OK _ \<Rightarrow> Inr ((), d\<lparr>pg_conn := True, pg_st := s\<rparr>) | _ \<Rightarrow> Inl (Exit 1)))
       | PGRES_TUPLES_OK _ \<Rightarrow> Inl (Undefined ''strcmp of a missing value'')
       | _ \<Rightarrow> Inl (Exit 1)))"

definition pg_deref :: "'s PostgresDB \<Rightarrow> 's res" where
  "pg_deref d = (if pg_conn d then Inr (pg_st d) else Inl (Undefined ''conn_ is not a connection''))"

definition Postgres_Cleanup :: "'s pg_lib \<Rightarrow> 's PostgresDB \<Rightarrow> (unit \<times> 's PostgresDB) res" where
  "Postgres_Cleanup lib d = andThen (pg_deref d) (\<lambda>s. Inr ((), d\<lparr>pg_conn := False, pg_st := pq_finish lib s\<rparr>))"

definition Postgres_Read ::
    "'s pg_lib \<Rightarrow> bool \<Rightarrow> string \<Rightarrow> string \<Rightarrow> string list option \<Rightarrow> 's PostgresDB \<Rightarrow> ((Status \<times> Field list) \<times> 's PostgresDB) res" where
  "Postgres_Read lib ndebug table key flds d =
     andThen (pg_deref d) (\<lambda>s.
     case pq_exec lib (c_str (pg_read_query table key)) s of (res, s) \<Rightarrow>
     (case res of
        PGRES_TUPLES_OK [row] \<Rightarrow>
          andThen (assert_that ndebug (length row = 1) ''PQnfields(res) == 1'') (\<lambda>_.
          case row of [] \<Rightarrow> Inl (Undefined ''string from a null pointer'') | v # _ \<Rightarrow> Inr ((kOK, [('''', v)]), d\<lparr>pg_st := s\<rparr>))
      | PGRES_TUPLES_OK _ \<Rightarrow> Inr ((kNotFound, []), d\<lparr>pg_st := s\<rparr>)
      | _ \<Rightarrow> Inr ((kError, []), d\<lparr>pg_st := s\<rparr>)))"

text \<open>The value that is stored: the values of the fields one after the other, without their names.\<close>

fun append_values :: "Field list \<Rightarrow> string \<Rightarrow> string" where
  "append_values [] val = val"
| "append_values (f # values) val = append_values values (val @ snd f)"

definition Postgres_Update :: "'s pg_lib \<Rightarrow> string \<Rightarrow> string \<Rightarrow> Field list \<Rightarrow> 's PostgresDB \<Rightarrow> (Status \<times> 's PostgresDB) res" where
  "Postgres_Update lib table key values d =
     (let val = append_values values '''' in
      andThen (pg_deref d) (\<lambda>s.
      case pq_execParams lib (c_str (pg_update_query table key)) (c_str val) s of (res, s) \<Rightarrow>
      (case res of
         PGRES_COMMAND_OK cmd_tuples \<Rightarrow> andThen (stoi cmd_tuples) (\<lambda>n. Inr (if n = 0 then kNotFound else kOK, d\<lparr>pg_st := s\<rparr>))
       | _ \<Rightarrow> Inr (kError, d\<lparr>pg_st := s\<rparr>))))"

definition Postgres_Insert :: "'s pg_lib \<Rightarrow> string \<Rightarrow> string \<Rightarrow> Field list \<Rightarrow> 's PostgresDB \<Rightarrow> (Status \<times> 's PostgresDB) res" where
  "Postgres_Insert lib table key values d =
     (let val = append_values values '''' in
      andThen (pg_deref d) (\<lambda>s.
      case pq_execParams lib (c_str (pg_insert_query table key)) (c_str val) s of (res, s) \<Rightarrow>
      (case res of
         PGRES_COMMAND_OK _ \<Rightarrow> Inr (kOK, d\<lparr>pg_st := s\<rparr>)
       | _ \<Rightarrow> Inr (kError, d\<lparr>pg_st := s\<rparr>))))"

definition Postgres_Delete :: "'s pg_lib \<Rightarrow> string \<Rightarrow> string \<Rightarrow> 's PostgresDB \<Rightarrow> (Status \<times> 's PostgresDB) res" where
  "Postgres_Delete lib table key d =
     andThen (pg_deref d) (\<lambda>s.
     case pq_exec lib (c_str (pg_delete_query table key)) s of (res, s) \<Rightarrow>
     (case res of
        PGRES_COMMAND_OK _ \<Rightarrow> Inr (kOK, d\<lparr>pg_st := s\<rparr>)
      | _ \<Rightarrow> Inr (kError, d\<lparr>pg_st := s\<rparr>)))"

definition Postgres_ops :: "'s pg_lib \<Rightarrow> bool \<Rightarrow> 's PostgresDB DB" where
  "Postgres_ops lib ndebug =
     \<lparr>db_Init = Postgres_Init lib, db_Cleanup = Postgres_Cleanup lib,
      db_Read = Postgres_Read lib ndebug,
      db_Scan = (\<lambda>_ _ _ _ d. Inr ((kNotImplemented, []), d)),
      db_Update = Postgres_Update lib, db_Insert = Postgres_Insert lib, db_Delete = Postgres_Delete lib,
      db_ReadIdx = (\<lambda>_ _. Inl (Undefined ''pure virtual ReadIdx'')),
      db_ReInitBeforeTransaction = False,
      db_SetProps = (\<lambda>p d. d\<lparr>pg_props := p\<rparr>)\<rparr>"

subsection \<open>The documented behaviour\<close>

text \<open>
  Keys of at most 255 printable ASCII characters without quote and backslash are themselves between the quotes of a literal; values are of ASCII
  characters without zero bytes. An explicit cast to \<^verbatim>\<open>varchar(255)\<close> cuts a longer text at 255 characters without an error, a second row for a
  primary key is an error, and a command reports the number of rows it has affected.
\<close>

definition pg_key_ok :: "string \<Rightarrow> bool" where
  "pg_key_ok k \<longleftrightarrow> length k \<le> 255 \<and> (\<forall>c \<in> set k. 32 \<le> (of_char c :: nat) \<and> (of_char c :: nat) < 127 \<and> c \<noteq> CHR 0x27 \<and> c \<noteq> CHR 0x5C)"

definition pg_text_ok :: "string \<Rightarrow> bool" where
  "pg_text_ok v \<longleftrightarrow> (\<forall>c \<in> set v. 0 < (of_char c :: nat) \<and> (of_char c :: nat) < 128)"

definition pg_ok :: "'s pg_lib \<Rightarrow> string \<Rightarrow> ('s \<Rightarrow> string \<rightharpoonup> string) \<Rightarrow> bool" where
  "pg_ok lib table tbl \<longleftrightarrow> CHR 0x00 \<notin> set table
   \<and> (\<forall>k s. pg_key_ok k \<longrightarrow>
        (\<exists>s'. pq_exec lib (pg_read_query table k) s = (PGRES_TUPLES_OK (case tbl s k of None \<Rightarrow> [] | Some v \<Rightarrow> [[v]]), s') \<and> tbl s' = tbl s)
      \<and> (\<exists>n s'. pq_exec lib (pg_delete_query table k) s = (PGRES_COMMAND_OK n, s') \<and> tbl s' = (tbl s)(k := None)))
   \<and> (\<forall>k v s. pg_key_ok k \<longrightarrow> pg_text_ok v \<longrightarrow>
        (\<exists>s'. pq_execParams lib (pg_update_query table k) v s = (PGRES_COMMAND_OK (if tbl s k = None then ''0'' else ''1''), s')
           \<and> tbl s' = (if tbl s k = None then tbl s else (tbl s)(k \<mapsto> v)))
      \<and> (\<exists>res s'. pq_execParams lib (pg_insert_query table k) v s = (res, s')
           \<and> (if tbl s k = None then (\<exists>n. res = PGRES_COMMAND_OK n) \<and> tbl s' = (tbl s)(k \<mapsto> take 255 v)
              else (\<exists>msg. res = PGRES_ERROR msg) \<and> tbl s' = tbl s)))"

lemma pg_okD:
  assumes "pg_ok lib table tbl"
  shows "CHR 0x00 \<notin> set table"
    and "pg_key_ok k \<Longrightarrow> \<exists>s'. pq_exec lib (pg_read_query table k) s = (PGRES_TUPLES_OK (case tbl s k of None \<Rightarrow> [] | Some v \<Rightarrow> [[v]]), s') \<and> tbl s' = tbl s"
    and "pg_key_ok k \<Longrightarrow> \<exists>n s'. pq_exec lib (pg_delete_query table k) s = (PGRES_COMMAND_OK n, s') \<and> tbl s' = (tbl s)(k := None)"
    and "pg_key_ok k \<Longrightarrow> pg_text_ok v \<Longrightarrow>
      \<exists>s'. pq_execParams lib (pg_update_query table k) v s = (PGRES_COMMAND_OK (if tbl s k = None then ''0'' else ''1''), s')
         \<and> tbl s' = (if tbl s k = None then tbl s else (tbl s)(k \<mapsto> v))"
    and "pg_key_ok k \<Longrightarrow> pg_text_ok v \<Longrightarrow> \<exists>res s'. pq_execParams lib (pg_insert_query table k) v s = (res, s')
         \<and> (if tbl s k = None then (\<exists>n. res = PGRES_COMMAND_OK n) \<and> tbl s' = (tbl s)(k \<mapsto> take 255 v)
            else (\<exists>msg. res = PGRES_ERROR msg) \<and> tbl s' = tbl s)"
  using assms unfolding pg_ok_def by blast+

subsection \<open>The backend implements a table of texts\<close>

definition Pg_table_ops :: "(string \<rightharpoonup> string) DB" where
  "Pg_table_ops =
     \<lparr>db_Init = (\<lambda>m. Inr ((), m)), db_Cleanup = (\<lambda>m. Inr ((), m)),
      db_Read = (\<lambda>_ k _ m. Inr (case m k of None \<Rightarrow> (kNotFound, []) | Some v \<Rightarrow> (kOK, [('''', v)]), m)),
      db_Scan = (\<lambda>_ _ _ _ m. Inr ((kNotImplemented, []), m)),
      db_Update = (\<lambda>_ k vs m. Inr (if m k = None then (kNotFound, m) else (kOK, m(k \<mapsto> concat (map snd vs))))),
      db_Insert = (\<lambda>_ k vs m. Inr (if m k = None then (kOK, m(k \<mapsto> take 255 (concat (map snd vs)))) else (kError, m))),
      db_Delete = (\<lambda>_ k m. Inr (kOK, m(k := None))),
      db_ReadIdx = (\<lambda>_ _. Inl (Undefined ''pure virtual ReadIdx'')),
      db_ReInitBeforeTransaction = False, db_SetProps = (\<lambda>_ m. m)\<rparr>"

fun pg_call :: "string \<Rightarrow> dbcall \<Rightarrow> bool" where
  "pg_call table (CRead t k _) = (t = table \<and> pg_key_ok k)"
| "pg_call table (CScan _ _ _ _) = True"
| "pg_call table (CUpdate t k vs) = (t = table \<and> pg_key_ok k \<and> (\<forall>fv \<in> set vs. pg_text_ok (snd fv)))"
| "pg_call table (CInsert t k vs) = (t = table \<and> pg_key_ok k \<and> (\<forall>fv \<in> set vs. pg_text_ok (snd fv)))"
| "pg_call table (CDelete t k) = (t = table \<and> pg_key_ok k)"
| "pg_call table (CReadIdx _) = False"

lemma append_values_concat: "append_values vs v = v @ concat (map snd vs)"
  by (induction vs arbitrary: v) simp_all

lemma c_str_id: "CHR 0x00 \<notin> set s \<Longrightarrow> c_str s = s"
  unfolding c_str_def by (rule takeWhile_eq_all_conv [THEN iffD2]) auto

lemma pg_text_no_zero: "pg_text_ok v \<Longrightarrow> CHR 0x00 \<notin> set v"
proof
  assume "pg_text_ok v" "CHR 0x00 \<in> set v"
  then have "0 < (of_char (CHR 0x00) :: nat)" unfolding pg_text_ok_def by blast
  then show False by simp
qed

lemma pg_key_no_zero: "pg_key_ok k \<Longrightarrow> CHR 0x00 \<notin> set k"
proof (rule pg_text_no_zero)
  assume k: "pg_key_ok k"
  show "pg_text_ok k" unfolding pg_text_ok_def
  proof
    fix c assume "c \<in> set k"
    then have "32 \<le> (of_char c :: nat)" "(of_char c :: nat) < 127" using k unfolding pg_key_ok_def by blast+
    then show "0 < (of_char c :: nat) \<and> (of_char c :: nat) < 128" by linarith
  qed
qed

lemma c_str_queries:
  assumes "CHR 0x00 \<notin> set table" and "pg_key_ok k"
  shows "c_str (pg_read_query table k) = pg_read_query table k" "c_str (pg_update_query table k) = pg_update_query table k"
    "c_str (pg_insert_query table k) = pg_insert_query table k" "c_str (pg_delete_query table k) = pg_delete_query table k"
  using assms(1) pg_key_no_zero [OF assms(2)]
  by (simp_all add: c_str_id pg_read_query_def pg_update_query_def pg_insert_query_def pg_delete_query_def squote_def)

lemma pg_value:
  assumes "\<forall>fv \<in> set vs. pg_text_ok (snd fv)"
  shows "c_str (append_values vs '''') = concat (map snd vs)" "pg_text_ok (concat (map snd vs))"
proof -
  show "pg_text_ok (concat (map snd vs))" using assms by (auto simp: pg_text_ok_def)
  then show "c_str (append_values vs '''') = concat (map snd vs)" using c_str_id [OF pg_text_no_zero] by (simp add: append_values_concat)
qed

lemma stoi_digit: "stoi ''0'' = Inr 0" "stoi ''1'' = Inr 1"
  by (simp_all add: stoi_def parse_long_def skip_sign_def isspace_def is_digit_def dec_val_def digit_val_def int32_ok_def)

definition pd_ok :: "'s pg_lib \<Rightarrow> string \<Rightarrow> ('s \<Rightarrow> string \<rightharpoonup> string) \<Rightarrow> 's PostgresDB \<Rightarrow> bool" where
  "pd_ok lib table tbl d \<longleftrightarrow> pg_ok lib table tbl \<and> pg_conn d"

interpretation postgres: db_refinement "Postgres_ops lib ndebug" Pg_table_ops "\<lambda>d. tbl (pg_st d)" "pd_ok lib table tbl" "pg_call table"
  for lib ndebug tbl table
proof
  fix d c assume ok: "pd_ok lib table tbl d" and c: "pg_call table c"
  then have lib: "pg_ok lib table tbl" and d: "pg_deref d = Inr (pg_st d)" "pg_conn d" by (simp_all add: pd_ok_def pg_deref_def)
  note D = pg_okD [OF lib] and q = c_str_queries [OF pg_okD(1) [OF lib]]
  show "\<exists>r d'. db_call (Postgres_ops lib ndebug) c d = Inr (r, d') \<and> pd_ok lib table tbl d' \<and> db_call Pg_table_ops c (tbl (pg_st d)) = Inr (r, tbl (pg_st d'))"
  proof (cases c)
    case (CRead t k flds)
    with c have k: "t = table" "pg_key_ok k" by simp_all
    from D(2) [OF k(2), of "pg_st d"] obtain s where
      "pq_exec lib (pg_read_query table k) (pg_st d) = (PGRES_TUPLES_OK (case tbl (pg_st d) k of None \<Rightarrow> [] | Some v \<Rightarrow> [[v]]), s)" "tbl s = tbl (pg_st d)" by blast
    with CRead k d lib q(1) [OF k(2)] show ?thesis
      by (cases "tbl (pg_st d) k") (simp_all add: Postgres_ops_def Postgres_Read_def Pg_table_ops_def pd_ok_def)
  next
    case (CScan t k n flds)
    then show ?thesis using ok by (simp add: Postgres_ops_def Pg_table_ops_def)
  next
    case (CUpdate t k vs)
    with c have k: "t = table" "pg_key_ok k" and vs: "\<forall>fv \<in> set vs. pg_text_ok (snd fv)" by simp_all
    from D(4) [OF k(2) pg_value(2) [OF vs], of "pg_st d"] obtain s where
      "pq_execParams lib (pg_update_query table k) (concat (map snd vs)) (pg_st d) = (PGRES_COMMAND_OK (if tbl (pg_st d) k = None then ''0'' else ''1''), s)"
      "tbl s = (if tbl (pg_st d) k = None then tbl (pg_st d) else (tbl (pg_st d))(k \<mapsto> concat (map snd vs)))" by blast
    with CUpdate k d lib q(2) [OF k(2)] pg_value(1) [OF vs] show ?thesis
      by (cases "tbl (pg_st d) k") (simp_all add: Postgres_ops_def Postgres_Update_def Pg_table_ops_def pd_ok_def stoi_digit)
  next
    case (CInsert t k vs)
    with c have k: "t = table" "pg_key_ok k" and vs: "\<forall>fv \<in> set vs. pg_text_ok (snd fv)" by simp_all
    from D(5) [OF k(2) pg_value(2) [OF vs], of "pg_st d"] obtain res s where
      "pq_execParams lib (pg_insert_query table k) (concat (map snd vs)) (pg_st d) = (res, s)"
      "if tbl (pg_st d) k = None then (\<exists>n. res = PGRES_COMMAND_OK n) \<and> tbl s = (tbl (pg_st d))(k \<mapsto> take 255 (concat (map snd vs)))
       else (\<exists>msg. res = PGRES_ERROR msg) \<and> tbl s = tbl (pg_st d)" by blast
    with CInsert k d lib q(3) [OF k(2)] pg_value(1) [OF vs] show ?thesis
      by (cases "tbl (pg_st d) k") (auto simp: Postgres_ops_def Postgres_Insert_def Pg_table_ops_def pd_ok_def)
  next
    case (CDelete t k)
    with c have k: "t = table" "pg_key_ok k" by simp_all
    from D(3) [OF k(2), of "pg_st d"] obtain n s where
      "pq_exec lib (pg_delete_query table k) (pg_st d) = (PGRES_COMMAND_OK n, s)" "tbl s = (tbl (pg_st d))(k := None)" by blast
    with CDelete k d lib q(4) [OF k(2)] show ?thesis by (simp add: Postgres_ops_def Postgres_Delete_def Pg_table_ops_def pd_ok_def)
  qed (use c in simp)
qed

subsection \<open>A server in memory\<close>

text \<open>It knows the four statements for one table, by the texts before and after the key.\<close>

definition between :: "string \<Rightarrow> string \<Rightarrow> string \<Rightarrow> string" where
  "between pre suf q = take (length q - length pre - length suf) (drop (length pre) q)"

lemma between_id: "between pre suf (pre @ k @ suf) = k"
  by (simp add: between_def)

definition mem_pg :: "string \<Rightarrow> (string \<times> string) list pg_lib" where
  "mem_pg table =
     \<lparr>pq_connectdb = (\<lambda>_ s. (True, s)),
      pq_exec = (\<lambda>q s.
        if take 1 q = ''S'' then
          (let k = between (''SELECT YCSB_VALUE FROM '' @ table @ '' WHERE YCSB_KEY = '' @ squote) squote q
           in (PGRES_TUPLES_OK (case map_of s k of None \<Rightarrow> [] | Some v \<Rightarrow> [[v]]), s))
        else
          (let k = between (''DELETE FROM '' @ table @ '' WHERE YCSB_KEY = '' @ squote) squote q
           in (PGRES_COMMAND_OK (if map_of s k = None then ''0'' else ''1''), mem_batch s (BDelete k)))),
      pq_execParams = (\<lambda>q v s.
        if take 1 q = ''U'' then
          (let k = between (''UPDATE '' @ table @ '' SET YCSB_VALUE = $1::text WHERE YCSB_KEY = '' @ squote) squote q
           in if map_of s k = None then (PGRES_COMMAND_OK ''0'', s) else (PGRES_COMMAND_OK ''1'', mem_batch s (BPut k v)))
        else
          (let k = between (''INSERT INTO '' @ table @ '' (YCSB_KEY,YCSB_VALUE) VALUES ('' @ squote) (squote @ '', $1::varchar(255))'') q
           in if map_of s k = None then (PGRES_COMMAND_OK ''1'', mem_batch s (BPut k (take 255 v))) else (PGRES_ERROR ''duplicate key'', s))),
      pq_finish = (\<lambda>s. s)\<rparr>"

lemma between_queries:
  "between (''SELECT YCSB_VALUE FROM '' @ table @ '' WHERE YCSB_KEY = '' @ squote) squote (pg_read_query table k) = k"
  "between (''DELETE FROM '' @ table @ '' WHERE YCSB_KEY = '' @ squote) squote (pg_delete_query table k) = k"
  "between (''UPDATE '' @ table @ '' SET YCSB_VALUE = $1::text WHERE YCSB_KEY = '' @ squote) squote (pg_update_query table k) = k"
  "between (''INSERT INTO '' @ table @ '' (YCSB_KEY,YCSB_VALUE) VALUES ('' @ squote) (squote @ '', $1::varchar(255))'') (pg_insert_query table k) = k"
  using between_id [of "''SELECT YCSB_VALUE FROM '' @ table @ '' WHERE YCSB_KEY = '' @ squote" squote k]
    between_id [of "''DELETE FROM '' @ table @ '' WHERE YCSB_KEY = '' @ squote" squote k]
    between_id [of "''UPDATE '' @ table @ '' SET YCSB_VALUE = $1::text WHERE YCSB_KEY = '' @ squote" squote k]
    between_id [of "''INSERT INTO '' @ table @ '' (YCSB_KEY,YCSB_VALUE) VALUES ('' @ squote" "squote @ '', $1::varchar(255))''" k]
  by (simp_all add: pg_read_query_def pg_delete_query_def pg_update_query_def pg_insert_query_def)

lemma query_heads:
  "take 1 (pg_read_query table k) = ''S''" "take 1 (pg_delete_query table k) = ''D''"
  "take 1 (pg_update_query table k) = ''U''" "take 1 (pg_insert_query table k) = ''I''"
  by (simp_all add: pg_read_query_def pg_delete_query_def pg_update_query_def pg_insert_query_def)

lemma mem_pg_ok: "CHR 0x00 \<notin> set table \<Longrightarrow> pg_ok (mem_pg table) table map_of"
proof -
  assume t: "CHR 0x00 \<notin> set table"
  have exec: "pq_exec (mem_pg table) (pg_read_query table k) s = (PGRES_TUPLES_OK (case map_of s k of None \<Rightarrow> [] | Some v \<Rightarrow> [[v]]), s)"
    "pq_exec (mem_pg table) (pg_delete_query table k) s = (PGRES_COMMAND_OK (if map_of s k = None then ''0'' else ''1''), mem_batch s (BDelete k))" for k s
    by (simp_all only: mem_pg_def pg_lib.simps query_heads between_queries Let_def) simp_all
  have params: "pq_execParams (mem_pg table) (pg_update_query table k) v s =
      (if map_of s k = None then (PGRES_COMMAND_OK ''0'', s) else (PGRES_COMMAND_OK ''1'', mem_batch s (BPut k v)))"
    "pq_execParams (mem_pg table) (pg_insert_query table k) v s =
      (if map_of s k = None then (PGRES_COMMAND_OK ''1'', mem_batch s (BPut k (take 255 v))) else (PGRES_ERROR ''duplicate key'', s))" for k v s
    by (simp_all only: mem_pg_def pg_lib.simps query_heads between_queries Let_def) simp_all
  show ?thesis unfolding pg_ok_def
    by (intro conjI allI impI t) (simp_all add: exec params map_of_mem_batch del: mem_batch.simps)
qed

section \<open>MariaDB\<close>

text \<open>
  The connector: each function says whether it has returned without an \<^verbatim>\<open>SQLException\<close>. \<open>ma_run\<close> binds the key and the value to the prepared statement,
  executes it and clears the parameters.
\<close>

record 's maria_lib =
  ma_connect :: "string \<Rightarrow> 's \<Rightarrow> bool \<times> 's"
  ma_execute :: "string \<Rightarrow> 's \<Rightarrow> bool \<times> 's"
  ma_prepare :: "string \<Rightarrow> 's \<Rightarrow> bool \<times> 's"
  ma_run :: "string \<Rightarrow> string \<Rightarrow> 's \<Rightarrow> bool \<times> 's"
  ma_close :: "'s \<Rightarrow> 's"

text \<open>
  \<^verbatim>\<open>conn_\<close> has no value before \<^verbatim>\<open>Init\<close> (here \<open>NullHandle\<close>) and stays usable as an object, but not as a connection, after it is closed
  (\<open>DeletedHandle\<close>). \<^verbatim>\<open>ins_stmt_\<close> is null at first and not reset when it is deleted.
\<close>

record 's MariaDB =
  my_conn :: handle
  my_ins_stmt :: handle
  my_st :: 's

definition maria_create_query :: string where
  "maria_create_query = ''CREATE TABLE IF NOT EXISTS '' @ ''usertable'' @ ''('' @ ''YCSB_KEY'' @ '' VARCHAR(255) PRIMARY KEY, '' @ ''YCSB_VALUE'' @ '' TEXT)''"

definition maria_insert_query :: string where
  "maria_insert_query = ''INSERT INTO '' @ ''usertable'' @ '' ('' @ ''YCSB_KEY'' @ '','' @ ''YCSB_VALUE'' @ '') VALUES (?, ?);''"

definition Maria_Init :: "'s maria_lib \<Rightarrow> 's MariaDB \<Rightarrow> (unit \<times> 's MariaDB) res" where
  "Maria_Init lib d =
     (case ma_connect lib ''jdbc:mariadb://localhost:3306/ycsb'' (my_st d) of (is_open, s) \<Rightarrow>
      if \<not> is_open then
        (if my_conn d = NullHandle then Inl (Undefined ''conn_ has no value'')
         else Inr ((), d\<lparr>my_conn := DeletedHandle, my_st := ma_close lib s\<rparr>))
      else case ma_execute lib maria_create_query s of (created, s) \<Rightarrow>
      if \<not> created then Inr ((), d\<lparr>my_conn := DeletedHandle, my_st := ma_close lib s\<rparr>)
      else Inr ((), d\<lparr>my_conn := LiveHandle, my_st := s\<rparr>))"

definition Maria_Cleanup :: "'s maria_lib \<Rightarrow> 's MariaDB \<Rightarrow> (unit \<times> 's MariaDB) res" where
  "Maria_Cleanup lib d =
     andThen (delete_handle (my_ins_stmt d)) (\<lambda>h.
     let d = d\<lparr>my_ins_stmt := h\<rparr> in
     if my_conn d = NullHandle then Inl (Undefined ''conn_ has no value'')
     else Inr ((), d\<lparr>my_conn := DeletedHandle, my_st := ma_close lib (my_st d)\<rparr>))"

definition prepareInsertStmt :: "'s maria_lib \<Rightarrow> 's MariaDB \<Rightarrow> (bool \<times> 's MariaDB) res" where
  "prepareInsertStmt lib d =
     (case my_conn d of
        NullHandle \<Rightarrow> Inl (Undefined ''conn_ has no value'')
      | DeletedHandle \<Rightarrow> Inr (False, d)
      | LiveHandle \<Rightarrow> (case ma_prepare lib maria_insert_query (my_st d) of (prepared, s) \<Rightarrow>
          if prepared then Inr (True, d\<lparr>my_ins_stmt := LiveHandle, my_st := s\<rparr>) else Inr (False, d\<lparr>my_st := s\<rparr>)))"

definition Maria_SerializeRow :: "Field list \<Rightarrow> string" where
  "Maria_SerializeRow values = SerializeRow values []"

definition Maria_run :: "'s maria_lib \<Rightarrow> string \<Rightarrow> Field list \<Rightarrow> 's MariaDB \<Rightarrow> (Status \<times> 's MariaDB) res" where
  "Maria_run lib key values d =
     (let data = Maria_SerializeRow values in
      if my_ins_stmt d = DeletedHandle then Inl (Undefined ''ins_stmt_ is deleted'')
      else if my_conn d \<noteq> LiveHandle then Inr (kError, d)
      else case ma_run lib key data (my_st d) of (executed, s) \<Rightarrow> Inr (if executed then kOK else kError, d\<lparr>my_st := s\<rparr>))"

definition Maria_Insert :: "'s maria_lib \<Rightarrow> string \<Rightarrow> string \<Rightarrow> Field list \<Rightarrow> 's MariaDB \<Rightarrow> (Status \<times> 's MariaDB) res" where
  "Maria_Insert lib table key values d =
     (if my_ins_stmt d = NullHandle
      then andThen (prepareInsertStmt lib d) (\<lambda>(prepared, d). if \<not> prepared then Inr (kError, d) else Maria_run lib key values d)
      else Maria_run lib key values d)"

definition Maria_ops :: "'s maria_lib \<Rightarrow> 's MariaDB DB" where
  "Maria_ops lib =
     \<lparr>db_Init = Maria_Init lib, db_Cleanup = Maria_Cleanup lib,
      db_Read = (\<lambda>_ _ _ d. Inr ((kNotImplemented, []), d)),
      db_Scan = (\<lambda>_ _ _ _ d. Inr ((kNotImplemented, []), d)),
      db_Update = (\<lambda>_ _ _ d. Inr (kNotImplemented, d)),
      db_Insert = Maria_Insert lib,
      db_Delete = (\<lambda>_ _ d. Inr (kNotImplemented, d)),
      db_ReadIdx = (\<lambda>_ _. Inl (Undefined ''pure virtual ReadIdx'')),
      db_ReInitBeforeTransaction = False, db_SetProps = (\<lambda>_ d. d)\<rparr>"

text \<open>A reachable server prepares the statement, and executing it adds a row for a new key and throws for a key that has one.\<close>

definition maria_ok :: "'s maria_lib \<Rightarrow> ('s \<Rightarrow> string \<rightharpoonup> string) \<Rightarrow> bool" where
  "maria_ok lib tbl \<longleftrightarrow>
     (\<forall>s. fst (ma_prepare lib maria_insert_query s) \<and> tbl (snd (ma_prepare lib maria_insert_query s)) = tbl s)
   \<and> (\<forall>k v s. fst (ma_run lib k v s) = (tbl s k = None)
        \<and> tbl (snd (ma_run lib k v s)) = (if tbl s k = None then (tbl s)(k \<mapsto> v) else tbl s))"

definition Insert_only_ops :: "(string \<rightharpoonup> string) DB" where
  "Insert_only_ops =
     \<lparr>db_Init = (\<lambda>m. Inr ((), m)), db_Cleanup = (\<lambda>m. Inr ((), m)),
      db_Read = (\<lambda>_ _ _ m. Inr ((kNotImplemented, []), m)), db_Scan = (\<lambda>_ _ _ _ m. Inr ((kNotImplemented, []), m)),
      db_Update = (\<lambda>_ _ _ m. Inr (kNotImplemented, m)),
      db_Insert = (\<lambda>_ k vs m. Inr (if m k = None then (kOK, m(k \<mapsto> SerializeRow vs [])) else (kError, m))),
      db_Delete = (\<lambda>_ _ m. Inr (kNotImplemented, m)),
      db_ReadIdx = (\<lambda>_ _. Inl (Undefined ''pure virtual ReadIdx'')),
      db_ReInitBeforeTransaction = False, db_SetProps = (\<lambda>_ m. m)\<rparr>"

definition my_ok :: "'s maria_lib \<Rightarrow> ('s \<Rightarrow> string \<rightharpoonup> string) \<Rightarrow> 's MariaDB \<Rightarrow> bool" where
  "my_ok lib tbl d \<longleftrightarrow> maria_ok lib tbl \<and> my_conn d = LiveHandle \<and> my_ins_stmt d \<noteq> DeletedHandle"

interpretation mariadb: db_exact "Maria_ops lib" Insert_only_ops "\<lambda>d. tbl (my_st d)" "my_ok lib tbl" "\<lambda>_. True" for lib tbl
proof -
  have run: "\<exists>d'. Maria_run lib k vs d = Inr (if tbl (my_st d) k = None then kOK else kError, d') \<and> my_ok lib tbl d'
      \<and> tbl (my_st d') = (if tbl (my_st d) k = None then (tbl (my_st d))(k \<mapsto> SerializeRow vs []) else tbl (my_st d))"
    if "my_ok lib tbl d" for k vs d
  proof -
    obtain b s where s: "ma_run lib k (SerializeRow vs []) (my_st d) = (b, s)" by fastforce
    have "b = (tbl (my_st d) k = None)" "tbl s = (if tbl (my_st d) k = None then (tbl (my_st d))(k \<mapsto> SerializeRow vs []) else tbl (my_st d))"
      using that s unfolding my_ok_def maria_ok_def by (metis fst_conv, metis snd_conv)
    with s that show ?thesis by (simp add: Maria_run_def Maria_SerializeRow_def my_ok_def)
  qed
  have ins: "\<exists>d'. Maria_Insert lib t k vs d = Inr (if tbl (my_st d) k = None then kOK else kError, d') \<and> my_ok lib tbl d'
      \<and> tbl (my_st d') = (if tbl (my_st d) k = None then (tbl (my_st d))(k \<mapsto> SerializeRow vs []) else tbl (my_st d))"
    if ok: "my_ok lib tbl d" for t k vs d
  proof (cases "my_ins_stmt d = NullHandle")
    case True
    obtain b s where s: "ma_prepare lib maria_insert_query (my_st d) = (b, s)" by fastforce
    have p: "b" "tbl s = tbl (my_st d)" using ok s unfolding my_ok_def maria_ok_def by (metis fst_conv, metis snd_conv)
    define e where "e = d\<lparr>my_ins_stmt := LiveHandle, my_st := s\<rparr>"
    have "Maria_Insert lib t k vs d = Maria_run lib k vs e"
      using True s p(1) ok by (simp add: Maria_Insert_def prepareInsertStmt_def my_ok_def e_def)
    moreover have "my_ok lib tbl e" "tbl (my_st e) = tbl (my_st d)" using ok p(2) by (simp_all add: my_ok_def e_def)
    ultimately show ?thesis using run [of e k vs] by metis
  next
    case False
    then show ?thesis using run [OF ok, of k vs] by (simp add: Maria_Insert_def)
  qed
  have "map_sum id (apsnd (\<lambda>d. tbl (my_st d))) (db_call (Maria_ops lib) c d) = db_call Insert_only_ops c (tbl (my_st d))
       \<and> (\<forall>r d'. db_call (Maria_ops lib) c d = Inr (r, d') \<longrightarrow> my_ok lib tbl d')" if ok: "my_ok lib tbl d" for c d
  proof (cases c)
    case (CInsert t k vs)
    with ins [OF ok, of t k vs] show ?thesis by (auto simp: Maria_ops_def Insert_only_ops_def)
  qed (use ok in \<open>simp_all add: Maria_ops_def Insert_only_ops_def\<close>)
  then show "db_exact (Maria_ops lib) Insert_only_ops (\<lambda>d. tbl (my_st d)) (my_ok lib tbl) (\<lambda>_. True)" by unfold_locales blast+
qed

text \<open>When the first connection fails, the handler closes a connection that was never assigned.\<close>

lemma maria_failed_connect_undefined:
  "my_conn d = NullHandle \<Longrightarrow> \<not> fst (ma_connect lib ''jdbc:mariadb://localhost:3306/ycsb'' (my_st d)) \<Longrightarrow> Maria_Init lib d = Inl (Undefined ''conn_ has no value'')"
  by (simp add: Maria_Init_def split_beta)

section \<open>Properties\<close>

text \<open>C17: The PostgreSQL backend implements the table of texts, for every server that behaves as documented on its statements: any sequence of calls on the
  table with admissible keys and values returns, with the results of that table, where an insert stores at most the first 255 characters of
  the values put together, a second insert of a key is an error, and an update of a missing key returns \<^verbatim>\<open>kNotFound\<close>.\<close>

theorem postgres_refines_table:
  assumes "pg_ok lib table tbl" and "pg_conn d" and "\<forall>c \<in> set cs. pg_call table c"
  shows "\<exists>rs d'. db_calls (Postgres_ops lib ndebug) cs d = Inr (rs, d') \<and> db_calls Pg_table_ops cs (tbl (pg_st d)) = Inr (rs, tbl (pg_st d'))"
  using postgres.calls_refine [of lib table tbl d cs ndebug] assms by (auto simp: pd_ok_def)

theorem postgres_refines_table_witness:
  "\<exists>d'. db_calls (Postgres_ops (mem_pg ''usertable'') False)
     [CInsert ''usertable'' ''k'' [(''f'', ''ab''), (''g'', ''c'')], CRead ''usertable'' ''k'' None, CInsert ''usertable'' ''k'' [],
      CUpdate ''usertable'' ''k'' [(''f'', ''z'')], CRead ''usertable'' ''k'' None, CDelete ''usertable'' ''k'', CUpdate ''usertable'' ''k'' []]
     \<lparr>pg_props = no_properties, pg_conn = True, pg_st = []\<rparr>
   = Inr ([RStatus kOK, RFields kOK [([], ''abc'')], RStatus kError, RStatus kOK, RFields kOK [([], ''z'')], RStatus kOK, RStatus kNotFound], d')"
proof -
  let ?d = "\<lparr>pg_props = no_properties, pg_conn = True, pg_st = []\<rparr> :: (string \<times> string) list PostgresDB"
  let ?cs = "[CInsert ''usertable'' ''k'' [(''f'', ''ab''), (''g'', ''c'')], CRead ''usertable'' ''k'' None, CInsert ''usertable'' ''k'' [],
      CUpdate ''usertable'' ''k'' [(''f'', ''z'')], CRead ''usertable'' ''k'' None, CDelete ''usertable'' ''k'', CUpdate ''usertable'' ''k'' []]"
  have c: "\<forall>c \<in> set ?cs. pg_call ''usertable'' c" by (simp add: pg_key_ok_def pg_text_ok_def)
  have "pg_ok (mem_pg ''usertable'') ''usertable'' map_of" by (rule mem_pg_ok) simp
  from postgres_refines_table [OF this _ c, of ?d False] obtain rs d' where
    1: "db_calls (Postgres_ops (mem_pg ''usertable'') False) ?cs ?d = Inr (rs, d')"
    "db_calls Pg_table_ops ?cs (map_of (pg_st ?d)) = Inr (rs, map_of (pg_st d'))" by (auto simp del: db_calls.simps)
  from 1(2) have "rs = [RStatus kOK, RFields kOK [([], ''abc'')], RStatus kError, RStatus kOK, RFields kOK [([], ''z'')], RStatus kOK, RStatus kNotFound]"
    by (simp add: Pg_table_ops_def)
  with 1(1) show ?thesis by blast
qed

text \<open>The PostgreSQL backend does not return what was inserted: after an insert of a new key, a read returns \<^verbatim>\<open>kOK\<close> with one field without a name,
  whose value is the first 255 characters of all values; a record with longer values is cut, although the insert returns \<^verbatim>\<open>kOK\<close>.\<close>

theorem postgres_insert_truncates:
  assumes "pg_ok lib table tbl" and "pg_conn d" and "pg_key_ok k" and "\<forall>fv \<in> set vs. pg_text_ok (snd fv)" and "tbl (pg_st d) k = None"
    and "255 < length (concat (map snd vs))"
  shows "\<exists>d1 d2 v. Postgres_Insert lib table k vs d = Inr (kOK, d1) \<and> Postgres_Read lib ndebug table k flds d1 = Inr ((kOK, [('''', v)]), d2)
     \<and> v = take 255 (concat (map snd vs)) \<and> v \<noteq> concat (map snd vs)"
proof -
  have c: "\<forall>c \<in> set [CInsert table k vs, CRead table k flds]. pg_call table c" using assms(3,4) by simp
  have "pd_ok lib table tbl d" using assms(1,2) by (simp add: pd_ok_def)
  from postgres.calls_refine [OF this c, of ndebug] assms(5) have "\<exists>d1 d2. Postgres_Insert lib table k vs d = Inr (kOK, d1)
      \<and> Postgres_Read lib ndebug table k flds d1 = Inr ((kOK, [('''', take 255 (concat (map snd vs)))]), d2)"
    by (auto simp: Pg_table_ops_def Postgres_ops_def res_simps map_result_Inr)
  moreover have "take 255 (concat (map snd vs)) \<noteq> concat (map snd vs)"
    using assms(6) by (metis length_take min_less_iff_conj nat_neq_iff)
  ultimately show ?thesis by blast
qed

theorem postgres_insert_truncates_witness:
  "\<exists>d1 d2. Postgres_Insert (mem_pg ''t'') ''t'' ''k'' [(''f'', replicate 200 (CHR ''a'')), (''g'', replicate 100 (CHR ''b''))]
       \<lparr>pg_props = no_properties, pg_conn = True, pg_st = []\<rparr> = Inr (kOK, d1)
     \<and> Postgres_Read (mem_pg ''t'') True ''t'' ''k'' None d1 = Inr ((kOK, [([], replicate 200 (CHR ''a'') @ replicate 55 (CHR ''b''))]), d2)"
proof -
  let ?vs = "[(''f'', replicate 200 (CHR ''a'')), (''g'', replicate 100 (CHR ''b''))]"
  have ok: "pg_ok (mem_pg ''t'') ''t'' map_of" by (rule mem_pg_ok) simp
  have "pg_key_ok ''k''" "\<forall>fv \<in> set ?vs. pg_text_ok (snd fv)" by (simp_all add: pg_key_ok_def pg_text_ok_def)
  from postgres_insert_truncates [OF ok _ this, of "\<lparr>pg_props = no_properties, pg_conn = True, pg_st = []\<rparr>" True None]
  show ?thesis by (simp add: take_replicate)
qed

end
