(* ===== verification/Logs.thy ===== *)
theory Logs
  imports Row_Codec
begin

text \<open>
  The backends that append to a log or a collection: \<^verbatim>\<open>src/kafka/kafka_db.h\<close>, \<^verbatim>\<open>src/kafka/kafka_db.cc\<close>,
  \<^verbatim>\<open>src/lazylog/lazylog_db.h\<close>, \<^verbatim>\<open>src/lazylog/lazylog_db.cc\<close>, \<^verbatim>\<open>src/mongodb/mongo_db.h\<close> and \<^verbatim>\<open>src/mongodb/mongo_db.cc\<close>. Only inserts (and, in LazyLog, reads by index) do anything; several other operations end without a
  \<^verbatim>\<open>return\<close>, which is undefined behaviour, throw a literal or return \<^verbatim>\<open>kNotImplemented\<close>. The client libraries are parameters.
\<close>

section \<open>Appending backends\<close>

text \<open>What a client of such a backend relies on: every insert appends its serialised record to the log.\<close>

locale append_log =
  fixes impl :: "'c DB" and log_of :: "'c \<Rightarrow> string list" and ok :: "'c \<Rightarrow> bool"
  assumes insert_appends: "ok s \<Longrightarrow> \<exists>s'. db_Insert impl t k vs s = Inr (kOK, s') \<and> ok s' \<and> log_of s' = log_of s @ [SerializeRow vs []]"
begin

lemma inserts_append:
  "ok s \<Longrightarrow> \<exists>s'. db_calls impl (map (\<lambda>(t, k, vs). CInsert t k vs) ins) s = Inr (replicate (length ins) (RStatus kOK), s') \<and> ok s'
     \<and> log_of s' = log_of s @ map (\<lambda>(t, k, vs). SerializeRow vs []) ins"
proof (induction ins arbitrary: s)
  case (Cons i ins)
  obtain t k vs where i: "i = (t, k, vs)" by (cases i)
  obtain s1 where s1: "db_Insert impl t k vs s = Inr (kOK, s1)" "ok s1" "log_of s1 = log_of s @ [SerializeRow vs []]"
    using insert_appends [OF Cons.prems] by blast
  from Cons.IH [OF s1(2)] s1 show ?case by (auto simp: i)
qed simp

end

section \<open>Kafka\<close>

text \<open>
  The producer of the client library: \<open>kp_produce\<close> hands over a message for a topic and a partition, \<open>kp_flush\<close> waits for the delivery of
  all messages handed over and says whether it has thrown a \<^verbatim>\<open>std::exception\<close>.
\<close>

record 's kafka_lib =
  kp_produce :: "string \<Rightarrow> int \<Rightarrow> string \<Rightarrow> 's \<Rightarrow> 's res"
  kp_flush :: "'s \<Rightarrow> bool \<times> 's"

text \<open>\<^verbatim>\<open>producer_\<close> has no value before \<^verbatim>\<open>Init\<close>, and is not reset by \<^verbatim>\<open>Cleanup\<close>: it is live in between.\<close>

record 's KafkaDB =
  kf_props :: Properties
  kf_producer_live :: bool
  kf_topic :: string
  kf_shard_num :: int
  kf_global_id_cnt :: int
  kf_prod_id :: int
  kf_delivered :: bool
  kf_st :: 's

text \<open>The constructor of the next object, which takes the next producer number.\<close>

definition new_KafkaDB :: "'s KafkaDB \<Rightarrow> 's KafkaDB" where
  "new_KafkaDB d = d\<lparr>kf_prod_id := kf_global_id_cnt d, kf_global_id_cnt := kf_global_id_cnt d + 1, kf_delivered := False,
     kf_producer_live := False\<rparr>"

definition Kafka_Init :: "'s KafkaDB \<Rightarrow> (unit \<times> 's KafkaDB) res" where
  "Kafka_Init d =
     (let p = kf_props d;
          d = d\<lparr>kf_producer_live := True, kf_topic := GetProperty p ''kafka.topic'' ''default_topic''\<rparr> in
      andThen (stoi (GetProperty p ''shard.num'' ''1'')) (\<lambda>shard_num.
      Inr ((), d\<lparr>kf_shard_num := shard_num\<rparr>)))"

definition Kafka_Cleanup :: "'s kafka_lib \<Rightarrow> 's KafkaDB \<Rightarrow> (unit \<times> 's KafkaDB) res" where
  "Kafka_Cleanup lib d =
     (if \<not> kf_producer_live d then Inl (Undefined ''producer_ does not point to a producer'')
      else case kp_flush lib (kf_st d) of (thrown, s) \<Rightarrow> Inr ((), d\<lparr>kf_st := s, kf_producer_live := False\<rparr>))"

definition Kafka_SerializeRow :: "Field list \<Rightarrow> string" where
  "Kafka_SerializeRow values = SerializeRow values []"

definition Kafka_Insert :: "'s kafka_lib \<Rightarrow> string \<Rightarrow> string \<Rightarrow> Field list \<Rightarrow> 's KafkaDB \<Rightarrow> (Status \<times> 's KafkaDB) res" where
  "Kafka_Insert lib table key values d =
     (let data = Kafka_SerializeRow values in
      if kf_shard_num d = 0 then Inl (Undefined ''prod_id_ % shard_num_ with no shards'')
      else let shard_id = cmod (kf_prod_id d) (kf_shard_num d) in
      if \<not> kf_producer_live d then Inl (Undefined ''producer_ does not point to a producer'')
      else andThen (kp_produce lib (kf_topic d) shard_id data (kf_st d)) (\<lambda>s.
      case kp_flush lib s of (thrown, s) \<Rightarrow> Inr (if thrown then kError else kOK, d\<lparr>kf_st := s\<rparr>)))"

definition Kafka_ops :: "'s kafka_lib \<Rightarrow> 's KafkaDB DB" where
  "Kafka_ops lib =
     \<lparr>db_Init = Kafka_Init, db_Cleanup = Kafka_Cleanup lib,
      db_Read = (\<lambda>_ _ _ _. Inl (Undefined ''Read ends without a return'')),
      db_Scan = (\<lambda>_ _ _ _ _. Inl (ThrownLiteral ''Scan: function not implemented!'')),
      db_Update = (\<lambda>_ _ _ _. Inl (Undefined ''Update ends without a return'')),
      db_Insert = Kafka_Insert lib,
      db_Delete = (\<lambda>_ _ _. Inl (ThrownLiteral ''Delete: function not implemented!'')),
      db_ReadIdx = (\<lambda>_ _. Inl (Undefined ''ReadIdx ends without a return'')),
      db_ReInitBeforeTransaction = False,
      db_SetProps = (\<lambda>p d. d\<lparr>kf_props := p\<rparr>)\<rparr>"

text \<open>
  The documented behaviour of a producer whose broker is reachable, over the messages handed over and the content of the partitions: a flush
  delivers the messages in order.
\<close>

record kafka_state =
  ks_queue :: "(string \<times> int \<times> string) list"
  ks_log :: "string \<Rightarrow> int \<Rightarrow> string list"

definition deliver :: "(string \<Rightarrow> int \<Rightarrow> string list) \<Rightarrow> string \<times> int \<times> string \<Rightarrow> (string \<Rightarrow> int \<Rightarrow> string list)" where
  "deliver l m = (case m of (topic, part, payload) \<Rightarrow> (\<lambda>t p. if t = topic \<and> p = part then l t p @ [payload] else l t p))"

definition kafka_ok :: "'s kafka_lib \<Rightarrow> ('s \<Rightarrow> kafka_state) \<Rightarrow> bool" where
  "kafka_ok lib sm \<longleftrightarrow>
     (\<forall>t p v s. \<exists>s'. kp_produce lib t p v s = Inr s' \<and> ks_queue (sm s') = ks_queue (sm s) @ [(t, p, v)] \<and> ks_log (sm s') = ks_log (sm s))
   \<and> (\<forall>s. \<exists>s'. kp_flush lib s = (False, s') \<and> ks_queue (sm s') = [] \<and> ks_log (sm s') = foldl deliver (ks_log (sm s)) (ks_queue (sm s)))"

definition kf_shard :: "'s KafkaDB \<Rightarrow> int" where
  "kf_shard d = cmod (kf_prod_id d) (kf_shard_num d)"

definition kf_log :: "('s \<Rightarrow> kafka_state) \<Rightarrow> 's KafkaDB \<Rightarrow> string \<Rightarrow> int \<Rightarrow> string list" where
  "kf_log sm d = ks_log (sm (kf_st d))"

text \<open>An object between two calls, of a fixed topic, shard number and producer number.\<close>

definition kf_ok :: "'s kafka_lib \<Rightarrow> ('s \<Rightarrow> kafka_state) \<Rightarrow> string \<Rightarrow> int \<Rightarrow> (string \<Rightarrow> int \<Rightarrow> string list) \<Rightarrow> 's KafkaDB \<Rightarrow> bool" where
  "kf_ok lib sm topic shard others d \<longleftrightarrow> kafka_ok lib sm \<and> kf_producer_live d \<and> kf_shard_num d \<noteq> 0 \<and> ks_queue (sm (kf_st d)) = []
     \<and> kf_topic d = topic \<and> kf_shard d = shard \<and> (\<forall>t p. (t, p) \<noteq> (topic, shard) \<longrightarrow> kf_log sm d t p = others t p)"

interpretation kafka: append_log "Kafka_ops lib" "\<lambda>d. kf_log sm d topic shard" "kf_ok lib sm topic shard others"
  for lib sm topic shard others
proof unfold_locales
  fix d t k vs assume ok: "kf_ok lib sm topic shard others d"
  then have lib: "kafka_ok lib sm" by (simp add: kf_ok_def)
  obtain s1 where s1: "kp_produce lib topic shard (SerializeRow vs []) (kf_st d) = Inr s1"
    "ks_queue (sm s1) = ks_queue (sm (kf_st d)) @ [(topic, shard, SerializeRow vs [])]" "ks_log (sm s1) = ks_log (sm (kf_st d))"
    using lib unfolding kafka_ok_def by blast
  obtain s2 where s2: "kp_flush lib s1 = (False, s2)" "ks_queue (sm s2) = []" "ks_log (sm s2) = foldl deliver (ks_log (sm s1)) (ks_queue (sm s1))"
    using lib unfolding kafka_ok_def by blast
  have l: "ks_log (sm s2) = deliver (ks_log (sm (kf_st d))) (topic, shard, SerializeRow vs [])" using ok s1(2,3) s2(3) by (simp add: kf_ok_def)
  have "db_Insert (Kafka_ops lib) t k vs d = Inr (kOK, d\<lparr>kf_st := s2\<rparr>)"
    using ok s1(1) s2(1) by (simp add: Kafka_ops_def Kafka_Insert_def Kafka_SerializeRow_def kf_ok_def kf_shard_def Let_def)
  moreover have "kf_ok lib sm topic shard others (d\<lparr>kf_st := s2\<rparr>)" using ok s2(2) l by (auto simp: kf_ok_def kf_shard_def kf_log_def deliver_def)
  moreover have "kf_log sm (d\<lparr>kf_st := s2\<rparr>) topic shard = kf_log sm d topic shard @ [SerializeRow vs []]" using l by (simp add: kf_log_def deliver_def)
  ultimately show "\<exists>d'. db_Insert (Kafka_ops lib) t k vs d = Inr (kOK, d') \<and> kf_ok lib sm topic shard others d'
      \<and> kf_log sm d' topic shard = kf_log sm d topic shard @ [SerializeRow vs []]" by blast
qed

section \<open>LazyLog\<close>

text \<open>
  The client of the log: the configuration is a map from strings to strings; \<open>lz_AppendEntryAll\<close> returns the pair of numbers of the request and
  \<open>lz_ReadEntry\<close> whether it has found the entry, and the entry.
\<close>

record 's lazylog_lib =
  lz_Initialize :: "(string \<rightharpoonup> string) \<Rightarrow> 's \<Rightarrow> 's"
  lz_Finalize :: "'s \<Rightarrow> 's"
  lz_AppendEntryAll :: "string \<Rightarrow> 's \<Rightarrow> (u64 \<times> u64) \<times> 's"
  lz_ReadEntry :: "u64 \<Rightarrow> 's \<Rightarrow> bool \<times> string \<times> 's"

record 's LazylogDB =
  lz_props :: Properties
  lz_client_id :: nat
  lz_st :: 's

definition Lazylog_Init :: "'s lazylog_lib \<Rightarrow> 's LazylogDB \<Rightarrow> (unit \<times> 's LazylogDB) res" where
  "Lazylog_Init lib d =
     (let props = (ToMap (lz_props d))(''dur_log.client_id'' \<mapsto> to_string (lz_client_id d)) in
      Inr ((), d\<lparr>lz_client_id := lz_client_id d + 1, lz_st := lz_Initialize lib props (lz_st d)\<rparr>))"

definition Lazylog_Cleanup :: "'s lazylog_lib \<Rightarrow> 's LazylogDB \<Rightarrow> (unit \<times> 's LazylogDB) res" where
  "Lazylog_Cleanup lib d = Inr ((), d\<lparr>lz_st := lz_Finalize lib (lz_st d)\<rparr>)"

definition Lazylog_SerializeRow :: "Field list \<Rightarrow> string" where
  "Lazylog_SerializeRow values = SerializeRow values []"

definition Lazylog_Insert :: "'s lazylog_lib \<Rightarrow> string \<Rightarrow> string \<Rightarrow> Field list \<Rightarrow> 's LazylogDB \<Rightarrow> (Status \<times> 's LazylogDB) res" where
  "Lazylog_Insert lib table key values d =
     (let data = Lazylog_SerializeRow values in
      case lz_AppendEntryAll lib data (lz_st d) of (reqid, s) \<Rightarrow>
      if fst reqid = 0 then Inr (kOK, d\<lparr>lz_st := s\<rparr>) else Inr (kOK, d\<lparr>lz_st := s\<rparr>))"

definition Lazylog_ReadIdx :: "'s lazylog_lib \<Rightarrow> u64 \<Rightarrow> 's LazylogDB \<Rightarrow> ((Status \<times> string) \<times> 's LazylogDB) res" where
  "Lazylog_ReadIdx lib idx d =
     (case lz_ReadEntry lib idx (lz_st d) of (ret, data, s) \<Rightarrow>
      if ret then Inr ((kOK, data), d\<lparr>lz_st := s\<rparr>) else Inr ((kError, data), d\<lparr>lz_st := s\<rparr>))"

definition Lazylog_ops :: "'s lazylog_lib \<Rightarrow> 's LazylogDB DB" where
  "Lazylog_ops lib =
     \<lparr>db_Init = Lazylog_Init lib, db_Cleanup = Lazylog_Cleanup lib,
      db_Read = (\<lambda>_ _ _ _. Inl (Undefined ''Read ends without a return'')),
      db_Scan = (\<lambda>_ _ _ _ _. Inl (ThrownLiteral ''Scan: function not implemented!'')),
      db_Update = (\<lambda>_ _ _ _. Inl (Undefined ''Update ends without a return'')),
      db_Insert = Lazylog_Insert lib,
      db_Delete = (\<lambda>_ _ _. Inl (ThrownLiteral ''Delete: function not implemented!'')),
      db_ReadIdx = Lazylog_ReadIdx lib,
      db_ReInitBeforeTransaction = False,
      db_SetProps = (\<lambda>p d. d\<lparr>lz_props := p\<rparr>)\<rparr>"

text \<open>The entries of the log, as one client that appends alone sees them: an append goes to the end and a read returns the entry of the index.\<close>

definition lazylog_ok :: "'s lazylog_lib \<Rightarrow> ('s \<Rightarrow> string list) \<Rightarrow> bool" where
  "lazylog_ok lib ents \<longleftrightarrow>
     (\<forall>v s. ents (snd (lz_AppendEntryAll lib v s)) = ents s @ [v])
   \<and> (\<forall>i s. case lz_ReadEntry lib i s of (ret, data, s') \<Rightarrow> ents s' = ents s
        \<and> (if unat i < length (ents s) then ret \<and> data = ents s ! unat i else \<not> ret))"

interpretation lazylog: append_log "Lazylog_ops lib" "\<lambda>d. ents (lz_st d)" "\<lambda>d. lazylog_ok lib ents" for lib ents
proof unfold_locales
  fix d :: "'a LazylogDB" and t k vs assume "lazylog_ok lib ents"
  then have "ents (snd (lz_AppendEntryAll lib (SerializeRow vs []) (lz_st d))) = ents (lz_st d) @ [SerializeRow vs []]"
    by (simp add: lazylog_ok_def)
  then show "\<exists>d'. db_Insert (Lazylog_ops lib) t k vs d = Inr (kOK, d') \<and> lazylog_ok lib ents \<and> ents (lz_st d') = ents (lz_st d) @ [SerializeRow vs []]"
    using \<open>lazylog_ok lib ents\<close> by (simp add: Lazylog_ops_def Lazylog_Insert_def Lazylog_SerializeRow_def split_beta)
qed

section \<open>MongoDB\<close>

text \<open>
  The driver: \<open>mo_connect\<close> opens the client and pings the server, \<open>mo_insert_one\<close> adds a document with the elements \<^verbatim>\<open>k\<close> and \<^verbatim>\<open>v\<close> to the
  collection \<^verbatim>\<open>ycsb\<close> of the database \<^verbatim>\<open>ycsbdb\<close>, with a journaled write concern, and returns the number of inserted documents if the write was
  acknowledged. Both may throw.
\<close>

record 's mongo_lib =
  mo_connect :: "string \<Rightarrow> 's \<Rightarrow> 's res"
  mo_insert_one :: "string \<times> string \<Rightarrow> 's \<Rightarrow> (int option \<times> 's) res"
  mo_delete_client :: "'s \<Rightarrow> 's"

record 's MongoDB =
  mg_props :: Properties
  mg_conn_live :: bool
  mg_st :: 's

definition Mongo_Init :: "'s mongo_lib \<Rightarrow> 's MongoDB \<Rightarrow> (unit \<times> 's MongoDB) res" where
  "Mongo_Init lib d =
     (let uri = GetProperty (mg_props d) ''mongodb.uri'' ''mongodb://localhost:27017'' in
      andThen (mo_connect lib uri (mg_st d)) (\<lambda>s. Inr ((), d\<lparr>mg_conn_live := True, mg_st := s\<rparr>)))"

definition Mongo_Cleanup :: "'s mongo_lib \<Rightarrow> 's MongoDB \<Rightarrow> (unit \<times> 's MongoDB) res" where
  "Mongo_Cleanup lib d =
     (if \<not> mg_conn_live d then Inl (Undefined ''conn_ does not point to a client'')
      else Inr ((), d\<lparr>mg_conn_live := False, mg_st := mo_delete_client lib (mg_st d)\<rparr>))"

definition Mongo_SerializeRow :: "Field list \<Rightarrow> string" where
  "Mongo_SerializeRow values = SerializeRow values []"

definition Mongo_Insert :: "'s mongo_lib \<Rightarrow> string \<Rightarrow> string \<Rightarrow> Field list \<Rightarrow> 's MongoDB \<Rightarrow> (Status \<times> 's MongoDB) res" where
  "Mongo_Insert lib table key values d =
     (let data = Mongo_SerializeRow values in
      if \<not> mg_conn_live d then Inl (Undefined ''collection_ of no client'')
      else andThen (mo_insert_one lib (key, data) (mg_st d)) (\<lambda>(res, s).
      case res of None \<Rightarrow> Inl (Undefined ''result of an unacknowledged write'')
      | Some inserted_count \<Rightarrow> Inr (if inserted_count = 1 then kOK else kError, d\<lparr>mg_st := s\<rparr>)))"

definition Mongo_ops :: "'s mongo_lib \<Rightarrow> 's MongoDB DB" where
  "Mongo_ops lib =
     \<lparr>db_Init = Mongo_Init lib, db_Cleanup = Mongo_Cleanup lib,
      db_Read = (\<lambda>_ _ _ d. Inr ((kNotImplemented, []), d)),
      db_Scan = (\<lambda>_ _ _ _ d. Inr ((kNotImplemented, []), d)),
      db_Update = (\<lambda>_ _ _ d. Inr (kNotImplemented, d)),
      db_Insert = Mongo_Insert lib,
      db_Delete = (\<lambda>_ _ d. Inr (kNotImplemented, d)),
      db_ReadIdx = (\<lambda>_ _. Inl (Undefined ''pure virtual ReadIdx'')),
      db_ReInitBeforeTransaction = False,
      db_SetProps = (\<lambda>p d. d\<lparr>mg_props := p\<rparr>)\<rparr>"

text \<open>A reachable server adds every document; the element \<^verbatim>\<open>k\<close> has no unique index, so a key can be inserted again.\<close>

definition mongo_ok :: "'s mongo_lib \<Rightarrow> ('s \<Rightarrow> (string \<times> string) list) \<Rightarrow> bool" where
  "mongo_ok lib docs \<longleftrightarrow> (\<forall>kv s. \<exists>s'. mo_insert_one lib kv s = Inr (Some 1, s') \<and> docs s' = docs s @ [kv])"

interpretation mongo: append_log "Mongo_ops lib" "\<lambda>d. map snd (docs (mg_st d))" "\<lambda>d. mongo_ok lib docs \<and> mg_conn_live d" for lib docs
proof unfold_locales
  fix d :: "'a MongoDB" and t k vs assume ok: "mongo_ok lib docs \<and> mg_conn_live d"
  obtain s' where "mo_insert_one lib (k, SerializeRow vs []) (mg_st d) = Inr (Some 1, s')" "docs s' = docs (mg_st d) @ [(k, SerializeRow vs [])]"
    using ok unfolding mongo_ok_def by blast
  with ok show "\<exists>d'. db_Insert (Mongo_ops lib) t k vs d = Inr (kOK, d') \<and> (mongo_ok lib docs \<and> mg_conn_live d')
      \<and> map snd (docs (mg_st d')) = map snd (docs (mg_st d)) @ [SerializeRow vs []]"
    by (simp add: Mongo_ops_def Mongo_Insert_def Mongo_SerializeRow_def Let_def)
qed

section \<open>Libraries in memory\<close>

definition mem_kafka :: "kafka_state kafka_lib" where
  "mem_kafka = \<lparr>kp_produce = (\<lambda>t p v s. Inr (s\<lparr>ks_queue := ks_queue s @ [(t, p, v)]\<rparr>)),
     kp_flush = (\<lambda>s. (False, s\<lparr>ks_queue := [], ks_log := foldl deliver (ks_log s) (ks_queue s)\<rparr>))\<rparr>"

lemma mem_kafka_ok: "kafka_ok mem_kafka id"
  by (simp add: kafka_ok_def mem_kafka_def)

definition mem_lazylog :: "string list lazylog_lib" where
  "mem_lazylog = \<lparr>lz_Initialize = (\<lambda>_ s. s), lz_Finalize = (\<lambda>s. s), lz_AppendEntryAll = (\<lambda>v s. ((0, of_nat (length s)), s @ [v])),
     lz_ReadEntry = (\<lambda>i s. if unat i < length s then (True, s ! unat i, s) else (False, [], s))\<rparr>"

lemma mem_lazylog_ok: "lazylog_ok mem_lazylog id"
  by (simp add: lazylog_ok_def mem_lazylog_def)

definition demo_kafka :: "int \<Rightarrow> int \<Rightarrow> kafka_state KafkaDB" where
  "demo_kafka i n = \<lparr>kf_props = no_properties, kf_producer_live = True, kf_topic = ''y'', kf_shard_num = n, kf_global_id_cnt = i + 1,
     kf_prod_id = i, kf_delivered = False, kf_st = \<lparr>ks_queue = [], ks_log = (\<lambda>_ _. [])\<rparr>\<rparr>"

definition demo_lazylog :: "string list LazylogDB" where
  "demo_lazylog = \<lparr>lz_props = no_properties, lz_client_id = 1, lz_st = []\<rparr>"

section \<open>Properties\<close>

text \<open>C18: The Kafka backend keeps the order of its inserts: with a positive number of shards and a broker that delivers, any sequence of inserts
  of one object returns \<^verbatim>\<open>kOK\<close> for each, appends exactly their serialised records, in order, to the partition given by the producer
  number modulo the number of shards, and changes no other partition.\<close>

theorem kafka_inserts_in_order:
  assumes "kafka_ok lib sm" and "kf_producer_live d" and "ks_queue (sm (kf_st d)) = []" and "0 < kf_shard_num d" and "0 \<le> kf_prod_id d"
  shows "\<exists>d'. db_calls (Kafka_ops lib) (map (\<lambda>(t, k, vs). CInsert t k vs) ins) d = Inr (replicate (length ins) (RStatus kOK), d')
     \<and> (\<forall>topic p. ks_log (sm (kf_st d')) topic p =
          (if topic = kf_topic d \<and> p = kf_prod_id d mod kf_shard_num d
           then ks_log (sm (kf_st d)) topic p @ map (\<lambda>(t, k, vs). Kafka_SerializeRow vs) ins else ks_log (sm (kf_st d)) topic p))"
proof -
  have "kf_ok lib sm (kf_topic d) (kf_prod_id d mod kf_shard_num d) (kf_log sm d) d" using assms by (simp add: kf_ok_def kf_shard_def)
  from kafka.inserts_append [OF this, of ins] obtain d' where d': "db_calls (Kafka_ops lib) (map (\<lambda>(t, k, vs). CInsert t k vs) ins) d =
      Inr (replicate (length ins) (RStatus kOK), d')" "kf_ok lib sm (kf_topic d) (kf_prod_id d mod kf_shard_num d) (kf_log sm d) d'"
    "kf_log sm d' (kf_topic d) (kf_prod_id d mod kf_shard_num d) =
       kf_log sm d (kf_topic d) (kf_prod_id d mod kf_shard_num d) @ map (\<lambda>(t, k, vs). SerializeRow vs []) ins" by blast
  from d'(2) have "\<forall>t p. (t, p) \<noteq> (kf_topic d, kf_prod_id d mod kf_shard_num d) \<longrightarrow> ks_log (sm (kf_st d')) t p = ks_log (sm (kf_st d)) t p"
    by (simp add: kf_ok_def kf_log_def)
  with d'(1,3) show ?thesis by (auto simp: kf_log_def Kafka_SerializeRow_def)
qed

theorem kafka_inserts_in_order_witness:
  "\<exists>d'. db_calls (Kafka_ops mem_kafka) [CInsert ''t'' ''k'' [(''f'', ''a'')], CInsert ''t'' ''j'' [(''f'', ''b'')]] (demo_kafka 5 3)
     = Inr ([RStatus kOK, RStatus kOK], d') \<and> ks_log (kf_st d') ''y'' 2 = [Kafka_SerializeRow [(''f'', ''a'')], Kafka_SerializeRow [(''f'', ''b'')]]
     \<and> ks_log (kf_st d') ''y'' 1 = []"
  using kafka_inserts_in_order [OF mem_kafka_ok, of "demo_kafka 5 3" "[(''t'', ''k'', [(''f'', ''a'')]), (''t'', ''j'', [(''f'', ''b'')])]"]
  by (auto simp: demo_kafka_def numeral_2_eq_2)

text \<open>C19: What a LazyLog client has inserted it can read by index: after inserts into an empty log, reading the index of an insert returns \<^verbatim>\<open>kOK\<close> and
  bytes from which the inserted record is restored, and reading an index beyond the inserts returns \<^verbatim>\<open>kError\<close>.\<close>

theorem lazylog_read_back:
  assumes "lazylog_ok lib ents" and "ents (lz_st d) = []" and "length rows < 2 ^ 64"
    and "\<forall>r \<in> set rows. \<forall>fv \<in> set r. length (fst fv) < 2 ^ 32 \<and> length (snd fv) < 2 ^ 32"
  shows "\<exists>d'. db_calls (Lazylog_ops lib) (map (\<lambda>r. CInsert table key r) rows) d = Inr (replicate (length rows) (RStatus kOK), d')
     \<and> (\<forall>i < 2 ^ 64. if i < length rows
          then \<exists>data d''. Lazylog_ReadIdx lib (of_nat i) d' = Inr ((kOK, data), d'')
            \<and> DeserializeRow_loop ndebug data 0 (length data) [] = Inr (rows ! i)
          else \<exists>data d''. Lazylog_ReadIdx lib (of_nat i) d' = Inr ((kError, data), d''))"
proof -
  obtain d' where d': "db_calls (Lazylog_ops lib) (map (\<lambda>r. CInsert table key r) rows) d = Inr (replicate (length rows) (RStatus kOK), d')"
    "ents (lz_st d') = map (\<lambda>r. SerializeRow r []) rows"
    using lazylog.inserts_append [OF assms(1), of "map (\<lambda>r. (table, key, r)) rows" d] assms(2) by (auto simp: comp_def)
  have "if i < length rows
      then \<exists>data d''. Lazylog_ReadIdx lib (of_nat i) d' = Inr ((kOK, data), d'') \<and> DeserializeRow_loop ndebug data 0 (length data) [] = Inr (rows ! i)
      else \<exists>data d''. Lazylog_ReadIdx lib (of_nat i) d' = Inr ((kError, data), d'')" if "i < 2 ^ 64" for i
  proof -
    obtain ret data s where r: "lz_ReadEntry lib (of_nat i) (lz_st d') = (ret, data, s)" by (cases "lz_ReadEntry lib (of_nat i) (lz_st d')")
    have i: "unat (of_nat i :: u64) = i" using that by (simp add: unat_of_nat)
    have e: "if i < length rows then ret \<and> data = SerializeRow (rows ! i) [] else \<not> ret"
    proof -
      have "case lz_ReadEntry lib (of_nat i) (lz_st d') of (ret, data, s') \<Rightarrow> ents s' = ents (lz_st d')
          \<and> (if unat (of_nat i :: u64) < length (ents (lz_st d')) then ret \<and> data = ents (lz_st d') ! unat (of_nat i :: u64) else \<not> ret)"
        using assms(1) by (simp only: lazylog_ok_def)
      then show ?thesis by (cases "i < length rows") (simp_all only: r i d'(2) case_prod_conv length_map nth_map if_True if_False simp_thms)
    qed
    have "i < length rows \<Longrightarrow> \<forall>fv \<in> set (rows ! i). small fv" using assms(4) nth_mem [of i rows] unfolding small_def by blast
    then have "i < length rows \<Longrightarrow> DeserializeRow_loop ndebug (SerializeRow (rows ! i) []) 0 (length (SerializeRow (rows ! i) [])) [] = Inr (rows ! i)"
      using DeserializeRow_loop_encode [of "rows ! i" ndebug "[]" "[]" "[]"] by (simp add: SerializeRow_concat)
    then show ?thesis using r e by (auto simp: Lazylog_ReadIdx_def)
  qed
  with d'(1) show ?thesis by blast
qed

theorem lazylog_read_back_witness:
  "\<exists>d' data d''. db_calls (Lazylog_ops mem_lazylog) [CInsert ''t'' ''k'' [(''f'', ''a'')], CInsert ''t'' ''k'' [(''f'', ''b'')]] demo_lazylog
     = Inr ([RStatus kOK, RStatus kOK], d') \<and> Lazylog_ReadIdx mem_lazylog 1 d' = Inr ((kOK, data), d'')
     \<and> DeserializeRow_loop True data 0 (length data) [] = Inr [(''f'', ''b'')]"
proof -
  obtain d' where d': "db_calls (Lazylog_ops mem_lazylog) [CInsert ''t'' ''k'' [(''f'', ''a'')], CInsert ''t'' ''k'' [(''f'', ''b'')]] demo_lazylog
      = Inr ([RStatus kOK, RStatus kOK], d')"
    "\<forall>i < 2 ^ 64. if i < length [[(''f'', ''a'')], [(''f'', ''b'')]]
          then \<exists>data d''. Lazylog_ReadIdx mem_lazylog (of_nat i) d' = Inr ((kOK, data), d'')
            \<and> DeserializeRow_loop True data 0 (length data) [] = Inr ([[(''f'', ''a'')], [(''f'', ''b'')]] ! i)
          else \<exists>data d''. Lazylog_ReadIdx mem_lazylog (of_nat i) d' = Inr ((kError, data), d'')"
    using lazylog_read_back [OF mem_lazylog_ok, of demo_lazylog "[[(''f'', ''a'')], [(''f'', ''b'')]]" "''t''" "''k''" True]
    by (auto simp: demo_lazylog_def simp del: db_calls.simps)
  from d'(2) [rule_format, of 1] d'(1) show ?thesis by auto
qed

text \<open>With no shards configured every insert of the Kafka backend divides by zero.\<close>

lemma kafka_no_shards: "kf_shard_num d = 0 \<Longrightarrow> \<exists>msg. Kafka_Insert lib t k vs d = Inl (Undefined msg)"
  by (simp add: Kafka_Insert_def Let_def)

end
