(* ===== verification/Spec2Isabelle.thy ===== *)
theory Spec2Isabelle
  imports Main_Errors Insert_Protocol Leveldb_Rows Lazykv Sqlite_Rpc Lmdb Wiredtiger Redis Sql_Servers Logs
begin

text \<open>
  A verification development of YCSB-cpp, a C++ port of the Yahoo! Cloud Serving Benchmark with fourteen storage backends.

  \<^bold>\<open>The program.\<close> \<^verbatim>\<open>main\<close> (\<^verbatim>\<open>src/core/ycsbc.cc\<close>) reads properties from the command line and from files, creates one
  database object per client thread through \<^verbatim>\<open>DBFactory\<close>, wrapped in \<^verbatim>\<open>DBWrapper\<close>, which measures every call, and one shared workload, and runs
  a load phase and a transaction phase. In each phase every \<^verbatim>\<open>ClientThread\<close> (\<^verbatim>\<open>client.h\<close>) repeats \<^verbatim>\<open>DoInsert\<close> or \<^verbatim>\<open>DoTransaction\<close> of the workload, which
  draws an operation, a key and values from its generators and calls the database. The threads share the counter of inserted keys,
  \<^verbatim>\<open>AcknowledgedCounterGenerator\<close>, and the static members of a backend.

  \<^bold>\<open>How code is modelled.\<close> A C++ call that may throw is a function into \<open>'a res = exn + 'a\<close> (\<open>Prelude\<close>): \<open>exn\<close> holds the exceptions of the sources, the exit of the
  process, a failed assertion and \<open>Undefined\<close> for undefined behaviour (null pointers, reads past a buffer, division by zero, use after close).
  Objects are records and are passed as state. Calls that may not return are of type \<open>('s, 'a) eff\<close> (\<open>Effects\<close>), where
  \<open>None\<close> is a call that never returns; the loops that need it are \<open>partial_function (option)\<close> and no fuel is used, except that the event loop of the
  RPC client takes the number of rounds after which an answer arrives as a parameter, over which the theorems quantify. Integers are
  words of their width where they can wrap, and \<^verbatim>\<open>double\<close> is a real, rounded to 53 bits where a draw of a Zipf generator becomes a key (\<open>Doubles\<close>). Assertions are kept under a flag \<open>ndebug\<close>, and results hold for both of its
  values unless they say otherwise. Clocks, random sources and libraries outside \<^verbatim>\<open>src\<close> are parameters; what is assumed of them is a named predicate on
  the parameter (\<open>env_ok\<close>, \<open>kv_ok\<close>, \<open>mdb_ok\<close>, \<open>wt_ok\<close>, \<open>sq_ok\<close> and the like) that states documented behaviour, and each has a concrete instance in a witness.

  \<^bold>\<open>Theories, in the order of the code.\<close>
  \<^item> \<open>Prelude\<close>, \<open>Effects\<close>: outcomes, sequencing, decimal strings, list and word lemmas; the effect type and its rule \<open>yields\<close> (a call returns, and its result satisfies a predicate).
  \<^item> \<open>Utils\<close> (\<^verbatim>\<open>utils/utils.h\<close>): the FNV hash equals FNV-1a on octets, thread-local random numbers, \<^verbatim>\<open>StrToBool\<close>, \<^verbatim>\<open>Trim\<close>. \<open>Props\<close>
    (\<^verbatim>\<open>utils/properties.h\<close>, the command line of \<^verbatim>\<open>ycsbc.cc\<close>): a property file is read back as written. \<open>Sync\<close> (\<^verbatim>\<open>countdown_latch.h\<close>, \<^verbatim>\<open>rate_limit.h\<close>, \<^verbatim>\<open>timer.h\<close>): the bound
    that the token bucket enforces.
  \<^item> \<open>Generators\<close>, \<open>Choosers\<close>, \<open>Acked\<close>, \<open>Doubles\<close>, \<open>Zipfian\<close> (\<^verbatim>\<open>core/*_generator.h\<close>): ranges of every generator, absence of undefined behaviour in their constructors, the incremental
    zeta sum, and \<open>Acknowledge\<close> on its ring of flags as a refinement of a set of numbers.
  \<^item> \<open>DB_Layer\<close> (\<^verbatim>\<open>db.h\<close>): the virtual functions of \<^verbatim>\<open>DB\<close> as a record, calls and results as data. \<open>Measure\<close> (\<^verbatim>\<open>measurements.cc\<close>) and \<open>DB_Impl\<close>
    (\<^verbatim>\<open>basic_db.cc\<close>, \<^verbatim>\<open>db_wrapper.h\<close>, \<^verbatim>\<open>db_factory.cc\<close>): the wrapper is transparent and counts every call.
  \<^item> \<open>Workload\<close> (\<^verbatim>\<open>core_workload.h\<close>, \<^verbatim>\<open>core_workload.cc\<close>): \<^verbatim>\<open>Init\<close> and all handlers. \<open>Workload_Props\<close>: the invariant \<open>wl_ok\<close>, that \<^verbatim>\<open>Init\<close> establishes it, that
    every transaction returns, makes the right calls and keeps it, and when the key loop ends. \<open>Workload_Variants\<close>: \<^verbatim>\<open>PureInsert\<close> and the other workload classes, the trace workload and the
    registry. \<open>Insert_Protocol\<close>: insert transactions of several threads as an \<open>inductive\<close> step relation; a key at or below \<^verbatim>\<open>Last()\<close> has been stored
    or refused as long as the numbers handed out stay within the window, and an execution that passes the window publishes a key that is not stored.
  \<^item> \<open>Client\<close> (\<^verbatim>\<open>client.h\<close>, \<^verbatim>\<open>ycsbc.cc\<close>): client threads, the split of the work, the order of \<^verbatim>\<open>Init\<close>, operations and \<^verbatim>\<open>Cleanup\<close>, the status and rate-limit threads.
  \<^item> \<open>KV_Store\<close>, \<open>Row_Codec\<close>: the specifications of a store and the byte layout of a record. \<open>Leveldb\<close>, \<open>Leveldb_Rows\<close>, \<open>Rocksdb\<close>, \<open>Lmdb\<close>, \<open>Wiredtiger\<close>: the embedded stores.
  \<^item> \<open>Msg_Buffer\<close>, \<open>Rpc_Client\<close>, \<open>Rocksdb_Rpc\<close>, \<open>Lazykv\<close>: the messages, the RPC client, the RocksDB server and its client, the client of the store over a lazy log (its
    servers are not in the sources, so only the calls it answers are described).
    \<open>Sqlite\<close>, \<open>Sqlocal\<close>, \<open>Sqlite_Rpc\<close>: the embedded SQLite backend and the SQLite server with its client.
  \<^item> \<open>Redis\<close>, \<open>Sql_Servers\<close> (PostgreSQL, MariaDB), \<open>Logs\<close> (Kafka, LazyLog, MongoDB): backends that are clients of a server.
  \<^item> \<open>Benchmark\<close>: the parts together. Client threads over the core workload, the wrapper, the measurements and RocksDB or LevelDB load all records, run all transactions and
    report every operation as a success.

  \<^item> \<open>Threads\<close> (\<^verbatim>\<open>client.h\<close>, \<^verbatim>\<open>ycsbc.cc\<close>): the threads of a phase at the same time. A client is cut into steps, a pool holds what the threads share and own, and a schedule is
    the order of the steps of the clients, the status thread and the rate-limit thread; no schedule makes the core workload fail on a backend with a shared handle.
  \<^item> \<open>Main_Program\<close> (\<^verbatim>\<open>ycsbc.cc\<close>): \<^verbatim>\<open>main\<close> from the command line to the summaries it writes. On RocksDB it never fails, and with fair schedules it returns with all operations reported.
    \<open>Main_Errors\<close>: \<^verbatim>\<open>main\<close> without a database name, and the load phase alone with a client that starts after another has closed the store.

  \<^bold>\<open>Interfaces.\<close> A backend implements an abstract store, \<open>Table_ops\<close> (a map from keys to records) or a variant that says where the backend departs from it
  (\<open>Merge_ops\<close>, \<open>Blob_ops\<close>, \<open>Sql_ops\<close>, \<open>Hash_ops\<close> and others), through the locales \<open>db_refinement\<close> (every call returns, with the result of the
  specification), \<open>guarded_refinement\<close> (the same for calls that fit what is stored) or \<open>db_exact\<close> (also the same exceptions). \<open>row_coding\<close> and \<open>row_codec\<close> are the contract of a record layout, \<open>shared_handle\<close> that of reference-counted static members,
  \<open>kv_server\<close>, \<open>row_server\<close> and \<open>scan_server\<close> that between the RPC client and a server, \<open>append_log\<close> that of the log backends, \<open>generator\<close>, \<open>ack_sequence\<close> and \<open>op_counts\<close> those of
  generators, the key sequence and the counters, \<open>workload_client\<close> and \<open>client_phase\<close> that between a workload and its client thread, and \<open>record_store\<close>, \<open>table_store\<close>,
  \<open>measured_store\<close> and \<open>measured_table\<close> that between the workload and a measured backend, \<open>phase_pool\<close> that between a phase and its threads, and \<open>shared_store\<close> that of a
  backend whose objects share a handle. Each is interpreted on the definitions of the model.

  \<^bold>\<open>Bounds.\<close> Numbers of keys stay below \<open>kMaxNumItems\<close>, which the Zipfian generator asserts, and its interval ends below \<open>2\<^sup>5\<^sup>3\<close>, where a \<^verbatim>\<open>double\<close> stops being exact.
  The window of \<^verbatim>\<open>AcknowledgedCounterGenerator\<close> has \<open>2\<^sup>1\<^sup>6\<close> numbers: that an execution stays within it is a hypothesis of the results on concurrent inserts (\<open>ins_within\<close>), not a
  guard of their steps. Names and values are shorter than \<open>2\<^sup>3\<^sup>2\<close> bytes, the width of their length fields; the messages of the client-server backends fit the
  configured message size. The row-major layout of LevelDB is correct for the calls \<open>rm_call\<close> describes. Where the code fails outside such a bound, a theorem or a finding of the
  manifest says how.

  \<^bold>\<open>Not modelled.\<close> The console output of \<^verbatim>\<open>main\<close> and the text layout of its summary. Interleavings inside a step of a client, except in the insert transactions of \<open>Insert_Protocol\<close>;
  what the other threads do after one of them has failed. A build of \<^verbatim>\<open>main\<close> with the histogram library (its class is modelled in \<open>Measure\<close>). Rounding of
  \<^verbatim>\<open>double\<close>, except in the conversions and the final expression of \<open>Zipfian\<close>. The libraries that the backends call, \<^verbatim>\<open>HdrHistogram_c\<close> and the other submodules, whose sources are not in the repository. Build files, scripts and workload files.
\<close>

end
